(* ===== verification/Prelude.thy ===== *)
theory Prelude imports
  Main
  "HOL-Library.AList"
  "HOL-Library.Char_ord"
  "HOL-Library.List_Lexorder"
  "HOL-Library.Product_Lexorder"
  "HOL-Library.Option_ord"
begin

text \<open>
  The shared vocabulary of the development.

  \<^item> JSON values and rows. The harness keeps its state in append-only JSON-lines files, so
    a row is a dictionary from strings to JSON values. \<open>jget\<close> is Python's \<open>row.get(key)\<close>: a
    missing key and a JSON \<open>null\<close> are both \<open>None\<close> in Python, here both \<open>JNull\<close>.
  \<^item> Python's insertion-ordered dictionaries are association lists changed with
    \<^const>\<open>AList.update\<close>, which keeps the place of a key that exists and appends a new one,
    as a Python dictionary does.
  \<^item> \<open>dedup\<close> is \<open>list(dict.fromkeys(xs))\<close>, \<open>sorted_set\<close> is \<open>sorted(set(xs))\<close>.
  \<^item> Strings are HOL's \<^typ>\<open>string\<close>, ordered lexicographically by character, as Python
    orders its strings by code point.
  \<^item> \<open>event_log\<close> is the interface of state rebuilt from rows: an invariant of the empty
    state that every row keeps holds after every log.
\<close>

named_theorems dict_simps \<open>lookups in updated dictionaries\<close>

section \<open>JSON values\<close>

text \<open>A number with a fraction or an exponent is kept by its literal: no modelled code
  computes with one, it only has to be told apart from an integer.\<close>

datatype json =
    JNull
  | JBool bool
  | JInt int
  | JFloat string
  | JStr string
  | JArr "json list"
  | JObj "(string \<times> json) list"

type_synonym jrow = "(string \<times> json) list"

definition jget :: "jrow \<Rightarrow> string \<Rightarrow> json" where
  "jget r k = (case map_of r k of None \<Rightarrow> JNull | Some v \<Rightarrow> v)"

fun as_str :: "json \<Rightarrow> string option" where
  "as_str (JStr s) = Some s"
| "as_str _ = None"

fun as_int :: "json \<Rightarrow> int option" where
  "as_int (JInt n) = Some n"
| "as_int _ = None"

fun as_bool :: "json \<Rightarrow> bool option" where
  "as_bool (JBool b) = Some b"
| "as_bool _ = None"

text \<open>\<open>tuple(x for x in v if isinstance(x, str)) if isinstance(v, list) else ()\<close>\<close>

fun str_items :: "json \<Rightarrow> string list" where
  "str_items (JArr xs) = List.map_filter as_str xs"
| "str_items _ = []"

definition jstrs :: "string list \<Rightarrow> json" where
  "jstrs xs = JArr (map JStr xs)"

definition jopt :: "string option \<Rightarrow> json" where
  "jopt s = (case s of None \<Rightarrow> JNull | Some x \<Rightarrow> JStr x)"

text \<open>\<open>row.get(key, dflt)\<close>, which is not \<open>dflt\<close> for a key whose value is \<open>null\<close>.\<close>

definition jget_or :: "jrow \<Rightarrow> string \<Rightarrow> json \<Rightarrow> json" where
  "jget_or r k dflt = (case map_of r k of None \<Rightarrow> dflt | Some v \<Rightarrow> v)"

lemma jget_or_Cons [simp]: "jget_or ((k, v) # r) k' d = (if k = k' then v else jget_or r k' d)"
  by (simp add: jget_or_def)

lemma jget_or_Nil [simp]: "jget_or [] k d = d"
  by (simp add: jget_or_def)

lemma as_str_eq_Some [simp]: "as_str v = Some s \<longleftrightarrow> v = JStr s"
  by (cases v) auto

lemma as_int_eq_Some [simp]: "as_int v = Some n \<longleftrightarrow> v = JInt n"
  by (cases v) auto

lemma map_filter_as_str_JStr [simp]: "List.map_filter as_str (map JStr xs) = xs"
  by (induction xs) (simp_all add: List.map_filter_simps)

lemma str_items_jstrs [simp]: "str_items (jstrs xs) = xs"
  by (simp add: jstrs_def)

lemma as_str_jopt [simp]: "as_str (jopt s) = s"
  by (simp add: jopt_def split: option.split)

lemma jget_Cons [simp]: "jget ((k, v) # r) k' = (if k = k' then v else jget r k')"
  by (simp add: jget_def)

lemma jget_Nil [simp]: "jget [] k = JNull"
  by (simp add: jget_def)

lemma jget_append: "jget (r @ r') k = (if k \<in> fst ` set r then jget r k else jget r' k)"
  by (induction r) (force split: if_splits)+

lemma find_SomeD: "find P xs = Some x \<Longrightarrow> x \<in> set xs \<and> P x"
  by (induction xs) (auto split: if_splits)

lemma find_NoneD: "find P xs = None \<Longrightarrow> x \<in> set xs \<Longrightarrow> \<not> P x"
  by (induction xs) (auto split: if_splits)

lemma in_map_filter: "y \<in> set (List.map_filter f xs) \<longleftrightarrow> (\<exists>x\<in>set xs. f x = Some y)"
  by (force simp: List.map_filter_def)

section \<open>Order-preserving removal of duplicates\<close>

fun dedup :: "'a list \<Rightarrow> 'a list" where
  "dedup [] = []"
| "dedup (x # xs) = x # filter (\<lambda>y. y \<noteq> x) (dedup xs)"

lemma set_dedup [simp]: "set (dedup xs) = set xs"
  by (induction xs) auto

lemma distinct_dedup [simp]: "distinct (dedup xs)"
  by (induction xs) auto

lemma dedup_distinct [simp]: "distinct xs \<Longrightarrow> dedup xs = xs"
  by (induction xs) (auto simp: filter_id_conv)

lemma dedup_Nil_iff [simp]: "dedup xs = [] \<longleftrightarrow> xs = []"
  by (cases xs) auto

lemma dedup_append: "dedup (xs @ ys) = dedup xs @ filter (\<lambda>y. y \<notin> set xs) (dedup ys)"
  by (induction xs) (auto simp: filter_id_conv conj_commute)

lemma dedup_map_filter: "dedup (List.map_filter f (map g xs)) = dedup (List.map_filter (f \<circ> g) xs)"
  by (simp add: List.map_filter_def filter_map comp_def)

definition sorted_set :: "'a::linorder list \<Rightarrow> 'a list" where
  "sorted_set xs = sort (remdups xs)"

lemma set_sorted_set [simp]: "set (sorted_set xs) = set xs"
  by (simp add: sorted_set_def)

lemma distinct_sorted_set [simp]: "distinct (sorted_set xs)"
  by (simp add: sorted_set_def)

lemma sorted_sorted_set [simp]: "sorted (sorted_set xs)"
  by (simp add: sorted_set_def)

lemma sorted_set_eqI: "set xs = set ys \<Longrightarrow> sorted_set xs = sorted_set ys"
  by (rule sorted_distinct_set_unique) simp_all

lemma sort_distinct_eq_sorted_set: "distinct xs \<Longrightarrow> sort xs = sorted_set xs"
  by (simp add: sorted_set_def distinct_remdups_id)

lemma length_sorted_set [simp]: "length (sorted_set xs) = card (set xs)"
  using distinct_card [of "sorted_set xs"] by simp

lemma sorted_set_Nil_iff [simp]: "sorted_set xs = [] \<longleftrightarrow> xs = []"
  using set_sorted_set [of xs] by (metis set_empty)

lemma sort_key_Nil [simp]: "sort_key f xs = [] \<longleftrightarrow> xs = []"
  by (metis set_empty set_sort)

lemma sort_key_set_eq:
  fixes f :: "'a \<Rightarrow> 'b::linorder"
  assumes "inj f" "distinct xs" "distinct ys" "set xs = set ys"
  shows "sort_key f xs = sort_key f ys"
proof -
  have inj: "inj_on f A" for A using assms(1) by (rule inj_on_subset) simp
  have "map f (sort_key f xs) = map f (sort_key f ys)"
    by (rule sorted_distinct_set_unique)
      (use assms inj in \<open>simp_all add: distinct_map\<close>)
  then show ?thesis using assms(1) by (simp add: inj_map_eq_map)
qed

section \<open>Decimal text of a natural number\<close>

fun show_nat :: "nat \<Rightarrow> string" where
  "show_nat n =
     (if n < 10 then [char_of (48 + n)] else show_nat (n div 10) @ [char_of (48 + n mod 10)])"

declare show_nat.simps [simp del]

definition show_int :: "int \<Rightarrow> string" where
  "show_int n = (if n < 0 then CHR ''-'' # show_nat (nat (- n)) else show_nat (nat n))"

section \<open>Text\<close>

text \<open>\<open>sep.join(parts)\<close>, \<open>sub in text\<close>, \<open>text.startswith(p)\<close> and whether \<open>text.strip()\<close> is empty
  (characters are Latin-1 code points).\<close>

fun join_str :: "string \<Rightarrow> string list \<Rightarrow> string" where
  "join_str sep [] = []"
| "join_str sep [x] = x"
| "join_str sep (x # xs) = x @ sep @ join_str sep xs"

definition starts_with :: "'a list \<Rightarrow> 'a list \<Rightarrow> bool" where
  "starts_with p s \<longleftrightarrow> take (length p) s = p"

fun contains :: "'a list \<Rightarrow> 'a list \<Rightarrow> bool" where
  "contains p [] \<longleftrightarrow> p = []"
| "contains p (c # s) \<longleftrightarrow> starts_with p (c # s) \<or> contains p s"

definition is_space :: "char \<Rightarrow> bool" where
  "is_space c \<longleftrightarrow> (let n = (of_char c :: nat)
    in (9 \<le> n \<and> n \<le> 13) \<or> (28 \<le> n \<and> n \<le> 32) \<or> n = 133 \<or> n = 160)"

text \<open>\<open>text.strip()\<close> and \<open>text.split()\<close>.\<close>

definition strip :: "string \<Rightarrow> string" where
  "strip s = rev (dropWhile is_space (rev (dropWhile is_space s)))"

fun words_from :: "string \<Rightarrow> string \<Rightarrow> string list" where
  "words_from acc [] = (if acc = [] then [] else [rev acc])"
| "words_from acc (c # s) =
    (if is_space c then (if acc = [] then words_from [] s else rev acc # words_from [] s)
     else words_from (c # acc) s)"

definition words :: "string \<Rightarrow> string list" where
  "words s = words_from [] s"

definition blank :: "string \<Rightarrow> bool" where
  "blank s \<longleftrightarrow> list_all is_space s"

definition ends_with :: "'a list \<Rightarrow> 'a list \<Rightarrow> bool" where
  "ends_with p s \<longleftrightarrow> starts_with (rev p) (rev s)"

definition strip_prefix :: "'a list \<Rightarrow> 'a list \<Rightarrow> 'a list option" where
  "strip_prefix p s = (if starts_with p s then Some (drop (length p) s) else None)"

definition strip_suffix :: "'a list \<Rightarrow> 'a list \<Rightarrow> 'a list option" where
  "strip_suffix p s = (if ends_with p s then Some (take (length s - length p) s) else None)"

text \<open>\<open>text.split(c, 1)[0]\<close>.\<close>

definition before :: "char \<Rightarrow> string \<Rightarrow> string" where
  "before c s = takeWhile (\<lambda>x. x \<noteq> c) s"

text \<open>\<open>text.split(c)\<close> for one character \<open>c\<close>.\<close>

fun split_on :: "'a \<Rightarrow> 'a list \<Rightarrow> 'a list list" where
  "split_on c [] = [[]]"
| "split_on c (x # xs) =
    (if x = c then [] # split_on c xs
     else case split_on c xs of p # ps \<Rightarrow> (x # p) # ps | [] \<Rightarrow> [[x]])"

lemma starts_with_append [simp]: "starts_with p (p @ s)"
  by (simp add: starts_with_def)

lemma starts_with_iff: "starts_with p s \<longleftrightarrow> (\<exists>t. s = p @ t)"
  by (metis append_take_drop_id append_eq_conv_conj starts_with_def)

lemma contains_iff: "contains p s \<longleftrightarrow> (\<exists>a b. s = a @ p @ b)"
proof (induction s)
  case Nil
  then show ?case by simp
next
  case (Cons c s)
  have "(\<exists>a b. c # s = a @ p @ b) \<longleftrightarrow> (\<exists>b. c # s = p @ b) \<or> (\<exists>a b. s = a @ p @ b)"
    by (metis append_Cons append_Nil list.exhaust list.sel(3))
  then show ?case by (simp add: Cons starts_with_iff)
qed

lemma dropWhile_none: "list_all (\<lambda>c. \<not> P c) s \<Longrightarrow> dropWhile P s = s"
  by (cases s) auto

lemma strip_no_space [simp]: "list_all (\<lambda>c. \<not> is_space c) s \<Longrightarrow> strip s = s"
  using dropWhile_none [of is_space s] dropWhile_none [of is_space "rev s"]
  by (simp add: strip_def)

lemma strip_subset: "set (strip s) \<subseteq> set s"
  unfolding strip_def by (auto dest!: set_dropWhileD)

lemma ends_with_iff: "ends_with p s \<longleftrightarrow> (\<exists>t. s = t @ p)"
  unfolding ends_with_def starts_with_iff by (metis rev_append rev_rev_ident)

lemma strip_prefix_Some [simp]: "strip_prefix p s = Some r \<longleftrightarrow> s = p @ r"
  by (auto simp: strip_prefix_def starts_with_iff)

lemma strip_suffix_Some [simp]: "strip_suffix p s = Some r \<longleftrightarrow> s = r @ p"
  by (auto simp: strip_suffix_def ends_with_iff)

lemma strip_suffix_append [simp]: "strip_suffix p (r @ p) = Some r"
  by simp

lemma split_on_not_Nil [simp]: "split_on c s \<noteq> []"
  by (cases s) (auto split: list.split)

lemma split_on_part: "p \<in> set (split_on c s) \<Longrightarrow> c \<notin> set p"
  by (induction s arbitrary: p) (auto split: if_splits list.splits)

lemma split_on_single [simp]: "c \<notin> set s \<Longrightarrow> split_on c s = [s]"
  by (induction s) auto

lemma split_on_append [simp]: "c \<notin> set p \<Longrightarrow> split_on c (p @ c # s) = p # split_on c s"
  by (induction p) auto

lemma join_split [simp]: "join_str [c] (split_on c s) = s"
proof (induction s)
  case (Cons x s)
  show ?case
  proof (cases "split_on c s")
    case (Cons p ps)
    with Cons.IH show ?thesis by (cases ps) auto
  qed simp
qed simp

lemma split_join: "ps \<noteq> [] \<Longrightarrow> (\<And>p. p \<in> set ps \<Longrightarrow> c \<notin> set p) \<Longrightarrow> split_on c (join_str [c] ps) = ps"
proof (induction ps rule: induct_list012)
  case (3 x y zs)
  then show ?case by simp
qed simp_all

lemma split_on_parts: "split_on c s = ps \<longleftrightarrow> ps \<noteq> [] \<and> (\<forall>p\<in>set ps. c \<notin> set p) \<and> s = join_str [c] ps"
  by (metis join_split split_join split_on_not_Nil split_on_part)

section \<open>Results\<close>

text \<open>A call that may raise returns \<open>Inl\<close> its error or \<open>Inr\<close> its value. \<open>bind_r\<close> runs the rest
  of a body after a call that returned, \<open>guard_r\<close> raises unless a condition holds, \<open>map_r\<close> is a
  loop that may raise and collects its values, \<open>each_r\<close> one that only raises.\<close>

fun bind_r :: "'e + 'a \<Rightarrow> ('a \<Rightarrow> 'e + 'b) \<Rightarrow> 'e + 'b" where
  "bind_r (Inl e) f = Inl e"
| "bind_r (Inr x) f = f x"

definition guard_r :: "bool \<Rightarrow> 'e \<Rightarrow> 'e + unit" where
  "guard_r ok e = (if ok then Inr () else Inl e)"

fun map_r :: "('a \<Rightarrow> 'e + 'b) \<Rightarrow> 'a list \<Rightarrow> 'e + 'b list" where
  "map_r f [] = Inr []"
| "map_r f (x # xs) = bind_r (f x) (\<lambda>y. bind_r (map_r f xs) (\<lambda>ys. Inr (y # ys)))"

definition each_r :: "('a \<Rightarrow> 'e + unit) \<Rightarrow> 'a list \<Rightarrow> 'e + unit" where
  "each_r f xs = bind_r (map_r f xs) (\<lambda>_. Inr ())"

fun fold_r :: "('s \<Rightarrow> 'a \<Rightarrow> 'e + 's) \<Rightarrow> 's \<Rightarrow> 'a list \<Rightarrow> 'e + 's" where
  "fold_r f s [] = Inr s"
| "fold_r f s (x # xs) = bind_r (f s x) (\<lambda>t. fold_r f t xs)"

named_theorems result_simps \<open>calls that returned\<close>

lemma bind_r_Inr [simp, result_simps]:
  "bind_r m f = Inr y \<longleftrightarrow> (\<exists>x. m = Inr x \<and> f x = Inr y)"
  by (cases m) auto

lemma guard_r_Inr [simp, result_simps]: "guard_r ok e = Inr u \<longleftrightarrow> ok"
  by (simp add: guard_r_def)

lemma guard_r_True [simp]: "guard_r True e = Inr ()"
  by (simp add: guard_r_def)

lemma map_r_Inr: "map_r f xs = Inr ys \<longleftrightarrow> list_all2 (\<lambda>x y. f x = Inr y) xs ys"
  by (induction xs arbitrary: ys) (auto simp: list_all2_Cons1)

lemma map_r_set: "map_r f xs = Inr ys \<Longrightarrow> y \<in> set ys \<Longrightarrow> \<exists>x\<in>set xs. f x = Inr y"
  by (auto simp: map_r_Inr list_all2_conv_all_nth in_set_conv_nth intro!: bexI)

lemma map_r_all: "map_r f xs = Inr ys \<Longrightarrow> (\<And>x y. f x = Inr y \<Longrightarrow> P y) \<Longrightarrow> \<forall>y\<in>set ys. P y"
  by (auto dest: map_r_set)

lemma map_r_Nil [simp]: "map_r f xs = Inr [] \<longleftrightarrow> xs = []"
  by (cases xs) auto

lemma map_r_ident: "map_r f xs = Inr ys \<Longrightarrow> (\<And>x y. f x = Inr y \<Longrightarrow> y = x) \<Longrightarrow> ys = xs"
  by (induction xs arbitrary: ys) auto

lemma each_r_Inr [simp, result_simps]: "each_r f xs = Inr u \<longleftrightarrow> (\<forall>x\<in>set xs. f x = Inr ())"
proof -
  have "(\<exists>ys. map_r f xs = Inr ys) \<longleftrightarrow> (\<forall>x\<in>set xs. \<exists>y. f x = Inr y)"
    by (induction xs) auto
  then show ?thesis by (simp add: each_r_def)
qed

lemma fold_r_inv:
  "fold_r f s xs = Inr t \<Longrightarrow> P s \<Longrightarrow>
   (\<And>s x t. x \<in> set xs \<Longrightarrow> P s \<Longrightarrow> f s x = Inr t \<Longrightarrow> P t) \<Longrightarrow> P t"
  by (induction xs arbitrary: s) auto

section \<open>Dictionaries\<close>

abbreviation dict_put :: "'k \<Rightarrow> 'v \<Rightarrow> ('k \<times> 'v) list \<Rightarrow> ('k \<times> 'v) list" where
  "dict_put \<equiv> AList.update"

abbreviation keys_of :: "('k \<times> 'v) list \<Rightarrow> 'k list" where
  "keys_of d \<equiv> map fst d"

lemma map_of_dict_put [simp, dict_simps]:
  "map_of (dict_put k v d) k' = (if k' = k then Some v else map_of d k')"
  by (simp add: update_conv')

lemma keys_dict_put [dict_simps]:
  "keys_of (dict_put k v d) = (if k \<in> set (keys_of d) then keys_of d else keys_of d @ [k])"
  by (rule update_keys)

lemma fst_set_dict_put [simp, dict_simps]: "fst ` set (dict_put k v d) = insert k (fst ` set d)"
proof -
  have "set (keys_of (dict_put k v d)) = insert k (set (keys_of d))"
    by (simp add: keys_dict_put insert_absorb)
  then show ?thesis by simp
qed

lemma dict_put_twice [simp]: "dict_put k v (dict_put k u d) = dict_put k v d"
  by (induction d) auto

lemma dict_put_same [simp]: "map_of d k = Some v \<Longrightarrow> dict_put k v d = d"
  by (induction d) (auto split: if_splits)

lemma set_dict_put: "distinct (keys_of d) \<Longrightarrow>
  set (dict_put k v d) = insert (k, v) {p \<in> set d. fst p \<noteq> k}"
  by (induction d) (auto simp: rev_image_eqI)

lemma distinct_dict_put [simp]: "distinct (keys_of d) \<Longrightarrow> distinct (keys_of (dict_put k v d))"
  by (rule distinct_update)

lemma map_of_Some_in_keys: "map_of d k = Some v \<Longrightarrow> k \<in> set (keys_of d)"
  by (force dest: map_of_SomeD)

lemma in_keys_map_of: "k \<in> set (keys_of d) \<Longrightarrow> \<exists>v. map_of d k = Some v"
  by (metis map_of_eq_None_iff not_None_eq set_map)

lemma map_of_None_keys: "map_of d k = None \<longleftrightarrow> k \<notin> set (keys_of d)"
  by (simp add: map_of_eq_None_iff)

definition dict_get :: "('k \<times> 'v) list \<Rightarrow> 'k \<Rightarrow> 'v \<Rightarrow> 'v" where
  "dict_get d k v = (case map_of d k of None \<Rightarrow> v | Some x \<Rightarrow> x)"

lemma dict_get_put [simp, dict_simps]:
  "dict_get (dict_put k v d) k' w = (if k' = k then v else dict_get d k' w)"
  by (simp add: dict_get_def)

lemma dict_get_Nil [simp]: "dict_get [] k w = w"
  by (simp add: dict_get_def)

lemma set_concat_values:
  "distinct (keys_of d) \<Longrightarrow>
   set (concat (map snd d)) = (\<Union>w\<in>fst ` set d. set (dict_get d w []))"
  by (force simp: dict_get_def map_of_is_SomeI split: option.splits dest: map_of_SomeD)

section \<open>State rebuilt from an append-only log\<close>

text \<open>The interface of an event-sourced component: the state is the fold of the log's
  rows. A client of the log needs one obligation per row and gets the invariant of every
  log, and that appending rows continues from the state of the log before them.\<close>

locale event_log =
  fixes apply_row :: "'s \<Rightarrow> 'r \<Rightarrow> 's"
    and start :: "'s"
    and inv :: "'s \<Rightarrow> bool"
  assumes inv_start: "inv start"
    and inv_row: "inv s \<Longrightarrow> inv (apply_row s r)"
begin

lemma inv_from: "inv s \<Longrightarrow> inv (foldl apply_row s rows)"
  by (induction rows arbitrary: s) (auto intro: inv_row)

lemma inv_log: "inv (foldl apply_row start rows)"
  by (rule inv_from) (rule inv_start)

end

text \<open>A relation every row keeps between the state before and the state after (nothing is
  lost, a counter only grows) holds across any stretch of the log.\<close>

locale monotone_log =
  fixes apply_row :: "'s \<Rightarrow> 'r \<Rightarrow> 's"
    and rel :: "'s \<Rightarrow> 's \<Rightarrow> bool"
  assumes rel_refl: "rel s s"
    and rel_trans: "rel s t \<Longrightarrow> rel t u \<Longrightarrow> rel s u"
    and rel_row: "rel s (apply_row s r)"
begin

lemma rel_rows: "rel s (foldl apply_row s rows)"
proof (induction rows arbitrary: s)
  case Nil
  show ?case by (simp add: rel_refl)
next
  case (Cons r rows)
  show ?case using rel_trans [OF rel_row Cons.IH] by simp
qed

end

end
