(* ===== verification/AttentionLog.thy ===== *)
theory AttentionLog imports Prelude
begin

text \<open>
  The attention ledger's data and its fold (\<open>unify/memory/attention.py\<close>: the vocabulary, \<open>Refs\<close>,
  \<open>AttentionEntry\<close>, \<open>fold\<close>). The ledger is a list of rows; its state, the entries by id in
  creation order, is the fold of the rows. The lemmas hold for every list of rows, so for any
  content of the file: no row makes an entry leave its lifecycle, lose its history or lose
  what its state says of it.
\<close>

section \<open>Vocabulary\<close>

datatype kind =
    NewExperience | OwnCheckFailed | UseWentBadly | LateEvidence | RepeatedUse | Deferred
  | Message

datatype ledger_decision =
    NewItem | ChangedItem | MergedInto | NoteDecision | RetireItem | NothingToKeep | Defer

datatype not_reached = SpendCap | RunEnded | ServiceStopped | Lifetime

datatype return_why = HandedNotRead | ReadNotDecided | Suspend | ServiceRestart

datatype entry_state = Open | Handed | ReadIn | Closed | Unreadable | NotReached

definition KINDS :: "kind list" where
  "KINDS = [NewExperience, OwnCheckFailed, UseWentBadly, LateEvidence, RepeatedUse, Deferred, Message]"

fun kind_name :: "kind \<Rightarrow> string" where
  "kind_name NewExperience = ''new_experience''"
| "kind_name OwnCheckFailed = ''own_check_failed''"
| "kind_name UseWentBadly = ''use_went_badly''"
| "kind_name LateEvidence = ''late_evidence''"
| "kind_name RepeatedUse = ''repeated_use''"
| "kind_name Deferred = ''deferred''"
| "kind_name Message = ''message''"

definition DECISIONS :: "ledger_decision list" where
  "DECISIONS = [NewItem, ChangedItem, MergedInto, NoteDecision, RetireItem, NothingToKeep, Defer]"

fun decision_name :: "ledger_decision \<Rightarrow> string" where
  "decision_name NewItem = ''new_item''"
| "decision_name ChangedItem = ''changed_item''"
| "decision_name MergedInto = ''merged_into''"
| "decision_name NoteDecision = ''note''"
| "decision_name RetireItem = ''retire''"
| "decision_name NothingToKeep = ''nothing_to_keep''"
| "decision_name Defer = ''defer''"

definition NOT_REACHED :: "not_reached list" where
  "NOT_REACHED = [SpendCap, RunEnded, ServiceStopped, Lifetime]"

fun not_reached_name :: "not_reached \<Rightarrow> string" where
  "not_reached_name SpendCap = ''spend_cap''"
| "not_reached_name RunEnded = ''run_ended''"
| "not_reached_name ServiceStopped = ''service_stopped''"
| "not_reached_name Lifetime = ''lifetime''"

definition RETURN_WHYS :: "return_why list" where
  "RETURN_WHYS = [HandedNotRead, ReadNotDecided, Suspend, ServiceRestart]"

fun return_why_name :: "return_why \<Rightarrow> string" where
  "return_why_name HandedNotRead = ''handed_not_read''"
| "return_why_name ReadNotDecided = ''read_not_decided''"
| "return_why_name Suspend = ''suspend''"
| "return_why_name ServiceRestart = ''service_restart''"

text \<open>\<open>row.get(key) in NAMES\<close>: the member a JSON value names, if any.\<close>

definition kind_of :: "json \<Rightarrow> kind option" where
  "kind_of v = find (\<lambda>k. v = JStr (kind_name k)) KINDS"

definition decision_of :: "json \<Rightarrow> ledger_decision option" where
  "decision_of v = find (\<lambda>d. v = JStr (decision_name d)) DECISIONS"

definition not_reached_of :: "json \<Rightarrow> not_reached option" where
  "not_reached_of v = find (\<lambda>w. v = JStr (not_reached_name w)) NOT_REACHED"

definition return_why_of :: "json \<Rightarrow> return_why option" where
  "return_why_of v = find (\<lambda>w. v = JStr (return_why_name w)) RETURN_WHYS"

lemma kind_of_name [simp]: "kind_of (JStr (kind_name k)) = Some k"
  by (cases k) (simp_all add: kind_of_def KINDS_def)

lemma decision_of_name [simp]: "decision_of (JStr (decision_name d)) = Some d"
  by (cases d) (simp_all add: decision_of_def DECISIONS_def)

lemma not_reached_of_name [simp]: "not_reached_of (JStr (not_reached_name w)) = Some w"
  by (cases w) (simp_all add: not_reached_of_def NOT_REACHED_def)

lemma return_why_of_name [simp]: "return_why_of (JStr (return_why_name w)) = Some w"
  by (cases w) (simp_all add: return_why_of_def RETURN_WHYS_def)

text \<open>\<open>str(value)\<close> of a JSON value. Every row the harness writes carries a string here; the
  text of a container is written without the escapes of Python's \<open>repr\<close>.\<close>

fun py_repr :: "json \<Rightarrow> string" where
  "py_repr JNull = ''None''"
| "py_repr (JBool b) = (if b then ''True'' else ''False'')"
| "py_repr (JInt n) = show_int n"
| "py_repr (JFloat s) = s"
| "py_repr (JStr s) = [char_of (39::nat)] @ s @ [char_of (39::nat)]"
| "py_repr (JArr xs) = ''['' @ join_str '', '' (map py_repr xs) @ '']''"
| "py_repr (JObj ps) = ''{'' @ join_str '', '' (map (\<lambda>(k, v). k @ '': '' @ py_repr v) ps) @ ''}''"

fun falsy :: "json \<Rightarrow> bool" where
  "falsy JNull \<longleftrightarrow> True"
| "falsy (JBool b) \<longleftrightarrow> \<not> b"
| "falsy (JInt n) \<longleftrightarrow> n = 0"
| "falsy (JFloat s) \<longleftrightarrow> s \<in> {''0.0'', ''-0.0''}"
| "falsy (JStr s) \<longleftrightarrow> s = []"
| "falsy (JArr xs) \<longleftrightarrow> xs = []"
| "falsy (JObj ps) \<longleftrightarrow> ps = []"

definition text_or_empty :: "json \<Rightarrow> string" where
  "text_or_empty v =
    (if falsy v then '''' else case v of JStr s \<Rightarrow> s | _ \<Rightarrow> py_repr v)"

lemma text_or_empty_JStr [simp]: "text_or_empty (JStr s) = s"
  by (simp add: text_or_empty_def)

section \<open>Refs and entries\<close>

record refs =
  r_episodes :: "string list"
  r_captures :: "string list"
  r_items :: "string list"
  r_signals :: "string list"
  r_record_seq :: "int option"
  r_passes :: "string list"
  r_notes :: "string list"

definition no_refs :: refs where
  "no_refs = \<lparr>r_episodes = [], r_captures = [], r_items = [], r_signals = [],
    r_record_seq = None, r_passes = [], r_notes = []\<rparr>"

definition refs_row :: "refs \<Rightarrow> json" where
  "refs_row r = JObj
    [(''episodes'', jstrs (r_episodes r)), (''captures'', jstrs (r_captures r)),
     (''items'', jstrs (r_items r)), (''signals'', jstrs (r_signals r)),
     (''record_seq'', case r_record_seq r of None \<Rightarrow> JNull | Some n \<Rightarrow> JInt n),
     (''passes'', jstrs (r_passes r)), (''notes'', jstrs (r_notes r))]"

fun obj_row :: "json \<Rightarrow> jrow" where
  "obj_row (JObj r) = r"
| "obj_row _ = []"

definition refs_from_row :: "json \<Rightarrow> refs" where
  "refs_from_row v =
    (let row = obj_row v; ids = (\<lambda>key. dedup (str_items (jget row key)))
     in \<lparr>r_episodes = ids ''episodes'', r_captures = ids ''captures'', r_items = ids ''items'',
         r_signals = ids ''signals'', r_record_seq = as_int (jget row ''record_seq''),
         r_passes = ids ''passes'', r_notes = ids ''notes''\<rparr>)"

definition join_ids :: "string list \<Rightarrow> string list \<Rightarrow> string list" where
  "join_ids a b = dedup (a @ b)"

definition refs_merged :: "refs \<Rightarrow> refs \<Rightarrow> refs" where
  "refs_merged a b =
    \<lparr>r_episodes = join_ids (r_episodes a) (r_episodes b),
     r_captures = join_ids (r_captures a) (r_captures b),
     r_items = join_ids (r_items a) (r_items b),
     r_signals = join_ids (r_signals a) (r_signals b),
     r_record_seq = (if r_record_seq a \<noteq> None then r_record_seq a else r_record_seq b),
     r_passes = join_ids (r_passes a) (r_passes b),
     r_notes = join_ids (r_notes a) (r_notes b)\<rparr>"

record entry =
  e_id :: string
  e_kind :: kind
  e_state :: entry_state
  e_created_at :: string
  e_refs :: refs
  e_hand_count :: int
  e_misses :: nat
  e_undecided :: nat
  e_pass_id :: "string option"
  e_parts_read :: "string list"
  e_share :: "string option"
  e_first_read_at :: "string option"
  e_decision :: "ledger_decision option"
  e_decided_items :: "string list"
  e_reason_ref :: "string option"
  e_closed_at :: "string option"
  e_reopen_count :: nat
  e_why :: "string option"
  e_sources :: "string list"
  e_handed_at :: "string option"
  e_occurrences :: nat
  e_kin :: "string list"
  e_kin_judged :: bool
  e_carries :: bool

definition new_entry :: "string \<Rightarrow> kind \<Rightarrow> string \<Rightarrow> refs \<Rightarrow> entry" where
  "new_entry eid k at r =
    \<lparr>e_id = eid, e_kind = k, e_state = Open, e_created_at = at, e_refs = r, e_hand_count = 0,
     e_misses = 0, e_undecided = 0, e_pass_id = None, e_parts_read = [], e_share = None,
     e_first_read_at = None, e_decision = None, e_decided_items = [], e_reason_ref = None,
     e_closed_at = None, e_reopen_count = 0, e_why = None, e_sources = [], e_handed_at = None,
     e_occurrences = 0, e_kin = [], e_kin_judged = False, e_carries = True\<rparr>"

definition active :: "entry \<Rightarrow> bool" where
  "active e \<longleftrightarrow> e_state e \<in> {Open, Handed, ReadIn}"

definition is_entry_id :: "string \<Rightarrow> bool" where
  "is_entry_id s \<longleftrightarrow> length s = 16 \<and> set s \<subseteq> set ''0123456789abcdef''"

type_synonym ledger_state = "(string \<times> entry) list"

section \<open>The fold\<close>

definition src_ids :: "jrow \<Rightarrow> string list" where
  "src_ids row = (case as_str (jget row ''src'') of Some s \<Rightarrow> [s] | None \<Rightarrow> [])"

text \<open>What a row other than \<open>create\<close> makes of the entry it names, per operation. Where the
  code's loop says \<open>continue\<close> the entry is left as it is.\<close>

definition append_ref_entry :: "entry \<Rightarrow> jrow \<Rightarrow> entry" where
  "append_ref_entry e row =
     e\<lparr>e_refs := refs_merged (e_refs e) (refs_from_row (jget row ''refs'')),
       e_sources := e_sources e @ src_ids row\<rparr>"

definition kin_entry :: "entry \<Rightarrow> jrow \<Rightarrow> entry" where
  "kin_entry e row =
    (case jget row ''kin'' of
       JArr named \<Rightarrow>
         e\<lparr>e_kin := e_kin e @ filter (\<lambda>k. is_entry_id k \<and> k \<noteq> e_id e \<and> k \<notin> set (e_kin e))
                               (List.map_filter as_str named),
           e_kin_judged := True\<rparr>
     | _ \<Rightarrow> e)"

definition occurrence_entry :: "entry \<Rightarrow> jrow \<Rightarrow> entry" where
  "occurrence_entry e row =
     e\<lparr>e_sources := e_sources e @ src_ids row, e_occurrences := e_occurrences e + 1\<rparr>"

definition hand_entry :: "entry \<Rightarrow> jrow \<Rightarrow> entry" where
  "hand_entry e row =
    (if \<not> active e then e
     else e\<lparr>e_state := (if e_state e = Open then Handed else e_state e),
            e_pass_id := as_str (jget row ''pass_id''),
            e_hand_count := (case as_int (jget row ''hand_count'') of
                               Some n \<Rightarrow> n | None \<Rightarrow> e_hand_count e + 1),
            e_handed_at := as_str (jget row ''at'')\<rparr>)"

definition read_entry :: "entry \<Rightarrow> jrow \<Rightarrow> entry" where
  "read_entry e row =
    (if \<not> active e then e
     else e\<lparr>e_state := ReadIn,
            e_parts_read := str_items (jget row ''parts_read''),
            e_share := as_str (jget row ''share''),
            e_first_read_at := (if e_first_read_at e \<in> {None, Some []} then as_str (jget row ''at'')
                                else e_first_read_at e)\<rparr>)"

definition why_returned :: "jrow \<Rightarrow> return_why" where
  "why_returned row = (case return_why_of (jget row ''why'') of Some w \<Rightarrow> w | None \<Rightarrow> HandedNotRead)"

definition return_entry :: "entry \<Rightarrow> jrow \<Rightarrow> entry" where
  "return_entry e row =
    (if \<not> active e then e
     else let why = why_returned row
          in e\<lparr>e_state := Open, e_pass_id := None,
               e_misses := e_misses e + (if why = HandedNotRead then 1 else 0),
               e_undecided := e_undecided e + (if why = ReadNotDecided then 1 else 0),
               e_why := Some (return_why_name why)\<rparr>)"

definition close_entry :: "entry \<Rightarrow> jrow \<Rightarrow> entry" where
  "close_entry e row =
    (case decision_of (jget row ''decision'') of
       None \<Rightarrow> e
     | Some d \<Rightarrow>
         if \<not> active e then e
         else e\<lparr>e_state := Closed, e_decision := Some d,
                e_decided_items := str_items (jget row ''items''),
                e_reason_ref := as_str (jget row ''reason_ref''),
                e_closed_at := as_str (jget row ''at''),
                e_pass_id := (case as_str (jget row ''pass_id'') of
                                Some p \<Rightarrow> Some p | None \<Rightarrow> e_pass_id e),
                e_why := (case as_str (jget row ''why'') of Some w \<Rightarrow> Some w | None \<Rightarrow> e_why e)\<rparr>)"

definition reopen_entry :: "entry \<Rightarrow> jrow \<Rightarrow> entry" where
  "reopen_entry e row =
    (if e_state e \<notin> {Closed, Unreadable, NotReached} then e
     else e\<lparr>e_state := Open, e_pass_id := None, e_misses := 0, e_undecided := 0,
            e_reopen_count := e_reopen_count e + 1, e_why := as_str (jget row ''by'')\<rparr>)"

definition unreadable_entry :: "entry \<Rightarrow> jrow \<Rightarrow> entry" where
  "unreadable_entry e row =
    (if \<not> active e then e
     else e\<lparr>e_state := Unreadable, e_pass_id := None,
            e_why := Some (text_or_empty (jget row ''evidence''))\<rparr>)"

definition not_reached_entry :: "entry \<Rightarrow> jrow \<Rightarrow> entry" where
  "not_reached_entry e row =
    (case not_reached_of (jget row ''why'') of
       None \<Rightarrow> e
     | Some w \<Rightarrow>
         if \<not> active e then e
         else e\<lparr>e_state := NotReached, e_pass_id := None, e_why := Some (not_reached_name w)\<rparr>)"

definition update_entry :: "entry \<Rightarrow> jrow \<Rightarrow> entry" where
  "update_entry e row =
    (let op = jget row ''op''
     in if op = JStr ''append_ref'' then append_ref_entry e row
        else if op = JStr ''kin'' then kin_entry e row
        else if op = JStr ''occurrence'' then occurrence_entry e row
        else if op = JStr ''hand'' then hand_entry e row
        else if op = JStr ''read'' then read_entry e row
        else if op = JStr ''return'' then return_entry e row
        else if op = JStr ''close'' then close_entry e row
        else if op = JStr ''reopen'' then reopen_entry e row
        else if op = JStr ''unreadable'' then unreadable_entry e row
        else if op = JStr ''not_reached'' then not_reached_entry e row
        else e)"

lemma update_entry_cases:
  assumes "P e"
    "jget row ''op'' = JStr ''append_ref'' \<Longrightarrow> P (append_ref_entry e row)"
    "jget row ''op'' = JStr ''kin'' \<Longrightarrow> P (kin_entry e row)"
    "jget row ''op'' = JStr ''occurrence'' \<Longrightarrow> P (occurrence_entry e row)"
    "jget row ''op'' = JStr ''hand'' \<Longrightarrow> P (hand_entry e row)"
    "jget row ''op'' = JStr ''read'' \<Longrightarrow> P (read_entry e row)"
    "jget row ''op'' = JStr ''return'' \<Longrightarrow> P (return_entry e row)"
    "jget row ''op'' = JStr ''close'' \<Longrightarrow> P (close_entry e row)"
    "jget row ''op'' = JStr ''reopen'' \<Longrightarrow> P (reopen_entry e row)"
    "jget row ''op'' = JStr ''unreadable'' \<Longrightarrow> P (unreadable_entry e row)"
    "jget row ''op'' = JStr ''not_reached'' \<Longrightarrow> P (not_reached_entry e row)"
  shows "P (update_entry e row)"
  unfolding update_entry_def Let_def using assms by presburger

lemmas row_ops = append_ref_entry_def kin_entry_def occurrence_entry_def hand_entry_def
  read_entry_def return_entry_def close_entry_def reopen_entry_def unreadable_entry_def
  not_reached_entry_def Let_def

definition create_entry :: "ledger_state \<Rightarrow> jrow \<Rightarrow> ledger_state" where
  "create_entry out row =
    (case (as_str (jget row ''entry''), kind_of (jget row ''kind''), as_str (jget row ''at'')) of
       (Some eid, Some k, Some at) \<Rightarrow>
         if \<not> is_entry_id eid \<or> eid \<in> set (keys_of out) then out
         else dict_put eid
           ((new_entry eid k at (refs_from_row (jget row ''refs'')))
             \<lparr>e_carries := (if k = Message then jget row ''carries'' \<noteq> JBool False else True)\<rparr>) out
     | _ \<Rightarrow> out)"

definition apply_row :: "ledger_state \<Rightarrow> jrow \<Rightarrow> ledger_state" where
  "apply_row out row =
    (if jget row ''op'' = JStr ''create'' then create_entry out row
     else case as_str (jget row ''entry'') of
       None \<Rightarrow> out
     | Some eid \<Rightarrow>
         (case map_of out eid of
            None \<Rightarrow> out
          | Some e \<Rightarrow> dict_put eid (update_entry e row) out))"

definition ledger_fold :: "jrow list \<Rightarrow> ledger_state" where
  "ledger_fold rows = foldl apply_row [] rows"

lemma ledger_fold_append: "ledger_fold (rows @ new) = foldl apply_row (ledger_fold rows) new"
  by (simp add: ledger_fold_def)

lemma ledger_fold_Nil [simp]: "ledger_fold [] = []"
  by (simp add: ledger_fold_def)

section \<open>The lifecycle of an entry\<close>

text \<open>The abstract machine of one entry: which operation may take it from which state to which.
  It says nothing of ids, counts or evidence.\<close>

inductive lifecycle :: "string \<Rightarrow> entry_state \<Rightarrow> entry_state \<Rightarrow> bool" where
  hand_open: "lifecycle ''hand'' Open Handed"
| read: "s \<in> {Open, Handed, ReadIn} \<Longrightarrow> lifecycle ''read'' s ReadIn"
| return: "s \<in> {Open, Handed, ReadIn} \<Longrightarrow> lifecycle ''return'' s Open"
| close: "s \<in> {Open, Handed, ReadIn} \<Longrightarrow> lifecycle ''close'' s Closed"
| reopen: "s \<in> {Closed, Unreadable, NotReached} \<Longrightarrow> lifecycle ''reopen'' s Open"
| unreadable: "s \<in> {Open, Handed, ReadIn} \<Longrightarrow> lifecycle ''unreadable'' s Unreadable"
| not_reached: "s \<in> {Open, Handed, ReadIn} \<Longrightarrow> lifecycle ''not_reached'' s NotReached"

code_pred lifecycle .

lemma active_state: "active e \<longleftrightarrow> e_state e = Open \<or> e_state e = Handed \<or> e_state e = ReadIn"
  by (simp add: active_def)

lemma inactive_state: "\<not> active e \<longleftrightarrow> e_state e = Closed \<or> e_state e = Unreadable \<or> e_state e = NotReached"
  by (cases "e_state e") (simp_all add: active_def)

lemma update_entry_ident [simp]:
  "e_id (update_entry e row) = e_id e"
  "e_kind (update_entry e row) = e_kind e"
  "e_created_at (update_entry e row) = e_created_at e"
  "e_carries (update_entry e row) = e_carries e"
  by (rule update_entry_cases; simp add: row_ops split: option.split json.split)+

lemma update_entry_lifecycle:
  "e_state (update_entry e row) = e_state e \<or>
   (\<exists>op. jget row ''op'' = JStr op \<and> lifecycle op (e_state e) (e_state (update_entry e row)))"
  by (rule update_entry_cases)
    (auto simp: row_ops active_state inactive_state lifecycle.simps split: option.split json.split)

section \<open>What every ledger says of its entries\<close>

text \<open>An open entry is in no pass; one that is settled without a decision names no pass; a
  closed entry has its decision, and an entry with a decision was closed once.\<close>

definition no_pass_when_out :: "entry \<Rightarrow> bool" where
  "no_pass_when_out e \<longleftrightarrow> (e_state e \<in> {Open, Unreadable, NotReached} \<longrightarrow> e_pass_id e = None)"

definition decided_when_closed :: "entry \<Rightarrow> bool" where
  "decided_when_closed e \<longleftrightarrow> (e_state e = Closed \<longrightarrow> e_decision e \<noteq> None)"

definition entry_ok :: "entry \<Rightarrow> bool" where
  "entry_ok e \<longleftrightarrow>
     is_entry_id (e_id e) \<and>
     no_pass_when_out e \<and> decided_when_closed e \<and>
     (\<forall>k \<in> set (e_kin e). is_entry_id k \<and> k \<noteq> e_id e) \<and>
     (e_kin e \<noteq> [] \<longrightarrow> e_kin_judged e) \<and>
     (e_kind e \<noteq> Message \<longrightarrow> e_carries e)"

lemma entry_ok_new:
  "is_entry_id eid \<Longrightarrow> (k \<noteq> Message \<longrightarrow> c) \<Longrightarrow> entry_ok ((new_entry eid k at r)\<lparr>e_carries := c\<rparr>)"
  by (simp add: entry_ok_def no_pass_when_out_def decided_when_closed_def new_entry_def)

lemma update_entry_pass: "no_pass_when_out e \<Longrightarrow> no_pass_when_out (update_entry e row)"
  by (rule update_entry_cases [where P = no_pass_when_out])
    (auto simp: no_pass_when_out_def row_ops active_state split: option.split json.split)

lemma update_entry_decision: "decided_when_closed e \<Longrightarrow> decided_when_closed (update_entry e row)"
  by (rule update_entry_cases [where P = decided_when_closed])
    (auto simp: decided_when_closed_def row_ops active_state split: option.split json.split)

lemma update_entry_kin_cases:
  "(e_kin (update_entry e row) = e_kin e \<and> e_kin_judged (update_entry e row) = e_kin_judged e) \<or>
   (\<exists>named. e_kin (update_entry e row) =
       e_kin e @ filter (\<lambda>k. is_entry_id k \<and> k \<noteq> e_id e \<and> k \<notin> set (e_kin e)) named \<and>
     e_kin_judged (update_entry e row))"
  by (rule update_entry_cases) (auto simp: row_ops split: option.split json.split)

lemma update_entry_ok: "entry_ok e \<Longrightarrow> entry_ok (update_entry e row)"
  using update_entry_pass [of e row] update_entry_decision [of e row] update_entry_kin_cases [of e row]
  unfolding entry_ok_def by (simp, elim disjE exE) auto

definition ledger_ok :: "ledger_state \<Rightarrow> bool" where
  "ledger_ok out \<longleftrightarrow>
     distinct (keys_of out) \<and> (\<forall>(k, e) \<in> set out. e_id e = k \<and> entry_ok e)"

lemma ledger_okD: "ledger_ok out \<Longrightarrow> map_of out k = Some e \<Longrightarrow> e_id e = k \<and> entry_ok e"
  by (auto simp: ledger_ok_def dest!: map_of_SomeD)

lemma ledger_ok_put:
  "ledger_ok out \<Longrightarrow> e_id e = k \<Longrightarrow> entry_ok e \<Longrightarrow> ledger_ok (dict_put k e out)"
  by (auto simp: ledger_ok_def set_dict_put)

lemma apply_row_ok: "ledger_ok out \<Longrightarrow> ledger_ok (apply_row out row)"
  unfolding apply_row_def create_entry_def
  by (auto split: option.splits intro!: ledger_ok_put entry_ok_new update_entry_ok
      dest: ledger_okD simp: new_entry_def [THEN arg_cong, of e_id])

interpretation ledger_log: event_log apply_row "[]" ledger_ok
  by unfold_locales (simp_all add: apply_row_ok ledger_ok_def [of "[]"])

lemma fold_ok: "ledger_ok (ledger_fold rows)"
  unfolding ledger_fold_def by (rule ledger_log.inv_log)

text \<open>C29. Whatever rows a ledger file holds (written by another version, out of order, with values of
  any type), the state folded from them is well formed: one entry per id, each under its own
  id; an open, unreadable or not-reached entry names no pass; a closed entry has a decision;
  kin are other entries' ids and only a judged entry has them; only a message may carry nothing
  of its own.\<close>

theorem ledger_fold_ok: "ledger_ok (ledger_fold rows)"
  by (rule fold_ok)

section \<open>What no row can undo\<close>

definition refs_le :: "refs \<Rightarrow> refs \<Rightarrow> bool" where
  "refs_le a b \<longleftrightarrow>
     set (r_episodes a) \<subseteq> set (r_episodes b) \<and> set (r_captures a) \<subseteq> set (r_captures b) \<and>
     set (r_items a) \<subseteq> set (r_items b) \<and> set (r_signals a) \<subseteq> set (r_signals b) \<and>
     (r_record_seq a \<noteq> None \<longrightarrow> r_record_seq b = r_record_seq a) \<and>
     set (r_passes a) \<subseteq> set (r_passes b) \<and> set (r_notes a) \<subseteq> set (r_notes b)"

lemma refs_le_refl [simp]: "refs_le r r"
  by (simp add: refs_le_def)

lemma refs_le_trans: "refs_le a b \<Longrightarrow> refs_le b c \<Longrightarrow> refs_le a c"
  unfolding refs_le_def by fastforce

lemma refs_le_merged: "refs_le a (refs_merged a b)"
  by (auto simp: refs_le_def refs_merged_def join_ids_def)

definition entry_le :: "entry \<Rightarrow> entry \<Rightarrow> bool" where
  "entry_le a b \<longleftrightarrow>
     e_id b = e_id a \<and> e_kind b = e_kind a \<and> e_created_at b = e_created_at a \<and>
     e_carries b = e_carries a \<and> refs_le (e_refs a) (e_refs b) \<and>
     starts_with (e_sources a) (e_sources b) \<and> starts_with (e_kin a) (e_kin b) \<and>
     e_occurrences a \<le> e_occurrences b \<and> e_reopen_count a \<le> e_reopen_count b \<and>
     (e_kin_judged a \<longrightarrow> e_kin_judged b) \<and>
     (\<not> active a \<and> active b \<longrightarrow> e_reopen_count a < e_reopen_count b)"

lemma starts_with_refl [simp]: "starts_with p p"
  by (simp add: starts_with_def)

lemma starts_with_trans: "starts_with p q \<Longrightarrow> starts_with q r \<Longrightarrow> starts_with p r"
  by (auto simp: starts_with_iff)

lemma entry_le_refl [simp]: "entry_le e e"
  by (simp add: entry_le_def)

lemma entry_le_trans: "entry_le a b \<Longrightarrow> entry_le b c \<Longrightarrow> entry_le a c"
  unfolding entry_le_def by (auto intro: refs_le_trans starts_with_trans)

lemma update_entry_refs_le: "refs_le (e_refs e) (e_refs (update_entry e row))"
  by (rule update_entry_cases) (simp_all add: row_ops refs_le_merged split: option.split json.split)

lemma update_entry_lists_le:
  "starts_with (e_sources e) (e_sources (update_entry e row))"
  "starts_with (e_kin e) (e_kin (update_entry e row))"
  by (rule update_entry_cases; simp add: row_ops split: option.split json.split)+

lemma update_entry_counts_le:
  "e_occurrences e \<le> e_occurrences (update_entry e row)"
  "e_reopen_count e \<le> e_reopen_count (update_entry e row)"
  "e_kin_judged e \<longrightarrow> e_kin_judged (update_entry e row)"
  by (rule update_entry_cases; simp add: row_ops split: option.split json.split)+

lemma update_entry_reopened:
  "\<not> active e \<Longrightarrow> active (update_entry e row) \<longrightarrow>
   e_reopen_count (update_entry e row) = e_reopen_count e + 1"
  by (rule update_entry_cases) (auto simp: row_ops active_state split: option.split json.split)

lemma update_entry_le: "entry_le e (update_entry e row)"
  using update_entry_reopened [of e row]
  by (simp add: entry_le_def update_entry_refs_le update_entry_lists_le update_entry_counts_le)

definition ledger_le :: "ledger_state \<Rightarrow> ledger_state \<Rightarrow> bool" where
  "ledger_le a b \<longleftrightarrow>
     starts_with (keys_of a) (keys_of b) \<and>
     (\<forall>k \<in> set (keys_of a). case (map_of a k, map_of b k) of
        (Some x, Some y) \<Rightarrow> entry_le x y
      | (Some x, None) \<Rightarrow> False
      | _ \<Rightarrow> True)"

lemma ledger_leI:
  "starts_with (keys_of a) (keys_of b) \<Longrightarrow>
   (\<And>k x. map_of a k = Some x \<Longrightarrow> \<exists>y. map_of b k = Some y \<and> entry_le x y) \<Longrightarrow> ledger_le a b"
  by (fastforce simp: ledger_le_def split: option.split)

lemma ledger_leD: "ledger_le a b \<Longrightarrow> map_of a k = Some x \<Longrightarrow> \<exists>y. map_of b k = Some y \<and> entry_le x y"
  unfolding ledger_le_def
  by (drule conjunct2, drule bspec [where x = k])
    (auto split: option.splits dest: map_of_Some_in_keys)

lemma ledger_le_refl [simp]: "ledger_le a a"
  by (rule ledger_leI) auto

lemma ledger_le_trans:
  assumes "ledger_le a b" "ledger_le b c"
  shows "ledger_le a c"
proof (rule ledger_leI)
  show "starts_with (keys_of a) (keys_of c)"
    using assms by (auto simp: ledger_le_def intro: starts_with_trans)
  fix k x
  assume "map_of a k = Some x"
  with assms show "\<exists>y. map_of c k = Some y \<and> entry_le x y"
    by (meson entry_le_trans ledger_leD)
qed

lemma ledger_le_put:
  "(\<And>x. map_of out k = Some x \<Longrightarrow> entry_le x e) \<Longrightarrow> ledger_le out (dict_put k e out)"
  by (rule ledger_leI) (auto simp: keys_dict_put)

lemma apply_row_le: "ledger_le out (apply_row out row)"
  unfolding apply_row_def create_entry_def
  by (auto split: option.split intro!: ledger_le_put update_entry_le dest: map_of_Some_in_keys)

interpretation ledger_history: monotone_log apply_row ledger_le
  by unfold_locales (auto intro: ledger_le_trans apply_row_le)

text \<open>Rows appended to a ledger never lose an entry or its history: the entries keep their order and
  their id, kind, time and carries flag; references, sources and kin only grow; the counts of
  reopens and occurrences only grow, and an entry that was settled is active again only
  through a reopen that was counted.\<close>

theorem ledger_fold_monotone: "ledger_le (ledger_fold rows) (ledger_fold (rows @ new))"
  unfolding ledger_fold_append by (rule ledger_history.rel_rows)

text \<open>C32. Every state an entry takes under a row is one the abstract lifecycle allows for the
  row's operation: the fold's update of an entry refines the lifecycle machine, for every row.\<close>

theorem update_entry_refines_lifecycle:
  "e_state (update_entry e row) = e_state e \<or>
   (\<exists>op. jget row ''op'' = JStr op \<and> lifecycle op (e_state e) (e_state (update_entry e row)))"
  by (rule update_entry_lifecycle)

end
