(* ===== verification/Layout.thy ===== *)
theory Layout imports Prelude
begin

text \<open>
  The library layout (\<open>unify/memory/layout.py\<close>: what a path is, \<open>classify\<close>, \<open>misplaced\<close>,
  \<open>exported\<close>, \<open>module_of\<close>, \<open>module_path\<close>, \<open>item_path\<close>) and the path checks of
  \<open>unify/memory/manifest.py\<close> (\<open>safe_rel\<close>, \<open>forbidden\<close>, \<open>unsafe_path\<close>). The regular
  expressions are written out as character classes over the split path.
  The lemmas show that a path with a place in the layout is a safe relative path, and that
  paths, modules and item ids translate into each other without loss.
\<close>

section \<open>Character classes and path parts\<close>

definition is_lower :: "char \<Rightarrow> bool" where
  "is_lower c \<longleftrightarrow> c \<in> set ''abcdefghijklmnopqrstuvwxyz''"

definition is_upper :: "char \<Rightarrow> bool" where
  "is_upper c \<longleftrightarrow> c \<in> set ''ABCDEFGHIJKLMNOPQRSTUVWXYZ''"

definition is_digit :: "char \<Rightarrow> bool" where
  "is_digit c \<longleftrightarrow> c \<in> set ''0123456789''"

definition is_word :: "char \<Rightarrow> bool" where
  "is_word c \<longleftrightarrow> is_lower c \<or> is_upper c \<or> is_digit c \<or> c = CHR ''_''"

text \<open>\<open>text.lower()\<close> on ASCII text.\<close>

definition lower_char :: "char \<Rightarrow> char" where
  "lower_char c = (if is_upper c then char_of (of_char c + 32 :: nat) else c)"

definition lower :: "string \<Rightarrow> string" where
  "lower s = map lower_char s"

text \<open>\<open>[a-z][a-z0-9_]*\<close>, \<open>[a-z0-9][a-z0-9_-]*\<close>, \<open>[A-Za-z][A-Za-z0-9_]*\<close>, each the whole text.\<close>

fun is_name :: "string \<Rightarrow> bool" where
  "is_name [] \<longleftrightarrow> False"
| "is_name (c # s) \<longleftrightarrow> is_lower c \<and> list_all (\<lambda>c. is_lower c \<or> is_digit c \<or> c = CHR ''_'') s"

fun is_slug :: "string \<Rightarrow> bool" where
  "is_slug [] \<longleftrightarrow> False"
| "is_slug (c # s) \<longleftrightarrow>
     (is_lower c \<or> is_digit c) \<and>
     list_all (\<lambda>c. is_lower c \<or> is_digit c \<or> c = CHR ''_'' \<or> c = CHR ''-'') s"

fun is_ident :: "string \<Rightarrow> bool" where
  "is_ident [] \<longleftrightarrow> False"
| "is_ident (c # s) \<longleftrightarrow> (is_lower c \<or> is_upper c) \<and> list_all is_word s"

section \<open>What a path is\<close>

definition GENERATED_ROOT_FILES :: "string list" where
  "GENERATED_ROOT_FILES =
    [''memory/__init__.py'', ''memory/_contract.py'', ''memory/__init__.pyi'', ''INDEX.md'', ''links.json'']"

definition RESERVED_PACKAGES :: "string list" where
  "RESERVED_PACKAGES =
    [''ask'', ''get'', ''items'', ''index'', ''show'', ''find'', ''match'', ''run'', ''search'',
     ''suggest'', ''tests'']"

datatype path_kind =
    PModule | PPackageInit | PTest | PTestHelper | PFixture | PNote | PReadme | PGenerated

definition bad_component :: "string \<Rightarrow> bool" where
  "bad_component path \<longleftrightarrow>
     path = [] \<or> CHR 0x5C \<in> set path \<or> CHR 0x00 \<in> set path \<or>
     list_ex (\<lambda>c. c = [] \<or> c = ''.'' \<or> c = ''..'') (split_on (CHR ''/'') path)"

definition module_file :: "string \<Rightarrow> string option" where
  "module_file f = (case strip_suffix ''.py'' f of
     Some m \<Rightarrow> if is_name m then Some m else None | None \<Rightarrow> None)"

definition is_test_file :: "string \<Rightarrow> bool" where
  "is_test_file f \<longleftrightarrow>
     (case strip_prefix ''test_'' f of
        None \<Rightarrow> False
      | Some r \<Rightarrow> (case strip_suffix ''.py'' r of None \<Rightarrow> False | Some m \<Rightarrow> list_all is_word m))"

definition note_id :: "string \<Rightarrow> (string \<times> string) option" where
  "note_id s =
    (case split_on (CHR ''/'') s of
       [root, topic, file] \<Rightarrow>
         (case strip_suffix ''.md'' file of
            Some slug \<Rightarrow>
              if root = ''notes'' \<and> is_slug topic \<and> is_slug slug then Some (topic, slug) else None
          | None \<Rightarrow> None)
     | _ \<Rightarrow> None)"

text \<open>\<open>FUNCTION_ID\<close>: \<open>memory.<package>.<module>:<name>\<close>, as its three groups.\<close>

definition function_id :: "string \<Rightarrow> (string \<times> string \<times> string) option" where
  "function_id s =
    (case split_on (CHR '':'') s of
       [dotted, name] \<Rightarrow>
         (case split_on (CHR ''.'') dotted of
            [root, package, module] \<Rightarrow>
              if root = ''memory'' \<and> is_name package \<and> is_name module \<and> is_ident name
              then Some (package, module, name) else None
          | _ \<Rightarrow> None)
     | _ \<Rightarrow> None)"

definition classify_package :: "string list \<Rightarrow> path_kind option" where
  "classify_package parts =
    (case parts of
       (root # package # third # rest) \<Rightarrow>
         if \<not> is_name package \<or> package \<in> set RESERVED_PACKAGES then None
         else (case rest of
           [] \<Rightarrow>
             if third = ''__init__.py'' then Some PPackageInit
             else if third = ''README.md'' then Some PReadme
             else (case module_file third of
                     Some m \<Rightarrow> if m \<noteq> ''tests'' then Some PModule else None
                   | None \<Rightarrow> None)
         | (first # others) \<Rightarrow>
             if third \<noteq> ''tests'' then None
             else if first = ''data'' then (if others \<noteq> [] then Some PFixture else None)
             else if others = [] \<and> is_test_file first then Some PTest
             else if others = [] \<and> ends_with ''.py'' first \<and> first \<noteq> ''__init__.py'' then Some PTestHelper
             else None)
     | _ \<Rightarrow> None)"

definition classify :: "string \<Rightarrow> path_kind option" where
  "classify path =
    (if bad_component path then None
     else if path \<in> set GENERATED_ROOT_FILES \<or> path = ''.memory'' \<or> starts_with ''.memory/'' path
     then Some PGenerated
     else let parts = split_on (CHR ''/'') path
       in if hd parts = ''memory'' then classify_package parts
          else if hd parts = ''notes'' then
            (if length parts = 3 \<and> parts ! 2 = ''README.md'' \<and> is_slug (parts ! 1) then Some PReadme
             else if note_id path \<noteq> None then Some PNote else None)
          else None)"

text \<open>Why a path has no place; each reason is one sentence of the code.\<close>

datatype misplaced_why =
    MGenerated | MBadComponent | MNote | MRoot | MModuleInPackage | MPackageName
  | MReservedPackage string | MModuleName | MNoSubpackages | MTestsInit | MFixtures | MTests

definition misplaced_parts :: "string list \<Rightarrow> misplaced_why" where
  "misplaced_parts parts =
    (if hd parts = ''notes'' then MNote
     else if hd parts \<noteq> ''memory'' then MRoot
     else if length parts < 3 then MModuleInPackage
     else if \<not> is_name (parts ! 1) then MPackageName
     else if parts ! 1 \<in> set RESERVED_PACKAGES then MReservedPackage (parts ! 1)
     else if length parts = 3 then MModuleName
     else if parts ! 2 \<noteq> ''tests'' then MNoSubpackages
     else if drop 3 parts = [''__init__.py''] then MTestsInit
     else if parts ! 3 = ''data'' then MFixtures
     else MTests)"

definition misplaced :: "string \<Rightarrow> misplaced_why option" where
  "misplaced path =
    (case classify path of
       Some PGenerated \<Rightarrow> Some MGenerated
     | Some _ \<Rightarrow> None
     | None \<Rightarrow>
         if bad_component path then Some MBadComponent
         else Some (misplaced_parts (split_on (CHR ''/'') path)))"

section \<open>Paths that are never extracted or run\<close>

datatype unsafe_why = UBytecodeCache | UCompiled | UPathConfig | UStartHook

text \<open>The interpreter's own bytecode and extension suffixes end in one of these on every platform.\<close>

definition COMPILED_SUFFIXES :: "string list" where
  "COMPILED_SUFFIXES = [''.pyc'', ''.pyo'', ''.so'', ''.pyd'', ''.dll'', ''.dylib'']"

definition START_HOOKS :: "string list" where
  "START_HOOKS = [''sitecustomize'', ''usercustomize'']"

definition FORBIDDEN_NAMES :: "string list" where
  "FORBIDDEN_NAMES =
    [''.gitattributes'', ''.gitignore'', ''.gitmodules'', ''conftest.py'', ''pytest.ini'',
     ''.pytest.ini'', ''pytest.toml'', ''.pytest.toml'', ''pyproject.toml'', ''setup.cfg'',
     ''tox.ini'', ''sitecustomize.py'', ''usercustomize.py'']"

fun abi_tagged_at :: "string \<Rightarrow> bool" where
  "abi_tagged_at s \<longleftrightarrow>
     list_ex (\<lambda>p. case strip_prefix p s of
         Some r \<Rightarrow> starts_with ''-'' (dropWhile is_digit r) | None \<Rightarrow> False)
       [''.cpython'', ''.pypy'', ''.graalpy''] \<or>
     (case strip_prefix ''.abi'' s of
        Some r \<Rightarrow> takeWhile is_digit r \<noteq> [] \<and> starts_with ''.'' (dropWhile is_digit r)
      | None \<Rightarrow> False)"

fun abi_tagged :: "string \<Rightarrow> bool" where
  "abi_tagged [] \<longleftrightarrow> False"
| "abi_tagged (c # s) \<longleftrightarrow> abi_tagged_at (c # s) \<or> abi_tagged s"

definition unsafe_path :: "string \<Rightarrow> unsafe_why option" where
  "unsafe_path path =
    (let parts = split_on (CHR ''/'') path; name = lower (last parts)
     in if ''__pycache__'' \<in> set parts then Some UBytecodeCache
        else if list_ex (\<lambda>s. ends_with s name) COMPILED_SUFFIXES \<or> abi_tagged name then Some UCompiled
        else if ends_with ''.pth'' name then Some UPathConfig
        else if list_ex (\<lambda>p. lower (hd (split_on (CHR ''.'') p)) \<in> set START_HOOKS) parts
        then Some UStartHook
        else None)"

definition forbidden :: "string \<Rightarrow> bool" where
  "forbidden path \<longleftrightarrow>
     (let name = last (split_on (CHR ''/'') path)
      in name \<in> set FORBIDDEN_NAMES \<or> ends_with ''.pth'' name)"

definition exported :: "string \<Rightarrow> bool" where
  "exported path \<longleftrightarrow>
     unsafe_path path = None \<and>
     classify path \<in> {Some PModule, Some PPackageInit, Some PNote, Some PReadme}"

section \<open>Modules and items\<close>

definition module_of :: "string \<Rightarrow> string option" where
  "module_of path =
    (let parts = split_on (CHR ''/'') path
     in case classify path of
          Some PModule \<Rightarrow>
            Some (''memory.'' @ parts ! 1 @ ''.'' @ take (length (parts ! 2) - 3) (parts ! 2))
        | Some PPackageInit \<Rightarrow> Some (''memory.'' @ parts ! 1)
        | _ \<Rightarrow> None)"

text \<open>The code indexes the split name, so it raises \<open>IndexError\<close> on a name without a dot.\<close>

definition module_path :: "string \<Rightarrow> string option" where
  "module_path m =
    (case split_on (CHR ''.'') m of
       [x] \<Rightarrow> None
     | [x, package] \<Rightarrow> Some (''memory/'' @ package @ ''/__init__.py'')
     | (x # package # module # rest) \<Rightarrow> Some (''memory/'' @ package @ ''/'' @ module @ ''.py'')
     | _ \<Rightarrow> None)"

definition item_path :: "string \<Rightarrow> string" where
  "item_path item =
    (case function_id item of
       Some (package, module, name) \<Rightarrow> ''memory/'' @ package @ ''/'' @ module @ ''.py''
     | None \<Rightarrow> item)"

definition package_of_path :: "string \<Rightarrow> string" where
  "package_of_path path = join_str ''.'' (butlast (split_on (CHR ''/'') path))"

section \<open>Safe relative paths\<close>

text \<open>\<open>posixpath.normpath\<close>.\<close>

fun norm_parts :: "bool \<Rightarrow> string list \<Rightarrow> string list \<Rightarrow> string list" where
  "norm_parts rooted out [] = rev out"
| "norm_parts rooted out (c # cs) =
    (if c = [] \<or> c = ''.'' then norm_parts rooted out cs
     else if c \<noteq> ''..'' \<or> (\<not> rooted \<and> out = []) \<or> (out \<noteq> [] \<and> hd out = ''..'')
     then norm_parts rooted (c # out) cs
     else if out \<noteq> [] then norm_parts rooted (tl out) cs
     else norm_parts rooted out cs)"

definition lead_slashes :: "string \<Rightarrow> string" where
  "lead_slashes path =
    (if starts_with ''/'' path
     then (if starts_with ''//'' path \<and> \<not> starts_with ''///'' path then ''//'' else ''/'')
     else [])"

definition normpath :: "string \<Rightarrow> string" where
  "normpath path =
    (if path = [] then ''.''
     else let lead = lead_slashes path;
              out = lead @ join_str ''/'' (norm_parts (lead \<noteq> []) [] (split_on (CHR ''/'') path))
          in if out = [] then ''.'' else out)"

definition safe_rel :: "string \<Rightarrow> bool" where
  "safe_rel path \<longleftrightarrow>
     path \<noteq> [] \<and> \<not> starts_with ''/'' path \<and> CHR 0x5C \<notin> set path \<and> CHR 0x00 \<notin> set path \<and>
     CHR 0x0A \<notin> set path \<and> normpath path = path \<and> path \<noteq> ''.'' \<and>
     ''..'' \<notin> set (split_on (CHR ''/'') path) \<and> hd (split_on (CHR ''/'') path) \<noteq> ''.git''"

section \<open>Lemmas\<close>

lemma is_name_chars: "is_name s \<Longrightarrow> c \<in> set s \<Longrightarrow> is_lower c \<or> is_digit c \<or> c = CHR ''_''"
  by (cases s) (auto simp: list_all_iff)

lemma is_slug_chars:
  "is_slug s \<Longrightarrow> c \<in> set s \<Longrightarrow> is_lower c \<or> is_digit c \<or> c = CHR ''_'' \<or> c = CHR ''-''"
  by (cases s) (auto simp: list_all_iff)

lemma is_ident_chars: "is_ident s \<Longrightarrow> c \<in> set s \<Longrightarrow> is_word c"
  by (cases s) (auto simp: list_all_iff is_word_def)

definition is_special :: "char \<Rightarrow> bool" where
  "is_special c \<longleftrightarrow> c \<in> set [CHR ''/'', CHR ''.'', CHR '':'', CHR 0x5C, CHR 0x00, CHR 0x0A]"

lemma special_not_word: "is_special c \<Longrightarrow> \<not> is_word c"
  by (auto simp: is_special_def is_word_def is_lower_def is_upper_def is_digit_def)

lemma special_not_dash: "is_special c \<Longrightarrow> c \<noteq> CHR ''-''"
  by (auto simp: is_special_def)

lemma is_special_chars [simp]:
  "is_special (CHR ''/'')" "is_special (CHR ''.'')" "is_special (CHR '':'')"
  "is_special (CHR 0x5C)" "is_special (CHR 0x00)" "is_special (CHR 0x0A)"
  by (simp_all add: is_special_def)

lemma is_name_no_special [simp]: "is_name s \<Longrightarrow> is_special c \<Longrightarrow> c \<notin> set s"
  using special_not_word [of c] is_name_chars [of s c] by (auto simp: is_word_def)

lemma is_slug_no_special [simp]: "is_slug s \<Longrightarrow> is_special c \<Longrightarrow> c \<notin> set s"
  using special_not_word [of c] special_not_dash [of c] is_slug_chars [of s c]
  by (auto simp: is_word_def)

lemma is_ident_no_special [simp]: "is_ident s \<Longrightarrow> is_special c \<Longrightarrow> c \<notin> set s"
  using special_not_word [of c] is_ident_chars [of s c] by auto

lemma function_id_Some:
  "function_id s = Some (p, m, n) \<longleftrightarrow>
   is_name p \<and> is_name m \<and> is_ident n \<and> s = ''memory.'' @ p @ ''.'' @ m @ '':'' @ n"
proof
  assume "function_id s = Some (p, m, n)"
  then obtain d where d: "split_on (CHR '':'') s = [d, n]"
    and e: "split_on (CHR ''.'') d = [''memory'', p, m]"
    and ok: "is_name p" "is_name m" "is_ident n"
    by (auto simp: function_id_def split: list.splits if_splits)
  from d have "s = d @ '':'' @ n" by (simp add: split_on_parts)
  moreover from e have "d = ''memory.'' @ p @ ''.'' @ m" by (simp add: split_on_parts)
  ultimately show "is_name p \<and> is_name m \<and> is_ident n \<and> s = ''memory.'' @ p @ ''.'' @ m @ '':'' @ n"
    using ok by simp
next
  assume *: "is_name p \<and> is_name m \<and> is_ident n \<and> s = ''memory.'' @ p @ ''.'' @ m @ '':'' @ n"
  then have "split_on (CHR '':'') s = [''memory.'' @ p @ ''.'' @ m, n]"
    by (simp only: split_on_parts) simp
  moreover have "split_on (CHR ''.'') (''memory.'' @ p @ ''.'' @ m) = [''memory'', p, m]"
    using * by (simp only: split_on_parts) simp
  ultimately show "function_id s = Some (p, m, n)" using * by (simp add: function_id_def)
qed

definition plain_part :: "string \<Rightarrow> bool" where
  "plain_part c \<longleftrightarrow> c \<noteq> [] \<and> c \<noteq> ''.'' \<and> c \<noteq> ''..''"

lemma norm_parts_plain: "list_all plain_part cs \<Longrightarrow> norm_parts r out cs = rev out @ cs"
  by (induction cs arbitrary: out) (simp_all add: plain_part_def)

lemma bad_component_plain:
  "\<not> bad_component path \<longleftrightarrow>
   path \<noteq> [] \<and> CHR 0x5C \<notin> set path \<and> CHR 0x00 \<notin> set path \<and>
   list_all plain_part (split_on (CHR ''/'') path)"
  by (auto simp: bad_component_def plain_part_def list_all_iff list_ex_iff)

lemma split_on_slash_head: "starts_with ''/'' path \<Longrightarrow> hd (split_on (CHR ''/'') path) = []"
  by (auto simp: starts_with_iff)

lemma plain_no_lead:
  assumes "list_all plain_part (split_on (CHR ''/'') path)"
  shows "\<not> starts_with ''/'' path"
proof
  assume "starts_with ''/'' path"
  then have "hd (split_on (CHR ''/'') path) = []" by (rule split_on_slash_head)
  moreover have "hd (split_on (CHR ''/'') path) \<in> set (split_on (CHR ''/'') path)"
    by (rule list.set_sel(1)) simp
  ultimately show False using assms by (auto simp: list_all_iff plain_part_def)
qed

lemma normpath_plain:
  "path \<noteq> [] \<Longrightarrow> list_all plain_part (split_on (CHR ''/'') path) \<Longrightarrow> normpath path = path"
  by (simp add: normpath_def lead_slashes_def plain_no_lead norm_parts_plain)

lemma classify_plain: "classify path \<noteq> None \<Longrightarrow> \<not> bad_component path"
  by (simp add: classify_def split: if_splits)

lemma generated_not_git:
  assumes "path \<in> set GENERATED_ROOT_FILES \<or> path = ''.memory'' \<or> starts_with ''.memory/'' path"
  shows "hd (split_on (CHR ''/'') path) \<noteq> ''.git''"
  using assms
proof (elim disjE)
  assume "starts_with ''.memory/'' path"
  then obtain t where "path = ''.memory'' @ CHR ''/'' # t" by (auto simp: starts_with_iff)
  then show ?thesis by (simp only: split_on_append) simp
qed (auto simp: GENERATED_ROOT_FILES_def)

lemma classify_not_git:
  assumes "classify path \<noteq> None"
  shows "hd (split_on (CHR ''/'') path) \<noteq> ''.git''"
proof (cases "path \<in> set GENERATED_ROOT_FILES \<or> path = ''.memory'' \<or> starts_with ''.memory/'' path")
  case True
  then show ?thesis by (rule generated_not_git)
next
  case False
  then show ?thesis using assms by (auto simp: classify_def Let_def split: if_splits)
qed

lemma classify_safe:
  assumes "classify path \<noteq> None" "CHR 0x0A \<notin> set path"
  shows "safe_rel path"
proof -
  have plain: "list_all plain_part (split_on (CHR ''/'') path)"
    and ok: "path \<noteq> []" "CHR 0x5C \<notin> set path" "CHR 0x00 \<notin> set path"
    using classify_plain [OF assms(1)] by (simp_all add: bad_component_plain)
  have "path \<noteq> ''.''" using plain by (auto simp: plain_part_def)
  moreover have "''..'' \<notin> set (split_on (CHR ''/'') path)"
    using plain by (auto simp: list_all_iff plain_part_def)
  ultimately show ?thesis
    using plain_no_lead [OF plain] normpath_plain [OF ok(1) plain] classify_not_git [OF assms(1)]
      ok assms(2)
    by (simp add: safe_rel_def)
qed

section \<open>Paths, modules and items\<close>

text \<open>A path the layout has a place for, read on one line, is a safe relative path inside the
  tree: it is normal, has no parent component, is not absolute and is not under \<open>.git\<close>. So
  every file the writer may place passes the manifest's own path check.\<close>

theorem classified_paths_are_safe:
  "classify path \<noteq> None \<Longrightarrow> CHR 0x0A \<notin> set path \<Longrightarrow> safe_rel path"
  by (rule classify_safe)

lemma module_path_parts:
  "split_on (CHR ''/'') path = [''memory'', package, file] \<Longrightarrow>
   path = ''memory/'' @ package @ ''/'' @ file"
  by (simp add: split_on_parts)

lemma take_suffix: "f = m @ ''.py'' \<Longrightarrow> take (length f - 3) f = m"
  by simp

lemma classify_module:
  assumes "classify path = Some PModule"
  shows "\<exists>package m. is_name package \<and> is_name m \<and>
    split_on (CHR ''/'') path = [''memory'', package, m @ ''.py'']"
proof -
  let ?parts = "split_on (CHR ''/'') path"
  have "hd ?parts = ''memory''" "classify_package ?parts = Some PModule"
    using assms by (auto simp: classify_def Let_def split: if_splits)
  then show ?thesis
    by (auto simp: classify_package_def module_file_def
        split: list.splits if_splits option.splits)
qed

lemma classify_init:
  assumes "classify path = Some PPackageInit"
  shows "\<exists>package. is_name package \<and>
    split_on (CHR ''/'') path = [''memory'', package, ''__init__.py'']"
proof -
  let ?parts = "split_on (CHR ''/'') path"
  have "hd ?parts = ''memory''" "classify_package ?parts = Some PPackageInit"
    using assms by (auto simp: classify_def Let_def split: if_splits)
  then show ?thesis
    by (auto simp: classify_package_def module_file_def
        split: list.splits if_splits option.splits)
qed

lemma module_path_three:
  assumes "is_name p" "is_name m"
  shows "module_path (''memory.'' @ p @ ''.'' @ m) = Some (''memory/'' @ p @ ''/'' @ m @ ''.py'')"
proof -
  have "split_on (CHR ''.'') (''memory.'' @ p @ ''.'' @ m) = [''memory'', p, m]"
    using assms by (simp only: split_on_parts) simp
  then show ?thesis by (simp add: module_path_def)
qed

lemma module_path_two:
  assumes "is_name p"
  shows "module_path (''memory.'' @ p) = Some (''memory/'' @ p @ ''/__init__.py'')"
proof -
  have "split_on (CHR ''.'') (''memory.'' @ p) = [''memory'', p]"
    using assms by (simp only: split_on_parts) simp
  then show ?thesis by (simp add: module_path_def)
qed

lemma module_roundtrip: "module_of path = Some m \<Longrightarrow> module_path m = Some path"
proof -
  assume m: "module_of path = Some m"
  then consider "classify path = Some PModule" | "classify path = Some PPackageInit"
    by (auto simp: module_of_def Let_def split: option.splits path_kind.splits)
  then show ?thesis
  proof cases
    case 1
    then obtain p n where *: "is_name p" "is_name n"
      "split_on (CHR ''/'') path = [''memory'', p, n @ ''.py'']"
      using classify_module by blast
    then have "m = ''memory.'' @ p @ ''.'' @ n" using m 1 by (simp add: module_of_def)
    then show ?thesis using module_path_three [OF *(1,2)] module_path_parts [OF *(3)] by simp
  next
    case 2
    then obtain p where *: "is_name p" "split_on (CHR ''/'') path = [''memory'', p, ''__init__.py'']"
      using classify_init by blast
    then have "m = ''memory.'' @ p" using m 2 by (simp add: module_of_def)
    then show ?thesis using module_path_two [OF *(1)] module_path_parts [OF *(2)] by simp
  qed
qed


lemma package_path_parts:
  assumes "is_name p" "is_name m"
  shows "split_on (CHR ''/'') (''memory/'' @ p @ ''/'' @ m @ ''.py'') = [''memory'', p, m @ ''.py'']"
  using assms by (simp only: split_on_parts) simp

lemma module_file_name [simp]: "is_name m \<Longrightarrow> module_file (m @ ''.py'') = Some m"
  by (simp add: module_file_def)

lemma name_not_init [simp]: "is_name m \<Longrightarrow> m @ ''.py'' \<noteq> ''__init__.py'' \<and> m @ ''.py'' \<noteq> ''README.md''"
  by (cases m) (auto simp: is_lower_def)

lemma generated_short: "list_all (\<lambda>f. length (split_on (CHR ''/'') f) < 3) GENERATED_ROOT_FILES"
  by (simp add: GENERATED_ROOT_FILES_def)

lemma path_not_generated:
  "is_name p \<Longrightarrow> is_name m \<Longrightarrow> ''memory/'' @ p @ ''/'' @ m @ ''.py'' \<notin> set GENERATED_ROOT_FILES"
  using package_path_parts [of p m] generated_short unfolding list_all_iff by fastforce

lemma plain_parts_path:
  assumes "is_name p" "is_name m"
  shows "\<not> bad_component (''memory/'' @ p @ ''/'' @ m @ ''.py'')"
proof -
  have "plain_part p" "plain_part (m @ ''.py'')"
    using is_name_no_special [OF assms(1), of "CHR ''.''"] assms(1)
    by (cases p; force simp: plain_part_def)+
  moreover have "plain_part ''memory''" by (simp add: plain_part_def)
  ultimately show ?thesis
    unfolding bad_component_plain package_path_parts [OF assms] using assms by simp
qed

lemma classify_item_module:
  assumes "is_name p" "is_name m"
  shows "classify (''memory/'' @ p @ ''/'' @ m @ ''.py'') =
    (if p \<in> set RESERVED_PACKAGES \<or> m = ''tests'' then None else Some PModule)"
proof -
  let ?path = "''memory/'' @ p @ ''/'' @ m @ ''.py''"
  have "\<not> starts_with ''.memory/'' ?path" "?path \<noteq> ''.memory''" by (simp_all add: starts_with_def)
  then have "classify ?path = classify_package [''memory'', p, m @ ''.py'']"
    using plain_parts_path [OF assms] path_not_generated [OF assms] package_path_parts [OF assms]
    unfolding classify_def Let_def by simp
  then show ?thesis
    using assms name_not_init [OF assms(2)] module_file_name [OF assms(2)]
    by (cases "m = ''tests''") (simp_all add: classify_package_def)
qed

text \<open>The file of a function id is a module of the layout, except when the id's package name is
  reserved or its module is \<open>tests\<close>: \<open>FUNCTION_ID\<close> accepts those ids, and the layout has no place
  for their file.\<close>

theorem item_path_is_module:
  assumes "function_id item = Some (p, m, n)"
  shows "classify (item_path item) =
    (if p \<in> set RESERVED_PACKAGES \<or> m = ''tests'' then None else Some PModule)"
proof -
  have "is_name p" "is_name m" using assms by (simp_all only: function_id_Some)
  then show ?thesis
    unfolding item_path_def assms option.case prod.case by (rule classify_item_module)
qed

text \<open>A library path's module names the path it came from: \<open>module_path\<close> undoes \<open>module_of\<close>.\<close>

theorem module_path_of_module: "module_of path = Some m \<Longrightarrow> module_path m = Some path"
  by (rule module_roundtrip)


theorem item_path_is_module_witness:
  "classify (item_path ''memory.csvs.read:load'') = Some PModule"
proof -
  have "function_id ''memory.csvs.read:load'' = Some (''csvs'', ''read'', ''load'')"
    by (simp add: function_id_Some is_lower_def is_word_def)
  from item_path_is_module [OF this] show ?thesis by (simp add: RESERVED_PACKAGES_def)
qed

theorem module_path_of_module_witness: "module_path ''memory.csvs.read'' = Some ''memory/csvs/read.py''"
proof (rule module_path_of_module)
  have "classify ''memory/csvs/read.py'' = Some PModule"
    using classify_item_module [of "''csvs''" "''read''"]
    by (simp add: RESERVED_PACKAGES_def is_lower_def)
  then show "module_of ''memory/csvs/read.py'' = Some ''memory.csvs.read''"
    by (simp add: module_of_def)
qed

theorem classified_paths_are_safe_witness: "safe_rel ''memory/csvs/read.py''"
proof (rule classified_paths_are_safe)
  show "classify ''memory/csvs/read.py'' \<noteq> None"
    using classify_item_module [of "''csvs''" "''read''"]
    by (simp add: RESERVED_PACKAGES_def is_lower_def)
qed simp

end
