(* ===== verification/AttentionMaterial.thy ===== *)
theory AttentionMaterial imports AttentionLog Layout
begin

text \<open>
  The material an entry owes a read and what a pass read (\<open>unify/memory/attention.py\<close>:
  \<open>item_box_paths\<close>, \<open>Part\<close>, \<open>material\<close>, \<open>PassReads\<close>, \<open>satisfied\<close>, \<open>verify\<close>,
  \<open>carries_content\<close>, \<open>wants_pass\<close>, \<open>entry_ready\<close>). The staging directories are two
  predicates: whether one holds a summary and whether it holds a procedure.
\<close>

section \<open>The parts of an entry's material\<close>

definition CAPTURE_PREFIX :: string where "CAPTURE_PREFIX = ''capture:''"

definition item_box_paths :: "string \<Rightarrow> string list" where
  "item_box_paths item =
    (case strip_prefix CAPTURE_PREFIX item of
       Some cid \<Rightarrow> [''/inputs/captures/'' @ cid @ ''/procedure.py'']
     | None \<Rightarrow> [normpath (''/memory/'' @ item_path item)])"

record part =
  p_name :: string
  p_paths :: "string list"
  p_episodes :: "string list"
  p_seqs :: "int list"
  p_required :: bool

definition part_row :: "part \<Rightarrow> json" where
  "part_row p = JObj
    [(''name'', JStr (p_name p)), (''paths'', jstrs (p_paths p)), (''episodes'', jstrs (p_episodes p)),
     (''seqs'', JArr (map JInt (p_seqs p))), (''required'', JBool (p_required p))]"

definition mk_part :: "string \<Rightarrow> string list \<Rightarrow> string list \<Rightarrow> bool \<Rightarrow> part" where
  "mk_part name paths episodes required =
    \<lparr>p_name = name, p_paths = paths, p_episodes = episodes, p_seqs = [], p_required = required\<rparr>"

definition staging_path :: "string \<Rightarrow> string \<Rightarrow> string" where
  "staging_path n rel = ''/inputs/staging/'' @ n @ ''/'' @ rel"

definition capture_path :: "string \<Rightarrow> string \<Rightarrow> string" where
  "capture_path c f = ''/inputs/captures/'' @ c @ ''/'' @ f"

definition own_path :: "entry \<Rightarrow> string \<Rightarrow> string" where
  "own_path e f = ''/inputs/attention/'' @ e_id e @ ''/'' @ f"

definition procedure_paths :: "(string \<Rightarrow> bool) \<Rightarrow> refs \<Rightarrow> string list" where
  "procedure_paths has_procedure r =
    (let caps = map (\<lambda>c. capture_path c ''procedure.py'') (r_captures r)
     in if caps \<noteq> [] then caps
        else map (\<lambda>n. staging_path n ''procedure.py'') (filter has_procedure (r_episodes r)))"

definition summary_paths :: "(string \<Rightarrow> bool) \<Rightarrow> refs \<Rightarrow> string list" where
  "summary_paths has_summary r =
    map (\<lambda>n. staging_path n ''summary.md'') (filter has_summary (r_episodes r)) @
    map (\<lambda>n. staging_path n []) (filter (\<lambda>n. \<not> has_summary n) (r_episodes r))"

definition material :: "(string \<Rightarrow> bool) \<Rightarrow> (string \<Rightarrow> bool) \<Rightarrow> entry \<Rightarrow> part list" where
  "material has_summary has_procedure e =
    (let r = e_refs e;
         eps = r_episodes r @ r_episodes r;
         proc_paths = procedure_paths has_procedure r;
         sums = summary_paths has_summary r;
         items = concat (map item_box_paths (r_items r))
     in case e_kind e of
       NewExperience \<Rightarrow>
         [mk_part ''summary'' sums eps True] @
         (if r_captures r \<noteq> [] then [mk_part ''procedure.py'' proc_paths [] True] else []) @
         (if r_notes r \<noteq> []
          then [mk_part ''notes'' (map (\<lambda>n. ''/inputs/staging/'' @ n) (r_notes r)) [] (r_captures r = [])]
          else []) @
         [mk_part ''episode'' [] eps False]
     | OwnCheckFailed \<Rightarrow>
         [mk_part ''procedure.py'' proc_paths [] True,
          mk_part ''capture record'' (map (\<lambda>c. capture_path c ''record.json'') (r_captures r)) [] True,
          mk_part ''summary'' sums eps False]
     | UseWentBadly \<Rightarrow>
         [mk_part ''use row'' [own_path e ''use.json''] [] True,
          mk_part ''item'' items [] True, mk_part ''summary'' sums eps False]
     | LateEvidence \<Rightarrow>
         [mk_part ''signal'' [own_path e ''signal.json''] [] True,
          mk_part ''summary'' sums eps True, mk_part ''items'' items [] False]
     | RepeatedUse \<Rightarrow> [mk_part ''item'' items [] True, mk_part ''episode'' sums eps True]
     | Deferred \<Rightarrow>
         [mk_part ''note''
            (own_path e ''note.json'' # map (\<lambda>p. ''/inputs/drafts/'' @ p @ ''/gate.md'') (r_passes r)) [] True]
     | Message \<Rightarrow>
         [\<lparr>p_name = ''entry'', p_paths = [], p_episodes = [],
           p_seqs = (case r_record_seq r of Some s \<Rightarrow> [s] | None \<Rightarrow> []), p_required = True\<rparr>])"

section \<open>What a pass read\<close>

definition norm_box :: "string \<Rightarrow> string" where
  "norm_box path =
    (let out = normpath path
     in if ends_with ''/'' path \<and> \<not> ends_with ''/'' out then out @ ''/'' else out)"

record pass_reads =
  pr_paths :: "string list"
  pr_episodes :: "(string \<times> string list) list"

definition opened :: "pass_reads \<Rightarrow> string \<Rightarrow> bool" where
  "opened reads path \<longleftrightarrow>
     (if ends_with ''/'' path then list_ex (starts_with path) (pr_paths reads)
      else norm_box path \<in> set (pr_paths reads))"

definition read_episode :: "pass_reads \<Rightarrow> string \<Rightarrow> bool" where
  "read_episode reads eid \<longleftrightarrow> dict_get (pr_episodes reads) eid [] \<noteq> []"

text \<open>The sets of paths and of parts are duplicate-free lists here; the row sorts them.\<close>

definition pass_reads_row :: "pass_reads \<Rightarrow> json" where
  "pass_reads_row reads = JObj
    [(''v'', JInt 1), (''paths'', jstrs (sorted_set (pr_paths reads))),
     (''episodes'', JObj (map (\<lambda>e. (e, jstrs (sorted_set (dict_get (pr_episodes reads) e []))))
                           (sorted_set (keys_of (pr_episodes reads)))))]"

definition pass_reads_from_row :: "json \<Rightarrow> pass_reads" where
  "pass_reads_from_row v =
    (let row = obj_row v
     in \<lparr>pr_paths = dedup (map norm_box (str_items (jget row ''paths''))),
         pr_episodes = List.map_filter
           (\<lambda>(e, ps). case ps of JArr xs \<Rightarrow> Some (e, dedup (List.map_filter as_str xs)) | _ \<Rightarrow> None)
           (obj_row (jget row ''episodes''))\<rparr>)"

text \<open>\<open>PassReads.collect\<close>: the tool rows and the boxes' open rows as JSON, the read logs as what
  their \<open>parts\<close> hold (episode, then part, then a count).\<close>

definition tool_event_paths :: "json \<Rightarrow> string list" where
  "tool_event_paths v =
    (case v of
       JObj ev \<Rightarrow>
         if jget ev ''status'' \<notin> {JNull, JStr ''ok''} then []
         else (case jget ev ''paths'' of
            JArr ps \<Rightarrow> List.map_filter
              (\<lambda>p. case p of
                 JObj r \<Rightarrow>
                   (if jget r ''mode'' = JStr ''read'' then
                      (case as_str (jget r ''path'') of
                         Some s \<Rightarrow> if starts_with ''/'' s then Some (norm_box s) else None
                       | None \<Rightarrow> None)
                    else None)
               | _ \<Rightarrow> None) ps
          | _ \<Rightarrow> [])
     | _ \<Rightarrow> [])"

definition box_open_paths :: "json \<Rightarrow> string list" where
  "box_open_paths v =
    (case v of
       JObj row \<Rightarrow>
         (case as_str (jget row ''path'') of
            Some s \<Rightarrow>
              if starts_with ''/'' s \<and>
                 CHR ''r'' \<in> set (if falsy (jget row ''mode'') then ''r'' else text_or_empty (jget row ''mode''))
              then [norm_box s] else []
          | None \<Rightarrow> [])
     | _ \<Rightarrow> [])"

definition log_step ::
  "(string \<times> string list) list \<Rightarrow> string \<times> (string \<times> int) list \<Rightarrow> (string \<times> string list) list" where
  "log_step eps eg =
    (if list_ex (\<lambda>kn. snd kn > 0) (snd eg)
     then dict_put (fst eg) (dedup (dict_get eps (fst eg) [] @ map fst (snd eg))) eps
     else eps)"

definition collect ::
  "(string \<times> (string \<times> int) list) list list \<Rightarrow> json list \<Rightarrow> json list \<Rightarrow> pass_reads" where
  "collect read_logs tool_events box_opens =
    \<lparr>pr_paths = dedup (concat (map tool_event_paths tool_events) @ concat (map box_open_paths box_opens)),
     pr_episodes = foldl log_step [] (concat read_logs)\<rparr>"

section \<open>Verifying a read\<close>

definition satisfied :: "part \<Rightarrow> pass_reads \<Rightarrow> int list \<Rightarrow> bool" where
  "satisfied p reads delivered \<longleftrightarrow>
     list_ex (opened reads) (p_paths p) \<or> list_ex (read_episode reads) (p_episodes p) \<or>
     list_ex (\<lambda>s. s \<in> set delivered) (p_seqs p)"

text \<open>The share is a decimal with two places, kept in hundredths: \<open>quantize\<close> rounds half to even,
  and an entry has at most four parts, so the quotient is exact or a third.\<close>

definition share_cents :: "nat \<Rightarrow> nat \<Rightarrow> nat" where
  "share_cents got n =
    (let q = 100 * got div n; r = 100 * got mod n
     in if 2 * r > n \<or> (2 * r = n \<and> odd q) then q + 1 else q)"

definition show_cents :: "nat \<Rightarrow> string" where
  "show_cents n = show_nat (n div 100) @ ''.'' @
    (if n mod 100 < 10 then ''0'' @ show_nat (n mod 100) else show_nat (n mod 100))"

definition verify ::
  "(string \<Rightarrow> bool) \<Rightarrow> (string \<Rightarrow> bool) \<Rightarrow> entry \<Rightarrow> pass_reads \<Rightarrow> int list \<Rightarrow> bool \<times> string list \<times> string" where
  "verify has_summary has_procedure e reads delivered =
    (let parts = material has_summary has_procedure e;
         got = filter (\<lambda>p. satisfied p reads delivered) parts;
         required = filter p_required parts
     in (required \<noteq> [] \<and> list_all (\<lambda>p. p \<in> set got) required,
         map p_name got,
         if parts \<noteq> [] then show_cents (share_cents (length got) (length parts)) else ''0''))"

abbreviation verified ::
  "(string \<Rightarrow> bool) \<Rightarrow> (string \<Rightarrow> bool) \<Rightarrow> entry \<Rightarrow> pass_reads \<Rightarrow> int list \<Rightarrow> bool" where
  "verified hs hp e reads delivered \<equiv> fst (verify hs hp e reads delivered)"

section \<open>Messages and waiting\<close>

definition str_refs :: "jrow \<Rightarrow> string \<Rightarrow> string list" where
  "str_refs r k = str_items (jget r k)"

definition typed_ref :: "string \<Rightarrow> bool" where
  "typed_ref x \<longleftrightarrow> starts_with ''item:'' x \<or> starts_with ''capture:'' x \<or> starts_with ''entry:'' x"

definition carries_content :: "jrow \<Rightarrow> json list \<Rightarrow> bool" where
  "carries_content r writer_seqs \<longleftrightarrow>
     list_ex typed_ref (str_refs r ''refs'') \<or>
     (jget r ''reply_to'' \<noteq> JNull \<and> jget r ''reply_to'' \<in> set writer_seqs) \<or>
     jget r ''role'' \<notin> {JStr ''fork'', JStr ''harness''}"

definition wants_pass :: "entry \<Rightarrow> bool" where
  "wants_pass e \<longleftrightarrow> e_state e = Open \<and> (e_kind e \<noteq> Message \<or> e_carries e)"

definition pass_episodes :: "(string \<Rightarrow> string option) \<Rightarrow> entry list \<Rightarrow> string list" where
  "pass_episodes resolve es = dedup (List.map_filter resolve (concat (map (\<lambda>e. r_episodes (e_refs e)) es)))"

definition entry_ready :: "(string \<Rightarrow> string option) \<Rightarrow> entry \<Rightarrow> bool" where
  "entry_ready resolve e \<longleftrightarrow> list_all (\<lambda>ep. resolve ep \<noteq> None) (r_episodes (e_refs e))"

text \<open>\<open>isinstance(v, int)\<close> holds of a boolean too.\<close>

fun py_int :: "json \<Rightarrow> int option" where
  "py_int (JInt n) = Some n"
| "py_int (JBool b) = Some (if b then 1 else 0)"
| "py_int _ = None"

definition actor_to_writer :: "json \<Rightarrow> bool" where
  "actor_to_writer v \<longleftrightarrow>
     (case v of
        JObj r \<Rightarrow>
          py_int (jget r ''seq'') \<noteq> None \<and>
          (jget r ''role'' = JStr ''actor'' \<or>
           (jget r ''role'' = JNull \<and>
            (case as_str (jget r ''author'') of Some a \<Rightarrow> starts_with ''actor-'' a | None \<Rightarrow> False))) \<and>
          ''writer'' \<in> set (str_refs r ''mentions'')
      | _ \<Rightarrow> False)"


section \<open>Lemmas\<close>

lemma material_required: "\<exists>p\<in>set (material hs hp e). p_required p"
  by (cases "e_kind e") (simp_all add: material_def Let_def mk_part_def)

lemma verified_iff:
  "verified hs hp e reads delivered \<longleftrightarrow>
   (\<forall>p\<in>set (material hs hp e). p_required p \<longrightarrow> satisfied p reads delivered)"
  using material_required [of hs hp e]
  by (auto simp: verify_def Let_def list_all_iff filter_empty_conv)

definition reads_le :: "pass_reads \<Rightarrow> pass_reads \<Rightarrow> bool" where
  "reads_le a b \<longleftrightarrow>
     set (pr_paths a) \<subseteq> set (pr_paths b) \<and>
     (\<forall>e \<in> set (keys_of (pr_episodes a)). read_episode a e \<longrightarrow> read_episode b e)"

lemma read_episode_key: "read_episode a e \<Longrightarrow> e \<in> set (keys_of (pr_episodes a))"
  by (auto simp: read_episode_def dict_get_def split: option.splits dest: map_of_Some_in_keys)

lemma satisfied_mono:
  assumes "reads_le a b" "set d \<subseteq> set d'" "satisfied p a d"
  shows "satisfied p b d'"
proof -
  have o: "opened a x \<Longrightarrow> opened b x" for x
    using assms(1) by (auto simp: reads_le_def opened_def list_ex_iff split: if_splits)
  have e: "read_episode a x \<Longrightarrow> read_episode b x" for x
    using assms(1) read_episode_key [of a x] by (auto simp: reads_le_def)
  show ?thesis using assms(2,3) by (auto simp: satisfied_def list_ex_iff dest: o e)
qed

text \<open>Reading is monotone: an entry a pass's evidence shows read stays read when the pass opens
  more paths, reads more episodes or is delivered more messages.\<close>

theorem verify_monotone:
  "verified hs hp e a d \<Longrightarrow> reads_le a b \<Longrightarrow> set d \<subseteq> set d' \<Longrightarrow> verified hs hp e b d'"
  by (auto simp: verified_iff intro: satisfied_mono)

definition sample_reads :: pass_reads where
  "sample_reads = \<lparr>pr_paths = [''/inputs/staging/ep1/summary.md''], pr_episodes = []\<rparr>"

definition sample_entry :: entry where
  "sample_entry = new_entry ''00000000000000ab'' NewExperience ''t''
     (no_refs\<lparr>r_episodes := [''ep1'']\<rparr>)"

lemma sample_verified: "verified (\<lambda>_. True) (\<lambda>_. True) sample_entry sample_reads []"
  by code_simp

theorem verify_monotone_witness:
  "verified (\<lambda>_. True) (\<lambda>_. True) sample_entry
     (sample_reads\<lparr>pr_paths := [''/tmp/x'', ''/inputs/staging/ep1/summary.md'']\<rparr>) [3]"
  by (rule verify_monotone [OF sample_verified]) (simp_all add: reads_le_def sample_reads_def)

text \<open>No entry is verified read on nothing: a pass that opened no path, read no episode and was
  delivered no message has read no entry, whatever its kind and its references are.\<close>

theorem verify_needs_evidence:
  "\<not> verified hs hp e \<lparr>pr_paths = [], pr_episodes = []\<rparr> []"
proof -
  have "\<not> satisfied p \<lparr>pr_paths = [], pr_episodes = []\<rparr> []" for p
    by (simp add: satisfied_def opened_def read_episode_def list_ex_iff)
  then show ?thesis using material_required [of hs hp e] by (auto simp: verified_iff)
qed

end
