(* ===== verification/UnionFind.thy ===== *)
theory UnionFind imports Prelude
begin

text \<open>
  The parent links \<open>unify/memory/capture_groups.py\<close> groups entries with (the local \<open>parent\<close>
  and \<open>find\<close> of \<open>groups\<close>): \<open>find_root\<close> is \<open>find\<close>, which halves the path it walks, and \<open>merge\<close>
  the linking of two roots. \<open>find_root\<close> is a partial function, so that not returning is a value;
  on links without a cycle it returns, and no walk changes which entries are together.
  \<open>merge_structure\<close> is the interface the grouping uses.
\<close>

section \<open>Following links\<close>

partial_function (option) find_root :: "('k \<Rightarrow> 'k) \<Rightarrow> 'k \<Rightarrow> ('k \<times> ('k \<Rightarrow> 'k)) option" where
  "find_root parent x =
    (if parent x = x then Some (x, parent)
     else let p = parent(x := parent (parent x)) in find_root p (p x))"

definition find_or_self :: "('k \<Rightarrow> 'k) \<Rightarrow> 'k \<Rightarrow> 'k \<times> ('k \<Rightarrow> 'k)" where
  "find_or_self parent x = (case find_root parent x of Some r \<Rightarrow> r | None \<Rightarrow> (x, parent))"

text \<open>\<open>ra, rb = find(a), find(b)\<close> and, when they differ, \<open>parent[rb] = ra\<close>.\<close>

definition merge :: "('k \<Rightarrow> 'k) \<Rightarrow> 'k \<Rightarrow> 'k \<Rightarrow> ('k \<Rightarrow> 'k)" where
  "merge parent a b =
    (let (ra, p1) = find_or_self parent a; (rb, p2) = find_or_self p1 b
     in if ra \<noteq> rb then p2(rb := ra) else p2)"

section \<open>Roots\<close>

inductive depth :: "('k \<Rightarrow> 'k) \<Rightarrow> 'k \<Rightarrow> 'k \<Rightarrow> nat \<Rightarrow> bool" for p where
  here: "p x = x \<Longrightarrow> depth p x x 0"
| up: "p x \<noteq> x \<Longrightarrow> depth p (p x) r n \<Longrightarrow> depth p x r (Suc n)"

inductive_cases depth_cases: "depth p x r n"
inductive_simps depth_at_root: "depth p x r 0"

definition root :: "('k \<Rightarrow> 'k) \<Rightarrow> 'k \<Rightarrow> 'k \<Rightarrow> bool" where
  "root p x r \<longleftrightarrow> (\<exists>n. depth p x r n)"

definition forest :: "('k \<Rightarrow> 'k) \<Rightarrow> bool" where
  "forest p \<longleftrightarrow> (\<forall>x. \<exists>r. root p x r)"

definition together :: "('k \<Rightarrow> 'k) \<Rightarrow> 'k \<Rightarrow> 'k \<Rightarrow> bool" where
  "together p x y \<longleftrightarrow> (\<exists>r. root p x r \<and> root p y r)"

lemma depth_fixpoint: "depth p x r n \<Longrightarrow> p r = r"
  by (induction rule: depth.induct)

lemma depth_unique: "depth p x r n \<Longrightarrow> depth p x s m \<Longrightarrow> r = s \<and> n = m"
  by (induction arbitrary: m rule: depth.induct) (auto elim: depth_cases)

lemma root_unique: "root p x r \<Longrightarrow> root p x s \<Longrightarrow> r = s"
  by (auto simp: root_def dest: depth_unique)

lemma root_self: "root p x r \<Longrightarrow> root p r r"
  by (auto simp: root_def dest!: depth_fixpoint intro: depth.here)

lemma root_step: "p x \<noteq> x \<Longrightarrow> root p x r \<longleftrightarrow> root p (p x) r"
  by (auto simp: root_def elim: depth_cases intro: depth.up)

lemma root_fixed: "p x = x \<Longrightarrow> root p x r \<longleftrightarrow> r = x"
  by (auto simp: root_def elim: depth_cases intro: depth.here)

lemma depth_parent: "depth p x r n \<Longrightarrow> depth p (p x) r (n - 1)"
  by (erule depth_cases) (auto intro: depth.here)

text \<open>Halving the path at an entry keeps every root and makes no path longer.\<close>

lemma halving:
  assumes "p x \<noteq> x" and q: "q = p(x := p (p x))"
  shows "depth p y r n \<Longrightarrow> \<exists>m\<le>n. depth q y r m"
proof (induction n arbitrary: y rule: less_induct)
  case (less n)
  have qx: "q x = p (p x)" and qy: "\<And>y. y \<noteq> x \<Longrightarrow> q y = p y" by (simp_all add: q)
  show ?case
  proof (cases "p y = y")
    case True
    then have "q y = y" using assms(1) qy by metis
    moreover have "r = y" "n = 0" using less.prems True by (auto elim: depth_cases)
    ultimately show ?thesis by (auto intro: depth.here)
  next
    case False
    then obtain k where k: "n = Suc k" "depth p (p y) r k" using less.prems by (auto elim: depth_cases)
    show ?thesis
    proof (cases "y = x")
      case False
      obtain m where "m \<le> k" "depth q (p y) r m" using less.IH [of k "p y"] k by auto
      then have "depth q y r (Suc m)" using False \<open>p y \<noteq> y\<close> qy by (metis depth.up)
      then show ?thesis using \<open>m \<le> k\<close> k by (intro exI [of _ "Suc m"]) simp
    next
      case True
      obtain m where m: "m \<le> k - 1" "depth q (p (p x)) r m"
        using less.IH [of "k - 1" "p (p x)"] depth_parent [OF k(2)] k(1) True by fastforce
      show ?thesis
      proof (cases "p (p x) = x")
        case True
        then show ?thesis using m k(1) \<open>y = x\<close> by (intro exI [of _ m]) auto
      next
        case False
        then have up: "depth q x r (Suc m)" using m qx by (metis depth.up)
        have "m = 0 \<or> Suc m \<le> k" using m(1) by auto
        then show ?thesis using up \<open>y = x\<close> k(1) by (intro exI [of _ "Suc m"]) auto
      qed
    qed
  qed
qed

lemma halving_root:
  assumes "p x \<noteq> x" "root p y s"
  shows "root (p(x := p (p x))) y s"
proof -
  define q where "q = p(x := p (p x))"
  obtain n where "depth p y s n" using assms(2) by (auto simp: root_def)
  from halving [where p = p and x = x, OF assms(1) q_def this] show ?thesis
    unfolding q_def [symmetric] root_def by blast
qed

lemma find_root_depth:
  "depth p x r n \<Longrightarrow>
   \<exists>q. find_root p x = Some (r, q) \<and> (\<forall>y s. root p y s \<longrightarrow> root q y s)"
proof (induction n arbitrary: p x rule: less_induct)
  case (less n)
  show ?case
  proof (cases "p x = x")
    case True
    then have "r = x" using less.prems by (auto elim: depth_cases)
    then show ?thesis using True by (subst find_root.simps) auto
  next
    case False
    define h where "h = p(x := p (p x))"
    have hx: "h x = p (p x)" by (simp add: h_def)
    obtain k where k: "n = Suc k" "depth p (p x) r k" using less.prems False by (auto elim: depth_cases)
    obtain m where m: "m \<le> k - 1" "depth h (p (p x)) r m"
      using halving [where p = p and x = x, OF False h_def depth_parent [OF k(2)]] by blast
    then have "m < n" using k(1) by simp
    from less.IH [OF this m(2)]
    obtain q where "find_root h (p (p x)) = Some (r, q)" "\<forall>y s. root h y s \<longrightarrow> root q y s"
      by auto
    moreover have "root p y s \<longrightarrow> root h y s" for y s
      using halving_root [where p = p and x = x, OF False] unfolding h_def by blast
    moreover have "find_root p x = find_root h (p (p x))"
      using False by (subst find_root.simps) (simp add: Let_def hx flip: h_def)
    ultimately show ?thesis by auto
  qed
qed

lemma forest_depth: "forest p \<Longrightarrow> \<exists>r n. depth p x r n"
  by (simp add: forest_def root_def)

text \<open>C36. Finding the root of an entry returns whenever the links have no cycle, gives the entry's root,
  and the links it shortens lead every entry to the root it had.\<close>

theorem find_root_returns:
  assumes "forest parent"
  shows "\<exists>r q. find_root parent x = Some (r, q) \<and> root parent x r \<and> forest q \<and>
    (\<forall>y s. root q y s \<longleftrightarrow> root parent y s)"
proof -
  obtain r n where r: "depth parent x r n" using forest_depth [OF assms] by blast
  obtain q where q: "find_root parent x = Some (r, q)" "\<forall>y s. root parent y s \<longrightarrow> root q y s"
    using find_root_depth [OF r] by auto
  moreover have "forest q" using assms q(2) by (auto simp: forest_def) meson
  moreover have "root q y s \<longleftrightarrow> root parent y s" for y s
    using assms q(2) root_unique [of q y] unfolding forest_def by metis
  moreover have "root parent x r" using r by (auto simp: root_def)
  ultimately show ?thesis by blast
qed

definition sample_links :: "nat \<Rightarrow> nat" where "sample_links x = x - 1"

lemma sample_links_forest: "forest sample_links"
proof -
  have "depth sample_links x 0 x" for x
    by (induction x) (auto simp: sample_links_def intro: depth.here depth.up)
  then show ?thesis by (auto simp: forest_def root_def)
qed

theorem find_root_returns_witness: "\<exists>r q. find_root sample_links 3 = Some (r, q) \<and> root sample_links 3 r"
  using find_root_returns [OF sample_links_forest, of 3] by blast

section \<open>Linking\<close>

lemma find_or_self_forest:
  assumes "forest p"
  obtains r q where "find_or_self p x = (r, q)" "root p x r" "forest q" "\<And>y s. root q y s \<longleftrightarrow> root p y s"
proof -
  obtain n r where r: "depth p x r n" using forest_depth [OF assms] by blast
  obtain q where q: "find_root p x = Some (r, q)" "\<forall>y s. root p y s \<longrightarrow> root q y s"
    using find_root_depth [OF r] by auto
  have same: "root q y s \<longleftrightarrow> root p y s" for y s
    using assms q(2) root_unique [of q y] unfolding forest_def by metis
  then have "forest q" using assms by (simp add: forest_def)
  then show thesis using that [of r q] q(1) r same by (auto simp: find_or_self_def root_def)
qed

lemma link_root:
  assumes "p ra = ra" "p rb = rb" "ra \<noteq> rb"
  shows "depth p x s n \<Longrightarrow> root (p(rb := ra)) x (if s = rb then ra else s)"
proof (induction rule: depth.induct)
  case (here x)
  have "root (p(rb := ra)) ra ra" using assms by (simp add: root_fixed)
  then show ?case using here assms by (cases "x = rb") (simp_all add: root_fixed root_step)
next
  case (up x r n)
  then have "x \<noteq> rb" using assms by auto
  then show ?case using up by (simp add: root_step)
qed

lemma link_together:
  assumes "forest p" "p ra = ra" "p rb = rb" "ra \<noteq> rb"
  shows "forest (p(rb := ra))"
    and "root p x s \<Longrightarrow> root (p(rb := ra)) x t \<longleftrightarrow> t = (if s = rb then ra else s)"
proof -
  have l: "root p x s \<Longrightarrow> root (p(rb := ra)) x (if s = rb then ra else s)" for x s
    using link_root [OF assms(2-4)] unfolding root_def [of p] by blast
  show "forest (p(rb := ra))" using assms(1) l by (auto simp: forest_def) metis
  show "root p x s \<Longrightarrow> root (p(rb := ra)) x t \<longleftrightarrow> t = (if s = rb then ra else s)"
    using l [of x s] root_unique by metis
qed

lemma together_root: "root p x r \<Longrightarrow> root p y s \<Longrightarrow> together p x y \<longleftrightarrow> r = s"
  by (auto simp: together_def dest: root_unique)

lemma merge_forest:
  assumes "forest p"
  shows "forest (merge p a b)"
    and "together (merge p a b) x y \<longleftrightarrow>
      together p x y \<or> (together p x a \<and> together p b y) \<or> (together p x b \<and> together p a y)"
proof -
  obtain ra q where q: "find_or_self p a = (ra, q)" "root p a ra" "forest q"
    and qr: "\<And>y s. root q y s \<longleftrightarrow> root p y s"
    using find_or_self_forest [OF assms, where x = a] by metis
  obtain rb q' where q': "find_or_self q b = (rb, q')" "root q b rb" "forest q'"
    and qr': "\<And>y s. root q' y s \<longleftrightarrow> root q y s"
    using find_or_self_forest [OF q(3), where x = b] by metis
  have same: "root q' y s \<longleftrightarrow> root p y s" for y s by (simp add: qr qr')
  have fixed: "q' ra = ra" "q' rb = rb"
    using q(2) q'(2) root_self same qr depth_fixpoint by (metis root_def)+
  obtain rx ry where xy: "root p x rx" "root p y ry" using assms by (meson forest_def)
  have b: "root p b rb" using q'(2) qr by simp
  have m: "merge p a b = (if ra \<noteq> rb then q'(rb := ra) else q')" by (simp add: merge_def q q')
  show "forest (merge p a b)" using q'(3) link_together(1) [OF q'(3) fixed] by (simp add: m)
  have r: "root (merge p a b) z (if s = rb then ra else s)" if "root p z s" for z s
    using that same link_together(2) [OF q'(3) fixed] by (auto simp: m)
  show "together (merge p a b) x y \<longleftrightarrow>
      together p x y \<or> (together p x a \<and> together p b y) \<or> (together p x b \<and> together p a y)"
    using together_root [OF r [OF xy(1)] r [OF xy(2)]] together_root [OF xy]
      together_root [OF xy(1) q(2)] together_root [OF b xy(2)] together_root [OF xy(1) b]
      together_root [OF q(2) xy(2)]
    by auto
qed

lemma forest_start: "forest (\<lambda>x. x)"
  by (auto simp: forest_def root_fixed)

lemma together_start: "together (\<lambda>x. x) x y \<longleftrightarrow> x = y"
  by (auto simp: together_def root_fixed)

lemma together_refl: "forest p \<Longrightarrow> together p x x"
  by (auto simp: forest_def together_def)

lemma together_trans: "together p x y \<Longrightarrow> together p y z \<Longrightarrow> together p x z"
  by (auto simp: together_def dest: root_unique)

section \<open>The interface of the grouping\<close>

lemma rtranclp_chain: "R u c \<Longrightarrow> R c d \<Longrightarrow> R d v \<Longrightarrow> R\<^sup>*\<^sup>* u v"
  by (meson converse_rtranclp_into_rtranclp rtranclp.rtrancl_refl)

text \<open>A structure that says which keys are together, and can put two of them together and nothing else
  with them. Putting the pairs of a list together makes exactly their connected components.\<close>

locale merge_structure =
  fixes same :: "'s \<Rightarrow> 'k \<Rightarrow> 'k \<Rightarrow> bool"
    and join :: "'s \<Rightarrow> 'k \<Rightarrow> 'k \<Rightarrow> 's"
    and ok :: "'s \<Rightarrow> bool"
  assumes same_refl: "ok s \<Longrightarrow> same s x x"
    and same_trans: "same s x y \<Longrightarrow> same s y z \<Longrightarrow> same s x z"
    and join_ok: "ok s \<Longrightarrow> ok (join s a b)"
    and same_join: "ok s \<Longrightarrow> same (join s a b) x y \<longleftrightarrow>
      same s x y \<or> (same s x a \<and> same s b y) \<or> (same s x b \<and> same s a y)"
begin

definition join_all :: "'s \<Rightarrow> ('k \<times> 'k) list \<Rightarrow> 's" where
  "join_all s es = foldl (\<lambda>s (a, b). join s a b) s es"

lemma join_all_ok: "ok s \<Longrightarrow> ok (join_all s es)"
  unfolding join_all_def by (induction es arbitrary: s) (auto intro: join_ok)

lemma join_all_Cons: "join_all s ((a, b) # es) = join_all (join s a b) es"
  by (simp add: join_all_def)

lemma same_grows: "ok s \<Longrightarrow> same s x y \<Longrightarrow> same (join_all s es) x y"
proof (induction es arbitrary: s)
  case (Cons e es)
  then show ?case by (cases e) (simp add: join_all_Cons join_ok same_join)
qed (simp add: join_all_def)

lemma same_edge: "ok s \<Longrightarrow> (a, b) \<in> set es \<Longrightarrow> same (join_all s es) a b \<and> same (join_all s es) b a"
proof (induction es arbitrary: s)
  case (Cons e es)
  obtain c d where e: "e = (c, d)" by (cases e)
  show ?case
  proof (cases "(a, b) = e")
    case True
    then have "same (join s c d) a b" "same (join s c d) b a"
      using Cons.prems(1) by (auto simp: e same_join same_refl)
    then show ?thesis using Cons.prems(1) by (simp add: e join_all_Cons join_ok same_grows)
  next
    case False
    then have "(a, b) \<in> set es" using Cons.prems(2) by simp
    then show ?thesis using Cons.IH Cons.prems(1) by (simp only: e join_all_Cons join_ok)
  qed
qed simp

definition edge :: "('k \<times> 'k) list \<Rightarrow> 'k \<Rightarrow> 'k \<Rightarrow> bool" where
  "edge es x y \<longleftrightarrow> (x, y) \<in> set es \<or> (y, x) \<in> set es"

lemma same_path:
  assumes "ok s" "(edge es)\<^sup>*\<^sup>* x y"
  shows "same (join_all s es) x y"
  using assms(2)
proof (induction rule: rtranclp_induct)
  case base
  show ?case by (rule same_refl) (rule join_all_ok [OF assms(1)])
next
  case (step y z)
  then show ?case using same_edge [OF assms(1)] unfolding edge_def by (meson same_trans)
qed

lemma path_same:
  "ok s \<Longrightarrow> same (join_all s es) x y \<Longrightarrow> (\<lambda>x y. same s x y \<or> edge es x y)\<^sup>*\<^sup>* x y"
proof (induction es arbitrary: s x y)
  case Nil
  then show ?case by (auto simp: join_all_def)
next
  case (Cons e es)
  obtain a b where e: "e = (a, b)" by (cases e)
  let ?R = "\<lambda>x y. same s x y \<or> edge (e # es) x y"
  have ab: "?R a b" "?R b a" by (auto simp: e edge_def)
  have hop: "?R\<^sup>*\<^sup>* u v" if "same (join s a b) u v \<or> edge es u v" for u v
  proof -
    have chain: "?R\<^sup>*\<^sup>* u v" if "?R u c" "?R c d" "?R d v" for c d
      using that by (rule rtranclp_chain [where R = ?R])
    from that Cons.prems(1) consider "?R u v" | "same s u a" "same s b v" | "same s u b" "same s a v"
      by (auto simp: same_join edge_def)
    then show ?thesis
    proof cases
      case 1
      then show ?thesis by (rule r_into_rtranclp)
    next
      case 2
      show ?thesis by (rule chain [OF _ ab(1)]) (use 2 in simp_all)
    next
      case 3
      show ?thesis by (rule chain [OF _ ab(2)]) (use 3 in simp_all)
    qed
  qed
  have "(\<lambda>x y. same (join s a b) x y \<or> edge es x y)\<^sup>*\<^sup>* x y"
    using Cons by (auto simp: e join_all_Cons join_ok)
  then show ?case
  proof (induction rule: rtranclp_induct)
    case (step y z)
    show ?case by (rule rtranclp_trans [OF step.IH hop [OF step.hyps(2)]])
  qed simp
qed

theorem components:
  assumes "ok s" "\<And>x y. same s x y \<longleftrightarrow> x = y"
  shows "same (join_all s es) x y \<longleftrightarrow> (edge es)\<^sup>*\<^sup>* x y"
proof
  assume "same (join_all s es) x y"
  from path_same [OF assms(1) this] show "(edge es)\<^sup>*\<^sup>* x y"
    unfolding assms(2) by (induction rule: rtranclp_induct) (auto intro: rtranclp.rtrancl_into_rtrancl)
qed (rule same_path [OF assms(1)])

end

interpretation forests: merge_structure together merge forest
  by unfold_locales (simp_all add: together_refl together_trans merge_forest)

end
