(* ===== verification/CaptureGroups.thy ===== *)
theory CaptureGroups imports AttentionMaterial UnionFind
begin

text \<open>
  The grouping of captures for a writer's pass (\<open>unify/memory/capture_groups.py\<close>: \<open>Profile\<close>,
  \<open>Group\<close>, \<open>call_features\<close>, \<open>common_features\<close>, \<open>related\<close>, \<open>joins\<close>, \<open>reasons\<close>,
  \<open>groups\<close>, \<open>by_strength\<close>, \<open>group_doc\<close>). \<open>profile_of\<close>, what the home's records say of an
  entry's capture, and \<open>time_of\<close>, the time an ISO text names, are arguments.
\<close>

section \<open>Profiles and relations\<close>

definition HISTORY_MAX :: nat where "HISTORY_MAX = 8"
definition SEQUENCE_MIN :: nat where "SEQUENCE_MIN = 2"
definition ENVELOPE_MIN :: nat where "ENVELOPE_MIN = 3"
definition NO_CAPTURE :: string where "NO_CAPTURE = ''no_capture''"
definition ENDED :: string where "ENDED = ''ended''"
definition GIVEN_UP :: string where "GIVEN_UP = ''group_given_up''"
definition GROUPED_KINDS :: "kind list" where "GROUPED_KINDS = [NewExperience]"
definition RELATION_KINDS :: "string list" where
  "RELATION_KINDS = [''sequence'', ''subsequence'', ''items'', ''input'', ''judged'']"

text \<open>A field the code keeps as a set is a list read through \<^const>\<open>set\<close>.\<close>

record profile =
  pf_entry :: string
  pf_captures :: "string list"
  pf_form :: "string option"
  pf_effects :: "string list"
  pf_input :: "string list"
  pf_items :: "string list"
  pf_outcome :: "string option"
  pf_sequence :: "string list"
  pf_kin :: "string list"

record relation =
  rel_a :: string
  rel_b :: string
  rel_why :: "string list"

record group =
  g_id :: string
  g_open :: "entry list"
  g_context :: "entry list"
  g_pending :: bool
  g_relations :: "relation list"
  g_due :: "string option"

definition has_material :: "entry \<Rightarrow> bool" where
  "has_material e \<longleftrightarrow> r_captures (e_refs e) \<noteq> [] \<or> r_notes (e_refs e) \<noteq> []"

text \<open>The runs \<open>seq[i : i + SEQUENCE_MIN]\<close>.\<close>

fun runs :: "string list \<Rightarrow> string list list" where
  "runs (x # y # zs) = [x, y] # runs (y # zs)"
| "runs _ = []"

definition call_features :: "profile \<Rightarrow> string list list" where
  "call_features p =
    runs (pf_sequence p) @
    (if length (pf_sequence p) \<ge> SEQUENCE_MIN then [pf_sequence p] else [])"

definition common_features :: "profile list \<Rightarrow> string list list" where
  "common_features profiles =
    (let calling = filter (\<lambda>p. pf_sequence p \<noteq> []) profiles;
         count = (\<lambda>f. length (filter (\<lambda>p. f \<in> set (call_features p)) calling))
     in filter (\<lambda>f. count f \<ge> ENVELOPE_MIN \<and> 2 * count f > length calling)
          (dedup (concat (map call_features calling))))"

definition called_captures :: "profile \<Rightarrow> profile \<Rightarrow> string list" where
  "called_captures a b =
    filter (\<lambda>i. i \<in> set (pf_items b)) (map (\<lambda>c. CAPTURE_PREFIX @ c) (pf_captures a))"

definition sequence_reason :: "profile \<Rightarrow> profile \<Rightarrow> string list list \<Rightarrow> string list" where
  "sequence_reason a b common =
    (let sa = pf_sequence a
     in if length sa \<ge> SEQUENCE_MIN \<and> sa = pf_sequence b \<and> sa \<notin> set common
        then [''sequence: '' @ join_str '' > '' (take 8 sa) @ (if length sa > 8 then '' > ...'' else [])]
        else let rs = filter (\<lambda>r. length r = SEQUENCE_MIN)
                   (sorted_set (filter (\<lambda>f. f \<in> set (call_features b) \<and> f \<notin> set common) (call_features a)))
             in if rs \<noteq> [] then [''subsequence: '' @ join_str '' > '' (hd rs)] else [])"

definition item_reason :: "profile \<Rightarrow> profile \<Rightarrow> string list" where
  "item_reason a b =
    (let items = sorted_set (filter (\<lambda>i. i \<in> set (pf_items b)) (pf_items a) @
                   called_captures a b @ called_captures b a)
     in if items \<noteq> [] then [''items: '' @ join_str '', '' (take 5 items)] else [])"

definition related :: "profile \<Rightarrow> profile \<Rightarrow> string list list \<Rightarrow> string list" where
  "related a b common =
    sequence_reason a b common @ item_reason a b @
    (if pf_input a \<noteq> [] \<and> set (pf_input a) = set (pf_input b) then [''input''] else []) @
    (if pf_entry b \<in> set (pf_kin a) \<or> pf_entry a \<in> set (pf_kin b) then [''judged''] else [])"

definition reason_kind :: "string \<Rightarrow> string" where
  "reason_kind w = before (CHR '':'') w"

definition joins :: "string list \<Rightarrow> bool" where
  "joins why \<longleftrightarrow> list_ex (\<lambda>w. reason_kind w \<noteq> ''input'') why"

definition reasons :: "relation list \<Rightarrow> (string \<times> nat) list" where
  "reasons rows =
    (''pairs'', length rows) #
    map (\<lambda>k. (k, length (filter (\<lambda>r. list_ex (\<lambda>w. reason_kind w = k) (rel_why r)) rows))) RELATION_KINDS"

section \<open>Groups\<close>

definition age_key :: "entry \<Rightarrow> string \<times> string" where
  "age_key e = (e_created_at e, e_id e)"

definition grouped :: "ledger_state \<Rightarrow> entry list" where
  "grouped entries =
    filter (\<lambda>e. e_kind e \<in> set GROUPED_KINDS \<and> e_state e \<in> {Open, Handed, ReadIn, Closed} \<and> has_material e)
      (map snd entries)"

text \<open>The pairs \<open>(a, b)\<close> with \<open>a\<close> before \<open>b\<close>, in the order of the two loops.\<close>

fun ordered_pairs :: "'a list \<Rightarrow> ('a \<times> 'a) list" where
  "ordered_pairs [] = []"
| "ordered_pairs (x # xs) = map (Pair x) xs @ ordered_pairs xs"

definition related_pairs :: "(entry \<Rightarrow> profile) \<Rightarrow> entry list \<Rightarrow> relation list" where
  "related_pairs profile_of es =
    (let common = common_features (map profile_of es)
     in List.map_filter (\<lambda>(a, b).
          if e_state a = Closed \<and> e_state b = Closed then None
          else let why = related (profile_of a) (profile_of b) common
               in if joins why then Some \<lparr>rel_a = e_id a, rel_b = e_id b, rel_why = why\<rparr> else None)
        (ordered_pairs es))"

definition links :: "relation list \<Rightarrow> (string \<Rightarrow> string)" where
  "links pairs = foldl (\<lambda>p r. merge p (rel_a r) (rel_b r)) (\<lambda>x. x) pairs"

definition root_of :: "(string \<Rightarrow> string) \<Rightarrow> string \<Rightarrow> string" where
  "root_of parent x = fst (find_or_self parent x)"

text \<open>\<open>members\<close>: the grouped entries by the root of their id, both in ledger order.\<close>

definition members :: "(string \<Rightarrow> string) \<Rightarrow> entry list \<Rightarrow> (string \<times> entry list) list" where
  "members parent es =
    map (\<lambda>r. (r, filter (\<lambda>e. root_of parent (e_id e) = r) es))
      (dedup (map (\<lambda>e. root_of parent (e_id e)) es))"

text \<open>How strongly an earlier entry is related to the open members.\<close>

definition strength :: "entry list \<Rightarrow> relation list \<Rightarrow> string \<Rightarrow> nat" where
  "strength mine rels x =
    (let ms = set (map e_id mine)
     in if x \<in> ms then 0
        else sum_list (map (\<lambda>r. (if rel_a r = x \<and> rel_b r \<in> ms then length (rel_why r) else 0) +
                                (if rel_b r = x \<and> rel_a r \<in> ms then length (rel_why r) else 0)) rels))"

definition neg_time :: "(string \<Rightarrow> int option) \<Rightarrow> string \<Rightarrow> int" where
  "neg_time time_of at = (case time_of at of Some t \<Rightarrow> - t | None \<Rightarrow> 0)"

definition by_strength ::
  "(string \<Rightarrow> int option) \<Rightarrow> entry list \<Rightarrow> relation list \<Rightarrow> entry list \<Rightarrow> entry list" where
  "by_strength time_of mine rels context_es =
    sort_key (\<lambda>e. (- int (strength mine rels (e_id e)), neg_time time_of (e_created_at e), e_id e)) context_es"

definition due_of :: "bool \<Rightarrow> entry list \<Rightarrow> entry list \<Rightarrow> relation list \<Rightarrow> string option" where
  "due_of pending mine context_es rels =
    (if pending then None
     else if length mine \<ge> 2 then Some ''formed''
     else if context_es \<noteq> [] then Some ''history''
     else if rels = [] then Some ENDED
     else None)"

definition mk_group ::
  "(string \<Rightarrow> int option) \<Rightarrow> (string \<Rightarrow> string) \<Rightarrow> relation list \<Rightarrow> string \<Rightarrow> entry list \<Rightarrow> group option" where
  "mk_group time_of parent pairs rt es =
    (let mine = sort_key age_key (filter (\<lambda>e. e_state e = Open) es)
     in if mine = [] then None
        else let rels = filter (\<lambda>r. root_of parent (rel_a r) = rt) pairs;
                 closed = sort_key age_key (filter (\<lambda>e. e_state e = Closed) es);
                 context_es = take HISTORY_MAX (by_strength time_of mine rels closed);
                 pending = list_ex (\<lambda>e. e_state e = Handed \<or> e_state e = ReadIn) es
             in Some \<lparr>g_id = e_id (hd (sort_key age_key es)), g_open = mine, g_context = context_es,
                      g_pending = pending, g_relations = rels,
                      g_due = due_of pending mine context_es rels\<rparr>)"

definition groups :: "(string \<Rightarrow> int option) \<Rightarrow> (entry \<Rightarrow> profile) \<Rightarrow> ledger_state \<Rightarrow> group list" where
  "groups time_of profile_of entries =
    (let es = grouped entries
     in if \<not> list_ex (\<lambda>e. e_state e = Open) es then []
        else let pairs = related_pairs profile_of es; parent = links pairs
             in sort_key (\<lambda>g. age_key (hd (g_open g)))
                  (List.map_filter (\<lambda>(r, ms). mk_group time_of parent pairs r ms) (members parent es)))"

section \<open>The document a pass is given\<close>

definition member_row :: "(entry \<Rightarrow> profile) \<Rightarrow> entry \<Rightarrow> json" where
  "member_row profile_of e =
    (let p = profile_of e
     in JObj ([(''entry'', JStr (e_id e)), (''kind'', JStr (kind_name (e_kind e))),
         (''episodes'', jstrs (r_episodes (e_refs e))), (''captures'', jstrs (pf_captures p)),
         (''form'', jopt (pf_form p)), (''outcome'', jopt (pf_outcome p)),
         (''effects'', jstrs (sorted_set (pf_effects p))), (''sequence'', jstrs (pf_sequence p)),
         (''used_items'', jstrs (sorted_set (pf_items p))),
         (''notes'', jstrs (map (\<lambda>n. ''/inputs/staging/'' @ n) (r_notes (e_refs e))))] @
        (if e_state e = Closed then
           [(''decision'', jopt (map_option decision_name (e_decision e))),
            (''decided_items'', jstrs (e_decided_items e))] @
           (if e_reason_ref e = Some GIVEN_UP
            then [(''closed_by'', JStr ''the harness: no pass finished its group'')] else [])
         else [])))"

definition relation_row :: "relation \<Rightarrow> json" where
  "relation_row r = JObj [(''a'', JStr (rel_a r)), (''b'', JStr (rel_b r)), (''why'', jstrs (rel_why r))]"

definition touched_items :: "(entry \<Rightarrow> profile) \<Rightarrow> (string \<Rightarrow> string option) \<Rightarrow> group \<Rightarrow> string list" where
  "touched_items profile_of landed g =
    sorted_set (concat (map (\<lambda>e.
        pf_items (profile_of e) @
        List.map_filter (\<lambda>c. case landed c of Some i \<Rightarrow> if i \<noteq> [] then Some i else None | None \<Rightarrow> None)
          (pf_captures (profile_of e)) @
        (if e_state e = Closed then e_decided_items e else []))
      (g_open g @ g_context g)))"

definition group_doc ::
  "(string \<Rightarrow> int option) \<Rightarrow> (entry \<Rightarrow> profile) \<Rightarrow> (string \<Rightarrow> string option) \<Rightarrow> group \<Rightarrow> json" where
  "group_doc time_of profile_of landed g = JObj
    [(''v'', JInt 1), (''group'', JStr (g_id g)), (''due'', jopt (g_due g)),
     (''members'', JArr (map (member_row profile_of) (g_open g))),
     (''related_closed'', JArr (map (member_row profile_of)
        (by_strength time_of (g_open g) (g_relations g) (g_context g)))),
     (''relations'', JArr (map relation_row (g_relations g))),
     (''library_items'', jstrs (touched_items profile_of landed g))]"


section \<open>Relations are symmetric\<close>

lemma sequence_reason_sym: "sequence_reason a b common = sequence_reason b a common"
proof -
  have "sorted_set (filter (\<lambda>f. f \<in> set (call_features b) \<and> f \<notin> set common) (call_features a)) =
        sorted_set (filter (\<lambda>f. f \<in> set (call_features a) \<and> f \<notin> set common) (call_features b))"
    by (rule sorted_set_eqI) auto
  then show ?thesis unfolding sequence_reason_def Let_def by auto
qed

lemma item_reason_sym: "item_reason a b = item_reason b a"
proof -
  have "sorted_set (filter (\<lambda>i. i \<in> set (pf_items b)) (pf_items a) @ called_captures a b @ called_captures b a) =
        sorted_set (filter (\<lambda>i. i \<in> set (pf_items a)) (pf_items b) @ called_captures b a @ called_captures a b)"
    by (rule sorted_set_eqI) auto
  then show ?thesis unfolding item_reason_def Let_def by simp
qed

text \<open>Why two captures are related does not depend on which of them is looked at first.\<close>

theorem related_symmetric: "related a b common = related b a common"
  unfolding related_def by (subst sequence_reason_sym, subst item_reason_sym) auto

section \<open>Groups are the connected components\<close>

lemma links_forest_from: "forest p \<Longrightarrow> forest (foldl (\<lambda>p r. merge p (rel_a r) (rel_b r)) p pairs)"
  by (induction pairs arbitrary: p) (simp_all add: merge_forest)

lemma links_forest: "forest (links pairs)"
  unfolding links_def by (rule links_forest_from) (rule forest_start)

definition connected :: "relation list \<Rightarrow> string \<Rightarrow> string \<Rightarrow> bool" where
  "connected pairs = (forests.edge (map (\<lambda>r. (rel_a r, rel_b r)) pairs))\<^sup>*\<^sup>*"

lemma links_join_all: "links pairs = forests.join_all (\<lambda>x. x) (map (\<lambda>r. (rel_a r, rel_b r)) pairs)"
  by (simp add: links_def forests.join_all_def foldl_map)

lemma links_together: "together (links pairs) x y \<longleftrightarrow> connected pairs x y"
  unfolding links_join_all connected_def
  by (rule forests.components) (simp_all add: forest_start together_start)

lemma root_of_root: "forest p \<Longrightarrow> root p x (root_of p x)"
  by (erule find_or_self_forest [where x = x]) (simp add: root_of_def)

lemma root_of_together: "forest p \<Longrightarrow> root_of p x = root_of p y \<longleftrightarrow> together p x y"
  using root_of_root [of p x] root_of_root [of p y] together_root [of p x _ y] by metis

lemma root_of_links: "root_of (links pairs) x = root_of (links pairs) y \<longleftrightarrow> connected pairs x y"
  by (simp add: root_of_together links_forest links_together)

lemma mk_group_Some:
  "mk_group t p pairs rt es = Some g \<Longrightarrow>
   set (g_open g) = {e \<in> set es. e_state e = Open} \<and> g_open g \<noteq> [] \<and> es \<noteq> [] \<and>
   g_id g \<in> e_id ` set es \<and>
   g_pending g = list_ex (\<lambda>e. e_state e = Handed \<or> e_state e = ReadIn) es \<and>
   g_relations g = filter (\<lambda>r. root_of p (rel_a r) = rt) pairs \<and>
   length (g_open g) = length (filter (\<lambda>e. e_state e = Open) es) \<and>
   (g_context g = [] \<longleftrightarrow> filter (\<lambda>e. e_state e = Closed) es = []) \<and>
   length (g_context g) \<le> HISTORY_MAX \<and> set (g_context g) \<subseteq> {e \<in> set es. e_state e = Closed} \<and>
   g_due g = due_of (g_pending g) (g_open g) (g_context g) (g_relations g)"
proof -
  assume g: "mk_group t p pairs rt es = Some g"
  let ?k = "sort_key age_key"
  have ne: "filter (\<lambda>e. e_state e = Open) es \<noteq> []"
    using g by (auto simp: mk_group_def Let_def split: if_splits dest: arg_cong [where f = set])
  then have es: "es \<noteq> []" by auto
  then have "hd (?k es) \<in> set (?k es)" by (intro list.set_sel(1)) (metis set_empty set_sort)
  then have "e_id (hd (?k es)) \<in> e_id ` set es" by simp
  then show ?thesis
    using g es ne
    by (auto simp: mk_group_def Let_def by_strength_def HISTORY_MAX_def split: if_splits
        dest!: in_set_takeD)
qed

lemma groups_Some:
  assumes "g \<in> set (groups t pf st)"
  obtains r where "mk_group t (links (related_pairs pf (grouped st))) (related_pairs pf (grouped st)) r
      (filter (\<lambda>e. root_of (links (related_pairs pf (grouped st))) (e_id e) = r) (grouped st)) = Some g"
  using assms by (auto simp: groups_def Let_def members_def List.map_filter_def split: if_splits)

lemma groups_open:
  assumes "e \<in> set (grouped st)" "e_state e = Open"
  shows "\<exists>g\<in>set (groups t pf st). e \<in> set (g_open g)"
proof -
  let ?pairs = "related_pairs pf (grouped st)"
  let ?p = "links ?pairs"
  let ?r = "root_of ?p (e_id e)"
  let ?es = "filter (\<lambda>x. root_of ?p (e_id x) = ?r) (grouped st)"
  have "e \<in> set (filter (\<lambda>e. e_state e = Open) ?es)" using assms by simp
  then have "filter (\<lambda>e. e_state e = Open) ?es \<noteq> []" by (metis empty_iff list.set(1))
  then obtain g where g: "mk_group t ?p ?pairs ?r ?es = Some g" by (simp add: mk_group_def Let_def)
  have "?r \<in> set (map (\<lambda>e. root_of ?p (e_id e)) (grouped st))" using assms by simp
  then have "(?r, ?es) \<in> set (members ?p (grouped st))" by (auto simp: members_def)
  then have "g \<in> set (groups t pf st)"
    using g assms by (force simp: groups_def Let_def List.map_filter_def list_ex_iff image_iff)
  then show ?thesis using mk_group_Some [OF g] assms by (intro bexI [of _ g]) auto
qed

text \<open>C30. The groups are the connected components of the relation: an open entry with material is in a
  group exactly when a chain of related pairs leads from the group's own id to it, and every open
  entry with material is in a group.\<close>

theorem groups_are_components:
  "\<forall>e\<in>set (grouped st). e_state e = Open \<longrightarrow>
     (\<exists>g\<in>set (groups t pf st). e \<in> set (g_open g)) \<and>
     (\<forall>g\<in>set (groups t pf st).
        e \<in> set (g_open g) \<longleftrightarrow> connected (related_pairs pf (grouped st)) (g_id g) (e_id e))"
proof (intro ballI impI conjI)
  fix e
  assume e: "e \<in> set (grouped st)" "e_state e = Open"
  then show "\<exists>g\<in>set (groups t pf st). e \<in> set (g_open g)" by (rule groups_open)
  fix g
  assume "g \<in> set (groups t pf st)"
  then obtain r where
    r: "mk_group t (links (related_pairs pf (grouped st))) (related_pairs pf (grouped st)) r
      (filter (\<lambda>e. root_of (links (related_pairs pf (grouped st))) (e_id e) = r) (grouped st)) = Some g"
    by (rule groups_Some)
  let ?p = "links (related_pairs pf (grouped st))"
  have "root_of ?p (g_id g) = r" and
    "e \<in> set (g_open g) \<longleftrightarrow> root_of ?p (e_id e) = r"
    using mk_group_Some [OF r] e by auto
  then show "e \<in> set (g_open g) \<longleftrightarrow> connected (related_pairs pf (grouped st)) (g_id g) (e_id e)"
    by (auto simp flip: root_of_links)
qed


section \<open>Which groups are due\<close>

lemma ordered_pairs_distinct:
  "distinct xs \<Longrightarrow> (a, b) \<in> set (ordered_pairs xs) \<Longrightarrow> a \<in> set xs \<and> b \<in> set xs \<and> a \<noteq> b"
  by (induction xs) auto

lemma related_pairs_entries:
  assumes "distinct es" "r \<in> set (related_pairs pf es)"
  shows "\<exists>a b. a \<in> set es \<and> b \<in> set es \<and> a \<noteq> b \<and> rel_a r = e_id a \<and> rel_b r = e_id b"
proof -
  obtain a b where "(a, b) \<in> set (ordered_pairs es)" "rel_a r = e_id a" "rel_b r = e_id b"
    using assms(2) by (auto simp: related_pairs_def Let_def List.map_filter_def split: if_splits)
  then show ?thesis using ordered_pairs_distinct [OF assms(1)] by blast
qed

lemma related_pairs_connected:
  assumes "r \<in> set (related_pairs pf es)"
  shows "root_of (links (related_pairs pf es)) (rel_a r) = root_of (links (related_pairs pf es)) (rel_b r)"
  unfolding root_of_links connected_def
  by (rule r_into_rtranclp) (use assms in \<open>force simp: forests.edge_def\<close>)

lemma two_members: "a \<in> set xs \<Longrightarrow> b \<in> set xs \<Longrightarrow> a \<noteq> b \<Longrightarrow> length xs \<ge> 2"
  by (cases xs; cases "tl xs") auto

lemma due_of_cases:
  "(due_of pending mine ctx rels = None \<longleftrightarrow> pending) \<or>
   (\<not> pending \<and> length mine < 2 \<and> ctx = [] \<and> rels \<noteq> [])"
  by (auto simp: due_of_def)

lemma mk_group_due:
  assumes "distinct es"
    and g: "mk_group t (links (related_pairs pf es)) (related_pairs pf es) r
      (filter (\<lambda>e. root_of (links (related_pairs pf es)) (e_id e) = r) es) = Some g"
    and live: "\<forall>e\<in>set es. e_state e \<in> {Open, Handed, ReadIn, Closed}"
  shows "g_due g = None \<longleftrightarrow> g_pending g"
proof (rule ccontr)
  let ?p = "links (related_pairs pf es)"
  let ?ms = "filter (\<lambda>e. root_of ?p (e_id e) = r) es"
  note s = mk_group_Some [OF g]
  assume "\<not> (g_due g = None \<longleftrightarrow> g_pending g)"
  then have np: "\<not> g_pending g" and one: "length (g_open g) < 2" and nc: "g_context g = []"
    and rels: "g_relations g \<noteq> []"
    using s due_of_cases [of "g_pending g" "g_open g" "g_context g" "g_relations g"] by metis+
  obtain q where q: "q \<in> set (g_relations g)" using rels by (cases "g_relations g") auto
  moreover have "g_relations g = filter (\<lambda>r'. root_of ?p (rel_a r') = r) (related_pairs pf es)"
    using s by blast
  ultimately have qp: "q \<in> set (related_pairs pf es)" "root_of ?p (rel_a q) = r" by simp_all
  obtain a b where ab: "a \<in> set es" "b \<in> set es" "a \<noteq> b" "rel_a q = e_id a" "rel_b q = e_id b"
    using related_pairs_entries [OF assms(1) qp(1)] by blast
  have "a \<in> set ?ms" "b \<in> set ?ms"
    using ab qp(2) related_pairs_connected [OF qp(1)] by simp_all
  note ab_ms = this
  have mem_open: "e_state e = Open" if e: "e \<in> set ?ms" for e
  proof -
    have "\<not> list_ex (\<lambda>e. e_state e = Handed \<or> e_state e = ReadIn) ?ms" using np s by blast
    then have "e_state e \<noteq> Handed \<and> e_state e \<noteq> ReadIn" using e unfolding list_ex_iff by blast
    moreover have "filter (\<lambda>e. e_state e = Closed) ?ms = []" using nc s by blast
    then have "e_state e \<noteq> Closed" using e unfolding filter_empty_conv by blast
    moreover have "e_state e \<in> {Open, Handed, ReadIn, Closed}" using live e by simp
    ultimately show ?thesis by blast
  qed
  have "filter (\<lambda>e. e_state e = Open) ?ms = ?ms" using mem_open unfolding filter_id_conv by blast
  then have "length (filter (\<lambda>e. e_state e = Open) ?ms) \<ge> 2"
    using two_members [OF ab_ms ab(3)] by presburger
  moreover have "length (g_open g) = length (filter (\<lambda>e. e_state e = Open) ?ms)" using s by blast
  ultimately show False using one by linarith
qed

lemma ledger_ok_distinct: "ledger_ok st \<Longrightarrow> distinct (map snd st)"
proof -
  assume ok: "ledger_ok st"
  then have "map fst st = map e_id (map snd st)" by (auto simp: ledger_ok_def)
  then show ?thesis using ok by (metis distinct_map ledger_ok_def)
qed

lemma grouped_distinct: "ledger_ok st \<Longrightarrow> distinct (grouped st)"
  unfolding grouped_def by (rule distinct_filter) (rule ledger_ok_distinct)

text \<open>No group waits for anything but a pass that is running: a group is due, for one of the named
  reasons, exactly when none of its members is in a running pass.\<close>

theorem group_due_unless_pending:
  assumes "ledger_ok st" "g \<in> set (groups t pf st)"
  shows "g_due g = None \<longleftrightarrow> g_pending g"
proof -
  obtain r where r: "mk_group t (links (related_pairs pf (grouped st))) (related_pairs pf (grouped st)) r
      (filter (\<lambda>e. root_of (links (related_pairs pf (grouped st))) (e_id e) = r) (grouped st)) = Some g"
    using assms(2) by (rule groups_Some)
  show ?thesis
    by (rule mk_group_due [OF grouped_distinct [OF assms(1)] r]) (auto simp: grouped_def)
qed

lemma groups_context:
  "g \<in> set (groups t pf st) \<Longrightarrow>
   length (g_context g) \<le> HISTORY_MAX \<and> (\<forall>e\<in>set (g_context g). e_state e = Closed)"
  by (erule groups_Some) (auto dest!: mk_group_Some)

definition sample_ledger :: ledger_state where
  "sample_ledger = [(''00000000000000ab'', sample_entry\<lparr>e_refs := no_refs\<lparr>r_captures := [''c1'']\<rparr>\<rparr>)]"

definition sample_profile :: "entry \<Rightarrow> profile" where
  "sample_profile e = \<lparr>pf_entry = e_id e, pf_captures = r_captures (e_refs e), pf_form = None,
     pf_effects = [], pf_input = [], pf_items = [], pf_outcome = None, pf_sequence = [], pf_kin = []\<rparr>"

theorem group_due_unless_pending_witness:
  "let g = hd (groups (\<lambda>_. None) sample_profile sample_ledger) in g_due g = None \<longleftrightarrow> g_pending g"
proof -
  have "groups (\<lambda>_. None) sample_profile sample_ledger \<noteq> []" by code_simp
  then have g: "hd (groups (\<lambda>_. None) sample_profile sample_ledger) \<in> set (groups (\<lambda>_. None) sample_profile sample_ledger)"
    by simp
  have "ledger_ok sample_ledger" by code_simp
  from group_due_unless_pending [OF this g] show ?thesis by (simp add: Let_def)
qed

theorem groups_are_components_witness:
  "\<exists>g\<in>set (groups (\<lambda>_. None) sample_profile sample_ledger). snd (hd sample_ledger) \<in> set (g_open g)"
proof -
  have "snd (hd sample_ledger) \<in> set (grouped sample_ledger)" "e_state (snd (hd sample_ledger)) = Open"
    by code_simp+
  then show ?thesis using groups_are_components [of sample_ledger "\<lambda>_. None" sample_profile] by blast
qed

end
