(* ===== verification/AttentionLedger.thy ===== *)
theory AttentionLedger imports CaptureGroups
begin

text \<open>
  The operations of the attention ledger (\<open>unify/memory/attention.py\<close>, class \<open>Ledger\<close>). The ledger
  is its rows; an operation reads the rows, decides on their fold and appends rows, all under the
  file lock, so it is one step. An operation returns its result and the rows it appends; \<open>append_rows\<close> is
  \<open>_write\<close>. \<open>env\<close> holds what the code calls outside: the SHA-256 entry id, the reading of
  an ISO time (in microseconds), one reading of the clock per operation, and the staging files.
\<close>

record env =
  eid_of :: "string \<Rightarrow> string list \<Rightarrow> string"
  time_of :: "string \<Rightarrow> int option"
  now_iso :: string
  now_time :: int
  has_summary :: "string \<Rightarrow> bool"
  has_procedure :: "string \<Rightarrow> bool"

text \<open>\<open>entry_id\<close> is the first sixteen hexadecimal digits of a SHA-256 digest.\<close>

definition env_ok :: "env \<Rightarrow> bool" where
  "env_ok env \<longleftrightarrow> (\<forall>k src. is_entry_id (eid_of env k src))"

definition with_v :: "jrow \<Rightarrow> jrow" where
  "with_v r = (if ''v'' \<in> set (keys_of r) then r else r @ [(''v'', JInt 1)])"

definition append_rows :: "jrow list \<Rightarrow> jrow list \<Rightarrow> jrow list" where
  "append_rows rows new = rows @ map with_v new"

datatype ledger_error =
    BadKind | BadPassId | BadK | BadDecision string | BadIds | NeedsItems | NeedsReason
  | UnknownEntry string | NotInPass string | NotRead "string list" | BadWhy string

definition items_row :: "string \<Rightarrow> string \<Rightarrow> (string \<times> json) list \<Rightarrow> jrow" where
  "items_row op eid more_items = (''op'', JStr op) # (''entry'', JStr eid) # more_items"

section \<open>Recording a source\<close>

definition CONTRARY_OCCURRENCE :: string where "CONTRARY_OCCURRENCE = ''contrary_occurrence''"

definition append_row :: "string \<Rightarrow> refs \<Rightarrow> string \<Rightarrow> string \<Rightarrow> jrow" where
  "append_row eid refs src at =
    items_row ''append_ref'' eid [(''refs'', refs_row refs), (''src'', JStr src), (''at'', JStr at)]"

definition append_state :: "entry \<Rightarrow> refs \<Rightarrow> string \<Rightarrow> entry" where
  "append_state e refs src =
    e\<lparr>e_refs := refs_merged (e_refs e) refs, e_sources := e_sources e @ [src]\<rparr>"

definition create_row :: "string \<Rightarrow> kind \<Rightarrow> string \<Rightarrow> refs \<Rightarrow> jrow" where
  "create_row eid k at refs =
    items_row ''create'' eid [(''kind'', JStr (kind_name k)), (''at'', JStr at), (''refs'', refs_row refs)]"

definition recorded :: "ledger_state \<Rightarrow> string \<Rightarrow> bool" where
  "recorded state eid \<longleftrightarrow>
     eid \<in> set (keys_of state) \<or> list_ex (\<lambda>e. eid \<in> set (e_sources e)) (map snd state)"

definition same_capture :: "ledger_state \<Rightarrow> kind \<Rightarrow> refs \<Rightarrow> entry list" where
  "same_capture state k refs =
    filter (\<lambda>e. e_kind e = k \<and> list_ex (\<lambda>c. c \<in> set (r_captures refs)) (r_captures (e_refs e)))
      (map snd state)"

text \<open>The rows and the state the code updates in place beside them.\<close>

definition create_rows ::
  "env \<Rightarrow> ledger_state \<Rightarrow> kind \<Rightarrow> refs \<Rightarrow> string list \<Rightarrow> string option \<Rightarrow> bool \<Rightarrow> bool \<Rightarrow>
   jrow list \<times> ledger_state" where
  "create_rows env state k refs src at_arg dup contrary =
    (let eid = eid_of env (kind_name k) src;
         at = (case at_arg of Some a \<Rightarrow> if a = [] then now_iso env else a | None \<Rightarrow> now_iso env);
         same = (if dup \<and> r_captures refs \<noteq> [] then same_capture state k refs else []);
         fresh = ([create_row eid k at refs], dict_put eid (new_entry eid k at refs) state)
     in if recorded state eid then ([], state)
        else case find active same of
          Some e \<Rightarrow> ([append_row (e_id e) refs eid at], dict_put (e_id e) (append_state e refs eid) state)
        | None \<Rightarrow>
            (case filter (\<lambda>e. e_state e = Closed) same of
               [] \<Rightarrow> fresh
             | closed \<Rightarrow>
                 let e = last closed
                 in if contrary then
                      ([append_row (e_id e) refs eid at,
                        items_row ''reopen'' (e_id e) [(''by'', JStr CONTRARY_OCCURRENCE), (''at'', JStr at)]],
                       dict_put (e_id e)
                         ((append_state e refs eid)\<lparr>e_state := Open, e_pass_id := None, e_misses := 0,
                            e_undecided := 0, e_reopen_count := e_reopen_count e + 1,
                            e_why := Some CONTRARY_OCCURRENCE\<rparr>) state)
                    else
                      ([items_row ''occurrence'' (e_id e)
                          [(''refs'', refs_row refs), (''src'', JStr eid), (''at'', JStr at)]],
                       dict_put (e_id e)
                         (e\<lparr>e_sources := e_sources e @ [eid], e_occurrences := e_occurrences e + 1\<rparr>) state)))"

definition created_id :: "jrow list \<Rightarrow> string option" where
  "created_id rows =
    (case rows of r # _ \<Rightarrow> (if jget r ''op'' = JStr ''create'' then as_str (jget r ''entry'') else None)
     | [] \<Rightarrow> None)"

definition create ::
  "env \<Rightarrow> jrow list \<Rightarrow> json \<Rightarrow> refs \<Rightarrow> string list \<Rightarrow> ledger_error + (string option \<times> jrow list)" where
  "create env rows kind_arg refs src =
    (case kind_of kind_arg of
       None \<Rightarrow> Inl BadKind
     | Some k \<Rightarrow>
         let made = fst (create_rows env (ledger_fold rows) k refs src None False False)
         in Inr (created_id made, append_rows rows made))"

section \<open>The sources sync reads\<close>

record settled_fork =
  sf_name :: string
  sf_episode :: string
  sf_output :: bool
  sf_procedure :: bool
  sf_notes :: "string list"

record use_failure =
  uf_episode :: string
  uf_item :: string
  uf_why :: string
  uf_signals :: "string list"
  uf_record_seq :: "int option"

record late_signal =
  ls_signal_id :: string
  ls_episode :: string
  ls_arrived_at :: "string option"

record episode_calls =
  ec_episode :: string
  ec_ended_at :: "string option"
  ec_items :: "string list"

record gate_refusal =
  gr_pass_id :: string
  gr_episodes :: "string list"
  gr_items :: "string list"
  gr_whole_pass :: bool

text \<open>\<open>Sources\<close>: \<open>src_scope\<close> is \<open>signal_scope\<close> (\<open>None\<close> when a signal bears on its whole
  episode), \<open>src_delivered\<close> is \<open>record_deliveries\<close>.\<close>

record sources =
  src_forks :: "settled_fork list"
  src_captures :: "(string \<times> jrow) list"
  src_failures :: "use_failure list"
  src_late :: "late_signal list"
  src_scope :: "string \<Rightarrow> string \<Rightarrow> string list option"
  src_calls :: "episode_calls list"
  src_items :: "string \<Rightarrow> string list"
  src_refusals :: "gate_refusal list"
  src_record :: "json list"
  src_delivered :: "(int \<times> string) list"

type_synonym sync_state = "jrow list \<times> ledger_state"

definition then_rows :: "sync_state \<Rightarrow> (ledger_state \<Rightarrow> jrow list \<times> ledger_state) \<Rightarrow> sync_state" where
  "then_rows st f = (let (new, state) = f (snd st) in (fst st @ new, state))"

definition fork_refs :: "settled_fork \<Rightarrow> jrow option \<Rightarrow> refs" where
  "fork_refs f cap =
    no_refs\<lparr>r_episodes := [sf_episode f],
      r_captures := (case Option.bind cap (\<lambda>c. as_str (jget c ''capture_id'')) of
                       Some cid \<Rightarrow> if cid \<noteq> [] then [cid] else [] | None \<Rightarrow> []),
      r_notes := sf_notes f\<rparr>"

definition contrary_capture :: "jrow option \<Rightarrow> bool" where
  "contrary_capture cap \<longleftrightarrow>
     (case cap of Some c \<Rightarrow> jget c ''outcome'' \<in> {JStr ''contrary'', JStr ''failed''} | None \<Rightarrow> False)"

definition fork_step :: "env \<Rightarrow> sources \<Rightarrow> sync_state \<Rightarrow> settled_fork \<Rightarrow> sync_state" where
  "fork_step env S st f =
    (let cap = map_of (src_captures S) (sf_name f)
     in if \<not> sf_output f \<or> (sf_procedure f \<and> cap = None) then st
        else then_rows st (\<lambda>state.
          create_rows env state NewExperience (fork_refs f cap) [sf_name f] None True (contrary_capture cap)))"

definition failure_refs :: "use_failure \<Rightarrow> refs" where
  "failure_refs u =
    no_refs\<lparr>r_episodes := [uf_episode u], r_items := [uf_item u], r_signals := uf_signals u,
      r_record_seq := uf_record_seq u,
      r_captures := (case strip_prefix CAPTURE_PREFIX (uf_item u) of Some c \<Rightarrow> [c] | None \<Rightarrow> [])\<rparr>"

definition failure_step :: "env \<Rightarrow> sync_state \<Rightarrow> use_failure \<Rightarrow> sync_state" where
  "failure_step env st u =
    then_rows st (\<lambda>state.
      create_rows env state UseWentBadly (failure_refs u) [uf_episode u, uf_item u] None False False)"

definition reopen_row :: "string \<Rightarrow> string \<Rightarrow> string \<Rightarrow> jrow" where
  "reopen_row eid by_entry at =
    items_row ''reopen'' eid [(''by'', JStr (''late_evidence:'' @ by_entry)), (''at'', JStr at)]"

definition bears_on :: "env \<Rightarrow> string \<Rightarrow> string list \<Rightarrow> int \<Rightarrow> entry \<Rightarrow> bool" where
  "bears_on env by_entry items when e \<longleftrightarrow>
     e_state e = Closed \<and> e_id e \<noteq> by_entry \<and>
     list_ex (\<lambda>i. i \<in> set items) (r_items (e_refs e) @ e_decided_items e) \<and>
     (case Option.bind (e_closed_at e) (time_of env) of Some c \<Rightarrow> when > c | None \<Rightarrow> True)"

text \<open>In place the code opens the entry again without resetting \<open>undecided\<close> or setting \<open>why\<close>,
  as its row does.\<close>

definition reopen_rows ::
  "env \<Rightarrow> ledger_state \<Rightarrow> string \<Rightarrow> string list \<Rightarrow> string option \<Rightarrow> jrow list \<times> ledger_state" where
  "reopen_rows env state by_entry items signal_at =
    (if items = [] then ([], state)
     else let when = (case Option.bind signal_at (time_of env) of Some t \<Rightarrow> t | None \<Rightarrow> now_time env);
              es = filter (bears_on env by_entry items when) (map snd state)
          in (map (\<lambda>e. reopen_row (e_id e) by_entry (now_iso env)) es,
              foldl (\<lambda>st e. dict_put (e_id e)
                (e\<lparr>e_state := Open, e_pass_id := None, e_misses := 0,
                   e_reopen_count := e_reopen_count e + 1\<rparr>) st) state es))"

definition late_step :: "env \<Rightarrow> sources \<Rightarrow> sync_state \<Rightarrow> late_signal \<Rightarrow> sync_state" where
  "late_step env S st s =
    (let items = (case src_scope S (ls_episode s) (ls_signal_id s) of
                    Some scoped \<Rightarrow> sorted_set scoped | None \<Rightarrow> src_items S (ls_episode s));
         refs = no_refs\<lparr>r_episodes := [ls_episode s], r_signals := [ls_signal_id s], r_items := items\<rparr>;
         (made, state) = create_rows env (snd st) LateEvidence refs [ls_signal_id s] None False False;
         st' = (fst st @ made, state)
     in case created_id made of
          Some eid \<Rightarrow> then_rows st' (\<lambda>state. reopen_rows env state eid items (ls_arrived_at s))
        | None \<Rightarrow> st')"

definition read_times :: "entry \<Rightarrow> (string \<times> string list) list" where
  "read_times e =
    (case e_first_read_at e of Some t \<Rightarrow> if t \<noteq> [] then [(t, r_items (e_refs e))] else [] | None \<Rightarrow> []) @
    (case e_closed_at e of
       Some t \<Rightarrow>
         if t \<noteq> [] \<and> e_decision e \<in> {Some NewItem, Some ChangedItem, Some MergedInto, Some NoteDecision, Some RetireItem}
         then [(t, e_decided_items e @ r_items (e_refs e))] else []
     | None \<Rightarrow> [])"

definition read_step ::
  "env \<Rightarrow> (string \<times> int) list \<Rightarrow> string \<times> string list \<Rightarrow> (string \<times> int) list" where
  "read_step env out ti =
    (case time_of env (fst ti) of
       None \<Rightarrow> out
     | Some when \<Rightarrow>
         foldl (\<lambda>out i. case map_of out i of
                    Some t \<Rightarrow> if when > t then dict_put i when out else out
                  | None \<Rightarrow> dict_put i when out) out (snd ti))"

definition last_read_of :: "env \<Rightarrow> ledger_state \<Rightarrow> (string \<times> int) list" where
  "last_read_of env state = foldl (read_step env) [] (concat (map (read_times \<circ> snd) state))"

definition calls_by_item :: "episode_calls list \<Rightarrow> string \<Rightarrow> episode_calls list" where
  "calls_by_item calls item =
    concat (map (\<lambda>c. map (\<lambda>_. c) (filter (\<lambda>i. i = item) (ec_items c))) calls)"

definition called_since :: "env \<Rightarrow> int option \<Rightarrow> episode_calls \<Rightarrow> bool" where
  "called_since env seen c \<longleftrightarrow>
     (case seen of
        None \<Rightarrow> True
      | Some t \<Rightarrow> (case Option.bind (ec_ended_at c) (time_of env) of Some w \<Rightarrow> w > t | None \<Rightarrow> True))"

definition REPEATED_USE_EPISODES :: nat where "REPEATED_USE_EPISODES = 2"

definition repeated_step ::
  "env \<Rightarrow> (string \<times> int) list \<Rightarrow> episode_calls list \<Rightarrow> sync_state \<Rightarrow> string \<Rightarrow> sync_state" where
  "repeated_step env seen calls st item =
    (let new = dedup (map ec_episode (filter (called_since env (map_of seen item)) (calls_by_item calls item)))
     in case find (\<lambda>e. e_kind e = RepeatedUse \<and> active e \<and> item \<in> set (r_items (e_refs e)))
             (map snd (snd st)) of
          Some e \<Rightarrow>
            (let extra = filter (\<lambda>x. x \<notin> set (r_episodes (e_refs e))) new;
                 refs = no_refs\<lparr>r_episodes := extra\<rparr>
             in if extra = [] then st
                else (fst st @ [append_row (e_id e) refs (eid_of env ''repeated_use'' (item # extra)) (now_iso env)],
                      dict_put (e_id e) (e\<lparr>e_refs := refs_merged (e_refs e) refs\<rparr>) (snd st)))
        | None \<Rightarrow>
            if length new \<ge> REPEATED_USE_EPISODES
            then then_rows st (\<lambda>state.
              create_rows env state RepeatedUse (no_refs\<lparr>r_episodes := new, r_items := [item]\<rparr>)
                [item, hd new] None False False)
            else st)"

definition repeated_use_rows :: "env \<Rightarrow> sync_state \<Rightarrow> episode_calls list \<Rightarrow> sync_state" where
  "repeated_use_rows env st calls =
    foldl (repeated_step env (last_read_of env (snd st)) calls) st (sorted_set (concat (map ec_items calls)))"

section \<open>Refused drafts and messages\<close>

definition unreadable_row :: "string \<Rightarrow> json \<Rightarrow> string \<Rightarrow> string \<Rightarrow> jrow" where
  "unreadable_row eid pass evidence at =
    items_row ''unreadable'' eid [(''pass_id'', pass), (''evidence'', JStr evidence), (''at'', JStr at)]"

definition UNREADABLE_AFTER_MISSES :: nat where "UNREADABLE_AFTER_MISSES = 3"
definition ALONE_AFTER_MISSES :: nat where "ALONE_AFTER_MISSES = 2"

text \<open>\<open>refused_in\<close>: the passes the gate refused each item in, so far.\<close>

definition refused_after :: "(string \<times> string list) list \<Rightarrow> gate_refusal \<Rightarrow> (string \<times> string list) list" where
  "refused_after refused g =
    foldl (\<lambda>d item. dict_put item (dict_get d item [] @ [gr_pass_id g]) d) refused (gr_items g)"

definition refusal_rows :: "env \<Rightarrow> gate_refusal \<Rightarrow> ledger_state \<Rightarrow> jrow list \<times> ledger_state" where
  "refusal_rows env g state =
    (let refs = no_refs\<lparr>r_episodes := gr_episodes g, r_passes := [gr_pass_id g]\<rparr>;
         whole = (if gr_whole_pass g
           then create_rows env state Deferred (refs\<lparr>r_items := gr_items g\<rparr>) [''gate'', gr_pass_id g, ''*''] None False False
           else ([], state))
     in foldl (\<lambda>st item. then_rows st (\<lambda>state.
            create_rows env state Deferred (refs\<lparr>r_items := [item]\<rparr>) [''gate'', gr_pass_id g, item] None False False))
          whole (gr_items g))"

definition give_up_step ::
  "string \<Rightarrow> sync_state \<Rightarrow> jrow \<Rightarrow> sync_state" where
  "give_up_step evidence st row =
    (case (jget row ''op'' = JStr ''create'', as_str (jget row ''entry''), as_str (jget row ''at'')) of
       (True, Some eid, Some at) \<Rightarrow>
         (fst st @ [unreadable_row eid JNull evidence at],
          case map_of (snd st) eid of
            Some e \<Rightarrow> dict_put eid (e\<lparr>e_state := Unreadable, e_why := Some evidence\<rparr>) (snd st)
          | None \<Rightarrow> snd st)
     | _ \<Rightarrow> st)"

definition refusal_step ::
  "env \<Rightarrow> (string \<times> string list) list \<times> sync_state \<Rightarrow> gate_refusal \<Rightarrow> (string \<times> string list) list \<times> sync_state"
where
  "refusal_step env rst g =
    (let refused = refused_after (fst rst) g;
         rounds = (case map (\<lambda>i. length (dict_get refused i [])) (gr_items g) of
                     [] \<Rightarrow> 1 | n # ns \<Rightarrow> foldl max n ns);
         (made, state) = refusal_rows env g (snd (snd rst));
         st = (fst (snd rst) @ made, state);
         passes = sorted_set (concat (map (\<lambda>i. dict_get refused i []) (gr_items g)));
         evidence = ''the gate refused this landing in '' @ show_nat rounds @ '' passes: '' @
                      join_str '', '' passes
     in (refused,
         if rounds \<ge> UNREADABLE_AFTER_MISSES then foldl (give_up_step evidence) st made else st))"

definition by_writer :: "jrow \<Rightarrow> bool" where
  "by_writer r \<longleftrightarrow> jget r ''author'' = JStr ''writer'' \<or> jget r ''role'' = JStr ''writer''"

definition writer_seqs :: "json list \<Rightarrow> json list" where
  "writer_seqs entries =
    List.map_filter (\<lambda>v. case v of JObj r \<Rightarrow> if by_writer r then Some (jget r ''seq'') else None | _ \<Rightarrow> None) entries"

definition message_refs :: "jrow \<Rightarrow> int \<Rightarrow> refs" where
  "message_refs r seq =
    (let raw = str_refs r ''refs'';
         episode = (case as_str (jget r ''episode'') of Some e \<Rightarrow> if e \<noteq> [] then [e] else [] | None \<Rightarrow> [])
     in no_refs\<lparr>
          r_episodes := dedup (episode @ map (before (CHR ''/'')) (filter (\<lambda>x. \<not> typed_ref x) raw)),
          r_items := List.map_filter (strip_prefix ''item:'') raw,
          r_captures := List.map_filter (strip_prefix ''capture:'') raw,
          r_record_seq := Some seq\<rparr>)"

definition for_writer :: "jrow \<Rightarrow> json list \<Rightarrow> bool" where
  "for_writer r seqs \<longleftrightarrow>
     \<not> by_writer r \<and> (''writer'' \<in> set (str_refs r ''mentions'') \<or> jget r ''reply_to'' \<in> set seqs)"

definition read_row :: "string \<Rightarrow> string \<Rightarrow> string list \<Rightarrow> string \<Rightarrow> string \<Rightarrow> jrow" where
  "read_row eid pass parts share at =
    items_row ''read'' eid [(''pass_id'', JStr pass), (''parts_read'', jstrs parts), (''share'', JStr share),
      (''at'', JStr at)]"

definition close_row :: "string \<Rightarrow> json \<Rightarrow> ledger_decision \<Rightarrow> string list \<Rightarrow> string \<Rightarrow> string \<Rightarrow> jrow" where
  "close_row eid pass d items ref at =
    items_row ''close'' eid [(''pass_id'', pass), (''decision'', JStr (decision_name d)),
      (''items'', jstrs items), (''reason_ref'', JStr ref), (''at'', JStr at)]"

definition delivered_ref :: "int \<Rightarrow> string" where
  "delivered_ref seq = ''record:delivered#'' @ show_int seq"

text \<open>A new message's entry: the row and the entry take \<open>carries\<close>; one the writer was delivered in a
  pass is also read and closed there.\<close>

definition message_created ::
  "env \<Rightarrow> (int \<times> string) list \<Rightarrow> bool \<Rightarrow> int \<Rightarrow> string \<Rightarrow> jrow list \<times> ledger_state \<Rightarrow> jrow list \<times> ledger_state" where
  "message_created env delivered carries seq eid made =
    (let rows = map (\<lambda>r. r @ [(''carries'', JBool carries)]) (fst made);
         at = now_iso env
     in case map_of (snd made) eid of
          None \<Rightarrow> (rows, snd made)
        | Some e \<Rightarrow>
            let e' = e\<lparr>e_carries := carries\<rparr>; state = dict_put eid e' (snd made)
            in (case map_of delivered seq of
                  Some pid \<Rightarrow>
                    if pid = [] then (rows, state)
                    else (rows @ [read_row eid pid [''entry''] ''1.00'' at,
                                  close_row eid (JStr pid) NothingToKeep [] (delivered_ref seq) at],
                          dict_put eid
                            (e'\<lparr>e_state := Closed, e_pass_id := Some pid, e_parts_read := [''entry''],
                               e_share := Some ''1.00'', e_first_read_at := Some at,
                               e_decision := Some NothingToKeep,
                               e_reason_ref := Some (delivered_ref seq), e_closed_at := Some at\<rparr>) state)
                | None \<Rightarrow> (rows, state)))"

definition message_step ::
  "env \<Rightarrow> json list \<Rightarrow> (int \<times> string) list \<Rightarrow> sync_state \<Rightarrow> json \<Rightarrow> sync_state" where
  "message_step env seqs delivered st v =
    (case v of
       JObj r \<Rightarrow>
         (case py_int (jget r ''seq'') of
            None \<Rightarrow> st
          | Some seq \<Rightarrow>
              if \<not> for_writer r seqs then st
              else then_rows st (\<lambda>state.
                let made = create_rows env state Message (message_refs r seq) [show_int seq]
                             (as_str (jget r ''ts'')) False False
                in case created_id (fst made) of
                     Some eid \<Rightarrow> message_created env delivered (carries_content r seqs) seq eid made
                   | None \<Rightarrow> made))
     | _ \<Rightarrow> st)"

definition message_rows ::
  "env \<Rightarrow> sync_state \<Rightarrow> json list \<Rightarrow> (int \<times> string) list \<Rightarrow> sync_state" where
  "message_rows env st entries delivered =
    foldl (message_step env (writer_seqs entries) delivered) st entries"

definition sync_log :: "env \<Rightarrow> sources \<Rightarrow> ledger_state \<Rightarrow> sync_state" where
  "sync_log env S state =
    (let s1 = foldl (fork_step env S) ([], state) (src_forks S);
         s2 = foldl (failure_step env) s1 (src_failures S);
         s3 = foldl (late_step env S) s2 (src_late S);
         s4 = repeated_use_rows env s3 (src_calls S);
         s5 = snd (foldl (refusal_step env) ([], s4) (src_refusals S))
     in message_rows env s5 (src_record S) (src_delivered S))"

definition sync :: "env \<Rightarrow> sources \<Rightarrow> jrow list \<Rightarrow> entry list \<times> jrow list" where
  "sync env S rows =
    (let state = ledger_fold rows; (new, state') = sync_log env S state
     in (map snd (filter (\<lambda>(k, e). k \<notin> set (keys_of state)) state'), append_rows rows new))"

end
