(* ===== verification/AttentionPasses.thy ===== *)
theory AttentionPasses imports AttentionLedger
begin

text \<open>
  What a pass does with the attention ledger (\<open>unify/memory/attention.py\<close>: \<open>hand\<close>, \<open>take\<close>,
  \<open>verify_reads\<close>, \<open>close\<close>, \<open>decide\<close>, \<open>return_unread\<close>, \<open>return_orphans\<close>, \<open>record_kin\<close>,
  \<open>mark_not_reached\<close>, \<open>never_grouped\<close>, \<open>report\<close>). Every operation returns the ledger after it.
\<close>

section \<open>Handing entries to a pass\<close>

definition HAND_ORDER :: "kind list" where
  "HAND_ORDER = [LateEvidence, UseWentBadly, Message, OwnCheckFailed, NewExperience, Deferred, RepeatedUse]"

definition STARVATION_PASSES :: nat where "STARVATION_PASSES = 10"

definition hand_rank :: "kind \<Rightarrow> nat" where
  "hand_rank k = length (takeWhile (\<lambda>x. x \<noteq> k) HAND_ORDER)"

definition order_entries :: "entry list \<Rightarrow> entry list" where
  "order_entries es = sort_key (\<lambda>e. (hand_rank (e_kind e), e_created_at e, e_id e)) es"

text \<open>The nearest-rank quantile \<open>_p(values, 0.9)\<close>.\<close>

definition nearest_rank_90 :: "int list \<Rightarrow> int option" where
  "nearest_rank_90 vs =
    (if vs = [] then None
     else let n = length vs; rank = max 1 ((90 * n + 99) div 100)
          in Some (sort vs ! (min n rank - 1)))"

definition age_backstop :: "env \<Rightarrow> ledger_state \<Rightarrow> jrow list \<Rightarrow> int option" where
  "age_backstop env state rows =
    (let hands = List.map_filter (\<lambda>r. case as_str (jget r ''pass_id'') of
             Some p \<Rightarrow> if jget r ''op'' = JStr ''hand'' then Some (p, r) else None | None \<Rightarrow> None) rows;
         ps = dedup (map fst hands);
         recent = set (drop (length ps - STARVATION_PASSES) ps);
         ages = List.map_filter (\<lambda>(p, r).
             if p \<notin> recent then None
             else case (Option.bind (as_str (jget r ''at'')) (time_of env),
                        Option.bind (Option.bind (as_str (jget r ''entry'')) (map_of state))
                          (\<lambda>e. time_of env (e_created_at e))) of
               (Some a, Some c) \<Rightarrow> Some (a - c) | _ \<Rightarrow> None) hands
     in nearest_rank_90 ages)"

fun fill :: "nat \<Rightarrow> 'a list \<Rightarrow> 'a list \<Rightarrow> 'a list" where
  "fill k chosen [] = chosen"
| "fill k chosen (e # es) =
    (if length chosen \<ge> k then chosen
     else if e \<in> set chosen then fill k chosen es else fill k (chosen @ [e]) es)"

definition alone_entry :: "entry \<Rightarrow> bool" where
  "alone_entry e \<longleftrightarrow> e_misses e \<ge> ALONE_AFTER_MISSES \<or> e_undecided e \<ge> ALONE_AFTER_MISSES"

definition oldest_overdue :: "env \<Rightarrow> ledger_state \<Rightarrow> jrow list \<Rightarrow> entry list \<Rightarrow> entry list" where
  "oldest_overdue env state rows pending =
    (case age_backstop env state rows of
       None \<Rightarrow> []
     | Some backstop \<Rightarrow>
         let oldest = hd (sort_key age_key pending)
         in (case time_of env (e_created_at oldest) of
               Some created \<Rightarrow> if now_time env - created > backstop then [oldest] else []
             | None \<Rightarrow> []))"

definition choose_entries :: "env \<Rightarrow> nat \<Rightarrow> ledger_state \<Rightarrow> jrow list \<Rightarrow> entry list \<Rightarrow> entry list" where
  "choose_entries env k state rows pending =
    (let alone = filter alone_entry pending
     in if alone \<noteq> [] then take 1 (order_entries alone)
        else fill k (oldest_overdue env state rows pending) (order_entries pending))"

definition group_row :: "string \<Rightarrow> json \<Rightarrow> string \<Rightarrow> entry list \<Rightarrow> entry list \<Rightarrow> json \<Rightarrow> string \<Rightarrow> jrow" where
  "group_row pass gid due ms ctx rs at =
    [(''op'', JStr ''group''), (''pass_id'', JStr pass), (''group'', gid), (''due'', JStr due),
     (''members'', jstrs (map e_id ms)), (''context'', jstrs (map e_id ctx)), (''reasons'', rs),
     (''at'', JStr at)]"

definition reasons_json :: "relation list \<Rightarrow> json" where
  "reasons_json rels = JObj (map (\<lambda>(k, n). (k, JInt (int n))) (reasons rels))"

text \<open>What a pass is given: nothing; a group's members as they are; or entries to choose from. Either
  takes the ended captures along.\<close>

datatype plan =
    NoPass
  | GroupPass jrow "entry list" "entry list"
  | ChoosePass "entry list" "entry list"

definition came_back :: "group \<Rightarrow> nat" where
  "came_back g = foldl max 0 (map (\<lambda>e. e_misses e + e_undecided e) (g_open g))"

definition plan_groups :: "env \<Rightarrow> string \<Rightarrow> nat \<Rightarrow> group list \<Rightarrow> entry list \<Rightarrow> plan" where
  "plan_groups env pass k due_all pending =
    (let immediate = filter (\<lambda>e. e_kind e \<notin> set GROUPED_KINDS) pending;
         ended = concat (map (\<lambda>g. filter (\<lambda>e. e \<in> set pending) (g_open g))
                   (filter (\<lambda>g. g_due g = Some ENDED) due_all));
         due = filter (\<lambda>g. g_due g \<noteq> Some ENDED) due_all
     in if immediate \<noteq> [] then ChoosePass immediate ended
        else case sort_key came_back due of
          g # _ \<Rightarrow>
            (let ms = take k (filter (\<lambda>e. e \<in> set pending) (g_open g))
             in if ms = [] then NoPass
                else GroupPass (group_row pass (JStr (g_id g)) (case g_due g of Some d \<Rightarrow> d | None \<Rightarrow> [])
                       ms (g_context g) (reasons_json (g_relations g)) (now_iso env)) ms ended)
        | [] \<Rightarrow>
            if ended \<noteq> []
            then GroupPass (group_row pass JNull ENDED ended [] (JObj []) (now_iso env)) ended []
            else NoPass)"

definition harness_close :: "string \<Rightarrow> string \<Rightarrow> entry \<Rightarrow> jrow" where
  "harness_close reason at e =
    close_row (e_id e) JNull NothingToKeep [] reason at @ [(''by'', JStr ''harness'')]"

definition is_bare :: "entry \<Rightarrow> bool" where
  "is_bare e \<longleftrightarrow> e_kind e \<in> set GROUPED_KINDS \<and> r_captures (e_refs e) = [] \<and> r_notes (e_refs e) = []"

definition close_bare :: "string \<Rightarrow> ledger_state \<Rightarrow> entry list \<Rightarrow> ledger_state" where
  "close_bare at state bare =
    foldl (\<lambda>st e. dict_put (e_id e)
      (e\<lparr>e_state := Closed, e_decision := Some NothingToKeep, e_reason_ref := Some NO_CAPTURE,
         e_closed_at := Some at\<rparr>) st) state bare"

text \<open>The entries a grouping sees: an open entry that is not pending is left out.\<close>

definition visible_state :: "ledger_state \<Rightarrow> entry list \<Rightarrow> ledger_state" where
  "visible_state state pending =
    filter (\<lambda>(k, e). \<not> (e_state e = Open \<and> e_id e \<notin> set (map e_id pending))) state"

definition plan_pass ::
  "env \<Rightarrow> string \<Rightarrow> nat \<Rightarrow> (ledger_state \<Rightarrow> group list) option \<Rightarrow> ledger_state \<Rightarrow> entry list \<Rightarrow>
   jrow list \<times> ledger_state \<times> plan" where
  "plan_pass env pass k grouping state pending =
    (case grouping of
       None \<Rightarrow> ([], state, ChoosePass pending [])
     | Some f \<Rightarrow>
         let bare = filter is_bare pending;
             closes = map (harness_close NO_CAPTURE (now_iso env)) bare;
             state' = close_bare (now_iso env) state bare;
             pending' = filter (\<lambda>e. e \<notin> set bare) pending
         in if pending' = [] then (closes, state', NoPass)
            else (closes, state',
                  plan_groups env pass k (filter (\<lambda>g. g_due g \<noteq> None) (f (visible_state state' pending'))) pending'))"

definition hand_row :: "string \<Rightarrow> string \<Rightarrow> string \<Rightarrow> entry \<Rightarrow> jrow" where
  "hand_row pass at by e =
    items_row ''hand'' (e_id e) ([(''pass_id'', JStr pass), (''at'', JStr at),
      (''hand_count'', JInt (e_hand_count e + 1))] @ (if by = [] then [] else [(''by'', JStr by)]))"

text \<open>The entries handed: the ones chosen, then the ended captures and the quiet messages along with them.\<close>

definition chosen_of :: "env \<Rightarrow> nat \<Rightarrow> ledger_state \<Rightarrow> jrow list \<Rightarrow> plan \<Rightarrow> entry list" where
  "chosen_of env k state rows p =
    (case p of NoPass \<Rightarrow> [] | GroupPass _ ms _ \<Rightarrow> ms | ChoosePass pending _ \<Rightarrow> choose_entries env k state rows pending)"

definition plan_ended :: "plan \<Rightarrow> entry list" where
  "plan_ended p = (case p of ChoosePass _ ended \<Rightarrow> ended | GroupPass _ _ ended \<Rightarrow> ended | NoPass \<Rightarrow> [])"

definition plan_rows :: "plan \<Rightarrow> jrow list" where
  "plan_rows p = (case p of GroupPass r _ _ \<Rightarrow> [r] | _ \<Rightarrow> [])"

definition along :: "entry list \<Rightarrow> entry list \<Rightarrow> entry list" where
  "along chosen es = filter (\<lambda>e. e \<notin> set chosen) es"

definition wait_row :: "string \<Rightarrow> entry \<Rightarrow> jrow" where
  "wait_row at e =
    items_row ''wait'' (e_id e) [(''why'', JStr ''episode_not_recorded''),
      (''episodes'', jstrs (r_episodes (e_refs e))), (''at'', JStr at)]"

definition noted :: "jrow list \<Rightarrow> string \<Rightarrow> bool" where
  "noted rows eid \<longleftrightarrow> list_ex (\<lambda>r. jget r ''op'' = JStr ''wait'' \<and> jget r ''entry'' = JStr eid) rows"

definition open_list :: "ledger_state \<Rightarrow> entry list" where
  "open_list state = filter (\<lambda>e. e_state e = Open) (map snd state)"

definition hand ::
  "env \<Rightarrow> string \<Rightarrow> int \<Rightarrow> (entry \<Rightarrow> bool) option \<Rightarrow> (ledger_state \<Rightarrow> group list) option \<Rightarrow> jrow list \<Rightarrow>
   ledger_error + (entry list \<times> jrow list)" where
  "hand env pass k ready grouping rows =
    (if pass = [] then Inl BadPassId
     else if k < 1 then Inl BadK
     else let state = ledger_fold rows;
              is_ready = (case ready of Some f \<Rightarrow> f | None \<Rightarrow> (\<lambda>_. True));
              waiting = filter (\<lambda>e. \<not> is_ready e) (open_list state);
              rows1 = append_rows rows
                (map (wait_row (now_iso env)) (filter (\<lambda>e. \<not> noted rows (e_id e)) waiting));
              ready_es = filter is_ready (open_list state);
              quiet = filter (\<lambda>e. \<not> wants_pass e) ready_es;
              pending = filter wants_pass ready_es
          in if pending = [] then Inr ([], rows1)
             else let (closes, state', p) = plan_pass env pass (nat k) grouping state pending;
                      rows2 = append_rows rows1 closes;
                      chosen = chosen_of env (nat k) state' rows p;
                      ended = along chosen (plan_ended p);
                      also_quiet = along (chosen @ ended) quiet;
                      handed = map (hand_row pass (now_iso env) []) chosen @
                               map (hand_row pass (now_iso env) ''with_pass'') (ended @ also_quiet);
                      got = ledger_fold (rows @ handed)
                  in if p = NoPass then Inr ([], rows2)
                     else Inr (List.map_filter (\<lambda>e. map_of got (e_id e)) (chosen @ ended @ also_quiet),
                               append_rows rows2 (handed @ plan_rows p)))"

section \<open>Taking, reading and closing\<close>

definition in_pass :: "string \<Rightarrow> entry \<Rightarrow> bool" where
  "in_pass pass e \<longleftrightarrow> active e \<and> e_state e \<noteq> Open \<and> e_pass_id e = Some pass"

datatype take_result =
    UnknownId
  | AlreadyHere "string list"
  | NotOpen
  | Taken "string list"

definition material_paths :: "env \<Rightarrow> entry \<Rightarrow> string list" where
  "material_paths env e =
    concat (map (\<lambda>p.
        if p_paths p \<noteq> [] then take 1 (p_paths p)
        else if p_episodes p \<noteq> [] then map (\<lambda>x. ''episode '' @ x) (take 1 (p_episodes p))
        else map (\<lambda>s. ''record entry #'' @ show_int s) (take 1 (p_seqs p)))
      (filter p_required (material (has_summary env) (has_procedure env) e)))"

definition take_entry :: "env \<Rightarrow> string \<Rightarrow> string \<Rightarrow> jrow list \<Rightarrow> take_result \<times> jrow list" where
  "take_entry env pass eid rows =
    (case map_of (ledger_fold rows) eid of
       None \<Rightarrow> (UnknownId, rows)
     | Some e \<Rightarrow>
         if e_state e \<noteq> Open then
           (if e_pass_id e = Some pass \<and> active e then (AlreadyHere (material_paths env e), rows)
            else (NotOpen, rows))
         else (Taken (material_paths env e), append_rows rows [hand_row pass (now_iso env) ''take'' e]))"

definition verify_in :: "env \<Rightarrow> pass_reads \<Rightarrow> int list \<Rightarrow> entry \<Rightarrow> bool \<times> string list \<times> string" where
  "verify_in env reads delivered e =
    verify (has_summary env) (has_procedure env) e reads delivered"

definition verify_reads ::
  "env \<Rightarrow> string \<Rightarrow> pass_reads \<Rightarrow> int list \<Rightarrow> jrow list \<Rightarrow> string list \<times> jrow list" where
  "verify_reads env pass reads delivered rows =
    (let got = filter (\<lambda>e. in_pass pass e \<and> fst (verify_in env reads delivered e)) (map snd (ledger_fold rows));
         changed = filter (\<lambda>e. e_state e \<noteq> ReadIn \<or> fst (snd (verify_in env reads delivered e)) \<noteq> e_parts_read e) got
     in (map e_id got,
         append_rows rows (map (\<lambda>e. let (ok, parts, share) = verify_in env reads delivered e
                                 in read_row (e_id e) pass parts share (now_iso env)) changed)))"

definition read_here :: "ledger_state \<Rightarrow> string \<Rightarrow> string \<Rightarrow> bool" where
  "read_here state pass i \<longleftrightarrow>
     (case map_of state i of Some e \<Rightarrow> e_state e = ReadIn \<and> e_pass_id e = Some pass | None \<Rightarrow> False)"

definition close ::
  "env \<Rightarrow> string \<Rightarrow> string list \<Rightarrow> json \<Rightarrow> string list \<Rightarrow> string \<Rightarrow> jrow list \<Rightarrow> ledger_error + jrow list" where
  "close env pass ids decision items reason rows =
    (case decision_of decision of
       None \<Rightarrow> Inl (BadDecision (text_or_empty decision))
     | Some d \<Rightarrow>
         let bad = filter (\<lambda>i. \<not> read_here (ledger_fold rows) pass i) ids
         in if bad \<noteq> [] then Inl (NotRead bad)
            else Inr (append_rows rows (map (\<lambda>i. close_row i (JStr pass) d items reason (now_iso env)) ids)))"

definition NEEDS_ITEMS :: "ledger_decision list" where
  "NEEDS_ITEMS = [MergedInto, ChangedItem]"

definition DECISIONS_FILE :: string where "DECISIONS_FILE = ''decisions.jsonl''"

definition decision_ref :: "string \<Rightarrow> nat \<Rightarrow> string" where
  "decision_ref pass n = ''pass:'' @ pass @ ''/'' @ DECISIONS_FILE @ ''#'' @ show_nat n"

definition decide_rows ::
  "env \<Rightarrow> string \<Rightarrow> ledger_decision \<Rightarrow> string list \<Rightarrow> string \<Rightarrow> pass_reads \<Rightarrow> int list \<Rightarrow> entry \<Rightarrow> jrow list" where
  "decide_rows env pass d items ref reads delivered e =
    (let (ok, parts, share) = verify_in env reads delivered e
     in (if e_state e \<noteq> ReadIn then [read_row (e_id e) pass parts share (now_iso env)] else []) @
        [close_row (e_id e) (JStr pass) d items ref (now_iso env)])"

definition defer_refs :: "string \<Rightarrow> entry list \<Rightarrow> refs" where
  "defer_refs pass es =
    no_refs\<lparr>r_episodes := dedup (concat (map (r_episodes \<circ> e_refs) es)),
      r_items := dedup (concat (map (r_items \<circ> e_refs) es)),
      r_captures := dedup (concat (map (r_captures \<circ> e_refs) es)), r_passes := [pass]\<rparr>"

record decide_result =
  dr_ref :: string
  dr_deferred :: "string option"
  dr_decision_row :: jrow

text \<open>\<open>n\<close> is the number of rows the pass's \<open>decisions.jsonl\<close> holds; the row it gains is in the result.\<close>

definition decide ::
  "env \<Rightarrow> string \<Rightarrow> string list \<Rightarrow> json \<Rightarrow> json list \<Rightarrow> string \<Rightarrow> pass_reads \<Rightarrow> int list \<Rightarrow> nat \<Rightarrow> jrow list \<Rightarrow>
   ledger_error + (decide_result \<times> jrow list)" where
  "decide env pass ids decision items_arg reason reads delivered n rows =
    (let items = filter (\<lambda>i. \<not> blank i) (List.map_filter as_str items_arg); state = ledger_fold rows
     in case decision_of decision of
       None \<Rightarrow> Inl (BadDecision (text_or_empty decision))
     | Some d \<Rightarrow>
         bind_r (guard_r (ids \<noteq> []) BadIds) (\<lambda>_.
         bind_r (guard_r (d \<notin> set NEEDS_ITEMS \<or> items \<noteq> []) NeedsItems) (\<lambda>_.
         bind_r (guard_r (\<not> blank reason) NeedsReason) (\<lambda>_.
         bind_r (map_r (\<lambda>i. case map_of state i of Some e \<Rightarrow> Inr e | None \<Rightarrow> Inl (UnknownEntry i)) ids) (\<lambda>es.
         bind_r (each_r (\<lambda>e. guard_r (in_pass pass e) (NotInPass (e_id e))) es) (\<lambda>_.
         let unread = filter (\<lambda>e. \<not> fst (verify_in env reads delivered e)) es
         in bind_r (guard_r (unread = []) (NotRead (map e_id unread))) (\<lambda>_.
            let ref = decision_ref pass n;
                closes = concat (map (decide_rows env pass d items ref reads delivered) es);
                made = (if d = Defer
                        then fst (create_rows env state Deferred (defer_refs pass es)
                               [''decision'', pass, show_nat n] (Some (now_iso env)) False False)
                        else [])
            in Inr (\<lparr>dr_ref = ref, dr_deferred = created_id made,
                     dr_decision_row = [(''v'', JInt 1), (''n'', JInt (int n)), (''pass_id'', JStr pass),
                       (''entries'', jstrs ids), (''decision'', JStr (decision_name d)),
                       (''items'', jstrs items), (''reason'', JStr (take 4000 reason)),
                       (''at'', JStr (now_iso env))]\<rparr>,
                    append_rows rows (closes @ made)))))))))"

section \<open>The end of a pass, a restart, the end of a run\<close>

definition READ_LOG_FILE :: string where "READ_LOG_FILE = ''read-log.json''"

definition return_row :: "string \<Rightarrow> json \<Rightarrow> return_why \<Rightarrow> string \<Rightarrow> jrow" where
  "return_row eid pass why at =
    items_row ''return'' eid [(''pass_id'', pass), (''why'', JStr (return_why_name why)), (''at'', JStr at)]"

text \<open>The passes that ended with the entry as it stands, this one included.\<close>

definition turns :: "entry \<Rightarrow> nat" where
  "turns e = (if e_state e = ReadIn then e_undecided e else e_misses e) + 1"

definition given_up_why :: "string \<Rightarrow> entry \<Rightarrow> string" where
  "given_up_why pass e =
    (if e_state e = ReadIn then ''read and not decided'' else ''handed and not read'') @ '' in '' @
    show_nat (turns e) @ '' group passes, the last pass:'' @ pass"

definition return_one :: "env \<Rightarrow> string \<Rightarrow> bool \<Rightarrow> bool \<Rightarrow> entry \<Rightarrow> jrow" where
  "return_one env pass stopped in_group e =
    (let bound = turns e \<ge> UNREADABLE_AFTER_MISSES; at = now_iso env
     in if stopped then return_row (e_id e) (JStr pass) Suspend at
        else if in_group \<and> bound \<and> has_material e then
          close_row (e_id e) (JStr pass) NothingToKeep [] GIVEN_UP at @
            [(''by'', JStr ''harness''), (''why'', JStr (given_up_why pass e))]
        else if e_state e = ReadIn \<and> bound then
          unreadable_row (e_id e) (JStr pass)
            (''read and not decided in '' @ show_nat (turns e) @ '' passes, the last pass:'' @ pass) at
        else if e_state e = ReadIn then return_row (e_id e) (JStr pass) ReadNotDecided at
        else if bound then
          unreadable_row (e_id e) (JStr pass) (''pass:'' @ pass @ ''/'' @ READ_LOG_FILE) at
        else return_row (e_id e) (JStr pass) HandedNotRead at)"

definition has_group_row :: "string \<Rightarrow> jrow list \<Rightarrow> bool" where
  "has_group_row pass rows \<longleftrightarrow>
     list_ex (\<lambda>r. jget r ''op'' = JStr ''group'' \<and> jget r ''pass_id'' = JStr pass) rows"

definition group_of :: "string \<Rightarrow> jrow list \<Rightarrow> jrow option" where
  "group_of pass rows =
    find (\<lambda>r. jget r ''op'' = JStr ''group'' \<and> jget r ''pass_id'' = JStr pass) (rev rows)"

definition return_unread :: "env \<Rightarrow> string \<Rightarrow> bool \<Rightarrow> jrow list \<Rightarrow> string list \<times> jrow list" where
  "return_unread env pass stopped rows =
    (let es = filter (in_pass pass) (map snd (ledger_fold rows))
     in (map e_id es, append_rows rows (map (return_one env pass stopped (has_group_row pass rows)) es)))"

definition return_orphans :: "env \<Rightarrow> string list \<Rightarrow> jrow list \<Rightarrow> string list \<times> jrow list" where
  "return_orphans env live rows =
    (let es = filter (\<lambda>e. active e \<and> e_state e \<noteq> Open \<and> e_pass_id e \<notin> Some ` set live)
                (map snd (ledger_fold rows))
     in (map e_id es,
         append_rows rows (map (\<lambda>e. return_row (e_id e) (jopt (e_pass_id e)) ServiceRestart (now_iso env)) es)))"

definition record_kin :: "env \<Rightarrow> string \<Rightarrow> json list \<Rightarrow> string \<Rightarrow> jrow list \<Rightarrow> bool \<times> jrow list" where
  "record_kin env eid kin why rows =
    (let state = ledger_fold rows;
         named = dedup (filter (\<lambda>k. k \<in> set (keys_of state) \<and> k \<noteq> eid) (List.map_filter as_str kin))
     in if eid \<notin> set (keys_of state) then (False, rows)
        else (named \<noteq> [],
              append_rows rows [items_row ''kin'' eid [(''kin'', jstrs named), (''why'', JStr (take 2000 why)),
                (''at'', JStr (now_iso env))]]))"

definition mark_not_reached ::
  "env \<Rightarrow> json \<Rightarrow> string list option \<Rightarrow> jrow list \<Rightarrow> ledger_error + (string list \<times> jrow list)" where
  "mark_not_reached env why_arg want rows =
    (case not_reached_of why_arg of
       None \<Rightarrow> Inl (BadWhy (text_or_empty why_arg))
     | Some why \<Rightarrow>
         let es = filter (\<lambda>e. active e \<and> (case want of None \<Rightarrow> True | Some w \<Rightarrow> e_id e \<in> set w))
                    (map snd (ledger_fold rows))
         in Inr (map e_id es,
                 append_rows rows (map (\<lambda>e. items_row ''not_reached'' (e_id e)
                   [(''why'', JStr (not_reached_name why)), (''at'', JStr (now_iso env))]) es)))"

section \<open>Reports\<close>

definition never_grouped_entry :: "entry \<Rightarrow> bool" where
  "never_grouped_entry e \<longleftrightarrow>
     e_kind e = NewExperience \<and> r_captures (e_refs e) \<noteq> [] \<and> e_hand_count e = 0 \<and>
     e_state e \<in> {Open, NotReached}"

definition never_grouped :: "jrow list \<Rightarrow> (string \<times> string list \<times> entry_state) list" where
  "never_grouped rows =
    map (\<lambda>e. (e_id e, r_captures (e_refs e), e_state e)) (filter never_grouped_entry (map snd (ledger_fold rows)))"

record kind_report =
  kr_created :: nat
  kr_closed :: nat
  kr_open :: nat
  kr_unreadable :: nat
  kr_not_reached :: nat

definition kind_report_of :: "entry list \<Rightarrow> kind \<Rightarrow> kind_report" where
  "kind_report_of es k =
    (let of_kind = filter (\<lambda>e. e_kind e = k) es;
         count = (\<lambda>P. length (filter P of_kind))
     in \<lparr>kr_created = length of_kind, kr_closed = count (\<lambda>e. e_state e = Closed), kr_open = count active,
         kr_unreadable = count (\<lambda>e. e_state e = Unreadable),
         kr_not_reached = count (\<lambda>e. e_state e = NotReached)\<rparr>)"

definition kind_reports :: "jrow list \<Rightarrow> (kind \<times> kind_report) list" where
  "kind_reports rows = map (\<lambda>k. (k, kind_report_of (map snd (ledger_fold rows)) k)) KINDS"

end
