(* ===== verification/AttentionCorrect.thy ===== *)
theory AttentionCorrect imports AttentionPasses
begin

text \<open>
  The attention ledger's operations are correct: what the code keeps in memory beside the rows it
  writes is the fold of those rows; each operation's effect on the folded state; and an invariant of
  every ledger the operations produce, by induction over the steps of a run.
\<close>

section \<open>Rows and the fold\<close>

lemma jget_with_v: "k \<noteq> ''v'' \<Longrightarrow> jget (with_v r) k = jget r k"
proof -
  assume "k \<noteq> ''v''"
  then have "jget (r @ [(''v'', JInt 1)]) k = jget r k"
    unfolding jget_append by (auto simp: jget_def split: option.split dest: map_of_Some_in_keys)
  then show ?thesis by (simp add: with_v_def)
qed

lemmas with_v_keys [simp] =
  jget_with_v [of "''op''", simplified]
  jget_with_v [of "''entry''", simplified]
  jget_with_v [of "''at''", simplified]
  jget_with_v [of "''refs''", simplified]
  jget_with_v [of "''kin''", simplified]
  jget_with_v [of "''src''", simplified]
  jget_with_v [of "''pass_id''", simplified]
  jget_with_v [of "''hand_count''", simplified]
  jget_with_v [of "''parts_read''", simplified]
  jget_with_v [of "''share''", simplified]
  jget_with_v [of "''why''", simplified]
  jget_with_v [of "''decision''", simplified]
  jget_with_v [of "''items''", simplified]
  jget_with_v [of "''reason_ref''", simplified]
  jget_with_v [of "''by''", simplified]
  jget_with_v [of "''evidence''", simplified]
  jget_with_v [of "''kind''", simplified]
  jget_with_v [of "''carries''", simplified]

lemma src_ids_with_v [simp]: "src_ids (with_v r) = src_ids r"
  by (simp add: src_ids_def)

lemma why_returned_with_v [simp]: "why_returned (with_v r) = why_returned r"
  by (simp add: why_returned_def)

lemma append_ref_with_v [simp]: "append_ref_entry e (with_v r) = append_ref_entry e r"
  by (simp add: append_ref_entry_def split: option.split)

lemma kin_with_v [simp]: "kin_entry e (with_v r) = kin_entry e r"
  by (simp add: kin_entry_def split: option.split)

lemma occurrence_with_v [simp]: "occurrence_entry e (with_v r) = occurrence_entry e r"
  by (simp add: occurrence_entry_def split: option.split)

lemma hand_with_v [simp]: "hand_entry e (with_v r) = hand_entry e r"
  by (simp add: hand_entry_def split: option.split)

lemma read_with_v [simp]: "read_entry e (with_v r) = read_entry e r"
  by (simp add: read_entry_def split: option.split)

lemma return_with_v [simp]: "return_entry e (with_v r) = return_entry e r"
  by (simp add: return_entry_def Let_def split: option.split)

lemma close_with_v [simp]: "close_entry e (with_v r) = close_entry e r"
  by (simp add: close_entry_def split: option.split)

lemma reopen_with_v [simp]: "reopen_entry e (with_v r) = reopen_entry e r"
  by (simp add: reopen_entry_def split: option.split)

lemma unreadable_with_v [simp]: "unreadable_entry e (with_v r) = unreadable_entry e r"
  by (simp add: unreadable_entry_def split: option.split)

lemma not_reached_with_v [simp]: "not_reached_entry e (with_v r) = not_reached_entry e r"
  by (simp add: not_reached_entry_def split: option.split)

lemma update_entry_with_v [simp]: "update_entry e (with_v r) = update_entry e r"
  unfolding update_entry_def Let_def by (simp cong: if_cong)

lemma apply_row_with_v [simp]: "apply_row out (with_v r) = apply_row out r"
  unfolding apply_row_def create_entry_def by (simp split: option.split)

lemma fold_with_v: "foldl apply_row out (map with_v rows) = foldl apply_row out rows"
  by (induction rows arbitrary: out) simp_all

lemma fold_append_rows: "ledger_fold (append_rows rows new) = foldl apply_row (ledger_fold rows) new"
  by (simp add: append_rows_def ledger_fold_append fold_with_v)

text \<open>The rows written for one entry: they name it and do not create.\<close>

definition rows_for :: "string \<Rightarrow> jrow list \<Rightarrow> bool" where
  "rows_for eid rs \<longleftrightarrow>
     (\<forall>r\<in>set rs. jget r ''entry'' = JStr eid \<and> jget r ''op'' \<noteq> JStr ''create'')"

lemma rows_for_simps [simp]:
  "rows_for eid []"
  "rows_for eid (r # rs) \<longleftrightarrow> jget r ''entry'' = JStr eid \<and> jget r ''op'' \<noteq> JStr ''create'' \<and> rows_for eid rs"
  by (auto simp: rows_for_def)

lemma apply_row_for:
  "jget r ''entry'' = JStr eid \<Longrightarrow> jget r ''op'' \<noteq> JStr ''create'' \<Longrightarrow> map_of st eid = Some e \<Longrightarrow>
   apply_row st r = dict_put eid (update_entry e r) st"
  by (simp add: apply_row_def)

lemma fold_rows_for:
  "rows_for eid rs \<Longrightarrow> map_of st eid = Some e \<Longrightarrow>
   map_of (foldl apply_row st rs) = (map_of st)(eid \<mapsto> foldl update_entry e rs)"
proof (induction rs arbitrary: st e)
  case Nil
  then show ?case by (simp add: map_upd_triv)
next
  case (Cons r rs)
  have a: "apply_row st r = dict_put eid (update_entry e r) st" using Cons.prems by (simp add: apply_row_for)
  have "map_of (foldl apply_row (apply_row st r) rs) =
      (map_of (apply_row st r))(eid \<mapsto> foldl update_entry (update_entry e r) rs)"
    by (rule Cons.IH) (use Cons.prems in \<open>simp_all add: a\<close>)
  then show ?case by (simp add: a fun_eq_iff)
qed

lemma fold_update_id [simp]: "e_id (foldl update_entry e rs) = e_id e"
  by (induction rs arbitrary: e) simp_all

text \<open>An operation that writes rows for each of some entries of the state changes those entries, each
  by its own rows, and no other.\<close>

lemma fold_each:
  assumes "distinct (map e_id es)" "\<forall>e\<in>set es. map_of st (e_id e) = Some e" "\<forall>e. rows_for (e_id e) (f e)"
  shows "map_of (foldl apply_row st (concat (map f es))) k =
    (case find (\<lambda>e. e_id e = k) es of Some e \<Rightarrow> Some (foldl update_entry e (f e)) | None \<Rightarrow> map_of st k)"
  using assms
proof (induction es arbitrary: st)
  case (Cons e es)
  let ?st = "foldl apply_row st (f e)"
  have f: "\<forall>e. rows_for (e_id e) (f e)" by (rule Cons.prems(3))
  have d: "\<forall>x\<in>set es. e_id x \<noteq> e_id e" "distinct (map e_id es)" using Cons.prems(1) by (auto simp: rev_image_eqI)
  have m: "map_of ?st = (map_of st)(e_id e \<mapsto> foldl update_entry e (f e))"
    by (rule fold_rows_for) (use Cons.prems(2) f in simp_all)
  have "\<forall>x\<in>set es. map_of ?st (e_id x) = Some x"
    using d(1) Cons.prems(2) unfolding m by simp
  from Cons.IH [OF d(2) this f]
  have "map_of (foldl apply_row ?st (concat (map f es))) k =
      (case find (\<lambda>e. e_id e = k) es of Some e \<Rightarrow> Some (foldl update_entry e (f e)) | None \<Rightarrow> map_of ?st k)" .
  moreover have "e_id e = k \<Longrightarrow> find (\<lambda>e. e_id e = k) es = None"
    using d(1) by (auto simp: find_None_iff)
  ultimately show ?case
    by (cases "e_id e = k"; cases "find (\<lambda>e. e_id e = k) es") (simp_all add: m)
qed simp

lemma fold_each_single:
  assumes "distinct (map e_id es)" "\<forall>e\<in>set es. map_of st (e_id e) = Some e"
    "\<forall>e. rows_for (e_id e) [f e]"
  shows "map_of (foldl apply_row st (map f es)) k =
    (case find (\<lambda>e. e_id e = k) es of Some e \<Rightarrow> Some (update_entry e (f e)) | None \<Rightarrow> map_of st k)"
  using fold_each [OF assms(1,2), of "\<lambda>e. [f e]" k] assms(3)
  by (simp add: concat_map_singleton [of f es, simplified] split: option.splits)

definition state_of :: "jrow list \<Rightarrow> string \<Rightarrow> entry option" where
  "state_of rows = map_of (ledger_fold rows)"

lemma ledger_entries_distinct: "distinct (map e_id (map snd (ledger_fold rows)))"
proof -
  have "map e_id (map snd (ledger_fold rows)) = map fst (ledger_fold rows)"
    using fold_ok [of rows] by (auto simp: ledger_ok_def)
  then show ?thesis using fold_ok [of rows] by (simp only: ledger_ok_def)
qed

lemma ledger_entry_map: "e \<in> set (map snd (ledger_fold rows)) \<Longrightarrow> map_of (ledger_fold rows) (e_id e) = Some e"
  using fold_ok [of rows] by (auto simp: ledger_ok_def)

lemma state_of_entry: "state_of rows k = Some e \<Longrightarrow> e_id e = k \<and> e \<in> set (map snd (ledger_fold rows))"
  using ledger_okD [OF fold_ok] unfolding state_of_def by (auto dest: map_of_SomeD simp: rev_image_eqI)

lemma find_filter_state:
  "find (\<lambda>e. e_id e = k) (filter P (map snd (ledger_fold rows))) =
   (case state_of rows k of Some e \<Rightarrow> if P e then Some e else None | None \<Rightarrow> None)"
proof (cases "find (\<lambda>e. e_id e = k) (filter P (map snd (ledger_fold rows)))")
  case None
  then have "\<And>e. e \<in> set (map snd (ledger_fold rows)) \<Longrightarrow> P e \<Longrightarrow> e_id e \<noteq> k"
    using find_NoneD [OF None] by auto
  then show ?thesis unfolding None using state_of_entry [of rows k]
    by (cases "state_of rows k") auto
next
  case (Some e)
  then have "e \<in> set (map snd (ledger_fold rows))" "P e" "e_id e = k" using find_SomeD [OF Some] by auto
  then show ?thesis using Some ledger_entry_map [of e rows] by (simp add: state_of_def)
qed

lemma state_after_each:
  assumes "\<forall>e. rows_for (e_id e) (f e)"
  shows "state_of (append_rows rows (concat (map f (filter P (map snd (ledger_fold rows)))))) k =
    map_option (\<lambda>e. if P e then foldl update_entry e (f e) else e) (state_of rows k)"
proof -
  have "distinct (map e_id (filter P (map snd (ledger_fold rows))))"
    using ledger_entries_distinct [of rows] by (rule distinct_map_filter)
  moreover have "\<forall>e\<in>set (filter P (map snd (ledger_fold rows))). map_of (ledger_fold rows) (e_id e) = Some e"
    using ledger_entry_map by auto
  ultimately show ?thesis
    using assms fold_each unfolding state_of_def [of "append_rows _ _"] fold_append_rows
    by (subst fold_each) (auto simp: find_filter_state simp flip: state_of_def split: option.split)
qed

lemma state_after_single:
  assumes "\<forall>e. rows_for (e_id e) [f e]"
  shows "state_of (append_rows rows (map f (filter P (map snd (ledger_fold rows))))) k =
    map_option (\<lambda>e. if P e then update_entry e (f e) else e) (state_of rows k)"
  using state_after_each [of "\<lambda>e. [f e]" rows P k] assms
  by (cases "state_of rows k") (simp_all add: concat_map_singleton [of f, simplified])

section \<open>What each written row does\<close>

lemmas row_defs = items_row_def append_row_def create_row_def reopen_row_def unreadable_row_def
  read_row_def close_row_def hand_row_def return_row_def wait_row_def

lemma rows_for_written [simp]:
  "rows_for eid [append_row eid refs src at]" "rows_for eid [unreadable_row eid pj ev at]"
  "rows_for eid [read_row eid pass parts share at]" "rows_for eid [close_row eid pj d items ref at]"
  "rows_for eid [return_row eid pj why at]" "rows_for (e_id e) [hand_row pass at b e]"
  "rows_for eid [reopen_row eid b at]"
  by (simp_all add: row_defs)

lemma update_read_row [simp]:
  "active e \<Longrightarrow> update_entry e (read_row i pass parts share at) =
   e\<lparr>e_state := ReadIn, e_parts_read := parts, e_share := Some share,
     e_first_read_at := (if e_first_read_at e \<in> {None, Some []} then Some at else e_first_read_at e)\<rparr>"
  by (simp add: update_entry_def row_defs read_entry_def)

lemma update_hand_row:
  "active e \<Longrightarrow> update_entry e (hand_row pass at b x) =
   e\<lparr>e_state := (if e_state e = Open then Handed else e_state e), e_pass_id := Some pass,
     e_hand_count := e_hand_count x + 1, e_handed_at := Some at\<rparr>"
  by (simp add: update_entry_def row_defs hand_entry_def)

lemma update_return_row:
  "active e \<Longrightarrow> update_entry e (return_row i pj why at) =
   e\<lparr>e_state := Open, e_pass_id := None,
     e_misses := e_misses e + (if why = HandedNotRead then 1 else 0),
     e_undecided := e_undecided e + (if why = ReadNotDecided then 1 else 0),
     e_why := Some (return_why_name why)\<rparr>"
  by (simp add: update_entry_def row_defs return_entry_def why_returned_def)

lemma update_close_row:
  "active e \<Longrightarrow> update_entry e (close_row i pj d items ref at) =
   e\<lparr>e_state := Closed, e_decision := Some d, e_decided_items := items, e_reason_ref := Some ref,
     e_closed_at := Some at,
     e_pass_id := (case as_str pj of Some p \<Rightarrow> Some p | None \<Rightarrow> e_pass_id e), e_why := e_why e\<rparr>"
  by (simp add: update_entry_def row_defs close_entry_def)

lemma update_harness_close:
  "active e \<Longrightarrow> update_entry e (close_row i (JStr pass) d items ref at @ [(''by'', JStr h), (''why'', JStr w)]) =
   e\<lparr>e_state := Closed, e_decision := Some d, e_decided_items := items, e_reason_ref := Some ref,
     e_closed_at := Some at, e_pass_id := Some pass, e_why := Some w\<rparr>"
  by (simp add: update_entry_def row_defs close_entry_def)

lemma update_unreadable_row:
  "active e \<Longrightarrow> update_entry e (unreadable_row i pj ev at) =
   e\<lparr>e_state := Unreadable, e_pass_id := None, e_why := Some ev\<rparr>"
  by (simp add: update_entry_def row_defs unreadable_entry_def)

lemma update_append_row:
  "update_entry e (append_row i refs src at) =
   e\<lparr>e_refs := refs_merged (e_refs e) (refs_from_row (refs_row refs)), e_sources := e_sources e @ [src]\<rparr>"
  by (simp add: update_entry_def row_defs append_ref_entry_def src_ids_def)

section \<open>The state kept beside the rows\<close>

definition refs_ok :: "refs \<Rightarrow> bool" where
  "refs_ok r \<longleftrightarrow>
     distinct (r_episodes r) \<and> distinct (r_captures r) \<and> distinct (r_items r) \<and>
     distinct (r_signals r) \<and> distinct (r_passes r) \<and> distinct (r_notes r)"

lemma refs_roundtrip: "refs_ok r \<Longrightarrow> refs_from_row (refs_row r) = r"
  by (cases r) (simp add: refs_ok_def refs_from_row_def refs_row_def Let_def split: option.split)

lemma same_capture_in: "e \<in> set (same_capture st k refs) \<Longrightarrow> e \<in> set (map snd st)"
  by (simp add: same_capture_def)

lemma ledger_ok_map: "ledger_ok st \<Longrightarrow> e \<in> set (map snd st) \<Longrightarrow> map_of st (e_id e) = Some e"
  by (auto simp: ledger_ok_def)

lemma apply_create_row:
  assumes "is_entry_id eid" "eid \<notin> set (keys_of st)" "refs_ok refs"
  shows "apply_row st (create_row eid k at refs) = dict_put eid (new_entry eid k at refs) st"
  using assms by (simp add: apply_row_def create_entry_def row_defs refs_roundtrip new_entry_def)

lemma apply_append_row:
  assumes "map_of st (e_id e) = Some e" "refs_ok refs"
  shows "apply_row st (append_row (e_id e) refs src at) = dict_put (e_id e) (append_state e refs src) st"
  using assms by (simp add: apply_row_for [of _ "e_id e" _ e] row_defs)
    (simp add: update_append_row [unfolded row_defs] append_state_def refs_roundtrip)

lemma apply_reopen:
  assumes "map_of st i = Some e" "e_state e = Closed"
  shows "apply_row st (items_row ''reopen'' i [(''by'', JStr b), (''at'', JStr at)]) =
    dict_put i (e\<lparr>e_state := Open, e_pass_id := None, e_misses := 0, e_undecided := 0,
      e_reopen_count := e_reopen_count e + 1, e_why := Some b\<rparr>) st"
  using assms by (simp add: apply_row_for [of _ i _ e] row_defs update_entry_def reopen_entry_def)

lemma apply_occurrence:
  assumes "map_of st i = Some e"
  shows "apply_row st (items_row ''occurrence'' i [(''refs'', rf), (''src'', JStr src), (''at'', JStr at)]) =
    dict_put i (e\<lparr>e_sources := e_sources e @ [src], e_occurrences := e_occurrences e + 1\<rparr>) st"
  using assms by (simp add: apply_row_for [of _ i _ e] row_defs update_entry_def occurrence_entry_def src_ids_def)


section \<open>The effect of each operation\<close>

lemma rows_for_not_reached [simp]:
  "rows_for eid [items_row ''not_reached'' eid rest]"
  by (simp add: row_defs)

lemma state_active: "state_of rows k = Some e \<Longrightarrow> entry_ok e"
  using ledger_okD [OF fold_ok] by (auto simp: state_of_def)

text \<open>C37. After the run marks everything not reached, nothing is owed any more: an entry is active in
  the state after only if it was not active before, which no row makes it.\<close>

theorem mark_not_reached_settles:
  assumes "mark_not_reached env (JStr (not_reached_name why)) None rows = Inr (ids, rows')"
  shows "(\<forall>k e. state_of rows' k = Some e \<longrightarrow> \<not> active e) \<and>
    set ids = {e_id e | e. e \<in> set (map snd (ledger_fold rows)) \<and> active e}"
proof -
  define f where "f = (\<lambda>e::entry. items_row ''not_reached'' (e_id e)
    [(''why'', JStr (not_reached_name why)), (''at'', JStr (now_iso env))])"
  have rows': "rows' = append_rows rows (map f (filter active (map snd (ledger_fold rows))))"
    and ids: "ids = map e_id (filter active (map snd (ledger_fold rows)))"
    using assms by (simp_all add: mark_not_reached_def Let_def f_def)
  have f: "\<forall>e. rows_for (e_id e) [f e]" by (simp add: f_def row_defs)
  have "\<not> active (update_entry e (f e))" if "active e" for e
    using that by (simp add: f_def row_defs update_entry_def not_reached_entry_def)
      (simp add: active_def)
  then have "\<not> active e" if "state_of rows' k = Some e" for k e
    using that state_after_single [OF f, of rows active k] unfolding rows'
    by (cases "state_of rows k") (simp_all split: if_splits, metis)
  then show ?thesis by (auto simp: ids)
qed

definition sample_log :: "jrow list" where
  "sample_log = [create_row ''00000000000000ab'' NewExperience ''t'' no_refs,
     hand_row ''p1'' ''t'' [] (new_entry ''00000000000000ab'' NewExperience ''t'' no_refs)]"

definition sample_env :: env where
  "sample_env = \<lparr>eid_of = (\<lambda>_ _. ''00000000000000cd''), time_of = (\<lambda>_. None), now_iso = ''now'',
     now_time = 0, has_summary = (\<lambda>_. True), has_procedure = (\<lambda>_. True)\<rparr>"

lemma sample_env_ok: "env_ok sample_env"
  by (simp add: env_ok_def sample_env_def is_entry_id_def)

theorem mark_not_reached_settles_witness:
  "\<exists>ids rows'. mark_not_reached sample_env (JStr ''run_ended'') None sample_log = Inr (ids, rows') \<and>
     (\<forall>k e. state_of rows' k = Some e \<longrightarrow> \<not> active e)"
proof -
  obtain ids rows' where m: "mark_not_reached sample_env (JStr (not_reached_name RunEnded)) None sample_log = Inr (ids, rows')"
    by (simp add: mark_not_reached_def Let_def del: not_reached_name.simps)
  from mark_not_reached_settles [OF m] m show ?thesis by auto
qed

text \<open>After a service start returns the orphans, every entry still in a pass is in a live one, no
  returned entry lost a turn (its misses and undecided counts are as they were), and the entries
  of live passes are untouched.\<close>

theorem return_orphans_effect:
  "\<forall>k e. state_of rows k = Some e \<longrightarrow>
     (\<exists>e'. state_of (snd (return_orphans env live rows)) k = Some e' \<and>
       (if active e \<and> e_state e \<noteq> Open \<and> e_pass_id e \<notin> Some ` set live
        then e_state e' = Open \<and> e_pass_id e' = None \<and> e_misses e' = e_misses e \<and>
             e_undecided e' = e_undecided e
        else e' = e))"
proof (intro allI impI)
  fix k e
  assume e: "state_of rows k = Some e"
  define P where "P = (\<lambda>e::entry. active e \<and> e_state e \<noteq> Open \<and> e_pass_id e \<notin> Some ` set live)"
  define f where "f = (\<lambda>e::entry. return_row (e_id e) (jopt (e_pass_id e)) ServiceRestart (now_iso env))"
  have rows': "snd (return_orphans env live rows) =
      append_rows rows (map f (filter P (map snd (ledger_fold rows))))"
    by (simp add: return_orphans_def Let_def f_def P_def)
  have "\<forall>e. rows_for (e_id e) [f e]" by (simp add: f_def row_defs)
  then have s: "state_of (snd (return_orphans env live rows)) k =
      Some (if P e then update_entry e (f e) else e)"
    unfolding rows' by (subst state_after_single) (simp_all add: e)
  show "\<exists>e'. state_of (snd (return_orphans env live rows)) k = Some e' \<and>
       (if active e \<and> e_state e \<noteq> Open \<and> e_pass_id e \<notin> Some ` set live
        then e_state e' = Open \<and> e_pass_id e' = None \<and> e_misses e' = e_misses e \<and>
             e_undecided e' = e_undecided e
        else e' = e)"
    unfolding s by (cases "P e") (auto simp: P_def f_def update_return_row)
qed

lemma rows_for_return_one: "rows_for (e_id e) [return_one env pass stopped g e]"
  by (simp add: return_one_def Let_def) (simp add: row_defs)

lemma turns_read: "e_state e = ReadIn \<Longrightarrow> turns e = e_undecided e + 1"
  by (simp add: turns_def)

lemma turns_unread: "e_state e \<noteq> ReadIn \<Longrightarrow> turns e = e_misses e + 1"
  by (simp add: turns_def)

text \<open>What the end of a pass makes of one of its entries.\<close>

lemma update_return_one:
  assumes "active e"
  shows "update_entry e (return_one env pass stopped g e) =
    (if stopped then e\<lparr>e_state := Open, e_pass_id := None, e_why := Some ''suspend''\<rparr>
     else if turns e \<ge> UNREADABLE_AFTER_MISSES then
       (if g \<and> has_material e
        then e\<lparr>e_state := Closed, e_decision := Some NothingToKeep, e_decided_items := [],
               e_reason_ref := Some GIVEN_UP, e_closed_at := Some (now_iso env), e_pass_id := Some pass,
               e_why := Some (given_up_why pass e)\<rparr>
        else e\<lparr>e_state := Unreadable, e_pass_id := None,
               e_why := Some (if e_state e = ReadIn
                 then ''read and not decided in '' @ show_nat (turns e) @ '' passes, the last pass:'' @ pass
                 else ''pass:'' @ pass @ ''/'' @ READ_LOG_FILE)\<rparr>)
     else if e_state e = ReadIn
       then e\<lparr>e_state := Open, e_pass_id := None, e_undecided := e_undecided e + 1,
              e_why := Some ''read_not_decided''\<rparr>
     else e\<lparr>e_state := Open, e_pass_id := None, e_misses := e_misses e + 1,
            e_why := Some ''handed_not_read''\<rparr>)"
proof -
  consider "stopped" | "\<not> stopped" "turns e \<ge> UNREADABLE_AFTER_MISSES" "g \<and> has_material e"
    | "\<not> stopped" "turns e \<ge> UNREADABLE_AFTER_MISSES" "\<not> (g \<and> has_material e)"
    | "\<not> stopped" "\<not> turns e \<ge> UNREADABLE_AFTER_MISSES" by blast
  then show ?thesis
  proof cases
    case 1
    then show ?thesis by (simp add: return_one_def Let_def update_return_row assms)
  next
    case 2
    then show ?thesis unfolding return_one_def Let_def
      by (simp only: if_True if_False simp_thms update_harness_close assms)
  next
    case 3
    then show ?thesis unfolding return_one_def Let_def
      by (cases "e_state e = ReadIn")
        (simp_all only: if_True if_False simp_thms update_unreadable_row assms)
  next
    case 4
    then show ?thesis unfolding return_one_def Let_def
      by (cases "e_state e = ReadIn")
        (simp_all only: if_True if_False simp_thms update_return_row assms, simp_all)
  qed
qed

text \<open>When a pass ends, none of its entries is left in it: each one goes back open with one more miss
  (not read) or one more undecided turn (read and not decided), is unreadable after the third such
  turn, or, in a group's pass, is closed as given up; a pass that was stopped costs none of them a
  turn. Every entry of another pass is as it was.\<close>

theorem return_unread_effect:
  "\<forall>k e. state_of rows k = Some e \<longrightarrow>
     (\<exists>e'. state_of (snd (return_unread env pass stopped rows)) k = Some e' \<and>
       (if \<not> in_pass pass e then e' = e
        else if stopped then e_state e' = Open \<and> e_misses e' = e_misses e \<and> e_undecided e' = e_undecided e
        else if turns e < UNREADABLE_AFTER_MISSES then
          e_state e' = Open \<and>
          (e_misses e', e_undecided e') =
            (if e_state e = ReadIn then (e_misses e, e_undecided e + 1) else (e_misses e + 1, e_undecided e))
        else e_state e' = (if has_group_row pass rows \<and> has_material e then Closed else Unreadable)))"
proof (intro allI impI)
  fix k e
  assume e: "state_of rows k = Some e"
  define f where "f = return_one env pass stopped (has_group_row pass rows)"
  have rows': "snd (return_unread env pass stopped rows) =
      append_rows rows (map f (filter (in_pass pass) (map snd (ledger_fold rows))))"
    by (simp add: return_unread_def Let_def f_def)
  have "\<forall>e. rows_for (e_id e) [f e]" unfolding f_def by (blast intro: rows_for_return_one)
  then have s: "state_of (snd (return_unread env pass stopped rows)) k =
      Some (if in_pass pass e then update_entry e (f e) else e)"
    unfolding rows' by (subst state_after_single) (simp_all add: e)
  have "in_pass pass e \<Longrightarrow> active e" by (simp add: in_pass_def)
  then show "\<exists>e'. state_of (snd (return_unread env pass stopped rows)) k = Some e' \<and>
       (if \<not> in_pass pass e then e' = e
        else if stopped then e_state e' = Open \<and> e_misses e' = e_misses e \<and> e_undecided e' = e_undecided e
        else if turns e < UNREADABLE_AFTER_MISSES then
          e_state e' = Open \<and>
          (e_misses e', e_undecided e') =
            (if e_state e = ReadIn then (e_misses e, e_undecided e + 1) else (e_misses e + 1, e_undecided e))
        else e_state e' = (if has_group_row pass rows \<and> has_material e then Closed else Unreadable))"
    unfolding s f_def by (cases "in_pass pass e") (simp_all add: update_return_one)
qed

section \<open>Deciding\<close>

lemma map_r_lookup:
  "map_r (\<lambda>i. case m i of Some e \<Rightarrow> Inr e | None \<Rightarrow> Inl (err i)) ids = Inr es \<longleftrightarrow> map m ids = map Some es"
  by (induction ids arbitrary: es) (auto split: option.splits)

lemma decide_Inr:
  assumes "decide env pass ids decision items_arg reason reads delivered n rows = Inr (res, rows')"
  obtains d es where
    "decision_of decision = Some d" "ids \<noteq> []" "map (state_of rows) ids = map Some es"
    "\<forall>e\<in>set es. in_pass pass e \<and> fst (verify_in env reads delivered e)"
    "d \<in> set NEEDS_ITEMS \<longrightarrow> filter (\<lambda>i. \<not> blank i) (List.map_filter as_str items_arg) \<noteq> []"
    "\<not> blank reason"
    "rows' = append_rows rows
       (concat (map (decide_rows env pass d (filter (\<lambda>i. \<not> blank i) (List.map_filter as_str items_arg))
                       (decision_ref pass n) reads delivered) es) @
        (if d = Defer then fst (create_rows env (ledger_fold rows) Deferred (defer_refs pass es)
           [''decision'', pass, show_nat n] (Some (now_iso env)) False False) else []))"
proof -
  obtain d where d: "decision_of decision = Some d"
    using assms by (auto simp: decide_def Let_def split: option.splits)
  show thesis
    using assms unfolding decide_def Let_def d option.case map_r_lookup bind_r_Inr guard_r_Inr each_r_Inr
    by (elim exE conjE) (rule that [OF d]; auto simp: state_of_def filter_empty_conv map_r_lookup)
qed


section \<open>Every run of the ledger\<close>

text \<open>One operation of a run, for some arguments and some reading of the clock.\<close>

inductive ledger_step :: "jrow list \<Rightarrow> jrow list \<Rightarrow> bool" where
  create: "create env rows k refs src = Inr (i, rows') \<Longrightarrow> ledger_step rows rows'"
| sync: "sync env S rows = (es, rows') \<Longrightarrow> ledger_step rows rows'"
| hand: "hand env pass n ready grouping rows = Inr (es, rows') \<Longrightarrow> ledger_step rows rows'"
| take: "take_entry env pass eid rows = (t, rows') \<Longrightarrow> ledger_step rows rows'"
| verify_reads: "verify_reads env pass reads delivered rows = (ids, rows') \<Longrightarrow> ledger_step rows rows'"
| close: "close env pass ids d items ref rows = Inr rows' \<Longrightarrow> ledger_step rows rows'"
| decide: "decide env pass ids d items reason reads delivered n rows = Inr (r, rows') \<Longrightarrow>
    ledger_step rows rows'"
| return_unread: "return_unread env pass stopped rows = (ids, rows') \<Longrightarrow> ledger_step rows rows'"
| return_orphans: "return_orphans env live rows = (ids, rows') \<Longrightarrow> ledger_step rows rows'"
| record_kin: "record_kin env eid kin why rows = (b, rows') \<Longrightarrow> ledger_step rows rows'"
| mark_not_reached: "mark_not_reached env why want rows = Inr (ids, rows') \<Longrightarrow> ledger_step rows rows'"

inductive ledger_run :: "jrow list \<Rightarrow> bool" where
  empty: "ledger_run []"
| step: "ledger_run rows \<Longrightarrow> ledger_step rows rows' \<Longrightarrow> ledger_run rows'"

definition turns_bounded :: "entry \<Rightarrow> bool" where
  "turns_bounded e \<longleftrightarrow> e_misses e < UNREADABLE_AFTER_MISSES \<and> e_undecided e < UNREADABLE_AFTER_MISSES"

definition ledger_bounded :: "ledger_state \<Rightarrow> bool" where
  "ledger_bounded st \<longleftrightarrow> (\<forall>e\<in>set (map snd st). turns_bounded e)"

text \<open>Only a \<open>return\<close> row costs an entry a turn.\<close>

lemma update_entry_turns:
  "jget row ''op'' \<noteq> JStr ''return'' \<Longrightarrow> turns_bounded e \<Longrightarrow> turns_bounded (update_entry e row)"
  by (rule update_entry_cases [where P = turns_bounded])
    (auto simp: row_ops turns_bounded_def UNREADABLE_AFTER_MISSES_def split: option.split json.split)

lemma update_return_quiet:
  "jget row ''op'' = JStr ''return'' \<Longrightarrow> why_returned row \<in> {Suspend, ServiceRestart} \<Longrightarrow>
   turns_bounded e \<Longrightarrow> turns_bounded (update_entry e row)"
  by (auto simp: update_entry_def return_entry_def turns_bounded_def Let_def)

definition quiet_row :: "jrow \<Rightarrow> bool" where
  "quiet_row row \<longleftrightarrow>
     jget row ''op'' \<noteq> JStr ''return'' \<or> why_returned row \<in> {Suspend, ServiceRestart}"

lemma update_quiet: "quiet_row row \<Longrightarrow> turns_bounded e \<Longrightarrow> turns_bounded (update_entry e row)"
  using update_entry_turns [of row e] update_return_quiet [of row e] by (auto simp: quiet_row_def)

lemma bounded_put: "ledger_bounded st \<Longrightarrow> turns_bounded e \<Longrightarrow> ledger_bounded (dict_put k e st)"
proof -
  assume "ledger_bounded st" "turns_bounded e"
  moreover have "set (map snd (dict_put k e st)) \<subseteq> insert e (set (map snd st))"
    by (induction st) auto
  ultimately show ?thesis unfolding ledger_bounded_def by blast
qed

lemma bounded_entry: "ledger_bounded st \<Longrightarrow> map_of st k = Some e \<Longrightarrow> turns_bounded e"
  by (force simp: ledger_bounded_def dest: map_of_SomeD)

lemma turns_bounded_new: "turns_bounded ((new_entry eid k at r)\<lparr>e_carries := c\<rparr>)"
  by (simp add: turns_bounded_def new_entry_def UNREADABLE_AFTER_MISSES_def)

lemma apply_quiet_row:
  assumes "quiet_row row" "ledger_bounded st"
  shows "ledger_bounded (apply_row st row)"
proof (cases "jget row ''op'' = JStr ''create''")
  case True
  then show ?thesis using assms(2) unfolding apply_row_def create_entry_def
    by (auto split: option.split intro!: bounded_put turns_bounded_new)
next
  case False
  then show ?thesis using assms unfolding apply_row_def
    by (auto split: option.split intro!: bounded_put update_quiet dest: bounded_entry)
qed

lemma fold_quiet_rows:
  "\<forall>r\<in>set new. quiet_row r \<Longrightarrow> ledger_bounded st \<Longrightarrow> ledger_bounded (foldl apply_row st new)"
  by (induction new arbitrary: st) (simp_all add: apply_quiet_row)

lemma append_quiet_rows:
  "ledger_bounded (ledger_fold rows) \<Longrightarrow> \<forall>r\<in>set new. quiet_row r \<Longrightarrow>
   ledger_bounded (ledger_fold (append_rows rows new))"
  unfolding fold_append_rows by (rule fold_quiet_rows)

lemma quiet_written [simp]:
  "quiet_row (append_row i refs src at)" "quiet_row (create_row i k at refs)"
  "quiet_row (unreadable_row i pj ev at)" "quiet_row (read_row i pass parts share at)"
  "quiet_row (close_row i pj d items ref at)" "quiet_row (hand_row pass at b e)"
  "quiet_row (reopen_row i b at)" "quiet_row (wait_row at e)"
  "quiet_row (return_row i pj ServiceRestart at)" "quiet_row (harness_close why at e)"
  "quiet_row (group_row pass gj due ms ctx rs at)"
  using return_why_of_name [of ServiceRestart]
  by (simp_all add: quiet_row_def row_defs why_returned_def harness_close_def group_row_def)

lemma quiet_items_row [simp]: "op \<noteq> ''return'' \<Longrightarrow> quiet_row (items_row op i rest)"
  by (simp add: quiet_row_def row_defs)

lemma create_rows_quiet: "\<forall>r\<in>set (fst (create_rows env st k refs src at dup contrary)). quiet_row r"
  unfolding create_rows_def Let_def by (auto split: option.split list.split)

definition log_quiet :: "sync_state \<Rightarrow> bool" where
  "log_quiet st \<longleftrightarrow> (\<forall>r\<in>set (fst st). quiet_row r)"

lemma then_rows_quiet:
  "log_quiet st \<Longrightarrow> (\<And>s. log_quiet (f s)) \<Longrightarrow> log_quiet (then_rows st f)"
  by (auto simp: log_quiet_def then_rows_def split: prod.split) (metis fst_conv)

lemma create_rows_log [simp]: "log_quiet (create_rows env st k refs src at dup contrary)"
  using create_rows_quiet by (auto simp: log_quiet_def)

lemma fold_log_quiet:
  "log_quiet st \<Longrightarrow> (\<And>s x. log_quiet s \<Longrightarrow> log_quiet (f s x)) \<Longrightarrow> log_quiet (foldl f st xs)"
  by (induction xs arbitrary: st) simp_all

lemma reopen_rows_quiet: "log_quiet (reopen_rows env st i items at)"
  by (auto simp: reopen_rows_def log_quiet_def Let_def)

lemma fork_step_quiet: "log_quiet st \<Longrightarrow> log_quiet (fork_step env S st f)"
  by (auto simp: fork_step_def Let_def intro!: then_rows_quiet)

lemma failure_step_quiet: "log_quiet st \<Longrightarrow> log_quiet (failure_step env st u)"
  by (auto simp: failure_step_def intro!: then_rows_quiet)

lemma late_step_quiet:
  assumes "log_quiet st"
  shows "log_quiet (late_step env S st s)"
proof -
  have "log_quiet (fst st @ fst m, snd m)" if "log_quiet m" for m
    using assms that by (auto simp: log_quiet_def)
  then show ?thesis
    unfolding late_step_def Let_def
    by (auto split: prod.split option.split intro!: then_rows_quiet reopen_rows_quiet) (metis create_rows_log fst_conv snd_conv)+
qed

lemma repeated_step_quiet: "log_quiet st \<Longrightarrow> log_quiet (repeated_step env seen calls st item)"
  by (auto simp: repeated_step_def Let_def log_quiet_def [of "(_ @ _, _)"] split: option.split
      intro!: then_rows_quiet) (auto simp: log_quiet_def)

lemma refusal_rows_quiet: "log_quiet (refusal_rows env g st)"
  by (auto simp: refusal_rows_def Let_def log_quiet_def [of "([], _)"] intro!: fold_log_quiet then_rows_quiet)

lemma give_up_step_quiet: "log_quiet st \<Longrightarrow> log_quiet (give_up_step ev st row)"
  by (auto simp: give_up_step_def log_quiet_def split: option.split bool.split)

lemma refusal_step_quiet: "log_quiet (snd rst) \<Longrightarrow> log_quiet (snd (refusal_step env rst g))"
  using refusal_rows_quiet [of env g "snd (snd rst)"]
  by (auto simp: refusal_step_def Let_def log_quiet_def [of "(_ @ _, _)"] split: prod.split
      intro!: fold_log_quiet give_up_step_quiet) (auto simp: log_quiet_def)

lemma refusals_quiet: "log_quiet (snd rst) \<Longrightarrow> log_quiet (snd (foldl (refusal_step env) rst gs))"
  by (induction gs arbitrary: rst) (simp_all add: refusal_step_quiet)

lemma quiet_append_carries:
  "quiet_row r \<Longrightarrow> quiet_row (r @ [(''carries'', JBool c)])"
  by (auto simp: quiet_row_def jget_append why_returned_def jget_def image_iff
      split: option.splits dest: map_of_SomeD)

lemma message_created_quiet:
  "log_quiet made \<Longrightarrow> log_quiet (message_created env delivered c seq i made)"
  by (auto simp: message_created_def log_quiet_def Let_def quiet_append_carries split: option.split)

lemma message_step_quiet: "log_quiet st \<Longrightarrow> log_quiet (message_step env seqs delivered st v)"
  by (auto simp: message_step_def Let_def split: json.split option.split
      intro!: then_rows_quiet message_created_quiet)

lemma sync_log_quiet: "log_quiet (sync_log env S st)"
proof -
  have 0: "log_quiet ([], st)" by (simp add: log_quiet_def)
  note 1 = fold_log_quiet [where f = "fork_step env S" and xs = "src_forks S", OF 0 fork_step_quiet]
  note 2 = fold_log_quiet [where f = "failure_step env" and xs = "src_failures S", OF 1 failure_step_quiet]
  note 3 = fold_log_quiet [where f = "late_step env S" and xs = "src_late S", OF 2 late_step_quiet]
  have 4: "log_quiet (repeated_use_rows env s calls)" if "log_quiet s" for s calls
    unfolding repeated_use_rows_def using that repeated_step_quiet by (rule fold_log_quiet)
  have 5: "log_quiet (snd (foldl (refusal_step env) ([], s) gs))" if "log_quiet s" for s gs
    using refusals_quiet [of "([], s)"] that by simp
  have 6: "log_quiet (message_rows env s es d)" if "log_quiet s" for s es d
    unfolding message_rows_def using that message_step_quiet by (rule fold_log_quiet)
  show ?thesis unfolding sync_log_def Let_def by (rule 6, rule 5, rule 4, rule 3)
qed

lemma return_one_bounded:
  assumes "turns_bounded e" "active e"
  shows "turns_bounded (update_entry e (return_one env pass stopped g e))"
  using assms
  by (auto simp: update_return_one turns_bounded_def turns_def UNREADABLE_AFTER_MISSES_def)

lemma in_pass_active: "in_pass pass e \<Longrightarrow> active e"
  by (simp add: in_pass_def)

lemma bounded_stateI:
  assumes "\<And>k e. state_of rows k = Some e \<Longrightarrow> turns_bounded e"
  shows "ledger_bounded (ledger_fold rows)"
  unfolding ledger_bounded_def
proof
  fix e
  assume "e \<in> set (map snd (ledger_fold rows))"
  then have "state_of rows (e_id e) = Some e" unfolding state_of_def by (rule ledger_entry_map)
  then show "turns_bounded e" by (rule assms)
qed

lemma bounded_stateD: "ledger_bounded (ledger_fold rows) \<Longrightarrow> state_of rows k = Some e \<Longrightarrow> turns_bounded e"
  unfolding state_of_def by (rule bounded_entry)

lemma return_unread_bounded:
  assumes "ledger_bounded (ledger_fold rows)"
  shows "ledger_bounded (ledger_fold (snd (return_unread env pass stopped rows)))"
proof (rule bounded_stateI)
  fix k e'
  define f where "f = return_one env pass stopped (has_group_row pass rows)"
  have rows': "snd (return_unread env pass stopped rows) =
      append_rows rows (map f (filter (in_pass pass) (map snd (ledger_fold rows))))"
    by (simp add: return_unread_def Let_def f_def)
  have f: "\<forall>e. rows_for (e_id e) [f e]" unfolding f_def by (blast intro: rows_for_return_one)
  assume "state_of (snd (return_unread env pass stopped rows)) k = Some e'"
  then obtain e where e: "state_of rows k = Some e" "e' = (if in_pass pass e then update_entry e (f e) else e)"
    unfolding rows' state_after_single [OF f] by auto
  have "turns_bounded e" using assms e(1) by (rule bounded_stateD)
  then show "turns_bounded e'"
    using return_one_bounded [OF _ in_pass_active] unfolding e(2) f_def by simp
qed

definition quiet_ext :: "jrow list \<Rightarrow> jrow list \<Rightarrow> bool" where
  "quiet_ext rows rows' \<longleftrightarrow> (\<exists>new. rows' = append_rows rows new \<and> (\<forall>r\<in>set new. quiet_row r))"

lemma quiet_ext_append: "\<forall>r\<in>set new. quiet_row r \<Longrightarrow> quiet_ext rows (append_rows rows new)"
  by (auto simp: quiet_ext_def)

lemma quiet_ext_refl [simp]: "quiet_ext rows rows"
  unfolding quiet_ext_def by (rule exI [of _ "[]"]) (simp add: append_rows_def)

lemma quiet_ext_bounded:
  "quiet_ext rows rows' \<Longrightarrow> ledger_bounded (ledger_fold rows) \<Longrightarrow> ledger_bounded (ledger_fold rows')"
  by (auto simp: quiet_ext_def intro: append_quiet_rows)

lemma append_append_rows: "append_rows (append_rows rows a) b = append_rows rows (a @ b)"
  by (simp add: append_rows_def)

definition plan_quiet :: "plan \<Rightarrow> bool" where
  "plan_quiet p \<longleftrightarrow> (\<forall>r\<in>set (plan_rows p). quiet_row r)"

lemma plan_quiet_simps [simp]:
  "plan_quiet NoPass" "plan_quiet (ChoosePass es xs)" "plan_quiet (GroupPass r es xs) \<longleftrightarrow> quiet_row r"
  by (simp_all add: plan_quiet_def plan_rows_def)

lemma plan_groups_quiet [simp]: "plan_quiet (plan_groups env pass k gs es)"
  unfolding plan_groups_def Let_def by (simp split: list.split)

lemma plan_pass_quiet:
  "plan_pass env pass k grouping st pend = (cl, st', p) \<Longrightarrow>
   (\<forall>r\<in>set cl. quiet_row r) \<and> (\<forall>r\<in>set (plan_rows p). quiet_row r)"
  unfolding plan_quiet_def [symmetric] plan_pass_def Let_def
  by (auto split: option.splits if_splits)

lemma hand_quiet: "hand env pass n ready grouping rows = Inr (es, rows') \<Longrightarrow> quiet_ext rows rows'"
  unfolding hand_def Let_def
  by (auto simp: append_append_rows ball_Un split: if_splits prod.splits
      dest!: plan_pass_quiet intro!: quiet_ext_append)

lemma ledger_step_bounded:
  assumes "ledger_step rows rows'" "ledger_bounded (ledger_fold rows)"
  shows "ledger_bounded (ledger_fold rows')"
proof -
  have quiet: "quiet_ext rows rows' \<Longrightarrow> ?thesis"
    using assms(2) by (rule quiet_ext_bounded [rotated])
  show ?thesis using assms(1)
  proof cases
    case (create env k refs src i)
    then show ?thesis using create_rows_quiet
      by (intro quiet) (auto simp: create_def Let_def split: option.splits intro!: quiet_ext_append)
  next
    case (sync env S es)
    then have "rows' = append_rows rows (fst (sync_log env S (ledger_fold rows)))"
      by (auto simp: sync_def Let_def split: prod.splits)
    then show ?thesis using sync_log_quiet
      by (intro quiet) (auto simp: log_quiet_def intro!: quiet_ext_append)
  next
    case hand
    then show ?thesis using hand_quiet quiet by blast
  next
    case take
    then show ?thesis
      by (intro quiet) (auto simp: take_entry_def split: option.splits if_splits intro!: quiet_ext_append)
  next
    case verify_reads
    then show ?thesis
      by (intro quiet) (auto simp: verify_reads_def Let_def split: prod.splits intro!: quiet_ext_append)
  next
    case close
    then show ?thesis
      by (intro quiet) (auto simp: close_def Let_def split: option.splits if_splits intro!: quiet_ext_append)
  next
    case decide
    then show ?thesis
      by (intro quiet) (elim decide_Inr, auto simp: decide_rows_def Let_def split: prod.splits
        intro!: quiet_ext_append dest: create_rows_quiet [rule_format])
  next
    case (return_unread env pass stopped ids)
    then show ?thesis using return_unread_bounded [OF assms(2), of env pass stopped] by simp
  next
    case return_orphans
    then show ?thesis by (intro quiet) (auto simp: return_orphans_def Let_def intro!: quiet_ext_append)
  next
    case record_kin
    then show ?thesis
      by (intro quiet) (auto simp: record_kin_def Let_def split: if_splits intro!: quiet_ext_append)
  next
    case mark_not_reached
    then show ?thesis
      by (intro quiet) (auto simp: mark_not_reached_def Let_def split: option.splits intro!: quiet_ext_append)
  qed
qed


definition sample_run :: "jrow list" where
  "sample_run = snd (sum.projr (create sample_env [] (JStr ''message'') no_refs [''1'']))"

lemma sample_run_reached: "ledger_run sample_run"
proof (rule ledger_run.step [OF ledger_run.empty])
  have "kind_of (JStr ''message'') = Some Message" using kind_of_name [of Message] by simp
  then show "ledger_step [] sample_run"
    by (intro ledger_step.create [of sample_env "[]" "JStr ''message''" no_refs "[''1'']"
          "fst (sum.projr (create sample_env [] (JStr ''message'') no_refs [''1'']))"])
      (simp add: sample_run_def create_def Let_def)
qed


section \<open>Handing\<close>

definition handed :: "string \<Rightarrow> string \<Rightarrow> entry \<Rightarrow> entry" where
  "handed pass at e =
    e\<lparr>e_state := Handed, e_pass_id := Some pass, e_hand_count := e_hand_count e + 1, e_handed_at := Some at\<rparr>"

lemma update_hand_open:
  "e_state e = Open \<Longrightarrow> update_entry e (hand_row pass at b e) = handed pass at e"
  "e_state e = Open \<Longrightarrow> update_entry (handed pass at e) (hand_row pass at b e) = handed pass at e"
  by (simp_all add: update_hand_row active_def handed_def)

definition open_in :: "ledger_state \<Rightarrow> entry \<Rightarrow> bool" where
  "open_in st e \<longleftrightarrow> map_of st (e_id e) = Some e \<and> e_state e = Open"

definition hand_rows :: "string \<Rightarrow> string \<Rightarrow> (entry \<times> string) list \<Rightarrow> jrow list" where
  "hand_rows pass at es = map (\<lambda>(e, b). hand_row pass at b e) es"

lemma fold_hand_rows:
  assumes "\<forall>(e, b)\<in>set es. open_in st e"
    and "\<forall>k. map_of s k = map_of st k \<or>
      (\<exists>e. open_in st e \<and> e_id e = k \<and> map_of s k = Some (handed pass at e))"
  shows "(\<forall>(e, b)\<in>set es. map_of (foldl apply_row s (hand_rows pass at es)) (e_id e) = Some (handed pass at e)) \<and>
    (\<forall>k. map_of s k \<noteq> map_of st k \<longrightarrow> map_of (foldl apply_row s (hand_rows pass at es)) k = map_of s k)"
  using assms
proof (induction es arbitrary: s)
  case Nil
  then show ?case by (simp add: hand_rows_def)
next
  case (Cons eb es)
  obtain e b where eb: "eb = (e, b)" by (cases eb)
  let ?r = "hand_row pass at b e"
  have e: "open_in st e" using Cons.prems(1) by (simp add: eb)
  then have now: "map_of s (e_id e) = Some e \<or> map_of s (e_id e) = Some (handed pass at e)"
    using spec [OF Cons.prems(2), of "e_id e"] by (auto simp: open_in_def)
  have r: "jget ?r ''entry'' = JStr (e_id e)" "jget ?r ''op'' \<noteq> JStr ''create''"
    by (simp_all add: row_defs)
  have a: "apply_row s ?r = dict_put (e_id e) (handed pass at e) s"
    using now e by (auto simp: apply_row_for [OF r] update_hand_open open_in_def)
  have "\<forall>k. map_of (apply_row s ?r) k = map_of st k \<or>
      (\<exists>e. open_in st e \<and> e_id e = k \<and> map_of (apply_row s ?r) k = Some (handed pass at e))"
    using Cons.prems(2) e by (auto simp: a)
  from Cons.IH [OF _ this] Cons.prems(1)
  have ih: "\<forall>(e, b)\<in>set es. map_of (foldl apply_row (apply_row s ?r) (hand_rows pass at es)) (e_id e) = Some (handed pass at e)"
    "\<forall>k. map_of (apply_row s ?r) k \<noteq> map_of st k \<longrightarrow>
      map_of (foldl apply_row (apply_row s ?r) (hand_rows pass at es)) k = map_of (apply_row s ?r) k"
    by auto
  have ne: "Some (handed pass at e) \<noteq> map_of st (e_id e)"
    using e by (auto simp: open_in_def handed_def dest: arg_cong [where f = e_state])
  have f: "foldl apply_row s (hand_rows pass at (eb # es)) = foldl apply_row (apply_row s ?r) (hand_rows pass at es)"
    by (simp add: hand_rows_def eb)
  have "map_of (foldl apply_row (apply_row s ?r) (hand_rows pass at es)) (e_id e) = Some (handed pass at e)"
    using spec [OF ih(2), of "e_id e"] ne by (simp add: a)
  moreover have "map_of (foldl apply_row (apply_row s ?r) (hand_rows pass at es)) k = map_of s k"
    if "map_of s k \<noteq> map_of st k" for k
  proof (cases "k = e_id e")
    case True
    then show ?thesis using now that e calculation by (auto simp: open_in_def)
  next
    case False
    then show ?thesis using spec [OF ih(2), of k] that by (simp add: a)
  qed
  ultimately show ?case using ih(1) unfolding f by (auto simp: eb)
qed

lemma set_fill: "set (fill k chosen es) \<subseteq> set chosen \<union> set es"
  by (induction k chosen es rule: fill.induct) auto

lemma length_fill: "length chosen \<le> k \<Longrightarrow> length (fill k chosen es) \<le> k"
  by (induction k chosen es rule: fill.induct) auto

lemma oldest_overdue_in:
  assumes "pending \<noteq> []"
  shows "set (oldest_overdue env st rows pending) \<subseteq> set pending"
proof -
  have "hd (sort_key age_key pending) \<in> set (sort_key age_key pending)"
    by (rule list.set_sel(1)) (simp add: assms)
  then show ?thesis by (auto simp: oldest_overdue_def Let_def split: option.split)
qed

lemma choose_entries_in: "pending \<noteq> [] \<Longrightarrow> set (choose_entries env k st rows pending) \<subseteq> set pending"
  using set_fill [of k "oldest_overdue env st rows pending" "order_entries pending"]
    oldest_overdue_in [of pending env st rows]
  by (auto simp: choose_entries_def Let_def order_entries_def dest!: in_set_takeD)

lemma choose_entries_length:
  assumes "k \<ge> 1"
  shows "length (choose_entries env k st rows pending) \<le> k"
proof -
  have "length (oldest_overdue env st rows pending) \<le> k"
    using assms by (simp add: oldest_overdue_def Let_def split: option.split)
  then show ?thesis using assms length_fill by (auto simp: choose_entries_def Let_def)
qed

lemma plan_groups_in:
  "set (chosen_of env k st rows (plan_groups env' pass k' gs pending)) \<union>
   set (plan_ended (plan_groups env' pass k' gs pending)) \<subseteq> set pending"
proof -
  have "set (choose_entries env k st rows (filter Q pending)) \<subseteq> set pending" if "filter Q pending \<noteq> []" for Q
    using choose_entries_in [OF that, of env k st rows] by auto
  then show ?thesis
    by (auto simp: plan_groups_def chosen_of_def plan_ended_def Let_def split: list.split dest!: in_set_takeD)
qed

lemma plan_pass_in:
  assumes "plan_pass env pass k grouping st pending = (cl, st', p)" "pending \<noteq> []"
  shows "set (chosen_of env k st'' rows p) \<union> set (plan_ended p) \<subseteq> set pending"
proof (cases grouping)
  case None
  then show ?thesis using assms choose_entries_in [OF assms(2), of env k st'' rows]
    by (auto simp: plan_pass_def chosen_of_def plan_ended_def)
next
  case (Some f)
  then show ?thesis using assms(1) plan_groups_in
    by (fastforce simp: plan_pass_def Let_def chosen_of_def [of _ _ _ _ NoPass] plan_ended_def [of NoPass]
        split: if_splits)
qed

definition with_pass :: "entry list \<Rightarrow> entry list \<Rightarrow> (entry \<times> string) list" where
  "with_pass chosen others = map (\<lambda>e. (e, [])) chosen @ map (\<lambda>e. (e, ''with_pass'')) others"

lemma handed_lookup:
  assumes "\<forall>e\<in>set (chosen @ others). open_in (ledger_fold rows) e" "e \<in> set (chosen @ others)"
  shows "map_of (ledger_fold (rows @ hand_rows pass at (with_pass chosen others))) (e_id e) = Some (handed pass at e)"
proof -
  have "\<forall>(e, b)\<in>set (with_pass chosen others). open_in (ledger_fold rows) e"
    using assms(1) by (auto simp: with_pass_def)
  note got = fold_hand_rows [OF this, of "ledger_fold rows" pass at]
  have "e \<in> fst ` set (with_pass chosen others)"
    using assms(2) by (auto simp: with_pass_def image_Un image_image)
  then show ?thesis using got by (fastforce simp: ledger_fold_append)
qed

lemma hand_result:
  assumes "hand env pass n ready grouping rows = Inr (es, rows')"
  defines "isr \<equiv> (case ready of Some f \<Rightarrow> f | None \<Rightarrow> (\<lambda>_. True))"
  shows "\<exists>chosen others. set (chosen @ others) \<subseteq> set (filter isr (open_list (ledger_fold rows))) \<and>
    (es = [] \<or> es = List.map_filter (\<lambda>e. map_of (ledger_fold (rows @
       hand_rows pass (now_iso env) (with_pass chosen others))) (e_id e)) (chosen @ others))"
proof -
  define st where "st = ledger_fold rows"
  define ok where "ok = filter isr (open_list st)"
  define quiet where "quiet = filter (\<lambda>e. \<not> wants_pass e) ok"
  define pending where "pending = filter wants_pass ok"
  note fold = isr_def [symmetric] st_def [symmetric] ok_def [symmetric] quiet_def [symmetric] pending_def [symmetric]
  show ?thesis
  proof (cases "pending = []")
    case True
    then have "es = []" using assms(1) unfolding hand_def Let_def fold by (auto split: if_splits)
    then show ?thesis by (intro exI [of _ "[]"]) simp
  next
    case False
    obtain cl st' p where p: "plan_pass env pass (nat n) grouping st pending = (cl, st', p)"
      by (metis prod_cases3)
    define chosen where "chosen = chosen_of env (nat n) st' rows p"
    define ended where "ended = along chosen (plan_ended p)"
    define extra where "extra = along (chosen @ ended) quiet"
    have rows_eq: "hand_rows pass (now_iso env) (with_pass chosen (ended @ extra)) =
        map (hand_row pass (now_iso env) []) chosen @ map (hand_row pass (now_iso env) ''with_pass'') ended @
        map (hand_row pass (now_iso env) ''with_pass'') extra"
      by (simp add: with_pass_def hand_rows_def)
    have "es = [] \<or> es = List.map_filter (\<lambda>e. map_of (ledger_fold (rows @
        hand_rows pass (now_iso env) (with_pass chosen (ended @ extra)))) (e_id e)) (chosen @ ended @ extra)"
      using assms(1) False p unfolding hand_def Let_def fold
      by (auto simp: rows_eq simp flip: chosen_def ended_def extra_def split: if_splits prod.splits)
    moreover have "set (chosen @ ended @ extra) \<subseteq> set ok"
      using plan_pass_in [OF p False] by (auto simp: chosen_def ended_def extra_def along_def quiet_def pending_def)
    ultimately show ?thesis unfolding fold by (intro exI [of _ chosen] exI [of _ "ended @ extra"]) blast
  qed
qed

text \<open>A pass is handed only entries that were open and ready: each entry \<open>hand\<close> returns was open
  before, no episode it names was still unread by the harness, and it is now handed to this pass
  with its hand count one higher and everything else as it was.\<close>

theorem hand_only_open:
  assumes "hand env pass n ready grouping rows = Inr (es, rows')"
  shows "\<forall>x\<in>set es. \<exists>e. state_of rows (e_id e) = Some e \<and> e_state e = Open \<and>
    (case ready of Some f \<Rightarrow> f e | None \<Rightarrow> True) \<and> x = handed pass (now_iso env) e"
proof
  fix x assume x: "x \<in> set es"
  obtain chosen others where sub: "set (chosen @ others) \<subseteq>
      set (filter (case ready of Some f \<Rightarrow> f | None \<Rightarrow> (\<lambda>_. True)) (open_list (ledger_fold rows)))"
    and es: "es = [] \<or> es = List.map_filter (\<lambda>e. map_of (ledger_fold (rows @
       hand_rows pass (now_iso env) (with_pass chosen others))) (e_id e)) (chosen @ others)"
    using hand_result [OF assms] by blast
  have op: "\<forall>e\<in>set (chosen @ others). open_in (ledger_fold rows) e"
    using sub ledger_entry_map by (fastforce simp: open_list_def open_in_def)
  obtain e where e: "e \<in> set (chosen @ others)" "map_of (ledger_fold (rows @
      hand_rows pass (now_iso env) (with_pass chosen others))) (e_id e) = Some x"
    using x es by (auto simp only: in_map_filter list.set empty_iff)
  have "x = handed pass (now_iso env) e" using handed_lookup [OF op e(1)] e(2) by simp
  moreover have "open_in (ledger_fold rows) e" using op e(1) by blast
  moreover have "case ready of Some f \<Rightarrow> f e | None \<Rightarrow> True" using sub e(1) by (auto split: option.splits)
  ultimately show "\<exists>e. state_of rows (e_id e) = Some e \<and> e_state e = Open \<and>
      (case ready of Some f \<Rightarrow> f e | None \<Rightarrow> True) \<and> x = handed pass (now_iso env) e"
    by (auto simp: open_in_def state_of_def)
qed

text \<open>The report accounts for every entry of a kind exactly once: what was created is what is closed,
  still owed, unreadable or not reached.\<close>

theorem kind_report_accounts:
  "kr_created (kind_report_of es k) =
   kr_closed (kind_report_of es k) + kr_open (kind_report_of es k) +
   kr_unreadable (kind_report_of es k) + kr_not_reached (kind_report_of es k)"
proof (induction es)
  case Nil
  show ?case by (simp add: kind_report_of_def)
next
  case (Cons e es)
  then show ?case by (cases "e_state e") (simp_all add: kind_report_of_def Let_def active_def)
qed

text \<open>Taking an entry: it is taken exactly when it is open, and then it is in the pass; otherwise the
  ledger is as it was.\<close>

theorem take_entry_effect:
  "(case state_of rows eid of
      Some e \<Rightarrow>
        (if e_state e = Open
         then (\<exists>m. fst (take_entry env pass eid rows) = Taken m) \<and>
              state_of (snd (take_entry env pass eid rows)) eid = Some (handed pass (now_iso env) e)
         else (\<forall>m. fst (take_entry env pass eid rows) \<noteq> Taken m) \<and> snd (take_entry env pass eid rows) = rows)
    | None \<Rightarrow> take_entry env pass eid rows = (UnknownId, rows))"
proof (cases "state_of rows eid")
  case None
  then show ?thesis by (simp add: take_entry_def state_of_def)
next
  case (Some e)
  have id: "e_id e = eid" using state_of_entry [OF Some] by simp
  have m: "map_of (ledger_fold rows) eid = Some e" using Some by (simp add: state_of_def)
  show ?thesis
  proof (cases "e_state e = Open")
    case True
    have r: "jget (hand_row pass (now_iso env) ''take'' e) ''entry'' = JStr eid"
      "jget (hand_row pass (now_iso env) ''take'' e) ''op'' \<noteq> JStr ''create''"
      by (simp_all add: row_defs id)
    have "state_of (append_rows rows [hand_row pass (now_iso env) ''take'' e]) eid =
        Some (handed pass (now_iso env) e)"
      unfolding state_of_def fold_append_rows
      using True by (simp add: apply_row_for [OF r m] update_hand_open)
    then show ?thesis using Some True m by (simp add: take_entry_def)
  next
    case False
    then show ?thesis using Some m by (simp add: take_entry_def)
  qed
qed

section \<open>At concrete inputs\<close>


lemma sample_state: "state_of sample_log ''00000000000000ab'' \<noteq> None"
  by code_simp

theorem return_orphans_effect_witness:
  "\<exists>e. state_of (snd (return_orphans sample_env [] sample_log)) ''00000000000000ab'' = Some e"
  using return_orphans_effect [of sample_log sample_env "[]"] sample_state by blast

theorem return_unread_effect_witness:
  "\<exists>e. state_of (snd (return_unread sample_env ''p1'' False sample_log)) ''00000000000000ab'' = Some e"
  using return_unread_effect [of sample_log sample_env "''p1''" False] sample_state by blast

definition message_log :: "jrow list" where
  "message_log = [create_row ''00000000000000ab'' Message ''t'' (no_refs\<lparr>r_record_seq := Some 3\<rparr>),
     hand_row ''p1'' ''t'' [] (new_entry ''00000000000000ab'' Message ''t'' (no_refs\<lparr>r_record_seq := Some 3\<rparr>))]"


lemma message_handed: "\<not> isl (hand sample_env ''p2'' 1 None None [hd message_log])"
  by code_simp

lemma message_decided: "\<not> isl (decide sample_env ''p1'' [''00000000000000ab''] (JStr ''nothing_to_keep'') [] ''r''
    sample_reads [3] 1 message_log)"
  by code_simp


theorem hand_only_open_witness:
  "\<exists>es rows'. hand sample_env ''p2'' 1 None None [hd message_log] = Inr (es, rows') \<and>
     (\<forall>x\<in>set es. \<exists>e. e_state e = Open \<and> x = handed ''p2'' ''now'' e)"
proof -
  obtain es rows' where h: "hand sample_env ''p2'' 1 None None [hd message_log] = Inr (es, rows')"
    using message_handed by (metis isl_def old.prod.exhaust sum.exhaust)
  show ?thesis using hand_only_open [OF h] h by (force simp: sample_env_def)
qed

end
