(* ===== verification/Covers.thy ===== *)
theory Covers imports Layout
begin

text \<open>
  What a function's covers name (\<open>unify/memory/procedures.py\<close>: \<open>Cover\<close>, \<open>parse_cover\<close>,
  \<open>cover_raw\<close>). A cover is a recorded cell, a work-tree diff or an episode with its runner; each
  refusal of \<open>parse_cover\<close> is a constructor.
\<close>

datatype cover_type = CCell | CDiff | CEpisode

fun cover_type_name :: "cover_type \<Rightarrow> string" where
  "cover_type_name CCell = ''cell''"
| "cover_type_name CDiff = ''diff''"
| "cover_type_name CEpisode = ''episode''"

definition COVER_TYPES :: "cover_type list" where
  "COVER_TYPES = [CCell, CDiff, CEpisode]"

definition cover_type_of :: "json \<Rightarrow> cover_type option" where
  "cover_type_of v = find (\<lambda>t. v = JStr (cover_type_name t)) COVER_TYPES"

lemma cover_type_of_name [simp]: "cover_type_of (JStr (cover_type_name t)) = Some t"
  by (cases t) (simp_all add: cover_type_of_def COVER_TYPES_def)

lemmas cover_type_of_literals [simp] =
  cover_type_of_name [of CCell, simplified] cover_type_of_name [of CDiff, simplified]
  cover_type_of_name [of CEpisode, simplified]

definition RUNNERS :: "string list" where
  "RUNNERS = [''worktree'', ''tool'', ''dialogue'']"

definition COVER_KEYS :: "string list" where
  "COVER_KEYS = [''episode'', ''type'', ''cell'', ''runner'', ''action'', ''params'', ''paths'']"

record cover =
  c_episode :: string
  c_type :: cover_type
  c_index :: "int option"
  c_runner :: "string option"
  c_action :: "int option"
  c_params :: jrow
  c_paths :: "string list"

datatype cover_error =
    NotACover | BadEpisode | BadType | UnknownKeys "string list" | NoCellIndex | BadRunner
  | BadParams | NoAction | BadPaths

datatype parsed_cover = ActionCover string int | TypedCover cover

definition index_of :: "json \<Rightarrow> int option" where
  "index_of v = (case v of JInt n \<Rightarrow> if n \<ge> 0 then Some n else None | _ \<Rightarrow> None)"

definition is_episode_char :: "char \<Rightarrow> bool" where
  "is_episode_char c \<longleftrightarrow>
     is_lower c \<or> is_upper c \<or> is_digit c \<or> c \<in> {CHR ''.'', CHR ''_'', CHR '':'', CHR ''-''}"

fun is_episode_id :: "string \<Rightarrow> bool" where
  "is_episode_id [] \<longleftrightarrow> False"
| "is_episode_id (c # s) \<longleftrightarrow>
     (is_lower c \<or> is_upper c \<or> is_digit c) \<and> length s \<le> 127 \<and> list_all is_episode_char s"

text \<open>\<open>str.isidentifier\<close> on ASCII text.\<close>

fun is_identifier :: "string \<Rightarrow> bool" where
  "is_identifier [] \<longleftrightarrow> False"
| "is_identifier (c # s) \<longleftrightarrow> is_word c \<and> \<not> is_digit c \<and> list_all is_word s"

fun str_list_of :: "json \<Rightarrow> string list option" where
  "str_list_of (JArr xs) = those (map as_str xs)"
| "str_list_of _ = None"

definition parse_episode_cover :: "jrow \<Rightarrow> string \<Rightarrow> cover_error + cover" where
  "parse_episode_cover raw eid =
    (case as_str (jget raw ''runner'') of
       None \<Rightarrow> Inl BadRunner
     | Some runner \<Rightarrow>
         if runner \<notin> set RUNNERS then Inl BadRunner
         else case jget_or raw ''params'' (JObj []) of
           JObj params \<Rightarrow>
             if \<not> list_all is_identifier (keys_of params) then Inl BadParams
             else if runner = ''dialogue'' \<and> index_of (jget raw ''action'') = None then Inl NoAction
             else (case str_list_of (jget_or raw ''paths'' (JArr [])) of
                None \<Rightarrow> Inl BadPaths
              | Some paths \<Rightarrow>
                  Inr \<lparr>c_episode = eid, c_type = CEpisode, c_index = None, c_runner = Some runner,
                       c_action = (if runner = ''dialogue'' then index_of (jget raw ''action'') else None),
                       c_params = params, c_paths = paths\<rparr>)
         | _ \<Rightarrow> Inl BadParams)"

definition parse_typed_cover :: "jrow \<Rightarrow> cover_error + cover" where
  "parse_typed_cover raw =
    (case as_str (jget raw ''episode'') of
       None \<Rightarrow> Inl BadEpisode
     | Some eid \<Rightarrow>
         if \<not> is_episode_id eid then Inl BadEpisode
         else case cover_type_of (jget raw ''type'') of
           None \<Rightarrow> Inl BadType
         | Some t \<Rightarrow>
             let unknown = sorted_set (filter (\<lambda>k. k \<notin> set COVER_KEYS) (keys_of raw))
             in if unknown \<noteq> [] then Inl (UnknownKeys (take 5 unknown))
                else (case t of
                   CCell \<Rightarrow>
                     (case index_of (jget raw ''cell'') of
                        None \<Rightarrow> Inl NoCellIndex
                      | Some n \<Rightarrow>
                          Inr \<lparr>c_episode = eid, c_type = CCell, c_index = Some n, c_runner = None,
                               c_action = None, c_params = [], c_paths = []\<rparr>)
                 | CDiff \<Rightarrow>
                     Inr \<lparr>c_episode = eid, c_type = CDiff, c_index = None, c_runner = None,
                          c_action = None, c_params = [], c_paths = []\<rparr>
                 | CEpisode \<Rightarrow> parse_episode_cover raw eid))"

definition parse_cover :: "json \<Rightarrow> cover_error + parsed_cover" where
  "parse_cover v =
    (case v of
       JArr [JStr eid, n] \<Rightarrow>
         (case index_of n of Some i \<Rightarrow> Inr (ActionCover eid i) | None \<Rightarrow> Inl NotACover)
     | JObj raw \<Rightarrow> bind_r (parse_typed_cover raw) (\<lambda>c. Inr (TypedCover c))
     | _ \<Rightarrow> Inl NotACover)"

text \<open>For a cell cover \<open>c.index\<close> is always set, for an episode cover \<open>c.runner\<close>.\<close>

definition jint_opt :: "int option \<Rightarrow> json" where
  "jint_opt n = (case n of None \<Rightarrow> JNull | Some i \<Rightarrow> JInt i)"

definition cover_raw :: "cover \<Rightarrow> jrow" where
  "cover_raw c =
    (let head = [(''episode'', JStr (c_episode c)), (''type'', JStr (cover_type_name (c_type c)))]
     in case c_type c of
       CCell \<Rightarrow> head @ [(''cell'', jint_opt (c_index c))]
     | CDiff \<Rightarrow> head
     | CEpisode \<Rightarrow>
         head @ [(''runner'', jopt (c_runner c))] @
         (case c_action c of None \<Rightarrow> [] | Some n \<Rightarrow> [(''action'', JInt n)]) @
         (if c_params c \<noteq> [] then [(''params'', JObj (c_params c))] else []) @
         (if c_paths c \<noteq> [] then [(''paths'', jstrs (c_paths c))] else []))"

section \<open>Reading a cover back\<close>

text \<open>What every typed cover that was parsed satisfies.\<close>

definition cover_ok :: "cover \<Rightarrow> bool" where
  "cover_ok c \<longleftrightarrow>
     is_episode_id (c_episode c) \<and>
     (case c_type c of
        CCell \<Rightarrow> (\<exists>n\<ge>0. c_index c = Some n) \<and> c_runner c = None \<and> c_action c = None \<and>
          c_params c = [] \<and> c_paths c = []
      | CDiff \<Rightarrow> c_index c = None \<and> c_runner c = None \<and> c_action c = None \<and>
          c_params c = [] \<and> c_paths c = []
      | CEpisode \<Rightarrow>
          c_index c = None \<and> (\<exists>r\<in>set RUNNERS. c_runner c = Some r) \<and>
          (if c_runner c = Some ''dialogue'' then \<exists>n\<ge>0. c_action c = Some n else c_action c = None) \<and>
          list_all is_identifier (keys_of (c_params c)))"

lemma index_of_Some: "index_of v = Some n \<longleftrightarrow> v = JInt n \<and> n \<ge> 0"
  by (auto simp: index_of_def split: json.splits)

lemma those_JStr [simp]: "those (map (as_str \<circ> JStr) xs) = Some xs"
  by (induction xs) simp_all

lemma str_list_of_jstrs [simp]: "str_list_of (jstrs xs) = Some xs"
  by (simp add: jstrs_def)

lemma parse_episode_cover_ok:
  "is_episode_id eid \<Longrightarrow> parse_episode_cover raw eid = Inr c \<Longrightarrow> cover_ok c"
  unfolding parse_episode_cover_def cover_ok_def
  by (auto simp: index_of_Some split: option.splits json.splits if_splits)

definition cell_cover :: "string \<Rightarrow> int \<Rightarrow> cover" where
  "cell_cover eid n = \<lparr>c_episode = eid, c_type = CCell, c_index = Some n, c_runner = None,
     c_action = None, c_params = [], c_paths = []\<rparr>"

definition diff_cover :: "string \<Rightarrow> cover" where
  "diff_cover eid = \<lparr>c_episode = eid, c_type = CDiff, c_index = None, c_runner = None,
     c_action = None, c_params = [], c_paths = []\<rparr>"

lemma parse_typed_cover_cases:
  assumes "parse_typed_cover raw = Inr c"
  obtains eid where "is_episode_id eid"
    "(\<exists>n\<ge>0. c = cell_cover eid n) \<or> c = diff_cover eid \<or> parse_episode_cover raw eid = Inr c"
proof -
  obtain eid where eid: "as_str (jget raw ''episode'') = Some eid" "is_episode_id eid"
    using assms unfolding parse_typed_cover_def by (simp split: option.splits if_splits)
  obtain t where t: "cover_type_of (jget raw ''type'') = Some t"
    using assms eid unfolding parse_typed_cover_def by (simp split: option.splits if_splits)
  have none: "sorted_set (filter (\<lambda>k. k \<notin> set COVER_KEYS) (keys_of raw)) = []"
    using assms eid t unfolding parse_typed_cover_def Let_def
    by (simp del: sorted_set_Nil_iff split: if_splits)
  have "(\<exists>n\<ge>0. c = cell_cover eid n) \<or> c = diff_cover eid \<or> parse_episode_cover raw eid = Inr c"
    using assms unfolding parse_typed_cover_def Let_def eid(1) t none
    by (cases t)
      (auto simp: eid cell_cover_def diff_cover_def index_of_Some split: option.splits)
  then show thesis using eid that by blast
qed

lemma cell_cover_ok: "is_episode_id eid \<Longrightarrow> 0 \<le> n \<Longrightarrow> cover_ok (cell_cover eid n)"
  by (simp add: cell_cover_def cover_ok_def)

lemma diff_cover_ok: "is_episode_id eid \<Longrightarrow> cover_ok (diff_cover eid)"
  by (simp add: diff_cover_def cover_ok_def)

lemma parse_typed_cover_ok: "parse_typed_cover raw = Inr c \<Longrightarrow> cover_ok c"
  by (erule parse_typed_cover_cases)
    (elim disjE exE conjE; simp add: cell_cover_ok diff_cover_ok parse_episode_cover_ok)

lemma cover_raw_keys: "filter (\<lambda>k. k \<notin> set COVER_KEYS) (keys_of (cover_raw c)) = []"
  by (cases "c_type c") (simp_all add: cover_raw_def COVER_KEYS_def Let_def split: option.split)

lemma cover_raw_head:
  "jget (cover_raw c) ''episode'' = JStr (c_episode c)"
  "jget (cover_raw c) ''type'' = JStr (cover_type_name (c_type c))"
  by (cases "c_type c"; simp add: cover_raw_def Let_def)+

lemma parse_cover_raw:
  assumes "cover_ok c"
  shows "parse_typed_cover (cover_raw c) = Inr c"
proof (cases "c_type c")
  case CCell
  then show ?thesis
    using assms unfolding parse_typed_cover_def Let_def cover_raw_keys cover_raw_head
    by (cases c) (auto simp: cover_ok_def cover_raw_def jint_opt_def index_of_def)
next
  case CDiff
  then show ?thesis
    using assms unfolding parse_typed_cover_def Let_def cover_raw_keys cover_raw_head
    by (cases c) (auto simp: cover_ok_def)
next
  case CEpisode
  then have "parse_episode_cover (cover_raw c) (c_episode c) = Inr c"
    using assms unfolding parse_episode_cover_def
    by (cases c) (auto simp: cover_ok_def cover_raw_def jopt_def index_of_def split: if_splits)
  then show ?thesis
    using assms CEpisode unfolding parse_typed_cover_def Let_def cover_raw_keys cover_raw_head
    by (simp add: cover_ok_def)
qed

text \<open>C35. \<open>parse_cover\<close> reads \<open>cover_raw c\<close> back to an equal cover, for every typed cover it ever returned.\<close>

theorem cover_roundtrip:
  "parse_cover v = Inr (TypedCover c) \<Longrightarrow> parse_cover (JObj (cover_raw c)) = Inr (TypedCover c)"
  by (auto simp: parse_cover_def parse_cover_raw dest!: parse_typed_cover_ok
      split: json.splits list.splits option.splits)


definition sample_cover :: cover where
  "sample_cover = \<lparr>c_episode = ''ep1'', c_type = CEpisode, c_index = None, c_runner = Some ''dialogue'',
     c_action = Some 2, c_params = [(''year'', JInt 7)], c_paths = [''a.csv'']\<rparr>"

theorem cover_roundtrip_witness: "parse_cover (JObj (cover_raw sample_cover)) = Inr (TypedCover sample_cover)"
proof (rule cover_roundtrip)
  show "parse_cover (JObj [(''runner'', JStr ''dialogue''), (''action'', JInt 2), (''episode'', JStr ''ep1''),
      (''params'', JObj [(''year'', JInt 7)]), (''type'', JStr ''episode''),
      (''paths'', JArr [JStr ''a.csv''])]) = Inr (TypedCover sample_cover)"
    by code_simp
qed

end
