(* ===== verification/Manifest.thy ===== *)
theory Manifest imports Covers
begin

text \<open>
  The manifest a writer's pass hands in (\<open>unify/memory/manifest.py\<close>: \<open>adopt_ref\<close>, \<open>_adopts\<close>,
  \<open>_stated\<close>, \<open>_recipe_and_cases\<close>, \<open>_library_field_types\<close>, \<open>_parse_library_mode\<close>,
  \<open>parse_manifest\<close>). The input is a JSON value of any shape; each \<open>ManifestError\<close> of the code
  is a constructor, raised in the code's order. The lemmas say what every manifest the parser
  accepts satisfies.
\<close>

datatype manifest_error =
    EPath string | EAdoptForm | EAdoptsList | EAdoptsEntry | EAdoptHow | EAdoptTwice string
  | EStrList string | ESituation | EInputLong | EConstants | EConstant | EConstantLong
  | EEffectsKind | EEffects | EForm | ERecipeRole | ERecipeId | ERecipeModule | ECase string
  | ECaseTwice string | EFieldTypesKind | EFieldTypesObject | EFieldTypesKey string
  | ESemanticType | EAdoptsOnManifest | EUnknownField string | ETestPath string | EItemsList
  | EBadItem | EItemTwice string | EInput | EUnknownItemField string | EKind | EItemId | ERole
  | EReader | ENoTests | ECoversList | ECoversKind | ECover cover_error | EActionCover
  | ESupport string | ENotAnItem string | EInItems string | EDeletedUnlisted | ESkeleton string
  | ENotAnObject | EUnhashableKind

type_synonym 'a parsed = "manifest_error + 'a"

definition safe_rel_r :: "string \<Rightarrow> string parsed" where
  "safe_rel_r path = (if safe_rel path then Inr path else Inl (EPath path))"

lemma safe_rel_r_Inr [simp]: "safe_rel_r p = Inr q \<longleftrightarrow> q = p \<and> safe_rel p"
  by (auto simp: safe_rel_r_def)

section \<open>Adopted drafts\<close>

definition adopt_char :: "char \<Rightarrow> bool" where
  "adopt_char c \<longleftrightarrow> c \<noteq> CHR ''/'' \<and> \<not> is_space c \<and> c \<noteq> CHR 0x5C"

definition adopt_name :: "string \<Rightarrow> bool" where
  "adopt_name s \<longleftrightarrow> s \<noteq> [] \<and> list_all adopt_char s"

definition adopt_file :: "string list \<Rightarrow> bool" where
  "adopt_file parts \<longleftrightarrow>
     (case parts of
        [f] \<Rightarrow> f = ''notes.md''
      | [d, f] \<Rightarrow>
          (d = ''candidates'' \<and> (case strip_suffix ''.py'' f of Some m \<Rightarrow> adopt_name m | None \<Rightarrow> False)) \<or>
          (d = ''cases'' \<and> (case strip_suffix ''.json'' f of Some m \<Rightarrow> adopt_name m | None \<Rightarrow> False))
      | _ \<Rightarrow> False)"

definition adopt_draft :: "string \<Rightarrow> bool" where
  "adopt_draft rest \<longleftrightarrow>
     (case split_on (CHR ''/'') rest of
        d # parts \<Rightarrow> adopt_name d \<and> d \<noteq> ''.'' \<and> d \<noteq> ''..'' \<and> adopt_file parts
      | [] \<Rightarrow> False)"

definition is_hex16 :: "string \<Rightarrow> bool" where
  "is_hex16 s \<longleftrightarrow> length s = 16 \<and> list_all (\<lambda>c. c \<in> set ''0123456789abcdef'') s"

definition is_adopt_ref :: "string \<Rightarrow> bool" where
  "is_adopt_ref ref \<longleftrightarrow>
     (case strip_prefix ''staging:'' ref of Some r \<Rightarrow> adopt_draft r | None \<Rightarrow> False) \<or>
     (case strip_prefix ''helper:'' ref of Some r \<Rightarrow> adopt_draft r | None \<Rightarrow> False) \<or>
     (case strip_prefix ''pool:'' ref of Some r \<Rightarrow> is_hex16 r | None \<Rightarrow> False)"

definition ADOPT_PATHS :: "(string \<times> string) list" where
  "ADOPT_PATHS = [(''/inputs/staging/'', ''staging:''), (''/inputs/helpers/'', ''helper:'')]"

definition adopt_path :: "string \<Rightarrow> string \<times> string \<Rightarrow> string" where
  "adopt_path ref pf =
    (case strip_prefix (fst pf) ref of Some rest \<Rightarrow> snd pf @ rest | None \<Rightarrow> ref)"

definition adopt_canonical :: "string \<Rightarrow> string" where
  "adopt_canonical s =
    (let r1 = foldl adopt_path (strip s) ADOPT_PATHS
     in case strip_prefix ''/inputs/pool/'' r1 of
          Some rest \<Rightarrow> ''pool:'' @ hd (split_on (CHR ''/'') rest)
        | None \<Rightarrow> r1)"

definition adopt_ref :: "json \<Rightarrow> string parsed" where
  "adopt_ref raw =
    (case raw of
       JStr s \<Rightarrow>
         if CHR 0x00 \<in> set s then Inl EAdoptForm
         else let ref = adopt_canonical s in if is_adopt_ref ref then Inr ref else Inl EAdoptForm
     | _ \<Rightarrow> Inl EAdoptForm)"

definition ADOPT_HOW :: "string list" where
  "ADOPT_HOW = [''as_is'', ''edited'', ''merged'', ''generalised'', ''rewritten'', ''informed'']"

definition adopt_step ::
  "string list \<times> (string \<times> string) list \<Rightarrow> json \<Rightarrow> (string list \<times> (string \<times> string) list) parsed"
where
  "adopt_step st r =
    (case r of
       JObj row \<Rightarrow>
         if set (keys_of row) \<noteq> {''ref'', ''how''} then Inl EAdoptsEntry
         else (case as_str (jget row ''how'') of
            None \<Rightarrow> Inl EAdoptHow
          | Some h \<Rightarrow>
              if h \<notin> set ADOPT_HOW then Inl EAdoptHow
              else bind_r (adopt_ref (jget row ''ref'')) (\<lambda>ref.
                if map_of (snd st) ref \<notin> {None, Some h} then Inl (EAdoptTwice ref)
                else Inr ((if ref \<in> set (fst st) then fst st else fst st @ [ref]),
                          dict_put ref h (snd st))))
     | _ \<Rightarrow> Inl EAdoptsEntry)"

definition adopts_of :: "json \<Rightarrow> (string list \<times> (string \<times> string) list) parsed" where
  "adopts_of raw =
    (case raw of
       JNull \<Rightarrow> Inr ([], [])
     | JArr rs \<Rightarrow> fold_r adopt_step ([], []) rs
     | _ \<Rightarrow> Inl EAdoptsList)"

definition str_list :: "json \<Rightarrow> string \<Rightarrow> string list parsed" where
  "str_list v what =
    (case v of
       JNull \<Rightarrow> Inr []
     | _ \<Rightarrow> (case str_list_of v of Some xs \<Rightarrow> Inr xs | None \<Rightarrow> Inl (EStrList what)))"

section \<open>What the writer states of an item\<close>

definition LIBRARY_ITEM_FIELDS :: "string list" where
  "LIBRARY_ITEM_FIELDS =
    [''item'', ''kind'', ''source_episodes'', ''tests'', ''covers'', ''field_types'', ''adopts'',
     ''role'', ''reader'', ''recipe'', ''cases'']"

definition LABEL_ITEM_FIELDS :: "string list" where
  "LABEL_ITEM_FIELDS = [''situation'', ''inputs'', ''constants'', ''effects'', ''form'']"

definition DECLARED_EFFECTS :: "string list" where
  "DECLARED_EFFECTS = [''none'', ''reads'', ''writes'', ''unknown'']"

definition NOTE_FORMS :: "string list" where
  "NOTE_FORMS = [''note'', ''checklist'']"

definition STATED_TEXT_MAX :: nat where "STATED_TEXT_MAX = 400"

datatype item_kind = KFunction | KNote

text \<open>The dictionary \<open>_stated\<close> builds: a field is \<open>None\<close> when the item does not state it.\<close>

record stated =
  st_situation :: "string option"
  st_inputs :: "string list option"
  st_constants :: "string list option"
  st_effects :: "string option"
  st_form :: "string option"

definition nothing_stated :: stated where
  "nothing_stated = \<lparr>st_situation = None, st_inputs = None, st_constants = None,
    st_effects = None, st_form = None\<rparr>"

text \<open>\<open>if key in raw: out[key] = check(raw[key])\<close>.\<close>

definition when_stated :: "jrow \<Rightarrow> string \<Rightarrow> (json \<Rightarrow> 'a parsed) \<Rightarrow> 'a option parsed" where
  "when_stated raw k check =
    (if k \<in> set (keys_of raw) then bind_r (check (jget raw k)) (\<lambda>x. Inr (Some x)) else Inr None)"

definition stated_situation :: "json \<Rightarrow> string parsed" where
  "stated_situation v =
    (case v of
       JStr s \<Rightarrow> if blank s \<or> length s > STATED_TEXT_MAX then Inl ESituation
                  else Inr (join_str '' '' (words s))
     | _ \<Rightarrow> Inl ESituation)"

definition stated_inputs :: "json \<Rightarrow> string list parsed" where
  "stated_inputs v =
    bind_r (str_list v ''inputs'') (\<lambda>got.
      if list_ex (\<lambda>x. length x > STATED_TEXT_MAX) got then Inl EInputLong else Inr got)"

definition constant_line :: "json \<Rightarrow> string parsed" where
  "constant_line c =
    bind_r
      (case c of
         JStr s \<Rightarrow> Inr s
       | JObj row \<Rightarrow>
           (case (as_str (jget row ''value''), as_str (jget row ''source'')) of
              (Some v, Some s) \<Rightarrow> Inr (v @ '' (source: '' @ s @ '')'')
            | _ \<Rightarrow> Inl EConstant)
       | _ \<Rightarrow> Inl EConstant)
      (\<lambda>line. if length line > STATED_TEXT_MAX then Inl EConstantLong else Inr line)"

definition stated_constants :: "json \<Rightarrow> string list parsed" where
  "stated_constants v =
    (case v of JArr cs \<Rightarrow> map_r constant_line cs | _ \<Rightarrow> Inl EConstants)"

definition one_of :: "string list \<Rightarrow> json \<Rightarrow> manifest_error \<Rightarrow> string parsed" where
  "one_of names v e =
    (case as_str v of Some s \<Rightarrow> if s \<in> set names then Inr s else Inl e | None \<Rightarrow> Inl e)"

definition stated_of :: "jrow \<Rightarrow> item_kind \<Rightarrow> stated parsed" where
  "stated_of raw kind =
    bind_r (when_stated raw ''situation'' stated_situation) (\<lambda>situation.
    bind_r (when_stated raw ''inputs'' stated_inputs) (\<lambda>inputs.
    bind_r (when_stated raw ''constants'' stated_constants) (\<lambda>constants.
    bind_r (when_stated raw ''effects'' (\<lambda>v.
      if kind \<noteq> KFunction then Inl EEffectsKind else one_of DECLARED_EFFECTS v EEffects)) (\<lambda>effects.
    bind_r (when_stated raw ''form'' (\<lambda>v.
      if kind \<noteq> KNote then Inl EForm else one_of NOTE_FORMS v EForm)) (\<lambda>form.
    Inr \<lparr>st_situation = situation, st_inputs = inputs, st_constants = constants,
         st_effects = effects, st_form = form\<rparr>)))))"

section \<open>Recipes, cases and field types\<close>

definition CASE_SUFFIX :: string where "CASE_SUFFIX = ''.case.json''"

text \<open>\<open>s.rsplit(c, 1)[0]\<close>.\<close>

definition before_last :: "char \<Rightarrow> string \<Rightarrow> string" where
  "before_last c s = (if c \<in> set s then rev (tl (dropWhile (\<lambda>x. x \<noteq> c) (rev s))) else s)"

definition case_dir :: "string \<Rightarrow> string" where
  "case_dir item =
    map (\<lambda>c. if c = CHR ''.'' then CHR ''/'' else c) (before_last (CHR ''.'') (before (CHR '':'') item))
      @ ''/tests/data/''"

definition case_step :: "string \<Rightarrow> string list \<Rightarrow> string \<Rightarrow> string list parsed" where
  "case_step item out path =
    bind_r (safe_rel_r path) (\<lambda>_.
      if \<not> starts_with (case_dir item) path \<or> \<not> ends_with CASE_SUFFIX path \<or>
         length path \<le> length (case_dir item)
      then Inl (ECase path)
      else if path \<in> set out then Inl (ECaseTwice path)
      else Inr (out @ [path]))"

definition recipe_of :: "json \<Rightarrow> string \<Rightarrow> string option parsed" where
  "recipe_of v item =
    (case v of
       JNull \<Rightarrow> Inr None
     | JStr r \<Rightarrow>
         if function_id r = None then Inl ERecipeId
         else if before (CHR '':'') r \<noteq> before (CHR '':'') item then Inl ERecipeModule
         else Inr (Some r)
     | _ \<Rightarrow> Inl ERecipeId)"

definition recipe_and_cases ::
  "jrow \<Rightarrow> string \<Rightarrow> string option \<Rightarrow> (string option \<times> string list) parsed" where
  "recipe_and_cases raw item role =
    bind_r (guard_r ((jget raw ''recipe'' = JNull \<and> jget raw ''cases'' = JNull) \<or>
        role = Some ''procedure'') ERecipeRole) (\<lambda>_.
    bind_r (recipe_of (jget raw ''recipe'') item) (\<lambda>recipe.
    bind_r (if jget raw ''cases'' = JNull then Inr []
            else bind_r (str_list (jget raw ''cases'') ''cases'') (fold_r (case_step item) [])) (\<lambda>cases.
    Inr (recipe, cases))))"

definition SEMANTIC_TYPES :: "string list" where
  "SEMANTIC_TYPES =
    [''month'', ''day_of_month'', ''hour'', ''probability'', ''percentage'', ''nonneg_count'',
     ''nonneg_number'']"

definition FIELD_NAME_MAX :: nat where "FIELD_NAME_MAX = 200"

definition dots :: "string \<Rightarrow> nat" where
  "dots s = length (filter (\<lambda>c. c = CHR ''.'') s)"

definition data_dir :: "string \<Rightarrow> string" where
  "data_dir item =
    ''memory/'' @ (if dots item \<ge> 2 then split_on (CHR ''.'') item ! 1 else []) @ ''/tests/data/''"

text \<open>\<open>key.partition("#")\<close>: the path is before the first \<open>#\<close>, the field name after it.\<close>

definition field_key_ok :: "string \<Rightarrow> string \<Rightarrow> bool" where
  "field_key_ok item key \<longleftrightarrow>
     (let path = before (CHR ''#'') key; name = drop (Suc (length path)) key
      in CHR ''#'' \<in> set key \<and> name \<noteq> [] \<and> length name \<le> FIELD_NAME_MAX \<and> CHR 0x0A \<notin> set name \<and>
         safe_rel path \<and> starts_with (data_dir item) path \<and> length path > length (data_dir item))"

definition field_type :: "string \<Rightarrow> string \<times> json \<Rightarrow> (string \<times> string) parsed" where
  "field_type item kv =
    bind_r (guard_r (field_key_ok item (fst kv)) (EFieldTypesKey (fst kv))) (\<lambda>_.
    bind_r (one_of SEMANTIC_TYPES (snd kv) ESemanticType) (\<lambda>t. Inr (fst kv, t)))"

definition field_types :: "json \<Rightarrow> string \<Rightarrow> item_kind \<Rightarrow> (string \<times> string) list parsed" where
  "field_types raw item kind =
    (if raw = JNull then Inr []
     else if kind \<noteq> KFunction then Inl EFieldTypesKind
     else case raw of JObj row \<Rightarrow> map_r (field_type item) row | _ \<Rightarrow> Inl EFieldTypesObject)"

section \<open>Items and the whole manifest\<close>

record manifest_item =
  mi_item :: string
  mi_kind :: item_kind
  mi_path :: string
  mi_source_episodes :: "string list"
  mi_tests :: "string list"
  mi_field_types :: "(string \<times> string) list"
  mi_covers :: "cover list"
  mi_adopts :: "string list"
  mi_adopt_how :: "(string \<times> string) list"
  mi_role :: "string option"
  mi_reader :: "string option"
  mi_recipe :: "string option"
  mi_cases :: "string list"
  mi_stated :: stated

record manifest =
  m_items :: "manifest_item list"
  m_support :: "string list"
  m_deleted :: "string list"
  m_unlisted :: "string list"
  m_deleted_tests :: "string list"
  m_skeleton :: "string list"

definition LIBRARY_MANIFEST_FIELDS :: "string list" where
  "LIBRARY_MANIFEST_FIELDS =
    [''items'', ''support'', ''deleted'', ''unlisted'', ''deleted_tests'', ''skeleton'', ''fixtures'',
     ''tests_changed'', ''renames'', ''pool'', ''why'', ''summary'', ''kept'', ''retired'', ''aliases'']"

definition ITEM_ROLES :: "string list" where
  "ITEM_ROLES = [''procedure'', ''reader'']"

definition kind_matches :: "item_kind \<Rightarrow> string \<Rightarrow> bool" where
  "kind_matches k item \<longleftrightarrow>
     (case k of KFunction \<Rightarrow> function_id item \<noteq> None | KNote \<Rightarrow> note_id item \<noteq> None)"

definition is_item_id :: "string \<Rightarrow> bool" where
  "is_item_id s \<longleftrightarrow> function_id s \<noteq> None \<or> note_id s \<noteq> None"

definition item_kind_of :: "json \<Rightarrow> item_kind option" where
  "item_kind_of v =
    (if v = JStr ''function'' then Some KFunction else if v = JStr ''note'' then Some KNote else None)"

text \<open>\<open>kind not in patterns\<close> looks the value up in a dictionary: a list or an object raises
  \<open>TypeError\<close> there, not the parser's \<open>ManifestError\<close>.\<close>

fun unhashable :: "json \<Rightarrow> bool" where
  "unhashable (JArr _) \<longleftrightarrow> True"
| "unhashable (JObj _) \<longleftrightarrow> True"
| "unhashable _ \<longleftrightarrow> False"

definition tests_of :: "json \<Rightarrow> string \<Rightarrow> string list parsed" where
  "tests_of raw what =
    bind_r (str_list raw what) (\<lambda>ts.
    bind_r (map_r safe_rel_r ts) (\<lambda>out.
    bind_r (each_r (\<lambda>t. guard_r (classify t = Some PTest) (ETestPath t)) out) (\<lambda>_. Inr out)))"

definition role_of :: "json \<Rightarrow> item_kind \<Rightarrow> string option parsed" where
  "role_of v kind =
    (if v = JNull then Inr None
     else if kind \<noteq> KFunction then Inl ERole
     else bind_r (one_of ITEM_ROLES v ERole) (\<lambda>r. Inr (Some r)))"

definition reader_of :: "json \<Rightarrow> string option \<Rightarrow> string option parsed" where
  "reader_of v role =
    (case v of
       JNull \<Rightarrow> Inr None
     | JStr r \<Rightarrow> if role \<noteq> Some ''procedure'' \<or> function_id r = None then Inl EReader else Inr (Some r)
     | _ \<Rightarrow> Inl EReader)"

definition cover_of :: "json \<Rightarrow> cover parsed" where
  "cover_of v =
    (case parse_cover v of
       Inl e \<Rightarrow> Inl (ECover e)
     | Inr (ActionCover _ _) \<Rightarrow> Inl EActionCover
     | Inr (TypedCover c) \<Rightarrow> Inr c)"

definition covers_of :: "json \<Rightarrow> item_kind \<Rightarrow> cover list parsed" where
  "covers_of v kind =
    (case v of
       JNull \<Rightarrow> Inr []
     | JArr cs \<Rightarrow> if cs \<noteq> [] \<and> kind \<noteq> KFunction then Inl ECoversKind else map_r cover_of cs
     | _ \<Rightarrow> Inl ECoversList)"

text \<open>The body of the loop over the items, after the item's id is known to be new.\<close>

definition parse_item :: "bool \<Rightarrow> string \<Rightarrow> jrow \<Rightarrow> manifest_item parsed" where
  "parse_item labels item raw =
    bind_r (guard_r (''input'' \<notin> set (keys_of raw)) EInput) (\<lambda>_.
    bind_r (each_r (\<lambda>k. guard_r (k \<in> set (LIBRARY_ITEM_FIELDS @ (if labels then LABEL_ITEM_FIELDS else [])))
        (EUnknownItemField k)) (keys_of raw)) (\<lambda>_.
    case item_kind_of (jget raw ''kind'') of
      None \<Rightarrow> Inl (if unhashable (jget raw ''kind'') then EUnhashableKind else EKind)
    | Some kind \<Rightarrow>
        bind_r (guard_r (kind_matches kind item) EItemId) (\<lambda>_.
        bind_r (role_of (jget raw ''role'') kind) (\<lambda>role.
        bind_r (reader_of (jget raw ''reader'') role) (\<lambda>reader.
        bind_r (tests_of (jget raw ''tests'') ''tests'') (\<lambda>tests.
        bind_r (guard_r (kind \<noteq> KFunction \<or> tests \<noteq> []) ENoTests) (\<lambda>_.
        bind_r (covers_of (jget raw ''covers'') kind) (\<lambda>covers.
        bind_r (field_types (jget raw ''field_types'') item kind) (\<lambda>types.
        bind_r (recipe_and_cases raw item role) (\<lambda>rc.
        bind_r (str_list (jget raw ''source_episodes'') ''source_episodes'') (\<lambda>eps.
        bind_r (adopts_of (jget raw ''adopts'')) (\<lambda>adopts.
        bind_r (if labels then stated_of raw kind else Inr nothing_stated) (\<lambda>stated.
        Inr \<lparr>mi_item = item, mi_kind = kind, mi_path = item_path item, mi_source_episodes = eps,
             mi_tests = tests, mi_field_types = types, mi_covers = covers,
             mi_adopts = fst adopts, mi_adopt_how = snd adopts, mi_role = role, mi_reader = reader,
             mi_recipe = fst rc, mi_cases = snd rc, mi_stated = stated\<rparr>)))))))))))))"

definition item_step :: "bool \<Rightarrow> manifest_item list \<Rightarrow> json \<Rightarrow> manifest_item list parsed" where
  "item_step labels items v =
    (case v of
       JObj raw \<Rightarrow>
         (case as_str (jget raw ''item'') of
            None \<Rightarrow> Inl EBadItem
          | Some item \<Rightarrow>
              if item \<in> set (map mi_item items) then Inl (EItemTwice item)
              else bind_r (parse_item labels item raw) (\<lambda>it. Inr (items @ [it])))
     | _ \<Rightarrow> Inl EBadItem)"

definition support_of :: "json \<Rightarrow> string list parsed" where
  "support_of v =
    bind_r (str_list v ''support'') (\<lambda>ps.
    bind_r (map_r safe_rel_r ps) (\<lambda>out.
    bind_r (each_r (\<lambda>p. guard_r (classify p \<in> {Some PTestHelper, Some PModule}) (ESupport p)) out) (\<lambda>_.
    Inr out)))"

text \<open>\<open>memory\.NAME(\.NAME)?\<close>.\<close>

definition is_library_module :: "string \<Rightarrow> bool" where
  "is_library_module s \<longleftrightarrow>
     (case split_on (CHR ''.'') s of
        [m, p] \<Rightarrow> m = ''memory'' \<and> is_name p
      | [m, p, n] \<Rightarrow> m = ''memory'' \<and> is_name p \<and> is_name n
      | _ \<Rightarrow> False)"

definition removed_ok :: "manifest_item list \<Rightarrow> string \<Rightarrow> unit parsed" where
  "removed_ok items e =
    bind_r (guard_r (is_item_id e) (ENotAnItem e)) (\<lambda>_.
      guard_r (e \<notin> set (map mi_item items)) (EInItems e))"

definition parse_library_mode :: "bool \<Rightarrow> jrow \<Rightarrow> manifest parsed" where
  "parse_library_mode labels man =
    bind_r (guard_r (''adopts'' \<notin> set (keys_of man)) EAdoptsOnManifest) (\<lambda>_.
    bind_r (each_r (\<lambda>k. guard_r (k \<in> set LIBRARY_MANIFEST_FIELDS) (EUnknownField k)) (keys_of man)) (\<lambda>_.
    case jget_or man ''items'' (JArr []) of
      JArr raws \<Rightarrow>
        bind_r (fold_r (item_step labels) [] raws) (\<lambda>items.
        bind_r (support_of (jget man ''support'')) (\<lambda>support.
        bind_r (str_list (jget man ''deleted'') ''deleted'') (\<lambda>deleted.
        bind_r (str_list (jget man ''unlisted'') ''unlisted'') (\<lambda>unlisted.
        bind_r (each_r (removed_ok items) (deleted @ unlisted)) (\<lambda>_.
        bind_r (guard_r (set deleted \<inter> set unlisted = {}) EDeletedUnlisted) (\<lambda>_.
        bind_r (tests_of (jget man ''deleted_tests'') ''deleted_tests'') (\<lambda>deleted_tests.
        bind_r (str_list (jget man ''skeleton'') ''skeleton'') (\<lambda>skeleton.
        bind_r (each_r (\<lambda>s. guard_r (is_library_module s) (ESkeleton s)) skeleton) (\<lambda>_.
        Inr \<lparr>m_items = items, m_support = support, m_deleted = deleted, m_unlisted = unlisted,
             m_deleted_tests = deleted_tests, m_skeleton = skeleton\<rparr>)))))))))
    | _ \<Rightarrow> Inl EItemsList))"

definition parse_manifest :: "bool \<Rightarrow> json \<Rightarrow> manifest parsed" where
  "parse_manifest labels v =
    (case v of JObj man \<Rightarrow> parse_library_mode labels man | _ \<Rightarrow> Inl ENotAnObject)"

section \<open>What an accepted manifest satisfies\<close>

definition tests_ok :: "string list \<Rightarrow> bool" where
  "tests_ok ts \<longleftrightarrow> (\<forall>t\<in>set ts. safe_rel t \<and> classify t = Some PTest)"

definition procedure_parts_ok :: "manifest_item \<Rightarrow> bool" where
  "procedure_parts_ok it \<longleftrightarrow>
     (mi_recipe it \<noteq> None \<or> mi_cases it \<noteq> [] \<or> mi_reader it \<noteq> None \<longrightarrow> mi_role it = Some ''procedure'') \<and>
     (\<forall>r. mi_recipe it = Some r \<longrightarrow>
        function_id r \<noteq> None \<and> before (CHR '':'') r = before (CHR '':'') (mi_item it)) \<and>
     distinct (mi_cases it) \<and>
     (\<forall>p\<in>set (mi_cases it). safe_rel p \<and> starts_with (case_dir (mi_item it)) p \<and> ends_with CASE_SUFFIX p)"

definition adopts_ok :: "string list \<Rightarrow> (string \<times> string) list \<Rightarrow> bool" where
  "adopts_ok refs how \<longleftrightarrow>
     distinct refs \<and> keys_of how = refs \<and> (\<forall>r\<in>set refs. is_adopt_ref r) \<and>
     (\<forall>h\<in>set (map snd how). h \<in> set ADOPT_HOW)"

definition item_ok :: "manifest_item \<Rightarrow> bool" where
  "item_ok it \<longleftrightarrow>
     kind_matches (mi_kind it) (mi_item it) \<and> mi_path it = item_path (mi_item it) \<and>
     (mi_kind it = KFunction \<longrightarrow> mi_tests it \<noteq> []) \<and> tests_ok (mi_tests it) \<and>
     (mi_kind it = KNote \<longrightarrow> mi_covers it = [] \<and> mi_field_types it = [] \<and> mi_role it = None) \<and>
     (\<forall>c\<in>set (mi_covers it). cover_ok c) \<and>
     (\<forall>(k, t)\<in>set (mi_field_types it). field_key_ok (mi_item it) k \<and> t \<in> set SEMANTIC_TYPES) \<and>
     procedure_parts_ok it \<and> adopts_ok (mi_adopts it) (mi_adopt_how it)"

definition manifest_ok :: "manifest \<Rightarrow> bool" where
  "manifest_ok m \<longleftrightarrow>
     distinct (map mi_item (m_items m)) \<and> (\<forall>it\<in>set (m_items m). item_ok it) \<and>
     (\<forall>p\<in>set (m_support m). safe_rel p \<and> classify p \<in> {Some PTestHelper, Some PModule}) \<and>
     (\<forall>e\<in>set (m_deleted m @ m_unlisted m). is_item_id e \<and> e \<notin> set (map mi_item (m_items m))) \<and>
     set (m_deleted m) \<inter> set (m_unlisted m) = {} \<and> tests_ok (m_deleted_tests m) \<and>
     (\<forall>s\<in>set (m_skeleton m). is_library_module s)"

lemma safe_list: "map_r safe_rel_r ps = Inr out \<Longrightarrow> out = ps \<and> (\<forall>p\<in>set ps. safe_rel p)"
  by (induction ps arbitrary: out) auto

lemma tests_of_ok: "tests_of raw what = Inr ts \<Longrightarrow> tests_ok ts"
  by (auto simp: tests_of_def tests_ok_def dest!: safe_list)

lemma one_of_Inr [simp]: "one_of names v e = Inr s \<longleftrightarrow> v = JStr s \<and> s \<in> set names"
  by (auto simp: one_of_def split: option.splits)

lemma adopt_ref_ok: "adopt_ref raw = Inr r \<Longrightarrow> is_adopt_ref r"
  by (auto simp: adopt_ref_def Let_def split: json.splits if_splits)

lemma adopt_step_ok:
  assumes "adopt_step st r = Inr st'" "adopts_ok (fst st) (snd st)"
  shows "adopts_ok (fst st') (snd st')"
proof -
  obtain row h ref where r: "r = JObj row" "h \<in> set ADOPT_HOW" "is_adopt_ref ref"
    and st': "st' = ((if ref \<in> set (fst st) then fst st else fst st @ [ref]), dict_put ref h (snd st))"
    using assms(1) by (auto simp: adopt_step_def dest!: adopt_ref_ok
        split: json.splits if_splits option.splits)
  have d: "distinct (keys_of (snd st))" using assms(2) by (simp add: adopts_ok_def)
  have "\<forall>x\<in>set (map snd (dict_put ref h (snd st))). x \<in> set ADOPT_HOW"
    using assms(2) r(2) by (auto simp: set_dict_put [OF d] adopts_ok_def)
  then show ?thesis
    using assms(2) r(3) unfolding st' by (auto simp: adopts_ok_def keys_dict_put)
qed

lemma adopts_of_ok: "adopts_of raw = Inr st \<Longrightarrow> adopts_ok (fst st) (snd st)"
  by (auto simp: adopts_of_def adopts_ok_def [of "[]" "[]"] split: json.splits
      elim!: fold_r_inv [where P = "\<lambda>st. adopts_ok (fst st) (snd st)"] intro: adopt_step_ok)

definition cases_ok :: "string \<Rightarrow> string list \<Rightarrow> bool" where
  "cases_ok item ps \<longleftrightarrow>
     distinct ps \<and> (\<forall>p\<in>set ps. safe_rel p \<and> starts_with (case_dir item) p \<and> ends_with CASE_SUFFIX p)"

lemma case_step_ok: "case_step item out p = Inr out' \<Longrightarrow> cases_ok item out \<Longrightarrow> cases_ok item out'"
  by (auto simp: case_step_def cases_ok_def split: if_splits)

lemma cases_fold_ok: "fold_r (case_step item) [] ps = Inr out \<Longrightarrow> cases_ok item out"
  by (erule fold_r_inv [where P = "cases_ok item"])
    (auto simp: cases_ok_def [of _ "[]"] intro: case_step_ok)

lemma recipe_of_ok:
  "recipe_of v item = Inr (Some r) \<Longrightarrow>
   v \<noteq> JNull \<and> function_id r \<noteq> None \<and> before (CHR '':'') r = before (CHR '':'') item"
  by (auto simp: recipe_of_def split: json.splits if_splits)

lemma recipe_and_cases_ok:
  assumes "recipe_and_cases raw item role = Inr rc"
  shows "cases_ok item (snd rc)"
    and "fst rc \<noteq> None \<or> snd rc \<noteq> [] \<longrightarrow> role = Some ''procedure''"
    and "fst rc = Some r \<Longrightarrow> function_id r \<noteq> None \<and> before (CHR '':'') r = before (CHR '':'') item"
proof -
  obtain recipe cs where rc: "rc = (recipe, cs)" by (cases rc)
  have g: "(jget raw ''recipe'' = JNull \<and> jget raw ''cases'' = JNull) \<or> role = Some ''procedure''"
    and r: "recipe_of (jget raw ''recipe'') item = Inr recipe"
    and c: "(if jget raw ''cases'' = JNull then Inr [] else
        bind_r (str_list (jget raw ''cases'') ''cases'') (fold_r (case_step item) [])) = Inr cs"
    using assms unfolding rc recipe_and_cases_def by simp_all
  show "cases_ok item (snd rc)"
    using c unfolding rc by (auto simp: cases_ok_def [of _ "[]"] dest: cases_fold_ok split: if_splits)
  show "fst rc \<noteq> None \<or> snd rc \<noteq> [] \<longrightarrow> role = Some ''procedure''"
    using g r c unfolding rc by (auto simp: recipe_of_def split: if_splits)
  show "fst rc = Some r \<Longrightarrow> function_id r \<noteq> None \<and> before (CHR '':'') r = before (CHR '':'') item"
    using r unfolding rc by (auto dest: recipe_of_ok)
qed

lemma field_types_ok:
  assumes "field_types raw item kind = Inr ts"
  shows "\<forall>(k, t)\<in>set ts. field_key_ok item k \<and> t \<in> set SEMANTIC_TYPES"
    and "kind = KNote \<Longrightarrow> ts = []"
proof -
  have f: "field_type item kv = Inr kt \<Longrightarrow> field_key_ok item (fst kt) \<and> snd kt \<in> set SEMANTIC_TYPES"
    for kv kt by (auto simp: field_type_def)
  show "\<forall>(k, t)\<in>set ts. field_key_ok item k \<and> t \<in> set SEMANTIC_TYPES"
    using assms by (auto simp: field_types_def split: if_splits json.splits dest!: map_r_set f)
  show "kind = KNote \<Longrightarrow> ts = []" using assms by (auto simp: field_types_def split: if_splits)
qed

lemma cover_of_ok: "cover_of v = Inr c \<Longrightarrow> cover_ok c"
  by (auto simp: cover_of_def parse_cover_def split: sum.splits parsed_cover.splits json.splits
      list.splits option.splits dest!: parse_typed_cover_ok)

lemma covers_of_ok:
  assumes "covers_of v kind = Inr cs"
  shows "\<forall>c\<in>set cs. cover_ok c" and "kind = KNote \<Longrightarrow> cs = []"
  using assms map_r_all [where f = cover_of and P = cover_ok, OF _ cover_of_ok]
  by (auto simp: covers_of_def split: json.splits if_splits)

lemma role_of_ok: "role_of v kind = Inr role \<Longrightarrow> kind = KNote \<Longrightarrow> role = None"
  by (auto simp: role_of_def split: if_splits)

lemma reader_of_ok: "reader_of v role = Inr (Some r) \<Longrightarrow> role = Some ''procedure'' \<and> function_id r \<noteq> None"
  by (auto simp: reader_of_def split: json.splits if_splits)

lemma parse_item_ok:
  assumes "parse_item labels item raw = Inr it"
  shows "item_ok it \<and> mi_item it = item"
proof -
  obtain kind where kind: "item_kind_of (jget raw ''kind'') = Some kind"
    using assms by (auto simp: parse_item_def split: option.splits)
  obtain role reader tests covers types rc eps adopts st where
    m: "kind_matches kind item" "role_of (jget raw ''role'') kind = Inr role"
      "reader_of (jget raw ''reader'') role = Inr reader"
      "tests_of (jget raw ''tests'') ''tests'' = Inr tests"
      "kind \<noteq> KFunction \<or> tests \<noteq> []"
      "covers_of (jget raw ''covers'') kind = Inr covers"
      "field_types (jget raw ''field_types'') item kind = Inr types"
      "recipe_and_cases raw item role = Inr rc"
      "adopts_of (jget raw ''adopts'') = Inr adopts" and
    it: "it = \<lparr>mi_item = item, mi_kind = kind, mi_path = item_path item, mi_source_episodes = eps,
             mi_tests = tests, mi_field_types = types, mi_covers = covers,
             mi_adopts = fst adopts, mi_adopt_how = snd adopts, mi_role = role, mi_reader = reader,
             mi_recipe = fst rc, mi_cases = snd rc, mi_stated = st\<rparr>"
    using assms unfolding parse_item_def kind
    by (simp only: bind_r_Inr guard_r_Inr option.case sum.inject) blast
  have "procedure_parts_ok it"
    using recipe_and_cases_ok [OF m(8)] reader_of_ok [of _ role] m(3)
    unfolding it procedure_parts_ok_def cases_ok_def by auto
  then show ?thesis
    using m tests_of_ok [OF m(4)] covers_of_ok [OF m(6)] field_types_ok [OF m(7)]
      adopts_of_ok [OF m(9)] role_of_ok [OF m(2)]
    unfolding it item_ok_def by simp
qed

definition items_ok :: "manifest_item list \<Rightarrow> bool" where
  "items_ok its \<longleftrightarrow> distinct (map mi_item its) \<and> (\<forall>it\<in>set its. item_ok it)"

lemma item_step_ok: "item_step labels its v = Inr its' \<Longrightarrow> items_ok its \<Longrightarrow> items_ok its'"
  by (auto simp: item_step_def items_ok_def split: json.splits option.splits if_splits
      dest!: parse_item_ok)

lemma items_fold_ok: "fold_r (item_step labels) [] raws = Inr its \<Longrightarrow> items_ok its"
  by (erule fold_r_inv) (auto simp: items_ok_def [of "[]"] intro: item_step_ok)

lemma support_of_ok:
  "support_of v = Inr ps \<Longrightarrow> \<forall>p\<in>set ps. safe_rel p \<and> classify p \<in> {Some PTestHelper, Some PModule}"
  by (auto simp: support_of_def dest!: safe_list)

lemma parse_library_mode_ok:
  assumes "parse_library_mode labels man = Inr m"
  shows "manifest_ok m"
proof -
  obtain raws where raws: "jget_or man ''items'' (JArr []) = JArr raws"
    using assms by (auto simp: parse_library_mode_def split: json.splits)
  obtain items support deleted unlisted deleted_tests skeleton where
    p: "fold_r (item_step labels) [] raws = Inr items"
      "support_of (jget man ''support'') = Inr support"
      "\<forall>e\<in>set (deleted @ unlisted). removed_ok items e = Inr ()"
      "set deleted \<inter> set unlisted = {}"
      "tests_of (jget man ''deleted_tests'') ''deleted_tests'' = Inr deleted_tests"
      "\<forall>s\<in>set skeleton. is_library_module s" and
    m: "m = \<lparr>m_items = items, m_support = support, m_deleted = deleted, m_unlisted = unlisted,
             m_deleted_tests = deleted_tests, m_skeleton = skeleton\<rparr>"
    using assms unfolding parse_library_mode_def raws
    by (simp only: bind_r_Inr guard_r_Inr each_r_Inr json.case sum.inject) blast
  show ?thesis
    using items_fold_ok [OF p(1)] support_of_ok [OF p(2)] p(3,4) tests_of_ok [OF p(5)] p(6)
    unfolding m manifest_ok_def items_ok_def by (simp add: removed_ok_def)
qed

text \<open>C4. Whatever JSON a pass hands in, a manifest the parser accepts is well formed: its items have
  distinct ids of their own kind and the file of their id; every function lists tests and every
  test is a test file of the layout on a safe path; covers, field types and adopted drafts have the
  accepted forms; a recipe, a reader or cases only belong to a procedure, the recipe to its own module
  and the cases to its package; nothing is both kept and removed.\<close>

theorem parse_manifest_sound: "parse_manifest labels v = Inr m \<Longrightarrow> manifest_ok m"
  by (auto simp: parse_manifest_def parse_library_mode_ok split: json.splits)

text \<open>A key the manifest or an item does not take is refused, never dropped: when a manifest is
  accepted, every key of it is a field of the format.\<close>

theorem parse_manifest_refuses_unknown_keys:
  "parse_manifest labels (JObj man) = Inr m \<Longrightarrow> set (keys_of man) \<subseteq> set LIBRARY_MANIFEST_FIELDS"
  by (auto simp: parse_manifest_def parse_library_mode_def)


section \<open>Adopted drafts in canonical form\<close>

lemma adopt_name_plain: "adopt_name s \<Longrightarrow> list_all (\<lambda>c. \<not> is_space c) s"
  by (auto simp: adopt_name_def adopt_char_def list_all_iff)

lemma no_space_literals [simp]:
  "\<not> is_space (CHR ''/'')" "\<not> is_space (CHR '':'')" "\<not> is_space (CHR ''.'')"
  by (simp_all add: is_space_def)

lemma list_all_join:
  "list_all (list_all P) ps \<Longrightarrow> list_all P sep \<Longrightarrow> list_all P (join_str sep ps)"
  by (induction sep ps rule: join_str.induct) auto

lemma adopt_file_plain: "adopt_file parts \<Longrightarrow> list_all (list_all (\<lambda>c. \<not> is_space c)) parts"
  by (auto simp: adopt_file_def is_space_def split: list.splits option.splits dest!: adopt_name_plain)

lemma adopt_draft_plain: "adopt_draft rest \<Longrightarrow> list_all (\<lambda>c. \<not> is_space c) rest"
proof -
  assume a: "adopt_draft rest"
  then have "list_all (list_all (\<lambda>c. \<not> is_space c)) (split_on (CHR ''/'') rest)"
    by (auto simp: adopt_draft_def split: list.splits dest: adopt_name_plain adopt_file_plain)
  then have "list_all (\<lambda>c. \<not> is_space c) (join_str [CHR ''/''] (split_on (CHR ''/'') rest))"
    by (rule list_all_join) simp
  then show ?thesis by simp
qed

lemma hex16_plain: "is_hex16 s \<Longrightarrow> list_all (\<lambda>c. \<not> is_space c) s"
  by (force simp: is_hex16_def list_all_iff is_space_def)

lemma is_adopt_ref_plain: "is_adopt_ref ref \<Longrightarrow> list_all (\<lambda>c. \<not> is_space c) ref"
  unfolding is_adopt_ref_def
  by (auto split: option.splits dest!: adopt_draft_plain hex16_plain) (simp_all add: is_space_def)

lemma is_adopt_ref_head: "is_adopt_ref ref \<Longrightarrow> \<not> starts_with ''/'' ref"
  by (auto simp: is_adopt_ref_def starts_with_def split: option.splits)

lemma not_slash_path: "\<not> starts_with ''/'' s \<Longrightarrow> strip_prefix (CHR ''/'' # p) s = None"
  by (cases s) (auto simp: strip_prefix_def starts_with_def)

lemma adopt_canonical_ref: "is_adopt_ref ref \<Longrightarrow> adopt_canonical ref = ref"
  by (simp add: adopt_canonical_def ADOPT_PATHS_def adopt_path_def is_adopt_ref_plain
      is_adopt_ref_head not_slash_path)

lemma hd_split_subset: "set (hd (split_on c s)) \<subseteq> set s"
  by (induction s) (auto split: list.splits)

lemma adopt_path_nul:
  "CHR 0x00 \<notin> set (snd pf) \<Longrightarrow> CHR 0x00 \<notin> set s \<Longrightarrow> CHR 0x00 \<notin> set (adopt_path s pf)"
  by (auto simp: adopt_path_def split: option.split)

lemma adopt_paths_nul:
  "\<forall>pf\<in>set pfs. CHR 0x00 \<notin> set (snd pf) \<Longrightarrow> CHR 0x00 \<notin> set s \<Longrightarrow>
   CHR 0x00 \<notin> set (foldl adopt_path s pfs)"
  by (induction pfs arbitrary: s) (simp_all add: adopt_path_nul)

lemma adopt_canonical_nul:
  assumes "CHR 0x00 \<notin> set s"
  shows "CHR 0x00 \<notin> set (adopt_canonical s)"
proof -
  have "CHR 0x00 \<notin> set (strip s)" using assms strip_subset [of s] by auto
  then have "CHR 0x00 \<notin> set (foldl adopt_path (strip s) ADOPT_PATHS)"
    by (rule adopt_paths_nul [rotated]) (simp add: ADOPT_PATHS_def)
  then show ?thesis
    by (auto simp: adopt_canonical_def Let_def split: option.split dest: hd_split_subset [THEN subsetD])
qed

text \<open>An accepted draft reference is in canonical form: reading it again gives it back, so the
  reference an item keeps and the one the adoption records compare are the same text.\<close>

theorem adopt_ref_canonical: "adopt_ref raw = Inr ref \<Longrightarrow> adopt_ref (JStr ref) = Inr ref"
  by (auto simp: adopt_ref_def Let_def adopt_canonical_ref split: json.splits if_splits
      dest: adopt_canonical_nul)

text \<open>An item whose kind is a list or an object is not refused with the parser's own error: the
  look-up of the kind raises before the check that would refuse it.\<close>

theorem unhashable_kind_escapes:
  assumes "jget raw ''item'' = JStr item" "item \<notin> set (map mi_item items)"
    and "''input'' \<notin> set (keys_of raw)" "set (keys_of raw) \<subseteq> set LIBRARY_ITEM_FIELDS"
    and "unhashable (jget raw ''kind'')"
  shows "item_step labels items (JObj raw) = Inl EUnhashableKind"
proof -
  have keys: "each_r (\<lambda>k. guard_r (k \<in> set (LIBRARY_ITEM_FIELDS @ (if labels then LABEL_ITEM_FIELDS else [])))
      (EUnknownItemField k)) (keys_of raw) = Inr ()"
    using assms(4) by auto
  have "item_kind_of (jget raw ''kind'') = None"
    using assms(5) by (cases "jget raw ''kind''") (simp_all add: item_kind_of_def)
  then have "parse_item labels item raw = Inl EUnhashableKind"
    using assms(3,5) unfolding parse_item_def keys by simp
  then show ?thesis using assms(1,2) by (simp add: item_step_def)
qed

definition sample_note :: json where
  "sample_note = JObj [(''items'', JArr [JObj [(''item'', JStr ''notes/csv/dates.md''), (''kind'', JStr ''note''),
     (''adopts'', JArr [JObj [(''ref'', JStr ''/inputs/pool/0123456789abcdef/x''), (''how'', JStr ''edited'')]])]])]"

lemma sample_note_parses: "case parse_manifest True sample_note of Inr m \<Rightarrow> length (m_items m) = 1 | _ \<Rightarrow> False"
  by code_simp

theorem parse_manifest_sound_witness: "\<exists>m. parse_manifest True sample_note = Inr m \<and> manifest_ok m"
  using sample_note_parses parse_manifest_sound [of True sample_note] by (auto split: sum.splits)

theorem parse_manifest_refuses_unknown_keys_witness:
  "set (keys_of [(''summary'', JStr ''x'')]) \<subseteq> set LIBRARY_MANIFEST_FIELDS"
proof -
  have "case parse_manifest False (JObj [(''summary'', JStr ''x'')]) of Inr m \<Rightarrow> True | _ \<Rightarrow> False"
    by code_simp
  then obtain m where "parse_manifest False (JObj [(''summary'', JStr ''x'')]) = Inr m"
    by (auto split: sum.splits)
  then show ?thesis by (rule parse_manifest_refuses_unknown_keys)
qed

theorem adopt_ref_canonical_witness:
  "adopt_ref (JStr ''staging:ep1/notes.md'') = Inr ''staging:ep1/notes.md''"
proof (rule adopt_ref_canonical)
  show "adopt_ref (JStr '' /inputs/staging/ep1/notes.md'') = Inr ''staging:ep1/notes.md''" by code_simp
qed

theorem unhashable_kind_escapes_witness:
  "item_step True [] (JObj [(''item'', JStr ''notes/a/b.md''), (''kind'', JArr [])]) = Inl EUnhashableKind"
  by (rule unhashable_kind_escapes [where item = "''notes/a/b.md''"]) (simp_all add: LIBRARY_ITEM_FIELDS_def)

end
