(* ===== verification/Decimals.thy ===== *)
theory Decimals imports Complex_Main Prelude Layout
begin

text \<open>
  Python's \<open>decimal.Decimal\<close> as the relay uses it for money: a coefficient and an exponent of
  ten, the default context's 28 significant digits rounded half to even, addition,
  multiplication by a count, division by a million, the constructor on text and the plain
  rendering of \<open>format(d, ''f'')\<close>. The finite values only: NaN and the infinities do not parse
  (\<open>_charge\<close> refuses them), and the exponents stay far from the context's bounds.

  \<open>dec_val\<close> is the rational a decimal denotes. An operation is exact where its result is a
  multiple of \<open>10 powi - f\<close> of fewer than 28 digits over it (\<open>dec_round_exact\<close>).
\<close>

section \<open>Values and rounding\<close>

datatype decimal = Dec int int

definition dec_val :: "decimal \<Rightarrow> rat" where
  "dec_val d = (case d of Dec c e \<Rightarrow> of_int c * 10 powi e)"

fun ndigits :: "nat \<Rightarrow> nat" where
  "ndigits n = (if n < 10 then 1 else Suc (ndigits (n div 10)))"

declare ndigits.simps [simp del]

definition PREC :: nat where "PREC = 28"

text \<open>\<open>n\<close> without its last \<open>k\<close> digits, rounded half to even.\<close>

definition half_even :: "nat \<Rightarrow> nat \<Rightarrow> nat" where
  "half_even n k = (let q = n div 10 ^ k; r = n mod 10 ^ k in
     if 2 * r < 10 ^ k then q else if 2 * r > 10 ^ k then Suc q
     else if even q then q else Suc q)"

definition dec_round :: "decimal \<Rightarrow> decimal" where
  "dec_round d = (case d of Dec c e \<Rightarrow>
     (let n = nat \<bar>c\<bar>; k = ndigits n - PREC; q = half_even n k in
      if k = 0 then d
      else if q = 10 ^ PREC then Dec (sgn c * int (q div 10)) (e + int k + 1)
      else Dec (sgn c * int q) (e + int k)))"

fun dec_add :: "decimal \<Rightarrow> decimal \<Rightarrow> decimal" where
  "dec_add (Dec a e) (Dec b f) =
     (let m = min e f in dec_round (Dec (a * 10 ^ nat (e - m) + b * 10 ^ nat (f - m)) m))"

fun dec_minus :: "decimal \<Rightarrow> decimal" where
  "dec_minus (Dec c e) = Dec (- c) e"

definition dec_sub :: "decimal \<Rightarrow> decimal \<Rightarrow> decimal" where
  "dec_sub a b = dec_add a (dec_minus b)"

fun dec_times :: "decimal \<Rightarrow> int \<Rightarrow> decimal" where
  "dec_times (Dec c e) n = dec_round (Dec (c * n) e)"

text \<open>\<open>d / Decimal(1000000)\<close>: a coefficient of at most 28 digits loses none; the quotient's
  trailing zeros go, up to the exponent of \<open>d\<close>.\<close>

fun drop_zeros :: "nat \<Rightarrow> int \<Rightarrow> int \<Rightarrow> decimal" where
  "drop_zeros 0 c e = Dec c e"
| "drop_zeros (Suc k) c e = (if c mod 10 = 0 then drop_zeros k (c div 10) (e + 1) else Dec c e)"

fun dec_millionth :: "decimal \<Rightarrow> decimal" where
  "dec_millionth (Dec c e) = drop_zeros 6 c (e - 6)"

fun dec_le :: "decimal \<Rightarrow> decimal \<Rightarrow> bool" where
  "dec_le (Dec a e) (Dec b f) \<longleftrightarrow>
     (let m = min e f in a * 10 ^ nat (e - m) \<le> b * 10 ^ nat (f - m))"

definition dec_zero :: decimal where "dec_zero = Dec 0 0"

section \<open>Text\<close>

definition digit_val :: "char \<Rightarrow> nat" where
  "digit_val c = of_char c - 48"

definition digits_val :: "string \<Rightarrow> nat" where
  "digits_val s = foldl (\<lambda>n c. 10 * n + digit_val c) 0 s"

fun dec_exponent :: "string \<Rightarrow> int option" where
  "dec_exponent [] = Some 0"
| "dec_exponent (c # s) =
    (if c \<noteq> CHR ''e'' \<and> c \<noteq> CHR ''E'' then None
     else (let neg = (case s of d # _ \<Rightarrow> d = CHR ''-'' | [] \<Rightarrow> False);
               ds = (case s of d # t \<Rightarrow> if d = CHR ''-'' \<or> d = CHR ''+'' then t else s | [] \<Rightarrow> s)
           in if ds = [] \<or> \<not> list_all is_digit ds then None
              else Some (if neg then - int (digits_val ds) else int (digits_val ds))))"

definition dec_unsigned :: "string \<Rightarrow> decimal option" where
  "dec_unsigned s =
    (let ip = takeWhile is_digit s; rest = dropWhile is_digit s;
         fp = (case rest of c # t \<Rightarrow> if c = CHR ''.'' then takeWhile is_digit t else [] | [] \<Rightarrow> []);
         after = (case rest of c # t \<Rightarrow> if c = CHR ''.'' then dropWhile is_digit t else rest | [] \<Rightarrow> [])
     in if ip @ fp = [] then None
        else case dec_exponent after of None \<Rightarrow> None
             | Some x \<Rightarrow> Some (Dec (int (digits_val (ip @ fp))) (x - int (length fp))))"

text \<open>\<open>Decimal(text)\<close> for a finite value: blanks at the ends and underscores are dropped.\<close>

definition dec_of_text :: "string \<Rightarrow> decimal option" where
  "dec_of_text s = (case filter (\<lambda>c. c \<noteq> CHR ''_'') (strip s) of
       [] \<Rightarrow> None
     | c # t \<Rightarrow> if c = CHR ''-'' then map_option dec_minus (dec_unsigned t)
                else if c = CHR ''+'' then dec_unsigned t
                else dec_unsigned (c # t))"

text \<open>\<open>"0" if d.is_zero() else format(d, "f")\<close>\<close>

fun money :: "decimal \<Rightarrow> string" where
  "money (Dec c e) =
    (if c = 0 then ''0''
     else (if c < 0 then ''-'' else '''') @
       (let s = show_nat (nat \<bar>c\<bar>) in
        if 0 \<le> e then s @ replicate (nat e) (CHR ''0'')
        else (let k = nat (- e) in
              if k < length s then take (length s - k) s @ ''.'' @ drop (length s - k) s
              else ''0.'' @ replicate (k - length s) (CHR ''0'') @ s)))"

section \<open>The rational a decimal denotes\<close>

lemma powi_split: "m \<le> e \<Longrightarrow> (10::rat) powi e = 10 ^ nat (e - m) * 10 powi m"
  by (simp flip: power_int_of_nat power_int_add)

lemma powi_pos [simp]: "(0::rat) < 10 powi e"
  by (simp add: zero_less_power_int)

lemma dec_val_Dec: "dec_val (Dec c e) = of_int c * 10 powi e"
  by (simp add: dec_val_def)

lemma dec_val_shift: "m \<le> e \<Longrightarrow> dec_val (Dec c e) = dec_val (Dec (c * 10 ^ nat (e - m)) m)"
  using powi_split [of m e] by (simp add: dec_val_Dec)

lemma dec_val_zero [simp]: "dec_val dec_zero = 0"
  by (simp add: dec_val_def dec_zero_def)

lemma dec_val_minus [simp]: "dec_val (dec_minus d) = - dec_val d"
  by (cases d) (simp add: dec_val_Dec)

lemma dec_le_val: "dec_le a b \<longleftrightarrow> dec_val a \<le> dec_val b"
proof -
  obtain x e y f where ab: "a = Dec x e" "b = Dec y f" by (cases a, cases b) auto
  let ?m = "min e f"
  have "dec_val a \<le> dec_val b \<longleftrightarrow>
    of_int (x * 10 ^ nat (e - ?m)) * 10 powi ?m \<le> (of_int (y * 10 ^ nat (f - ?m)) * 10 powi ?m :: rat)"
    unfolding ab by (subst (1 2) dec_val_shift [where m = ?m]) (simp_all add: dec_val_Dec)
  also have "\<dots> \<longleftrightarrow> x * 10 ^ nat (e - ?m) \<le> y * 10 ^ nat (f - ?m)"
    by (subst mult_le_cancel_right_pos) (simp_all only: powi_pos of_int_le_iff)
  finally show ?thesis by (simp add: ab Let_def)
qed

lemma dec_val_drop_zeros [simp]: "dec_val (drop_zeros k c e) = dec_val (Dec c e)"
proof (induction k arbitrary: c e)
  case (Suc k)
  show ?case
  proof (cases "c mod 10 = 0")
    case True
    then have "c = c div 10 * 10" by auto
    then have "(of_int c :: rat) = of_int (c div 10) * 10" by (metis of_int_mult of_int_numeral)
    with True show ?thesis
      by (simp add: Suc dec_val_Dec power_int_add)
  qed simp
qed simp

lemma dec_val_millionth: "dec_val (dec_millionth d) = dec_val d / 1000000"
  by (cases d) (simp add: dec_val_Dec power_int_diff)

section \<open>Where rounding changes nothing\<close>

lemma ndigits_le: "n < 10 ^ k \<Longrightarrow> 0 < k \<Longrightarrow> ndigits n \<le> k"
proof (induction n arbitrary: k rule: ndigits.induct)
  case (1 n)
  show ?case
  proof (cases "n < 10")
    case False
    moreover obtain j where k: "k = Suc j" using "1.prems"(2) by (cases k) auto
    ultimately have j: "0 < j" using "1.prems"(1) by (cases j) auto
    have "n div 10 < 10 ^ j" using "1.prems"(1) k by (simp add: div_less_iff_less_mult mult.commute)
    then show ?thesis using "1.IH" [OF False] k j False by (simp add: ndigits.simps [of n])
  qed (use "1.prems" in \<open>simp add: ndigits.simps [of n]\<close>)
qed

lemma half_even_exact: "half_even (q * 10 ^ k) k = q"
  by (simp add: half_even_def)

lemma dec_round_small:
  assumes "\<bar>c\<bar> < 10 ^ PREC" shows "dec_round (Dec c e) = Dec c e"
proof -
  have "nat \<bar>c\<bar> < 10 ^ PREC" using assms by (simp add: nat_less_iff)
  then have "ndigits (nat \<bar>c\<bar>) \<le> PREC" by (rule ndigits_le) (simp add: PREC_def)
  then show ?thesis by (simp add: dec_round_def)
qed

text \<open>A value that is a whole number of units \<open>10 powi u\<close>, fewer than \<open>10 ^ 28\<close> of them.\<close>

definition on_grid :: "int \<Rightarrow> rat \<Rightarrow> bool" where
  "on_grid u x \<longleftrightarrow> (\<exists>k::int. x = of_int k * 10 powi u)"

definition in_range :: "int \<Rightarrow> rat \<Rightarrow> bool" where
  "in_range u x \<longleftrightarrow> \<bar>x\<bar> < 10 ^ PREC * 10 powi u"

lemma on_grid_add: "on_grid u x \<Longrightarrow> on_grid u y \<Longrightarrow> on_grid u (x + y)"
  unfolding on_grid_def by (metis distrib_right of_int_add)

lemma on_grid_minus: "on_grid u x \<Longrightarrow> on_grid u (- x)"
  unfolding on_grid_def by (metis mult_minus_left of_int_minus)

lemma on_grid_diff: "on_grid u x \<Longrightarrow> on_grid u y \<Longrightarrow> on_grid u (x - y)"
  using on_grid_add [of u x "- y"] on_grid_minus by simp

lemma on_grid_0 [simp]: "on_grid u 0"
  unfolding on_grid_def by (intro exI [of _ 0]) simp

lemma on_grid_sum_list: "(\<And>x. x \<in> set xs \<Longrightarrow> on_grid u x) \<Longrightarrow> on_grid u (sum_list xs)"
  by (induction xs) (auto intro: on_grid_add)

lemma dec_round_long:
  assumes "c = k * 10 ^ j" "\<bar>k\<bar> < 10 ^ PREC"
  shows "dec_val (dec_round (Dec c e)) = dec_val (Dec c e)"
proof -
  let ?n = "nat \<bar>c\<bar>"
  have n: "?n = nat \<bar>k\<bar> * 10 ^ j"
    using assms(1) by (simp add: abs_mult nat_mult_distrib nat_power_eq)
  have k: "nat \<bar>k\<bar> < 10 ^ PREC" using assms(2) by (simp add: nat_less_iff)
  then have "?n < 10 ^ PREC * 10 ^ j" unfolding n by simp
  then have "?n < 10 ^ (PREC + j)" by (simp add: power_add)
  then have "ndigits ?n \<le> PREC + j" by (rule ndigits_le) (simp add: PREC_def)
  then have d: "ndigits ?n - PREC \<le> j" by simp
  let ?d = "ndigits ?n - PREC"
  define q where "q = nat \<bar>k\<bar> * 10 ^ (j - ?d)"
  have "(10::nat) ^ j = 10 ^ (j - ?d) * 10 ^ ?d" using d by (simp flip: power_add)
  then have q: "?n = q * 10 ^ ?d" using n by (simp add: q_def)
  have he: "half_even ?n ?d = q" by (metis half_even_exact q)
  have c: "c = sgn c * int q * 10 ^ ?d"
  proof -
    have "c = sgn c * \<bar>c\<bar>" by (simp add: sgn_mult_abs)
    also have "\<bar>c\<bar> = int ?n" by simp
    also have "int ?n = int q * 10 ^ ?d" by (subst q) simp
    finally show ?thesis by simp
  qed
  show ?thesis
  proof (cases "?d = 0")
    case False
    have v: "dec_val (Dec c e) = of_int (sgn c * int q) * 10 powi (e + int ?d)"
      by (subst c) (simp add: dec_val_Dec power_int_add)
    show ?thesis
    proof (cases "q = 10 ^ PREC")
      case True
      then have q10: "q = q div 10 * 10" by (simp add: PREC_def)
      have "dec_val (dec_round (Dec c e)) = of_int (sgn c * int (q div 10)) * 10 powi (e + int ?d + 1)"
        using False True by (simp add: dec_round_def Let_def dec_val_Dec he del: of_int_mult)
      also have "\<dots> = of_int (sgn c * int (q div 10 * 10)) * 10 powi (e + int ?d)"
        by (simp add: power_int_add)
      finally show ?thesis using v q10 by simp
    next
      case qne: False
      show ?thesis using False qne v
        by (simp add: dec_round_def Let_def dec_val_Dec he del: of_int_mult)
    qed
  qed (simp add: dec_round_def)
qed

lemma dec_round_exact:
  assumes "on_grid u (dec_val d)" "in_range u (dec_val d)"
  shows "dec_val (dec_round d) = dec_val d"
proof -
  obtain c e where d: "d = Dec c e" by (cases d)
  obtain k where k: "dec_val d = of_int k * 10 powi u" using assms(1) by (auto simp: on_grid_def)
  have "\<bar>of_int k\<bar> * 10 powi u < (10 ^ PREC * 10 powi u :: rat)"
    using assms(2) by (simp add: in_range_def k abs_mult)
  then have "\<bar>of_int k\<bar> < (10 ^ PREC :: rat)" by (simp only: mult_less_cancel_right_pos powi_pos)
  then have kb: "\<bar>k\<bar> < 10 ^ PREC" by (metis of_int_abs of_int_less_iff of_int_numeral of_int_power)
  have eq: "of_int c * 10 powi e = (of_int k * 10 powi u :: rat)" using k d by (simp add: dec_val_Dec)
  show ?thesis
  proof (cases "e \<le> u")
    case True
    then have "of_int c * 10 powi e = (of_int (k * 10 ^ nat (u - e)) * 10 powi e :: rat)"
      using eq powi_split [of e u] by simp
    then have "c = k * 10 ^ nat (u - e)" using powi_pos [of e]
      by (metis mult_cancel_right of_int_eq_iff order_less_irrefl)
    then show ?thesis unfolding d using kb by (rule dec_round_long)
  next
    case False
    then have "(of_int (c * 10 ^ nat (e - u)) * 10 powi u :: rat) = of_int k * 10 powi u"
      using eq powi_split [of u e] by simp
    then have "k = c * 10 ^ nat (e - u)" using powi_pos [of u]
      by (metis mult_cancel_right of_int_eq_iff order_less_irrefl)
    moreover have "\<bar>c\<bar> * 1 \<le> \<bar>c\<bar> * (10::int) ^ nat (e - u)" by (rule mult_left_mono) simp_all
    ultimately have "\<bar>c\<bar> < 10 ^ PREC" using kb by (simp add: abs_mult)
    then show ?thesis unfolding d by (simp add: dec_round_small)
  qed
qed

lemma dec_val_add:
  assumes "on_grid u (dec_val a + dec_val b)" "in_range u (dec_val a + dec_val b)"
  shows "dec_val (dec_add a b) = dec_val a + dec_val b"
proof -
  obtain x e y f where ab: "a = Dec x e" "b = Dec y f" by (cases a, cases b) auto
  let ?m = "min e f"
  have v: "dec_val (Dec (x * 10 ^ nat (e - ?m) + y * 10 ^ nat (f - ?m)) ?m) = dec_val a + dec_val b"
    unfolding ab by (subst (1 2) dec_val_shift [where m = ?m])
      (simp_all add: dec_val_Dec distrib_right)
  show ?thesis using dec_round_exact [of u "Dec (x * 10 ^ nat (e - ?m) + y * 10 ^ nat (f - ?m)) ?m"] assms v
    by (simp add: ab Let_def)
qed

lemma dec_val_sub:
  assumes "on_grid u (dec_val a - dec_val b)" "in_range u (dec_val a - dec_val b)"
  shows "dec_val (dec_sub a b) = dec_val a - dec_val b"
  using dec_val_add [of u a "dec_minus b"] assms by (simp add: dec_sub_def)

section \<open>Rendering and reading back\<close>

lemma digit_char:
  assumes "n < (10::nat)"
  shows "is_digit (char_of (48 + n))" "digit_val (char_of (48 + n)) = n"
proof -
  have "\<forall>n\<in>set [0..<10]. is_digit (char_of (48 + n))" by code_simp
  with assms show "is_digit (char_of (48 + n))" by simp
  from assms show "digit_val (char_of (48 + n)) = n" by (simp add: digit_val_def of_char_of)
qed

lemma digits_val_snoc: "digits_val (s @ [c]) = 10 * digits_val s + digit_val c"
  by (simp add: digits_val_def)

lemma show_nat_digits [simp]: "list_all is_digit (show_nat n)"
proof (induction n rule: show_nat.induct)
  case (1 n)
  then show ?case using digit_char [of n] digit_char [of "n mod 10"]
    by (simp add: show_nat.simps [of n])
qed

lemma digits_val_show_nat [simp]: "digits_val (show_nat n) = n"
proof (induction n rule: show_nat.induct)
  case (1 n)
  show ?case
  proof (cases "n < 10")
    case True
    then show ?thesis using digit_char [of n]
      by (simp add: show_nat.simps [of n] digits_val_def)
  next
    case False
    with 1 show ?thesis using digit_char [of "n mod 10"]
      by (subst show_nat.simps) (simp add: digits_val_snoc)
  qed
qed

lemma show_nat_not_Nil [simp]: "show_nat n \<noteq> []"
  by (subst show_nat.simps) simp

lemma digits_val_zeros [simp]: "digits_val (replicate k (CHR ''0'') @ s) = digits_val s"
  by (induction k) (simp_all add: digits_val_def digit_val_def)

lemma digits_val_pad: "digits_val (s @ replicate k (CHR ''0'')) = digits_val s * 10 ^ k"
proof (induction k)
  case (Suc k)
  have "s @ replicate (Suc k) (CHR ''0'') = (s @ replicate k (CHR ''0'')) @ [CHR ''0'']"
    by (simp add: replicate_append_same)
  then show ?case using Suc by (simp only: digits_val_snoc) (simp add: digit_val_def)
qed simp

lemma zero_digit: "is_digit (CHR ''0'')"
  by code_simp

lemma digit_facts: "is_digit c \<Longrightarrow> c \<noteq> CHR ''-'' \<and> c \<noteq> CHR ''+'' \<and> c \<noteq> CHR ''.'' \<and> c \<noteq> CHR ''_'' \<and> \<not> is_space c"
proof -
  have "list_all (\<lambda>c. c \<noteq> CHR ''-'' \<and> c \<noteq> CHR ''+'' \<and> c \<noteq> CHR ''.'' \<and> c \<noteq> CHR ''_'' \<and> \<not> is_space c)
    ''0123456789''" by code_simp
  then show "is_digit c \<Longrightarrow> ?thesis" unfolding is_digit_def list_all_iff by (rule bspec)
qed

lemma point_facts: "CHR ''.'' \<noteq> CHR ''-'' \<and> CHR ''.'' \<noteq> CHR ''+'' \<and> CHR ''.'' \<noteq> CHR ''_''
  \<and> \<not> is_space (CHR ''.'')"
  by code_simp

lemma dec_unsigned_whole: "list_all is_digit s \<Longrightarrow> s \<noteq> [] \<Longrightarrow> dec_unsigned s = Some (Dec (int (digits_val s)) 0)"
  by (simp add: dec_unsigned_def takeWhile_eq_all_conv [THEN iffD2] dropWhile_eq_Nil_conv [THEN iffD2] list_all_iff)

lemma dec_unsigned_point:
  assumes "list_all is_digit s" "list_all is_digit t" "s \<noteq> []"
  shows "dec_unsigned (s @ CHR ''.'' # t) = Some (Dec (int (digits_val (s @ t))) (- int (length t)))"
proof -
  have nd: "\<not> is_digit (CHR ''.'')" using digit_facts by blast
  have a: "takeWhile is_digit (s @ CHR ''.'' # t) = s" "dropWhile is_digit (s @ CHR ''.'' # t) = CHR ''.'' # t"
    using assms(1) nd by (simp_all add: takeWhile_append dropWhile_append list_all_iff)
  have b: "takeWhile is_digit t = t" "dropWhile is_digit t = []"
    using assms(2) by (simp_all add: takeWhile_eq_all_conv dropWhile_eq_Nil_conv list_all_iff)
  show ?thesis using assms(3) by (simp add: dec_unsigned_def a b)
qed

lemma dec_of_text_digits:
  assumes "list_all (\<lambda>c. is_digit c \<or> c = CHR ''.'') s" "s \<noteq> []"
  shows "dec_of_text s = dec_unsigned s"
proof -
  have ok: "\<not> is_space c \<and> c \<noteq> CHR ''_'' \<and> c \<noteq> CHR ''-'' \<and> c \<noteq> CHR ''+''" if "c \<in> set s" for c
  proof -
    from that assms(1) have "is_digit c \<or> c = CHR ''.''" by (auto simp: list_all_iff)
    then show ?thesis using digit_facts [of c] point_facts by (elim disjE) simp_all
  qed
  then have f: "strip s = s" "filter (\<lambda>c. c \<noteq> CHR ''_'') s = s"
    by (simp_all add: list_all_iff filter_id_conv)
  obtain c t where ct: "s = c # t" using assms(2) by (cases s) auto
  with ok have "c \<noteq> CHR ''-''" "c \<noteq> CHR ''+''" by simp_all
  then show ?thesis unfolding dec_of_text_def f by (simp add: ct)
qed

text \<open>An amount with decimals is rendered as digits around a point.\<close>

definition point_form :: "string \<Rightarrow> nat \<Rightarrow> nat \<Rightarrow> string \<Rightarrow> string \<Rightarrow> bool" where
  "point_form s c k a b \<longleftrightarrow> s = a @ CHR ''.'' # b \<and> list_all is_digit a \<and> list_all is_digit b \<and> a \<noteq> [] \<and>
     digits_val (a @ b) = c \<and> length b = k"

lemma money_point:
  assumes "0 < c" "e < 0"
  shows "\<exists>a b. point_form (money (Dec c e)) (nat c) (nat (- e)) a b"
proof -
  let ?s = "show_nat (nat c)"
  define k where "k = nat (- e)"
  show ?thesis unfolding k_def [symmetric]
  proof (cases "k < length ?s")
    case True
    have "point_form (money (Dec c e)) (nat c) k (take (length ?s - k) ?s) (drop (length ?s - k) ?s)"
      using True assms show_nat_digits [of "nat c"]
      by (auto simp: point_form_def k_def list_all_iff Let_def dest: in_set_takeD in_set_dropD)
    then show "\<exists>a b. point_form (money (Dec c e)) (nat c) k a b" by blast
  next
    case False
    have "point_form (money (Dec c e)) (nat c) k ''0'' (replicate (k - length ?s) (CHR ''0'') @ ?s)"
      using False assms digits_val_zeros [of "Suc (k - length ?s)" ?s] show_nat_digits [of "nat c"] zero_digit
      by (auto simp: point_form_def k_def list_all_iff Let_def)
    then show "\<exists>a b. point_form (money (Dec c e)) (nat c) k a b" by blast
  qed
qed

lemma point_text: "point_form s c k a b \<Longrightarrow> dec_of_text s = Some (Dec (int c) (- int k))"
  unfolding point_form_def using dec_unsigned_point [of a b]
  by (auto simp: list_all_iff intro!: trans [OF dec_of_text_digits])

lemma money_whole:
  assumes "0 < c" "0 \<le> e"
  shows "list_all is_digit (money (Dec c e)) \<and> money (Dec c e) \<noteq> [] \<and> int (digits_val (money (Dec c e))) = c * 10 ^ nat e"
proof -
  have m: "money (Dec c e) = show_nat (nat c) @ replicate (nat e) (CHR ''0'')" using assms by simp
  have "list_all is_digit (money (Dec c e))" unfolding m
    using show_nat_digits [of "nat c"] zero_digit by (auto simp: list_all_iff)
  then show ?thesis using assms unfolding m by (simp add: digits_val_pad)
qed

lemma whole_text: "list_all is_digit s \<Longrightarrow> s \<noteq> [] \<Longrightarrow> dec_of_text s = Some (Dec (int (digits_val s)) 0)"
  by (subst dec_of_text_digits) (auto simp: list_all_iff dec_unsigned_whole)

text \<open>A rendered amount reads back as the amount it was.\<close>

lemma money_reads_back:
  assumes "0 \<le> c"
  shows "\<exists>d. dec_of_text (money (Dec c e)) = Some d \<and> dec_val d = dec_val (Dec c e)"
proof (cases "c = 0")
  case True
  have "dec_of_text ''0'' = Some (Dec 0 0)" by code_simp
  with True show ?thesis by (simp add: dec_val_Dec)
next
  case False
  show ?thesis
  proof (cases "0 \<le> e")
    case True
    then show ?thesis using False assms money_whole [of c e] whole_text [of "money (Dec c e)"]
      by (auto simp: dec_val_Dec power_int_nonneg_exp simp del: money.simps)
  next
    case neg: False
    then obtain a b where "point_form (money (Dec c e)) (nat c) (nat (- e)) a b"
      using money_point [of c e] False assms by auto
    from point_text [OF this] show ?thesis using assms neg by simp
  qed
qed

end
