(* ===== verification/Relay.thy ===== *)
theory Relay imports Decimals
begin

text \<open>
  The lane relay's checks and books (\<open>unify/lanes/relay_server.py\<close>): its configuration, the
  guards a request passes before it goes upstream, the bounds of a request body, what a reply
  says of its cost, the ledger a call is admitted against and settled in, and the redaction of
  every reply.

  Bytes are character lists. \<open>json.loads\<close> with the hook that refuses a repeated key is the
  argument \<open>loads\<close> of the body checks: its value, or which of the two errors it raised.
  A number with a fraction or an exponent in a reply is a \<open>Decimal\<close> (\<open>parse_float\<close>), so its
  literal is its text. What the relay asks of the machine (\<open>urlsplit\<close>, the folder's
  \<open>stat\<close>, whether a file exists) is a record of functions.
\<close>

section \<open>Constants and forms\<close>

definition FORMAT :: string where "FORMAT = ''unify-lane-relay/1''"

definition LANES :: "string list" where
  "LANES = [''writer'', ''helper'', ''fork'', ''embed'']"

definition LOOPBACK :: string where "LOOPBACK = ''127.0.0.1''"

definition MAX_EMBED_INPUTS :: nat where "MAX_EMBED_INPUTS = 128"

definition MAX_EMBED_BYTES :: nat where "MAX_EMBED_BYTES = 2097152"

definition MAX_REQUEST_BYTES :: nat where "MAX_REQUEST_BYTES = 67108864"

definition MAX_IN_FLIGHT :: nat where "MAX_IN_FLIGHT = 8"

definition REJECTED_STATUSES :: "int list" where
  "REJECTED_STATUSES = [400, 401, 403, 404, 409, 422, 429]"

definition REDACTED :: string where "REDACTED = ''[redacted]''"

definition PRICE_KEYS :: "string list" where
  "PRICE_KEYS = [''input'', ''output'', ''cache_write'']"

definition is_alnum :: "char \<Rightarrow> bool" where
  "is_alnum c \<longleftrightarrow> is_lower c \<or> is_upper c \<or> is_digit c"

text \<open>\<open>[A-Za-z0-9._~-]{32,512}\<close> and \<open>[A-Za-z0-9~][A-Za-z0-9._:/@+~-]{0,199}\<close>.\<close>

definition token_form :: "string \<Rightarrow> bool" where
  "token_form s \<longleftrightarrow> 32 \<le> length s \<and> length s \<le> 512 \<and>
     list_all (\<lambda>c. is_alnum c \<or> c \<in> set ''._~-'') s"

definition model_form :: "string \<Rightarrow> bool" where
  "model_form s \<longleftrightarrow> (case s of [] \<Rightarrow> False | c # t \<Rightarrow>
     (is_alnum c \<or> c = CHR ''~'') \<and> length t \<le> 199 \<and>
     list_all (\<lambda>c. is_alnum c \<or> c \<in> set ''._:/@+~-'') t)"

text \<open>\<open>[0-9]{1,12}(\.[0-9]{1,18})?\<close>\<close>

definition plain_decimal :: "string \<Rightarrow> bool" where
  "plain_decimal s \<longleftrightarrow>
    (let ip = takeWhile is_digit s; rest = dropWhile is_digit s in
     ip \<noteq> [] \<and> length ip \<le> 12 \<and>
     (case rest of [] \<Rightarrow> True
      | c # t \<Rightarrow> c = CHR ''.'' \<and> t \<noteq> [] \<and> length t \<le> 18 \<and> list_all is_digit t))"

section \<open>The configuration\<close>

datatype config_error = Config_Error string | Unhashable

fun plain :: "bool \<Rightarrow> string \<Rightarrow> json \<Rightarrow> config_error + decimal" where
  "plain positive what (JStr s) =
    (if \<not> plain_decimal s then Inl (Config_Error (what @ '' must be a plain decimal string''))
     else case dec_of_text s of
            None \<Rightarrow> Inl (Config_Error (what @ '' must be a plain decimal string''))
          | Some d \<Rightarrow> if positive \<and> dec_le d dec_zero then Inl (Config_Error (what @ '' must be above 0''))
                      else Inr d)"
| "plain positive what _ = Inl (Config_Error (what @ '' must be a plain decimal string''))"

text \<open>A provider-reported charge: a finite amount that is not negative, from a number or its text.\<close>

definition charge_of :: "json \<Rightarrow> decimal option" where
  "charge_of v = (let d = (case v of JInt n \<Rightarrow> Some (Dec n 0) | JFloat l \<Rightarrow> dec_of_text l
                            | JStr s \<Rightarrow> dec_of_text s | _ \<Rightarrow> None)
     in case d of None \<Rightarrow> None | Some x \<Rightarrow> if dec_le dec_zero x then Some x else None)"

definition count_of :: "json \<Rightarrow> nat option" where
  "count_of v = (case v of JInt n \<Rightarrow> if 0 \<le> n then Some (nat n) else None | _ \<Rightarrow> None)"

record url =
  u_scheme :: string
  u_user :: string
  u_password :: string
  u_query :: string
  u_fragment :: string
  u_host :: string
  u_port :: "nat option"
  u_path :: string

record machine =
  urlsplit :: "string \<Rightarrow> url option"
  is_file :: "string \<Rightarrow> bool"
  folder_ok :: "string \<Rightarrow> bool option"

definition rstrip_slash :: "string \<Rightarrow> string" where
  "rstrip_slash s = rev (dropWhile (\<lambda>c. c = CHR ''/'') (rev s))"

text \<open>\<open>port or 443\<close> takes a port of 0 as none.\<close>

definition upstream_of :: "machine \<Rightarrow> json \<Rightarrow> config_error + (string \<times> string \<times> nat \<times> string)" where
  "upstream_of M v = (case v of
      JStr s \<Rightarrow>
        if list_ex is_space s then Inl (Config_Error ''the upstream must be a URL without spaces'')
        else (case urlsplit M s of
            None \<Rightarrow> Inl (Config_Error ''the upstream does not parse'')
          | Some u \<Rightarrow>
              if u_user u \<noteq> [] \<or> u_password u \<noteq> [] \<or> u_query u \<noteq> [] \<or> u_fragment u \<noteq> [] \<or> u_host u = []
              then Inl (Config_Error ''the upstream must have a host and no user, password, query or fragment'')
              else let port = (case u_port u of None \<Rightarrow> 0 | Some p \<Rightarrow> p) in
                if u_scheme u = ''https''
                then Inr (''https'', u_host u, if port = 0 then 443 else port, rstrip_slash (u_path u))
                else if u_scheme u = ''http'' \<and> u_host u = LOOPBACK \<and> port \<noteq> 0
                then Inr (''http'', u_host u, port, rstrip_slash (u_path u))
                else Inl (Config_Error
                  ''the upstream must be https, or plain http to 127.0.0.1 with a port''))
    | _ \<Rightarrow> Inl (Config_Error ''the upstream must be a URL without spaces''))"

text \<open>\<open>str.isprintable\<close> on Latin-1, with no blank.\<close>

definition key_char :: "char \<Rightarrow> bool" where
  "key_char c \<longleftrightarrow> (let n = (of_char c :: nat) in (33 \<le> n \<and> n \<le> 126) \<or> (161 \<le> n \<and> n \<noteq> 173))"

definition key_form :: "string \<Rightarrow> bool" where
  "key_form s \<longleftrightarrow> 8 \<le> length s \<and> length s \<le> 4096 \<and> list_all key_char s"

text \<open>\<open>key.encode("utf-8")\<close> for a key of Latin-1 characters.\<close>

definition utf8_char :: "char \<Rightarrow> string" where
  "utf8_char c = (let n = (of_char c :: nat) in
     if n < 128 then [c] else [char_of (192 + n div 64), char_of (128 + n mod 64)])"

definition utf8 :: "string \<Rightarrow> string" where
  "utf8 s = concat (map utf8_char s)"

record config =
  c_key :: string
  c_upstream :: "string \<times> string \<times> nat \<times> string"
  c_cafile :: "string option"
  c_journal_dir :: string
  c_cap :: decimal
  c_worst :: "(string \<times> decimal) list"
  c_prices :: "(string \<times> (string \<times> decimal) list) list"
  c_tokens :: "(string \<times> string) list"
  c_models :: "(string \<times> string list) list"

definition is_abs :: "string \<Rightarrow> bool" where
  "is_abs s \<longleftrightarrow> starts_with ''/'' s"

definition check_key :: "json \<Rightarrow> config_error + string" where
  "check_key v = (case v of
      JStr s \<Rightarrow> if key_form s then Inr s else Inl (Config_Error ''the provider key is missing or malformed'')
    | _ \<Rightarrow> Inl (Config_Error ''the provider key is missing or malformed''))"

definition check_cafile :: "machine \<Rightarrow> json \<Rightarrow> config_error + string option" where
  "check_cafile M v = (case v of
      JNull \<Rightarrow> Inr None
    | JStr s \<Rightarrow> if is_abs s \<and> is_file M s then Inr (Some s)
                else Inl (Config_Error ''the CA file must be an absolute path to a file'')
    | _ \<Rightarrow> Inl (Config_Error ''the CA file must be an absolute path to a file''))"

definition check_folder :: "machine \<Rightarrow> json \<Rightarrow> config_error + string" where
  "check_folder M v = (case v of
      JStr s \<Rightarrow>
        if \<not> is_abs s then Inl (Config_Error ''the journal folder must be an absolute path'')
        else (case folder_ok M s of
            None \<Rightarrow> Inl (Config_Error ''the journal folder does not exist'')
          | Some ok \<Rightarrow> if ok then Inr s else Inl (Config_Error
              ''the journal folder must be a folder of this user that no one else can write''))
    | _ \<Rightarrow> Inl (Config_Error ''the journal folder must be an absolute path''))"

definition check_worst_entry :: "string \<times> json \<Rightarrow> config_error + (string \<times> decimal)" where
  "check_worst_entry p = (case p of (model, v) \<Rightarrow>
     if \<not> model_form model then Inl (Config_Error ''a worst case names a malformed model'')
     else bind_r (plain True ''a worst case per call'' v) (\<lambda>d. Inr (model, d)))"

definition check_worst :: "json \<Rightarrow> config_error + (string \<times> decimal) list" where
  "check_worst v = (case v of
      JObj (p # ps) \<Rightarrow> map_r check_worst_entry (p # ps)
    | _ \<Rightarrow> Inl (Config_Error ''the worst cases per call are missing''))"

definition check_price_entry :: "string \<times> json \<Rightarrow> config_error + (string \<times> (string \<times> decimal) list)" where
  "check_price_entry p = (case p of (model, v) \<Rightarrow> (case v of
      JObj table \<Rightarrow>
        if \<not> model_form model then Inl (Config_Error ''a price names a malformed model'')
        else if \<not> ({''input'', ''output''} \<subseteq> set (keys_of table) \<and> set (keys_of table) \<subseteq> set PRICE_KEYS)
        then Inl (Config_Error ''a model's prices are input and output, optionally cache_write'')
        else bind_r (map_r (\<lambda>(k, x). bind_r (plain False ''a price'' x) (\<lambda>d. Inr (k, d))) table)
               (\<lambda>t. Inr (model, t))
    | _ \<Rightarrow> Inl (Config_Error ''a price names a malformed model'')))"

text \<open>\<open>doc.get("prices") or {}\<close>: every falsy value is no prices.\<close>

fun falsy :: "json \<Rightarrow> bool" where
  "falsy JNull = True"
| "falsy (JBool b) = (\<not> b)"
| "falsy (JInt n) = (n = 0)"
| "falsy (JFloat l) = (case dec_of_text l of Some (Dec c e) \<Rightarrow> c = 0 | None \<Rightarrow> False)"
| "falsy (JStr s) = (s = [])"
| "falsy (JArr xs) = (xs = [])"
| "falsy (JObj d) = (d = [])"

definition check_prices :: "json \<Rightarrow> config_error + (string \<times> (string \<times> decimal) list) list" where
  "check_prices v = (if falsy v then Inr [] else case v of
      JObj ps \<Rightarrow> map_r check_price_entry ps
    | _ \<Rightarrow> Inl (Config_Error ''the prices must be an object''))"

text \<open>\<open>set(models)\<close> raises where a listed value is a list or an object.\<close>

fun hashable :: "json \<Rightarrow> bool" where
  "hashable (JArr _) = False"
| "hashable (JObj _) = False"
| "hashable _ = True"

definition check_lane_model :: "(string \<times> decimal) list \<Rightarrow> json \<Rightarrow> config_error + string" where
  "check_lane_model worst v = (case v of
      JStr m \<Rightarrow> if \<not> model_form m then Inl (Config_Error ''a lane names a malformed model'')
                else if map_of worst m = None
                then Inl (Config_Error ''every lane model needs a worst case per call'')
                else Inr m
    | _ \<Rightarrow> Inl (Config_Error ''a lane names a malformed model''))"

definition check_lane_models :: "(string \<times> decimal) list \<Rightarrow> json \<Rightarrow> config_error + string list" where
  "check_lane_models worst v = (case v of
      JArr ms \<Rightarrow>
        if \<not> (1 \<le> length ms \<and> length ms \<le> 16)
        then Inl (Config_Error ''each lane lists 1 to 16 distinct models'')
        else if \<not> list_all hashable ms then Inl Unhashable
        else if \<not> distinct ms then Inl (Config_Error ''each lane lists 1 to 16 distinct models'')
        else map_r (check_lane_model worst) ms
    | _ \<Rightarrow> Inl (Config_Error ''each lane lists 1 to 16 distinct models''))"

definition check_lane :: "(string \<times> decimal) list \<Rightarrow> string \<times> json \<Rightarrow>
    config_error + (string \<times> string \<times> string list)" where
  "check_lane worst p = (case p of (lane, v) \<Rightarrow> (case v of
      JObj spec \<Rightarrow>
        if set (keys_of spec) \<noteq> {''token'', ''models''}
        then Inl (Config_Error ''each lane has a token and its models'')
        else (case jget spec ''token'' of
            JStr token \<Rightarrow> if \<not> token_form token then Inl (Config_Error ''a lane token is malformed'')
              else bind_r (check_lane_models worst (jget spec ''models'')) (\<lambda>ms. Inr (lane, token, ms))
          | _ \<Rightarrow> Inl (Config_Error ''a lane token is malformed''))
    | _ \<Rightarrow> Inl (Config_Error ''each lane has a token and its models'')))"

definition check_lanes :: "(string \<times> decimal) list \<Rightarrow> json \<Rightarrow>
    config_error + (string \<times> string \<times> string list) list" where
  "check_lanes worst v = (case v of
      JObj (p # ps) \<Rightarrow>
        if \<not> set (keys_of (p # ps)) \<subseteq> set LANES
        then Inl (Config_Error ''the lanes must be some of writer, helper and fork'')
        else map_r (check_lane worst) (p # ps)
    | _ \<Rightarrow> Inl (Config_Error ''the lanes must be some of writer, helper and fork''))"

definition check_distinct :: "string \<Rightarrow> (string \<times> string \<times> string list) list \<Rightarrow> config_error + unit" where
  "check_distinct key lanes = (let tokens = map (\<lambda>(_, t, _). t) lanes in
     guard_r (distinct tokens \<and> utf8 key \<notin> set tokens)
       (Config_Error ''every lane token must be distinct, and none the provider key''))"

definition config_of :: "machine \<Rightarrow> jrow \<Rightarrow> config_error + config" where
  "config_of M doc =
    bind_r (guard_r (jget doc ''format'' = JStr FORMAT) (Config_Error ''the configuration's format differs'')) (\<lambda>_.
    bind_r (check_key (jget doc ''key'')) (\<lambda>key.
    bind_r (upstream_of M (jget doc ''upstream'')) (\<lambda>up.
    bind_r (check_cafile M (jget doc ''cafile'')) (\<lambda>ca.
    bind_r (check_folder M (jget doc ''journal_dir'')) (\<lambda>folder.
    bind_r (plain True ''the spend cap'' (jget doc ''cap_usd'')) (\<lambda>cap.
    bind_r (check_worst (jget doc ''worst_case_usd'')) (\<lambda>worst.
    bind_r (check_prices (jget doc ''prices'')) (\<lambda>prices.
    bind_r (check_lanes worst (jget doc ''lanes'')) (\<lambda>lanes.
    bind_r (check_distinct key lanes) (\<lambda>_.
      Inr \<lparr>c_key = key, c_upstream = up, c_cafile = ca, c_journal_dir = folder, c_cap = cap,
           c_worst = worst, c_prices = prices,
           c_tokens = map (\<lambda>(l, t, _). (l, t)) lanes,
           c_models = map (\<lambda>(l, _, ms). (l, ms)) lanes\<rparr>))))))))))"

definition secrets :: "config \<Rightarrow> string list" where
  "secrets c = utf8 (c_key c) # map snd (c_tokens c)"

end
