(* ===== verification/RelayCalls.thy ===== *)
theory RelayCalls imports Relay
begin

text \<open>
  One call through the lane relay (\<open>unify/lanes/relay_server.py\<close>): the guards of \<open>_handle\<close> in
  their order (each refusal a value, with its status, kind and reason), \<open>check_body\<close> and
  \<open>check_embed_body\<close>, the \<open>X-Unify-*\<close> metadata, what a reply says of its cost (\<open>bill\<close>), the
  ledger's \<open>admit\<close>, \<open>price\<close> and \<open>settle\<close>, the terminal row \<open>_Ending.end\<close> writes, and \<open>redact\<close>.
  A refusal's message, which only quotes the fixed text of its kind, is left out.
\<close>

section \<open>Request bodies\<close>

datatype load_error = Duplicate_Key | Not_JSON

type_synonym loads = "string \<Rightarrow> load_error + json"

datatype body_verdict =
    Body jrow string
  | Body_Refused "string option" string

definition shown_model :: "string \<Rightarrow> string option" where
  "shown_model m = (if model_form m then Some m else None)"

definition has_key :: "jrow \<Rightarrow> string \<Rightarrow> bool" where
  "has_key d k \<longleftrightarrow> k \<in> fst ` set d"

text \<open>\<open>n != 1\<close>, or a bool: a float compares by value, so \<open>1.0\<close> is one. A literal is the float 1
  from half a unit in the last place below it to half a unit above.\<close>

definition float_one :: "string \<Rightarrow> bool" where
  "float_one l \<longleftrightarrow> (case dec_of_text l of None \<Rightarrow> False | Some (Dec c e) \<Rightarrow>
     0 < c \<and>
     (if 0 \<le> e then c * 10 ^ nat e = 1
      else 2 ^ 54 * c \<ge> (2 ^ 54 - 1) * 10 ^ nat (- e) \<and> 2 ^ 53 * c \<le> (2 ^ 53 + 1) * 10 ^ nat (- e)))"

definition one_completion :: "json \<Rightarrow> bool" where
  "one_completion v = (case v of JInt n \<Rightarrow> n = 1 | JFloat l \<Rightarrow> float_one l | _ \<Rightarrow> False)"

definition several :: "jrow \<Rightarrow> bool" where
  "several d \<longleftrightarrow> has_key d ''best_of'' \<or> \<not> one_completion (jget_or d ''n'' (JInt 1))"

definition stream_ok :: "jrow \<Rightarrow> bool" where
  "stream_ok d \<longleftrightarrow> has_key d ''stream'' \<longrightarrow> as_bool (jget d ''stream'') \<noteq> None"

text \<open>What both checks do first: the reasons before a lane's own rules.\<close>

definition with_model :: "load_error + json \<Rightarrow> (jrow \<Rightarrow> string \<Rightarrow> body_verdict) \<Rightarrow> body_verdict" where
  "with_model loaded k = (case loaded of
      Inl Duplicate_Key \<Rightarrow> Body_Refused None ''duplicate_keys''
    | Inl Not_JSON \<Rightarrow> Body_Refused None ''unparseable_body''
    | Inr v \<Rightarrow> (case v of
        JObj d \<Rightarrow> (case jget d ''model'' of
            JStr m \<Rightarrow> k d m
          | JNull \<Rightarrow> Body_Refused None ''missing_model''
          | _ \<Rightarrow> Body_Refused None ''model_not_a_string'')
      | _ \<Rightarrow> Body_Refused None ''not_an_object''))"

definition check_body :: "loads \<Rightarrow> string list \<Rightarrow> string \<Rightarrow> body_verdict" where
  "check_body loads allowed body = with_model (loads body) (\<lambda>d m.
     if has_key d ''models'' then Body_Refused (shown_model m) ''fallback_models_field''
     else if has_key d ''plugins'' \<or> has_key d ''web_search_options''
     then Body_Refused (shown_model m) ''plugins_field''
     else if several d then Body_Refused (shown_model m) ''several_completions''
     else if \<not> stream_ok d then Body_Refused (shown_model m) ''stream_not_a_boolean''
     else if m \<notin> set allowed then Body_Refused (shown_model m) ''not_allowed''
     else Body d m)"

definition embed_inputs :: "json \<Rightarrow> string list option" where
  "embed_inputs v = (case v of
      JArr xs \<Rightarrow> if 1 \<le> length xs \<and> length xs \<le> MAX_EMBED_INPUTS \<and> list_all (\<lambda>x. as_str x \<noteq> None) xs
                 then Some (str_items (JArr xs)) else None
    | _ \<Rightarrow> None)"

definition embed_fields :: "jrow \<Rightarrow> bool" where
  "embed_fields d \<longleftrightarrow> fst ` set d = {''model'', ''input''}"

definition check_embed_body :: "loads \<Rightarrow> string list \<Rightarrow> string \<Rightarrow> body_verdict" where
  "check_embed_body loads allowed body = with_model (loads body) (\<lambda>d m.
     if \<not> embed_fields d then Body_Refused (shown_model m) ''embedding_fields''
     else case embed_inputs (jget d ''input'') of
         None \<Rightarrow> Body_Refused (shown_model m) ''embedding_input''
       | Some xs \<Rightarrow>
           if sum_list (map (length \<circ> utf8) xs) > MAX_EMBED_BYTES
           then Body_Refused (shown_model m) ''embedding_input_size''
           else if m \<notin> set allowed then Body_Refused (shown_model m) ''not_allowed''
           else Body d m)"

section \<open>Metadata headers\<close>

definition META_PREFIX :: string where "META_PREFIX = ''x-unify-''"

definition META_FIELDS :: "(string \<times> string) list" where
  "META_FIELDS = [(''x-unify-session'', ''session''), (''x-unify-parent'', ''parent''),
     (''x-unify-request'', ''request''), (''x-unify-call-kind'', ''call_kind''),
     (''x-unify-msg-count'', ''msg_count''), (''x-unify-pass-id'', ''pass_id''),
     (''x-unify-entries'', ''entries''), (''x-unify-episode'', ''episode'')]"

definition is_hex :: "char \<Rightarrow> bool" where
  "is_hex c \<longleftrightarrow> c \<in> set ''0123456789abcdef''"

definition meta_id :: "string \<Rightarrow> bool" where
  "meta_id s \<longleftrightarrow> (case s of [] \<Rightarrow> False | c # t \<Rightarrow>
     is_alnum c \<and> length t \<le> 63 \<and> list_all (\<lambda>c. is_alnum c \<or> c \<in> set ''_.:-'') t)"

definition meta_count :: "string \<Rightarrow> bool" where
  "meta_count s \<longleftrightarrow> s \<noteq> [] \<and> length s \<le> 9 \<and> list_all is_digit s"

definition meta_pass :: "string \<Rightarrow> bool" where
  "meta_pass s \<longleftrightarrow> length s = 16 \<and> list_all is_hex s"

definition meta_entries :: "string \<Rightarrow> bool" where
  "meta_entries s \<longleftrightarrow> length (split_on (CHR ''.'') s) \<le> 64 \<and> list_all meta_pass (split_on (CHR ''.'') s)"

definition lower_latin :: "string \<Rightarrow> string" where
  "lower_latin s = map (\<lambda>c. let n = (of_char c :: nat) in
     if is_upper c \<or> (192 \<le> n \<and> n \<le> 222 \<and> n \<noteq> 215) then char_of (n + 32) else c) s"

text \<open>A field's value when it has its form.\<close>

definition meta_value :: "string \<Rightarrow> string \<Rightarrow> json option" where
  "meta_value field text =
    (if field = ''request'' \<or> field = ''msg_count''
     then (if meta_count text then Some (JInt (int (digits_val text))) else None)
     else if field = ''pass_id'' then (if meta_pass text then Some (JStr text) else None)
     else if field = ''entries''
     then (if meta_entries text then Some (jstrs (split_on (CHR ''.'') text)) else None)
     else if meta_id text then Some (JStr text) else None)"

fun meta_seen :: "(string \<times> string) list \<Rightarrow> (string \<times> string list) list \<Rightarrow> (string \<times> string list) list" where
  "meta_seen [] seen = seen"
| "meta_seen ((name, v) # hs) seen =
    (let low = lower_latin name in
     meta_seen hs (if starts_with META_PREFIX low
                   then dict_put low (dict_get seen low [] @ [v]) seen else seen))"

fun meta_row :: "(string \<times> string list) list \<Rightarrow> jrow \<Rightarrow> string list \<Rightarrow> jrow \<times> string list" where
  "meta_row [] meta flags = (meta, flags)"
| "meta_row ((low, vs) # seen) meta flags = (case map_of META_FIELDS low of
      None \<Rightarrow> meta_row seen meta (flags @ [''unknown header''])
    | Some field \<Rightarrow>
        if length vs \<noteq> 1 then meta_row seen meta (flags @ [field @ '': repeated''])
        else (case meta_value field (strip (hd vs)) of
            Some v \<Rightarrow> meta_row seen (dict_put field v meta) flags
          | None \<Rightarrow> meta_row seen meta (flags @ [field @ '': malformed''])))"

definition request_metadata :: "(string \<times> string) list \<Rightarrow> jrow option" where
  "request_metadata headers = (let seen = meta_seen headers [] in
     if seen = [] then None
     else case meta_row (sort_key fst seen) [] [] of
       (meta, flags) \<Rightarrow> Some (dict_put ''flags'' (jstrs (take 16 flags)) meta))"

section \<open>The guards of a request\<close>

record request =
  q_method :: string
  q_path :: string
  q_hosts :: "string list"
  q_auths :: "string list"
  q_te :: "string list"
  q_lengths :: "string list"
  q_input :: string
  q_headers :: "(string \<times> string) list"

record refusal =
  f_status :: nat
  f_kind :: string
  f_reason :: string
  f_lane :: "string option"
  f_model :: "string option"

datatype verdict = Refuse refusal | Gone | Raised | Forward string string jrow

definition route :: "string \<Rightarrow> string option" where
  "route path = (if path = ''/embed/v1/embeddings'' then Some ''embed''
     else find (\<lambda>l. path = ''/'' @ l @ ''/v1/chat/completions'') [''writer'', ''helper'', ''fork''])"

definition lane_of :: "string \<Rightarrow> string option" where
  "lane_of path = (case route path of
      Some l \<Rightarrow> Some l
    | None \<Rightarrow> find (\<lambda>n. starts_with (''/'' @ n @ ''/'') path) LANES)"

definition refusal_at :: "nat \<Rightarrow> string option \<Rightarrow> string \<Rightarrow> refusal" where
  "refusal_at status lane why =
     \<lparr>f_status = status, f_kind = (case lane of None \<Rightarrow> ''lane'' | Some l \<Rightarrow> l) @ ''_route_refused'',
      f_reason = why, f_lane = lane, f_model = None\<rparr>"

definition bearer :: "string \<Rightarrow> string" where
  "bearer token = ''Bearer '' @ token"

text \<open>\<open>str.isdigit\<close> on Latin-1 takes the superscripts 1, 2 and 3 too, which \<open>int\<close> refuses with a
  ValueError, as it does a text of over 4,300 digits.\<close>

definition isdigit_char :: "char \<Rightarrow> bool" where
  "isdigit_char c \<longleftrightarrow> is_digit c \<or> of_char c \<in> {178, 179, 185 :: nat}"

definition content_length :: "string list \<Rightarrow> (string + nat) option" where
  "content_length ls = (case ls of
      [l] \<Rightarrow> (let s = strip l in
        if s = [] \<or> \<not> list_all isdigit_char s then Some (Inl ''length'')
        else if \<not> list_all is_digit s \<or> 4300 < length s then None
        else Some (Inr (digits_val s)))
    | _ \<Rightarrow> Some (Inl ''length''))"

definition authorized :: "config \<Rightarrow> string \<Rightarrow> string \<Rightarrow> string list \<Rightarrow> refusal option" where
  "authorized c lane token auths =
    (let given = (case auths of [a] \<Rightarrow> strip a | _ \<Rightarrow> []) in
     if length auths = 1 \<and> given = bearer token then None
     else Some (refusal_at 403 (Some lane)
       (if list_ex (\<lambda>(name, t). name \<noteq> lane \<and> given = bearer t) (c_tokens c)
        then ''other_lane_token'' else ''no_lane_token'')))"

definition read_body :: "loads \<Rightarrow> config \<Rightarrow> string \<Rightarrow> request \<Rightarrow> verdict" where
  "read_body loads c lane q =
    (if q_te q \<noteq> [] then Refuse (refusal_at 411 (Some lane) ''length'')
     else case content_length (q_lengths q) of
         None \<Rightarrow> Raised
       | Some (Inl why) \<Rightarrow> Refuse (refusal_at 411 (Some lane) why)
       | Some (Inr n) \<Rightarrow>
           if n > MAX_REQUEST_BYTES then Refuse (refusal_at 413 (Some lane) ''size'')
           else let body = take n (q_input q) in
             if length body \<noteq> n then Gone
             else (case (if lane = ''embed'' then check_embed_body else check_body)
                          loads (dict_get (c_models c) lane []) body of
                 Body_Refused m why \<Rightarrow>
                   Refuse \<lparr>f_status = 403, f_kind = ''off_model_refused'', f_reason = why,
                           f_lane = Some lane, f_model = m\<rparr>
               | Body d m \<Rightarrow> Forward lane m d))"

definition handle :: "loads \<Rightarrow> config \<Rightarrow> nat \<Rightarrow> bool \<Rightarrow> request \<Rightarrow> verdict" where
  "handle loads c port stopping q =
    (let lane = lane_of (q_path q) in
     if length (q_hosts q) \<noteq> 1 \<or> strip (hd (q_hosts q)) \<noteq> LOOPBACK @ '':'' @ show_nat port
     then Refuse (refusal_at 403 lane ''host'')
     else case route (q_path q) of
         None \<Rightarrow> Refuse (refusal_at 404 lane ''path'')
       | Some l \<Rightarrow>
           if q_method q \<noteq> ''POST'' then Refuse (refusal_at 405 lane ''method'')
           else if stopping then Refuse (refusal_at 403 lane ''stopping'')
           else (case map_of (c_tokens c) l of
               None \<Rightarrow> Refuse (refusal_at 403 lane ''lane_off'')
             | Some token \<Rightarrow> (case authorized c l token (q_auths q) of
                   Some r \<Rightarrow> Refuse r
                 | None \<Rightarrow> read_body loads c l q)))"

section \<open>What a reply says of its cost\<close>

record tokens =
  k_input :: "nat option"
  k_output :: "nat option"
  k_cache_read :: "nat option"
  k_cache_write :: "nat option"
  k_reasoning :: "nat option"

definition no_tokens :: tokens where
  "no_tokens = \<lparr>k_input = None, k_output = None, k_cache_read = None, k_cache_write = None,
     k_reasoning = None\<rparr>"

record info =
  i_generation :: "string option"
  i_finish :: "string option"
  i_error :: bool
  i_tokens :: "tokens option"
  i_charge :: "decimal option"

definition no_info :: info where
  "no_info = \<lparr>i_generation = None, i_finish = None, i_error = False, i_tokens = None, i_charge = None\<rparr>"

fun as_obj :: "json \<Rightarrow> jrow option" where
  "as_obj (JObj d) = Some d"
| "as_obj _ = None"

definition details :: "jrow \<Rightarrow> string \<Rightarrow> jrow" where
  "details usage k = (case jget usage k of JObj d \<Rightarrow> d | _ \<Rightarrow> [])"

definition tokens_of :: "jrow \<Rightarrow> tokens" where
  "tokens_of usage = (let pt = details usage ''prompt_tokens_details'';
                          ct = details usage ''completion_tokens_details'' in
     \<lparr>k_input = count_of (jget usage ''prompt_tokens''),
      k_output = count_of (jget usage ''completion_tokens''),
      k_cache_read = count_of (jget pt ''cached_tokens''),
      k_cache_write = count_of (jget pt ''cache_write_tokens''),
      k_reasoning = count_of (jget ct ''reasoning_tokens'')\<rparr>)"

definition finish_of :: "json \<Rightarrow> string option" where
  "finish_of v = (case v of
      JArr (JObj ch # _) \<Rightarrow> (case jget ch ''finish_reason'' of
          JStr r \<Rightarrow> if length r \<le> 64 then Some r else None | _ \<Rightarrow> None)
    | _ \<Rightarrow> None)"

definition bill :: "json \<Rightarrow> info" where
  "bill v = (case v of
      JObj d \<Rightarrow>
        \<lparr>i_generation = (case jget d ''id'' of
             JStr g \<Rightarrow> if 0 < length g \<and> length g \<le> 200 then Some g else None | _ \<Rightarrow> None),
         i_finish = finish_of (jget d ''choices''),
         i_error = (as_obj (jget d ''error'') \<noteq> None),
         i_tokens = map_option tokens_of (as_obj (jget d ''usage'')),
         i_charge = (case jget d ''usage'' of JObj u \<Rightarrow> charge_of (jget u ''cost'') | _ \<Rightarrow> None)\<rparr>
    | _ \<Rightarrow> no_info)"

section \<open>The ledger\<close>

record ledger =
  l_booked :: "(string \<times> decimal) list"
  l_total :: decimal
  l_classes :: "(string \<times> string) list"

definition new_ledger :: ledger where
  "new_ledger = \<lparr>l_booked = [], l_total = dec_zero, l_classes = []\<rparr>"

definition book :: "string \<Rightarrow> decimal \<Rightarrow> ledger \<Rightarrow> ledger" where
  "book rid amount L =
     L\<lparr>l_total := dec_add (l_total L) (dec_sub amount (dict_get (l_booked L) rid dec_zero)),
       l_booked := dict_put rid amount (l_booked L)\<rparr>"

text \<open>None is the KeyError of a model without a worst case.\<close>

definition admit :: "config \<Rightarrow> string \<Rightarrow> string \<Rightarrow> ledger \<Rightarrow> (bool \<times> ledger) option" where
  "admit c rid model L = (case map_of (c_worst c) model of
      None \<Rightarrow> None
    | Some worst \<Rightarrow>
        if \<not> dec_le (dec_add (l_total L) worst) (c_cap c) then Some (False, L)
        else Some (True, book rid worst L))"

definition or_0 :: "nat option \<Rightarrow> int" where
  "or_0 n = (case n of None \<Rightarrow> 0 | Some k \<Rightarrow> int k)"

definition estimate_usd :: "decimal \<Rightarrow> decimal \<Rightarrow> decimal option \<Rightarrow> tokens \<Rightarrow> decimal" where
  "estimate_usd pin pout pw t =
    (let usd = dec_add (dec_times pin (or_0 (k_input t))) (dec_times pout (or_0 (k_output t)));
         usd = (case pw of None \<Rightarrow> usd | Some p \<Rightarrow> dec_add usd (dec_times p (or_0 (k_cache_write t))))
     in dec_millionth usd)"

text \<open>A checked configuration's price table has both \<open>input\<close> and \<open>output\<close>.\<close>

definition estimate :: "config \<Rightarrow> string \<Rightarrow> tokens \<Rightarrow> decimal option" where
  "estimate c model t = (let table = dict_get (c_prices c) model [] in
     if table = [] \<or> (k_input t = None \<and> k_output t = None) then None
     else case map_of table ''input'' of
         None \<Rightarrow> None
       | Some pin \<Rightarrow> (case map_of table ''output'' of
           None \<Rightarrow> None
         | Some pout \<Rightarrow> Some (estimate_usd pin pout (map_of table ''cache_write'') t)))"

definition price :: "config \<Rightarrow> string \<Rightarrow> decimal option \<Rightarrow> tokens \<Rightarrow> (decimal \<times> string) option" where
  "price c model charge t = (case charge of
      Some d \<Rightarrow> Some (d, ''charge'')
    | None \<Rightarrow> (case estimate c model t of
        Some d \<Rightarrow> Some (d, ''estimate'')
      | None \<Rightarrow> map_option (\<lambda>w. (w, ''worst_case'')) (map_of (c_worst c) model)))"

definition settle :: "string \<Rightarrow> decimal \<Rightarrow> string \<Rightarrow> ledger \<Rightarrow> ledger" where
  "settle rid amount kind L = (book rid amount L)\<lparr>l_classes := dict_put rid kind (l_classes L)\<rparr>"

section \<open>How a call ended\<close>

text \<open>The fields a caller of \<open>_Ending.end\<close> gives; None is a key it leaves out.\<close>

record ending =
  e_status :: string
  e_error :: "string option"
  e_code :: "int option"
  e_charge :: "string option"
  e_measurement :: "string option"

definition ending_at :: "string \<Rightarrow> string \<Rightarrow> ending" where
  "ending_at status err = \<lparr>e_status = status, e_error = Some err, e_code = None, e_charge = None,
     e_measurement = None\<rparr>"

record terminal =
  t_rid :: string
  t_lane :: string
  t_model :: string
  t_status :: string
  t_error :: "string option"
  t_code :: "int option"
  t_charge :: "string option"
  t_measurement :: string
  t_tokens :: tokens
  t_generation :: "string option"
  t_finish :: "string option"
  t_booked :: string
  t_class :: string

definition class_of :: "string \<Rightarrow> string \<Rightarrow> string" where
  "class_of measurement kind =
    (if measurement = ''not_sent'' then ''not_sent''
     else if measurement = ''rejected_before_generation'' then ''rejected'' else kind)"

definition account_charge :: "ending \<Rightarrow> info \<Rightarrow> string option" where
  "account_charge e i = (case e_charge e of Some s \<Rightarrow> Some s | None \<Rightarrow> map_option money (i_charge i))"

text \<open>The terminal row of a call and what the ledger books for it.\<close>

definition end_row :: "config \<Rightarrow> string \<Rightarrow> string \<Rightarrow> string \<Rightarrow> ending \<Rightarrow> info \<Rightarrow> (terminal \<times> decimal) option" where
  "end_row c rid lane model e i =
    (let t = (case i_tokens i of None \<Rightarrow> no_tokens | Some t \<Rightarrow> t);
         measurement = (case e_measurement e of Some m \<Rightarrow> m
             | None \<Rightarrow> if i_charge i \<noteq> None then ''provider_reported'' else ''unknown'')
     in case price c model (charge_of (jopt (account_charge e i))) t of
          None \<Rightarrow> None
        | Some (booked, kind) \<Rightarrow>
            Some (\<lparr>t_rid = rid, t_lane = lane, t_model = model, t_status = e_status e, t_error = e_error e,
                   t_code = e_code e, t_charge = account_charge e i, t_measurement = measurement,
                   t_tokens = t, t_generation = i_generation i, t_finish = i_finish i,
                   t_booked = money booked, t_class = class_of measurement kind\<rparr>, booked))"

datatype failure = Too_Large | Timed_Out | TLS | DNS | Connection | Other_Failure

definition category :: "failure \<Rightarrow> string" where
  "category f = (case f of Too_Large \<Rightarrow> ''too_large'' | Timed_Out \<Rightarrow> ''timeout'' | TLS \<Rightarrow> ''tls''
     | DNS \<Rightarrow> ''dns'' | Connection \<Rightarrow> ''connection'' | Other_Failure \<Rightarrow> ''relay_error'')"

definition http_ok :: "int \<Rightarrow> bool" where
  "http_ok status \<longleftrightarrow> 200 \<le> status \<and> status < 300"

definition outcome_of :: "int \<Rightarrow> bool \<Rightarrow> ending" where
  "outcome_of status error =
    (let ok = http_ok status \<and> \<not> error in
     \<lparr>e_status = (if ok then ''completed'' else ''failed''),
      e_error = (if ok then None
                 else Some (if \<not> http_ok status then ''http_'' @ show_int status else ''provider_error'')),
      e_code = Some status, e_charge = None, e_measurement = None\<rparr>)"

text \<open>\<open>_relay_whole\<close>: the document is None where the reply does not parse.\<close>

definition whole_end :: "int \<Rightarrow> json option \<Rightarrow> ending \<times> info" where
  "whole_end status doc =
    (let i = (case doc of None \<Rightarrow> no_info | Some v \<Rightarrow> bill v);
         e = outcome_of status (i_error i);
         e = (if status \<in> set REJECTED_STATUSES \<and> i_tokens i = None \<and> i_charge i = None
              then e\<lparr>e_charge := Some ''0'', e_measurement := Some ''rejected_before_generation''\<rparr> else e)
     in (e, i\<lparr>i_error := False\<rparr>))"

definition or_else :: "'a option \<Rightarrow> 'a option \<Rightarrow> 'a option" where
  "or_else new old = (case new of None \<Rightarrow> old | Some x \<Rightarrow> Some x)"

text \<open>\<open>_relay_stream\<close>: \<open>info.update(event)\<close> and the error flag, event by event.\<close>

definition merge_event :: "info \<Rightarrow> json option \<Rightarrow> info" where
  "merge_event i doc = (let b = (case doc of None \<Rightarrow> no_info | Some v \<Rightarrow> bill v) in
     \<lparr>i_generation = or_else (i_generation b) (i_generation i), i_finish = or_else (i_finish b) (i_finish i),
      i_error = (i_error i \<or> i_error b), i_tokens = or_else (i_tokens b) (i_tokens i),
      i_charge = or_else (i_charge b) (i_charge i)\<rparr>)"

definition stream_end :: "int \<Rightarrow> json option list \<Rightarrow> bool \<Rightarrow> ending \<times> info" where
  "stream_end status docs gone =
    (let i = foldl merge_event no_info docs in
     (if gone then (ending_at ''cancelled'' ''client_gone'')\<lparr>e_code := Some status\<rparr>
      else outcome_of status (i_error i), i\<lparr>i_error := False\<rparr>))"

datatype reply =
    Not_Sent string
  | Whole int "json option"
  | Streamed int "json option list" bool
  | Failed failure
  | Cut

definition ending_of :: "reply \<Rightarrow> ending \<times> info" where
  "ending_of r = (case r of
      Not_Sent cat \<Rightarrow> ((ending_at ''failed'' cat)\<lparr>e_charge := Some ''0'', e_measurement := Some ''not_sent''\<rparr>, no_info)
    | Whole status doc \<Rightarrow> whole_end status doc
    | Streamed status docs gone \<Rightarrow> stream_end status docs gone
    | Failed f \<Rightarrow> (ending_at ''failed'' (category f), no_info)
    | Cut \<Rightarrow> (ending_at ''cancelled'' ''stopping'', no_info))"

section \<open>Redaction\<close>

text \<open>\<open>data.replace(secret, marker)\<close>: the occurrences from the left, none overlapping.\<close>

function replace_all :: "'a list \<Rightarrow> 'a list \<Rightarrow> 'a list \<Rightarrow> 'a list" where
  "replace_all s m [] = []"
| "replace_all s m (c # t) =
    (if s \<noteq> [] \<and> starts_with s (c # t) then m @ replace_all s m (drop (length s) (c # t))
     else c # replace_all s m t)"
  by pat_completeness auto

termination
  by (relation "measure (length \<circ> snd \<circ> snd)") auto

definition redact :: "string list \<Rightarrow> string \<Rightarrow> string" where
  "redact ss data = foldl (\<lambda>d s. if s \<noteq> [] \<and> contains s d then replace_all s REDACTED d else d) data ss"

end
