(* ===== verification/RelayRuns.thy ===== *)
theory RelayRuns imports RelayCalls
begin

text \<open>
  The lane relay over a run: the calls in flight, the journals' rows and the ledger, as the
  steps \<open>_handle\<close>/\<open>_call\<close>, \<open>_Ending.end\<close>, \<open>_Ending.undelivered\<close> and the stop, interleaved in
  any order over any number of calls; and the properties of the relay's configuration,
  guards, books and redaction.

  The rows of all journals are one list in the order written, each with its lane. A call
  holds its slot from its admission to its release, so the calls in flight are \<open>y_open\<close>.
\<close>

section \<open>The relay's state and steps\<close>

datatype event = Started string string string | Ended terminal

record call =
  o_lane :: string
  o_model :: string
  o_row :: "terminal option"

record relay =
  y_ledger :: ledger
  y_rows :: "event list"
  y_refusals :: "refusal list"
  y_open :: "(string \<times> call) list"
  y_stopping :: bool

definition new_relay :: relay where
  "new_relay = \<lparr>y_ledger = new_ledger, y_rows = [], y_refusals = [], y_open = [], y_stopping = False\<rparr>"

definition refuse :: "refusal \<Rightarrow> relay \<Rightarrow> relay" where
  "refuse r Y = Y\<lparr>y_refusals := y_refusals Y @ [r]\<rparr>"

definition busy :: "string \<Rightarrow> string \<Rightarrow> refusal" where
  "busy lane model = \<lparr>f_status = 403, f_kind = lane @ ''_route_busy'', f_reason = lane @ ''_in_flight'',
     f_lane = Some lane, f_model = Some model\<rparr>"

definition over_cap :: "string \<Rightarrow> string \<Rightarrow> refusal" where
  "over_cap lane model = \<lparr>f_status = 403, f_kind = lane @ ''_budget_exhausted'',
     f_reason = lane @ ''_cap_reached'', f_lane = Some lane, f_model = Some model\<rparr>"

definition start_call :: "string \<Rightarrow> string \<Rightarrow> string \<Rightarrow> ledger \<Rightarrow> relay \<Rightarrow> relay" where
  "start_call rid lane model L Y =
     Y\<lparr>y_ledger := L, y_rows := y_rows Y @ [Started rid lane model],
       y_open := (rid, \<lparr>o_lane = lane, o_model = model, o_row = None\<rparr>) # y_open Y\<rparr>"

definition serve :: "loads \<Rightarrow> config \<Rightarrow> nat \<Rightarrow> string \<Rightarrow> request \<Rightarrow> relay \<Rightarrow> relay" where
  "serve loads c port rid q Y = (case handle loads c port (y_stopping Y) q of
      Refuse r \<Rightarrow> refuse r Y
    | Gone \<Rightarrow> Y
    | Raised \<Rightarrow> Y
    | Forward lane model d \<Rightarrow>
        if MAX_IN_FLIGHT \<le> length (y_open Y) then refuse (busy lane model) Y
        else (case admit c rid model (y_ledger Y) of
            None \<Rightarrow> Y
          | Some (False, L) \<Rightarrow> refuse (over_cap lane model) Y
          | Some (True, L) \<Rightarrow> start_call rid lane model L Y))"

definition put_open :: "string \<Rightarrow> call \<Rightarrow> relay \<Rightarrow> relay" where
  "put_open rid k Y = Y\<lparr>y_open := dict_put rid k (y_open Y)\<rparr>"

definition end_call :: "config \<Rightarrow> string \<Rightarrow> ending \<times> info \<Rightarrow> relay \<Rightarrow> relay" where
  "end_call c rid ei Y = (case map_of (y_open Y) rid of
      None \<Rightarrow> Y
    | Some k \<Rightarrow>
        if o_row k \<noteq> None then Y
        else (case end_row c rid (o_lane k) (o_model k) (fst ei) (snd ei) of
            None \<Rightarrow> Y
          | Some (t, amount) \<Rightarrow>
              put_open rid (k\<lparr>o_row := Some t\<rparr>)
                (Y\<lparr>y_rows := y_rows Y @ [Ended t],
                   y_ledger := settle rid amount (t_class t) (y_ledger Y)\<rparr>)))"

definition undelivered :: "string \<Rightarrow> relay \<Rightarrow> relay" where
  "undelivered rid Y = (case map_of (y_open Y) rid of
      None \<Rightarrow> Y
    | Some k \<Rightarrow> (case o_row k of
        None \<Rightarrow> Y
      | Some t \<Rightarrow> Y\<lparr>y_rows := y_rows Y @
          [Ended (t\<lparr>t_status := ''cancelled'', t_error := Some ''client_gone''\<rparr>)]\<rparr>))"

text \<open>\<open>_call\<close>'s \<open>finally\<close>, and the slot's release.\<close>

definition release :: "config \<Rightarrow> string \<Rightarrow> relay \<Rightarrow> relay" where
  "release c rid Y = (let Z = end_call c rid (ending_at ''error'' ''relay_error'', no_info) Y in
     Z\<lparr>y_open := AList.delete rid (y_open Z)\<rparr>)"

definition stop :: "relay \<Rightarrow> relay" where
  "stop Y = Y\<lparr>y_stopping := True\<rparr>"

text \<open>A call's id is new (\<open>uuid4\<close>).\<close>

inductive relay_step :: "loads \<Rightarrow> config \<Rightarrow> nat \<Rightarrow> relay \<Rightarrow> relay \<Rightarrow> bool" for loads c port where
  step_serve: "rid \<notin> set (keys_of (l_booked (y_ledger Y))) \<Longrightarrow>
     relay_step loads c port Y (serve loads c port rid q Y)"
| step_end: "relay_step loads c port Y (end_call c rid (ending_of r) Y)"
| step_undelivered: "relay_step loads c port Y (undelivered rid Y)"
| step_release: "relay_step loads c port Y (release c rid Y)"
| step_stop: "relay_step loads c port Y (stop Y)"

inductive relay_run :: "loads \<Rightarrow> config \<Rightarrow> nat \<Rightarrow> relay \<Rightarrow> bool" for loads c port where
  run_new: "relay_run loads c port new_relay"
| run_step: "relay_run loads c port Y \<Longrightarrow> relay_step loads c port Y Z \<Longrightarrow> relay_run loads c port Z"

section \<open>What a checked configuration holds\<close>

definition nonneg :: "decimal \<Rightarrow> bool" where
  "nonneg d \<longleftrightarrow> (case d of Dec c e \<Rightarrow> 0 \<le> c)"

definition config_ok :: "config \<Rightarrow> bool" where
  "config_ok c \<longleftrightarrow>
     0 < dec_val (c_cap c) \<and>
     (\<forall>d\<in>snd ` set (c_worst c). nonneg d \<and> 0 < dec_val d) \<and>
     (\<forall>table\<in>snd ` set (c_prices c). \<forall>d\<in>snd ` set table. nonneg d) \<and>
     distinct (map snd (c_tokens c)) \<and> utf8 (c_key c) \<notin> set (map snd (c_tokens c)) \<and>
     (\<forall>t\<in>set (map snd (c_tokens c)). token_form t) \<and> key_form (c_key c) \<and>
     keys_of (c_models c) = keys_of (c_tokens c) \<and> set (keys_of (c_tokens c)) \<subseteq> set LANES \<and>
     (\<forall>ms\<in>snd ` set (c_models c). \<forall>m\<in>set ms. map_of (c_worst c) m \<noteq> None)"

lemma nonneg_val: "nonneg d \<longleftrightarrow> 0 \<le> dec_val d"
proof (cases d)
  case (Dec c e)
  have "0 \<le> dec_val d \<longleftrightarrow> 0 * 10 powi e \<le> (of_int c * 10 powi e :: rat)" by (simp add: Dec dec_val_Dec)
  also have "\<dots> \<longleftrightarrow> 0 \<le> (of_int c :: rat)" by (rule mult_le_cancel_right_pos) (rule powi_pos)
  finally show ?thesis by (simp add: Dec nonneg_def)
qed

lemma dec_unsigned_nonneg: "dec_unsigned s = Some d \<Longrightarrow> nonneg d"
  by (auto simp: dec_unsigned_def nonneg_def Let_def split: if_splits option.splits)

lemma plain_decimal_chars:
  assumes "plain_decimal s" shows "list_all (\<lambda>c. is_digit c \<or> c = CHR ''.'') s" "s \<noteq> []"
proof -
  have "list_all (\<lambda>c. is_digit c \<or> c = CHR ''.'') (takeWhile is_digit s @ dropWhile is_digit s)"
    unfolding list_all_append
    using assms by (auto simp: plain_decimal_def Let_def list_all_iff simp del: takeWhile_eq_Nil_iff dest: set_takeWhileD set_dropWhileD split: list.splits)
  then show "list_all (\<lambda>c. is_digit c \<or> c = CHR ''.'') s" by simp
  show "s \<noteq> []" using assms by (auto simp: plain_decimal_def)
qed

lemma plain_nonneg: "plain_decimal s \<Longrightarrow> dec_of_text s = Some d \<Longrightarrow> nonneg d"
  using dec_of_text_digits [OF plain_decimal_chars] dec_unsigned_nonneg by metis

lemma plain_ok: "plain pos what v = Inr d \<Longrightarrow> nonneg d \<and> (pos \<longrightarrow> 0 < dec_val d)"
  by (cases v) (auto split: if_splits option.splits simp: dec_le_val dest: plain_nonneg)

lemma check_worst_ok:
  assumes "check_worst v = Inr ws" "d \<in> snd ` set ws" shows "nonneg d \<and> 0 < dec_val d"
proof -
  obtain ps where "map_r check_worst_entry ps = Inr ws"
    using assms(1) by (auto simp: check_worst_def simp del: map_r.simps split: json.splits list.splits)
  with assms(2) obtain p m where "check_worst_entry p = Inr (m, d)" by (force dest: map_r_set)
  then show ?thesis by (auto simp: check_worst_entry_def split: prod.splits if_splits dest!: plain_ok)
qed

lemma check_price_entry_ok:
  assumes "check_price_entry p = Inr (m, table)" "d \<in> snd ` set table" shows "nonneg d"
proof -
  obtain raw where "map_r (\<lambda>(k, x). bind_r (plain False ''a price'' x) (\<lambda>d. Inr (k, d))) raw = Inr table"
    using assms(1) by (auto simp: check_price_entry_def split: json.splits prod.splits if_splits)
  with assms(2) obtain k x where "plain False ''a price'' x = Inr d" by (force dest: map_r_set)
  then show ?thesis by (auto dest: plain_ok)
qed

lemma check_prices_ok:
  assumes "check_prices v = Inr ps" "table \<in> snd ` set ps" "d \<in> snd ` set table" shows "nonneg d"
proof -
  have "ps = [] \<or> (\<exists>raw. map_r check_price_entry raw = Inr ps)"
    using assms(1) by (auto simp: check_prices_def split: json.splits if_splits)
  with assms(2) obtain raw p m where "check_price_entry p = Inr (m, table)"
    by (force dest: map_r_set)
  then show ?thesis using assms(3) by (rule check_price_entry_ok)
qed

lemma check_lane_ok:
  assumes "check_lane worst p = Inr (l, t, ms)"
  shows "l = fst p \<and> token_form t \<and> (\<forall>m\<in>set ms. map_of worst m \<noteq> None)"
proof -
  obtain spec where t: "fst p = l" "token_form t"
    and ms: "check_lane_models worst (jget spec ''models'') = Inr ms"
    using assms by (auto simp: check_lane_def split: json.splits prod.splits if_splits)
  obtain raw where "map_r (check_lane_model worst) raw = Inr ms"
    using ms by (auto simp: check_lane_models_def split: json.splits if_splits)
  then have "\<forall>m\<in>set ms. map_of worst m \<noteq> None"
    by (rule map_r_all) (auto simp: check_lane_model_def split: json.splits if_splits)
  with t show ?thesis by simp
qed

lemma check_lanes_ok:
  assumes "check_lanes worst v = Inr lanes"
  shows "set (map fst lanes) \<subseteq> set LANES"
    and "\<And>l t ms. (l, t, ms) \<in> set lanes \<Longrightarrow> token_form t \<and> (\<forall>m\<in>set ms. map_of worst m \<noteq> None)"
proof -
  obtain ps where ps: "map_r (check_lane worst) ps = Inr lanes" "set (keys_of ps) \<subseteq> set LANES"
    using assms by (auto simp: check_lanes_def simp del: set_map map_r.simps split: json.splits list.splits if_splits)
  have src: "\<exists>p\<in>set ps. check_lane worst p = Inr x" if "x \<in> set lanes" for x
    using map_r_set [OF ps(1) that] by blast
  show "set (map fst lanes) \<subseteq> set LANES"
  proof
    fix l assume "l \<in> set (map fst lanes)"
    then obtain t ms where "(l, t, ms) \<in> set lanes" by auto
    then obtain p where "p \<in> set ps" "l = fst p" using src check_lane_ok by blast
    then show "l \<in> set LANES" using ps(2) by auto
  qed
  show "token_form t \<and> (\<forall>m\<in>set ms. map_of worst m \<noteq> None)" if "(l, t, ms) \<in> set lanes" for l t ms
    using src [OF that] check_lane_ok by blast
qed

lemma config_of_ok:
  assumes "config_of M doc = Inr c"
  shows "config_ok c"
proof -
  from assms obtain key up ca folder cap worst prices lanes where
    k: "check_key (jget doc ''key'') = Inr key" and
    cap: "plain True ''the spend cap'' (jget doc ''cap_usd'') = Inr cap" and
    w: "check_worst (jget doc ''worst_case_usd'') = Inr worst" and
    p: "check_prices (jget doc ''prices'') = Inr prices" and
    l: "check_lanes worst (jget doc ''lanes'') = Inr lanes" and
    d: "check_distinct key lanes = Inr ()" and
    c: "c = \<lparr>c_key = key, c_upstream = up, c_cafile = ca, c_journal_dir = folder, c_cap = cap,
           c_worst = worst, c_prices = prices,
           c_tokens = map (\<lambda>(l, t, _). (l, t)) lanes,
           c_models = map (\<lambda>(l, _, ms). (l, ms)) lanes\<rparr>"
    by (auto simp: config_of_def)
  have toks: "map snd (map (\<lambda>(l, t, _). (l, t)) lanes) = map (\<lambda>(_, t, _). t) lanes"
    by (simp add: comp_def case_prod_unfold)
  have lanes': "map fst (map (\<lambda>(l, t, _). (l, t)) lanes) = map fst lanes"
    "map fst (map (\<lambda>(l, _, ms). (l, ms)) lanes) = map fst lanes"
    by (simp_all add: comp_def case_prod_unfold)
  have "key_form key" using k by (auto simp: check_key_def split: json.splits if_splits)
  moreover have "distinct (map (\<lambda>(_, t, _). t) lanes)" "utf8 key \<notin> set (map (\<lambda>(_, t, _). t) lanes)"
    using d by (simp_all add: check_distinct_def Let_def del: set_map)
  moreover have "\<forall>t\<in>set (map (\<lambda>(_, t, _). t) lanes). token_form t"
    using check_lanes_ok(2) [OF l] by auto
  moreover have "\<forall>ms\<in>snd ` set (map (\<lambda>(l, _, ms). (l, ms)) lanes). \<forall>m\<in>set ms. map_of worst m \<noteq> None"
    using check_lanes_ok(2) [OF l] by force
  moreover have "0 < dec_val cap" using plain_ok [OF cap] by simp
  moreover have "\<forall>d\<in>snd ` set worst. nonneg d \<and> 0 < dec_val d" using check_worst_ok [OF w] by blast
  moreover have "\<forall>table\<in>snd ` set prices. \<forall>d\<in>snd ` set table. nonneg d"
    using check_prices_ok [OF p] by blast
  ultimately show ?thesis using check_lanes_ok(1) [OF l]
    unfolding config_ok_def c config.simps toks lanes' by simp
qed

text \<open>C34. A configuration the relay accepts has a positive cap, a positive worst case for every
  model of every lane, prices that are not negative, well-formed lane tokens that differ from
  one another and from the provider key, and serves only the lanes the relay knows. So a call
  the guards let through is always priced, and a token opens one lane.\<close>

theorem accepted_config_ok:
  assumes "config_of M doc = Inr c"
  shows "config_ok c"
  by (rule config_of_ok [OF assms])

section \<open>The guards\<close>

lemma with_model_Body:
  "with_model loaded k = Body d m \<Longrightarrow> \<exists>d' m'. loaded = Inr (JObj d') \<and> jget d' ''model'' = JStr m' \<and> k d' m' = Body d m"
  by (auto simp: with_model_def split: sum.splits load_error.splits json.splits)

lemma check_body_Body:
  assumes "check_body loads allowed body = Body d m"
  shows "loads body = Inr (JObj d) \<and> jget d ''model'' = JStr m \<and> m \<in> set allowed \<and>
    \<not> has_key d ''models'' \<and> \<not> has_key d ''plugins'' \<and> \<not> has_key d ''web_search_options'' \<and>
    \<not> has_key d ''best_of'' \<and> one_completion (jget_or d ''n'' (JInt 1))"
  using assms unfolding check_body_def
  by (auto dest!: with_model_Body split: if_splits simp: several_def)

lemma check_embed_body_Body:
  assumes "check_embed_body loads allowed body = Body d m"
  shows "loads body = Inr (JObj d) \<and> jget d ''model'' = JStr m \<and> m \<in> set allowed \<and>
    embed_fields d"
  using assms unfolding check_embed_body_def
  by (auto dest!: with_model_Body split: if_splits option.splits)

lemma authorized_None:
  "authorized c lane token auths = None \<longleftrightarrow> (\<exists>a. auths = [a] \<and> strip a = bearer token)"
  by (auto simp: authorized_def Let_def split: list.splits if_splits)

lemma handle_Forward:
  assumes "handle loads c port stopping q = Forward lane model d"
  shows "route (q_path q) = Some lane \<and> q_method q = ''POST'' \<and> \<not> stopping \<and>
    (\<exists>token. map_of (c_tokens c) lane = Some token \<and> authorized c lane token (q_auths q) = None) \<and>
    read_body loads c lane q = Forward lane model d"
  using assms unfolding handle_def
  by (auto simp: Let_def read_body_def split: if_splits option.splits sum.splits body_verdict.splits)

lemma read_body_Forward:
  assumes "read_body loads c lane q = Forward l model d"
  shows "l = lane \<and> q_te q = [] \<and> (\<exists>n. content_length (q_lengths q) = Some (Inr n) \<and>
    n \<le> MAX_REQUEST_BYTES \<and> n \<le> length (q_input q) \<and>
    (if lane = ''embed'' then check_embed_body else check_body) loads (dict_get (c_models c) lane [])
      (take n (q_input q)) = Body d model)"
  using assms unfolding read_body_def
  by (auto simp: Let_def split: if_splits option.splits sum.splits body_verdict.splits)


text \<open>A Content-Length of a superscript digit passes \<open>isdigit\<close> and is then refused by
  \<open>int\<close> with a ValueError, which \<open>handle\<close> does not catch: the request ends without the refusal
  411 the guard means to send, and without a row in the refusals journal.\<close>

theorem superscript_length_escapes:
  "q_te q = [] \<Longrightarrow> q_lengths q = [[char_of (178 :: nat)]] \<Longrightarrow> read_body loads c lane q = Raised"
proof -
  have "content_length [[char_of (178 :: nat)]] = None" by code_simp
  then show "q_te q = [] \<Longrightarrow> q_lengths q = [[char_of (178 :: nat)]] \<Longrightarrow> ?thesis"
    by (simp add: read_body_def)
qed

section \<open>The books and the journals\<close>

text \<open>What a reader of the journals takes each call to have booked: its model's worst case from
  its first row, then what its last row says.\<close>

definition row_value :: "terminal \<Rightarrow> rat" where
  "row_value t = (case dec_of_text (t_booked t) of None \<Rightarrow> 0 | Some d \<Rightarrow> dec_val d)"

definition worst_value :: "config \<Rightarrow> string \<Rightarrow> rat" where
  "worst_value c model = (case map_of (c_worst c) model of None \<Rightarrow> 0 | Some w \<Rightarrow> dec_val w)"

fun read_row :: "config \<Rightarrow> (string \<times> rat) list \<Rightarrow> event \<Rightarrow> (string \<times> rat) list" where
  "read_row c b (Started rid lane model) = dict_put rid (worst_value c model) b"
| "read_row c b (Ended t) = dict_put (t_rid t) (row_value t) b"

definition books :: "config \<Rightarrow> event list \<Rightarrow> (string \<times> rat) list" where
  "books c rows = foldl (read_row c) [] rows"

definition ledger_books :: "ledger \<Rightarrow> (string \<times> rat) list" where
  "ledger_books L = map (map_prod id dec_val) (l_booked L)"

interpretation relay_books: event_log "read_row c" "[]" "\<lambda>b. distinct (keys_of b)" for c
proof
  show "distinct (keys_of (read_row c b e))" if "distinct (keys_of b)" for b e
    using that by (cases e) simp_all
qed simp

lemma books_snoc [simp]: "books c (rows @ [e]) = read_row c (books c rows) e"
  by (simp add: books_def)

lemma distinct_books: "distinct (keys_of (books c rows))"
  unfolding books_def by (rule relay_books.inv_log)

lemma map_dict_put: "map (map_prod id f) (dict_put k v d) = dict_put k (f v) (map (map_prod id f) d)"
  by (induction d) auto

lemma ledger_books_book [simp]: "ledger_books (book rid amount L) = dict_put rid (dec_val amount) (ledger_books L)"
  by (simp add: ledger_books_def book_def map_dict_put)

lemma ledger_books_settle [simp]:
  "ledger_books (settle rid amount kind L) = dict_put rid (dec_val amount) (ledger_books L)"
  by (simp add: settle_def ledger_books_def book_def map_dict_put)

lemma keys_ledger_books: "fst ` set (ledger_books L) = fst ` set (l_booked L)"
  by (force simp: ledger_books_def)

lemma nonneg_Dec [simp]: "nonneg (Dec c e) \<longleftrightarrow> 0 \<le> c"
  by (simp add: nonneg_def)

lemma dec_round_nonneg: "nonneg d \<Longrightarrow> nonneg (dec_round d)"
  by (cases d) (auto simp: dec_round_def nonneg_def Let_def sgn_if)

lemma dec_add_nonneg: "nonneg a \<Longrightarrow> nonneg b \<Longrightarrow> nonneg (dec_add a b)"
  by (cases a; cases b) (simp add: Let_def dec_round_nonneg)

lemma dec_times_nonneg: "nonneg a \<Longrightarrow> 0 \<le> n \<Longrightarrow> nonneg (dec_times a n)"
  by (cases a) (simp add: dec_round_nonneg)

lemma drop_zeros_nonneg: "0 \<le> c \<Longrightarrow> nonneg (drop_zeros k c e)"
  by (induction k arbitrary: c e) simp_all

lemma dec_millionth_nonneg: "nonneg a \<Longrightarrow> nonneg (dec_millionth a)"
  by (cases a) (simp add: drop_zeros_nonneg del: drop_zeros.simps)

lemma or_0_nonneg: "0 \<le> or_0 n"
  by (simp add: or_0_def split: option.split)

lemma estimate_usd_nonneg:
  assumes "nonneg pin" "nonneg pout" "\<And>p. pw = Some p \<Longrightarrow> nonneg p"
  shows "nonneg (estimate_usd pin pout pw t)"
  using assms unfolding estimate_usd_def
  by (cases pw) (auto simp: Let_def or_0_nonneg intro!: dec_millionth_nonneg dec_add_nonneg dec_times_nonneg)

lemma estimate_nonneg:
  assumes "config_ok c" "estimate c model t = Some d" shows "nonneg d"
proof -
  have p: "nonneg x" if "map_of (dict_get (c_prices c) model []) k = Some x" for k x
  proof -
    from that obtain table where "map_of (c_prices c) model = Some table" "map_of table k = Some x"
      by (auto simp: dict_get_def split: option.splits)
    then have "table \<in> snd ` set (c_prices c)" "x \<in> snd ` set table"
      by (force dest: map_of_SomeD)+
    then show ?thesis using assms(1) by (auto simp: config_ok_def)
  qed
  obtain pin pout where pp: "map_of (dict_get (c_prices c) model []) ''input'' = Some pin"
    "map_of (dict_get (c_prices c) model []) ''output'' = Some pout"
    and d: "d = estimate_usd pin pout (map_of (dict_get (c_prices c) model []) ''cache_write'') t"
    using assms(2) by (auto simp: estimate_def Let_def split: if_splits option.splits)
  have "nonneg pin" "nonneg pout" using p pp by blast+
  then show ?thesis unfolding d by (intro estimate_usd_nonneg) (auto dest: p)
qed

lemma charge_of_nonneg: "charge_of v = Some d \<Longrightarrow> nonneg d"
  by (auto simp: charge_of_def nonneg_val dec_le_val Let_def split: option.splits if_splits)

lemma worst_nonneg: "config_ok c \<Longrightarrow> map_of (c_worst c) m = Some w \<Longrightarrow> nonneg w"
  by (force simp: config_ok_def dest: map_of_SomeD)

lemma end_row_Some:
  assumes "config_ok c" "end_row c rid lane model e i = Some (t, amount)"
  shows "t_rid t = rid \<and> t_model t = model \<and> nonneg amount \<and> row_value t = dec_val amount"
proof -
  obtain kind where "price c model (charge_of (jopt (account_charge e i)))
      (case i_tokens i of None \<Rightarrow> no_tokens | Some t \<Rightarrow> t) = Some (amount, kind)"
    and t: "t_rid t = rid" "t_model t = model" "t_booked t = money amount"
    using assms(2) by (auto simp: end_row_def Let_def split: option.splits)
  then have n: "nonneg amount"
    using charge_of_nonneg estimate_nonneg [OF assms(1)] worst_nonneg [OF assms(1)]
    by (auto simp: price_def split: option.splits)
  obtain x e where a: "amount = Dec x e" by (cases amount)
  with n have "0 \<le> x" by (simp add: nonneg_def)
  from money_reads_back [OF this] obtain d where "dec_of_text (money amount) = Some d"
    "dec_val d = dec_val amount" using a by blast
  with n t show ?thesis by (simp add: row_value_def)
qed

lemma end_row_total:
  "map_of (c_worst c) model \<noteq> None \<Longrightarrow> end_row c rid lane model e i \<noteq> None"
  by (auto simp: end_row_def Let_def price_def split: option.splits)


definition call_ok :: "config \<Rightarrow> (string \<times> rat) list \<Rightarrow> string \<times> call \<Rightarrow> bool" where
  "call_ok c b p \<longleftrightarrow> fst p \<in> fst ` set b \<and> map_of (c_worst c) (o_model (snd p)) \<noteq> None \<and>
     (case o_row (snd p) of
        None \<Rightarrow> map_of b (fst p) = Some (worst_value c (o_model (snd p)))
      | Some t \<Rightarrow> t_rid t = fst p \<and> map_of b (fst p) = Some (row_value t))"

definition relay_inv :: "config \<Rightarrow> relay \<Rightarrow> bool" where
  "relay_inv c Y \<longleftrightarrow>
     ledger_books (y_ledger Y) = books c (y_rows Y) \<and>
     (\<forall>d\<in>snd ` set (l_booked (y_ledger Y)). nonneg d) \<and>
     distinct (keys_of (y_open Y)) \<and> length (y_open Y) \<le> MAX_IN_FLIGHT \<and>
     (\<forall>p\<in>set (y_open Y). call_ok c (books c (y_rows Y)) p)"

lemma inv_new: "relay_inv c new_relay"
  by (simp add: relay_inv_def new_relay_def new_ledger_def ledger_books_def books_def)

lemma snd_dict_put: "snd ` set (dict_put k v d) \<subseteq> insert v (snd ` set d)"
  by (induction d) auto

lemma nonneg_dict_put: "\<forall>d\<in>snd ` set b. nonneg d \<Longrightarrow> nonneg w \<Longrightarrow> \<forall>d\<in>snd ` set (dict_put k w b). nonneg d"
  by (induction b) auto

lemma call_ok_put: "call_ok c b p \<Longrightarrow> fst p \<noteq> k \<Longrightarrow> call_ok c (dict_put k v b) p"
  by (simp add: call_ok_def split: option.splits)

lemma inv_refuse [simp]: "relay_inv c (refuse r Y) = relay_inv c Y"
  by (simp add: relay_inv_def refuse_def)

lemma inv_stop [simp]: "relay_inv c (stop Y) = relay_inv c Y"
  by (simp add: relay_inv_def stop_def)

lemma admit_True:
  "admit c rid model L = Some (True, L') \<longleftrightarrow>
   (\<exists>w. map_of (c_worst c) model = Some w \<and> dec_le (dec_add (l_total L) w) (c_cap c) \<and> L' = book rid w L)"
  by (auto simp: admit_def split: option.splits)

lemma inv_start_call:
  assumes "config_ok c" "relay_inv c Y" "rid \<notin> set (keys_of (l_booked (y_ledger Y)))"
    "length (y_open Y) < MAX_IN_FLIGHT" "admit c rid model (y_ledger Y) = Some (True, L)"
  shows "relay_inv c (start_call rid lane model L Y)"
proof -
  obtain w where w: "map_of (c_worst c) model = Some w" and L: "L = book rid w (y_ledger Y)"
    using assms(5) by (auto simp: admit_True)
  have new: "rid \<notin> fst ` set (books c (y_rows Y))"
    using assms(2,3) keys_ledger_books [of "y_ledger Y"] by (simp add: relay_inv_def)
  have other: "fst p \<noteq> rid" if "p \<in> set (y_open Y)" for p
    using that new assms(2) by (auto simp: relay_inv_def call_ok_def)
  have "\<forall>d\<in>snd ` set (l_booked L). nonneg d"
    using nonneg_dict_put [of "l_booked (y_ledger Y)" w rid] worst_nonneg [OF assms(1) w] assms(2)
    unfolding L book_def relay_inv_def by simp
  moreover have "call_ok c (dict_put rid (worst_value c model) (books c (y_rows Y))) p"
    if "p \<in> set (y_open Y)" for p
    using that other assms(2) by (intro call_ok_put) (auto simp: relay_inv_def)
  moreover have "rid \<notin> fst ` set (y_open Y)" using other by auto
  ultimately show ?thesis using assms(2,4) w
    by (auto simp: relay_inv_def start_call_def L worst_value_def call_ok_def)
qed

lemma inv_serve:
  assumes "config_ok c" "relay_inv c Y" "rid \<notin> set (keys_of (l_booked (y_ledger Y)))"
  shows "relay_inv c (serve loads c port rid q Y)"
  using assms inv_start_call [OF assms]
  by (auto simp: serve_def not_le split: verdict.split option.split bool.split)

lemma end_call_cases:
  obtains (same) "end_call c rid ei Y = Y"
  | (ends) k t amount where "map_of (y_open Y) rid = Some k" "o_row k = None"
      "end_row c rid (o_lane k) (o_model k) (fst ei) (snd ei) = Some (t, amount)"
      "end_call c rid ei Y = put_open rid (k\<lparr>o_row := Some t\<rparr>)
         (Y\<lparr>y_rows := y_rows Y @ [Ended t], y_ledger := settle rid amount (t_class t) (y_ledger Y)\<rparr>)"
proof (cases "end_call c rid ei Y = Y")
  case False
  then obtain k where k: "map_of (y_open Y) rid = Some k" "o_row k = None"
    by (auto simp: end_call_def split: option.splits if_splits)
  with False obtain t amount where
    "end_row c rid (o_lane k) (o_model k) (fst ei) (snd ei) = Some (t, amount)"
    by (auto simp: end_call_def split: option.splits)
  with k show ?thesis using that(2) by (simp add: end_call_def)
qed (rule that(1))

lemma dict_put_length: "k \<in> fst ` set d \<Longrightarrow> length (dict_put k v d) = length d"
  by (induction d) auto

lemma inv_end_call:
  assumes "config_ok c" "relay_inv c Y" shows "relay_inv c (end_call c rid ei Y)"
proof (cases rule: end_call_cases [of c rid ei Y])
  case (ends k t amount)
  note t = end_row_Some [OF assms(1) ends(3)]
  have mem: "(rid, k) \<in> set (y_open Y)" using ends(1) by (rule map_of_SomeD)
  then have k: "call_ok c (books c (y_rows Y)) (rid, k)" using assms(2) by (auto simp: relay_inv_def)
  have dist: "distinct (keys_of (y_open Y))" using assms(2) by (simp add: relay_inv_def)
  have nn: "\<forall>d\<in>snd ` set (l_booked (settle rid amount (t_class t) (y_ledger Y))). nonneg d"
    using nonneg_dict_put [of "l_booked (y_ledger Y)" amount rid] assms(2) t
    unfolding settle_def book_def relay_inv_def by simp
  have len: "length (dict_put rid (k\<lparr>o_row := Some t\<rparr>) (y_open Y)) = length (y_open Y)"
    using mem by (intro dict_put_length) force
  have "call_ok c (dict_put rid (row_value t) (books c (y_rows Y))) p"
    if "p \<in> set (dict_put rid (k\<lparr>o_row := Some t\<rparr>) (y_open Y))" for p
  proof (cases "fst p = rid")
    case True
    then have "p = (rid, k\<lparr>o_row := Some t\<rparr>)" using that by (auto simp: set_dict_put [OF dist])
    then show ?thesis using k t by (simp add: call_ok_def)
  next
    case False
    then have "p \<in> set (y_open Y)" using that by (auto simp: set_dict_put [OF dist])
    then show ?thesis using assms(2) False by (intro call_ok_put) (auto simp: relay_inv_def)
  qed
  then show ?thesis using assms(2) t nn len dist unfolding ends(4)
    by (simp add: relay_inv_def put_open_def)
qed (use assms in simp)

lemma row_value_cancelled [simp]: "row_value (t\<lparr>t_status := s, t_error := e\<rparr>) = row_value t"
  by (simp add: row_value_def)

lemma inv_undelivered:
  assumes "relay_inv c Y" shows "relay_inv c (undelivered rid Y)"
proof (cases "undelivered rid Y = Y")
  case False
  then obtain k t where k: "map_of (y_open Y) rid = Some k" "o_row k = Some t"
    and u: "undelivered rid Y = Y\<lparr>y_rows := y_rows Y @
        [Ended (t\<lparr>t_status := ''cancelled'', t_error := Some ''client_gone''\<rparr>)]\<rparr>"
    by (auto simp: undelivered_def split: option.splits)
  have "(rid, k) \<in> set (y_open Y)" using k(1) by (rule map_of_SomeD)
  then have "call_ok c (books c (y_rows Y)) (rid, k)" using assms by (auto simp: relay_inv_def)
  then have "t_rid t = rid" "map_of (books c (y_rows Y)) rid = Some (row_value t)"
    using k(2) by (auto simp: call_ok_def)
  then have "books c (y_rows (undelivered rid Y)) = books c (y_rows Y)" by (simp add: u)
  then show ?thesis using assms by (simp add: relay_inv_def u)
qed (use assms in simp)

lemma delete_set_subset: "set (AList.delete k d) \<subseteq> set d"
  by (induction d) auto

lemma inv_release:
  assumes "config_ok c" "relay_inv c Y" shows "relay_inv c (release c rid Y)"
proof -
  let ?Z = "end_call c rid (ending_at ''error'' ''relay_error'', no_info) Y"
  have z: "relay_inv c ?Z" using assms by (rule inv_end_call)
  have "set (AList.delete rid (y_open ?Z)) \<subseteq> set (y_open ?Z)" by (rule delete_set_subset)
  moreover have "length (AList.delete rid (y_open ?Z)) \<le> length (y_open ?Z)"
    by (rule length_delete_le)
  moreover have "distinct (keys_of (AList.delete rid (y_open ?Z)))"
    using z by (intro distinct_delete) (simp add: relay_inv_def)
  ultimately show ?thesis using z
    by (auto simp: relay_inv_def release_def Let_def simp del: set_map)
qed

lemma inv_step:
  assumes "relay_step loads c port Y Z" "config_ok c" "relay_inv c Y" shows "relay_inv c Z"
  using assms by cases (simp_all add: inv_serve inv_end_call inv_undelivered inv_release)

lemma run_inv:
  assumes "relay_run loads c port Y" "config_ok c" shows "relay_inv c Y"
  using assms(1) by induction (auto intro: inv_new inv_step [OF _ assms(2)])



section \<open>The cap\<close>

lemma sum_dict_put:
  "sum_list (map snd (dict_put k (v::rat) d)) = sum_list (map snd d) - dict_get d k 0 + v"
  by (induction d) (auto simp: dict_get_def split: option.splits)

lemma dict_get_bounds:
  assumes "\<forall>x\<in>snd ` set d. (0::rat) \<le> x"
  shows "0 \<le> dict_get d k 0 \<and> dict_get d k 0 \<le> sum_list (map snd d)"
proof -
  have "0 \<le> sum_list (map snd d)" if "\<forall>x\<in>snd ` set d. (0::rat) \<le> x" for d :: "('a \<times> rat) list"
    using that by (intro sum_list_nonneg) auto
  then show ?thesis using assms
    by (induction d) (auto simp: dict_get_def split: option.splits intro: order_trans add_increasing)
qed

lemma dict_get_grid: "\<forall>x\<in>snd ` set d. on_grid u x \<Longrightarrow> on_grid u (dict_get d k 0)"
  by (force simp: dict_get_def split: option.splits dest: map_of_SomeD)

lemma dict_get_map: "dict_get (map (map_prod id f) d) k (f v) = f (dict_get d k v)"
  by (induction d) (auto simp: dict_get_def split: option.splits)

lemma in_range_mono: "in_range u b \<Longrightarrow> \<bar>x\<bar> \<le> b \<Longrightarrow> in_range u x"
  by (auto simp: in_range_def)

text \<open>The books are exact, and within a bound.\<close>

definition exact_books :: "int \<Rightarrow> rat \<Rightarrow> ledger \<Rightarrow> bool" where
  "exact_books u cap L \<longleftrightarrow>
     (\<forall>x\<in>snd ` set (ledger_books L). 0 \<le> x \<and> on_grid u x) \<and>
     dec_val (l_total L) = sum_list (map snd (ledger_books L)) \<and> dec_val (l_total L) \<le> cap"

lemma ledger_books_nonneg:
  "\<forall>d\<in>snd ` set (l_booked L). nonneg d \<Longrightarrow> \<forall>x\<in>snd ` set (ledger_books L). 0 \<le> x"
  by (auto simp: ledger_books_def nonneg_val)

lemma sum_list_snd_dict_put_values:
  "\<forall>x\<in>snd ` set d. P x \<Longrightarrow> P v \<Longrightarrow> \<forall>x\<in>snd ` set (dict_put k v d). P x"
  by (induction d) auto

lemma exact_book:
  assumes L: "exact_books u cap L" and r: "in_range u cap"
    and a: "0 \<le> dec_val amount" "on_grid u (dec_val amount)"
    and le: "dec_val (l_total L) - dict_get (ledger_books L) rid 0 + dec_val amount \<le> cap"
  shows "exact_books u cap (book rid amount L)"
proof -
  let ?S = "sum_list (map snd (ledger_books L))" and ?old = "dict_get (ledger_books L) rid 0"
  have S: "dec_val (l_total L) = ?S" "?S \<le> cap" using L by (simp_all add: exact_books_def)
  have old: "0 \<le> ?old" "?old \<le> ?S" "on_grid u ?old"
    using dict_get_bounds [of "ledger_books L" rid] dict_get_grid [of "ledger_books L" u rid] L
    by (auto simp: exact_books_def)
  have gS: "on_grid u ?S" using L by (intro on_grid_sum_list) (auto simp: exact_books_def)
  have oldv: "dec_val (dict_get (l_booked L) rid dec_zero) = ?old"
    unfolding ledger_books_def using dict_get_map [of dec_val "l_booked L" rid dec_zero] by simp
  have 1: "dec_val (dec_sub amount (dict_get (l_booked L) rid dec_zero)) = dec_val amount - ?old"
    unfolding oldv [symmetric]
    by (rule dec_val_sub [of u]) (use a old S le r in \<open>auto simp: oldv intro: on_grid_diff in_range_mono\<close>)
  have 2: "dec_val (l_total (book rid amount L)) = ?S - ?old + dec_val amount"
  proof -
    have "dec_val (l_total (book rid amount L)) =
        dec_val (dec_add (l_total L) (dec_sub amount (dict_get (l_booked L) rid dec_zero)))"
      by (simp add: book_def)
    also have "\<dots> = ?S + (dec_val amount - ?old)"
      unfolding S(1) [symmetric] 1 [symmetric]
      by (rule dec_val_add [of u])
        (use a old S gS le r 1 in \<open>auto intro!: on_grid_diff on_grid_add intro: in_range_mono\<close>)
    finally show ?thesis by simp
  qed
  have 3: "\<forall>x\<in>snd ` set (dict_put rid (dec_val amount) (ledger_books L)). 0 \<le> x \<and> on_grid u x"
    using L a by (intro sum_list_snd_dict_put_values) (simp_all add: exact_books_def)
  have 4: "?S - ?old + dec_val amount \<le> cap" using le S by simp
  show ?thesis unfolding exact_books_def ledger_books_book sum_dict_put 2
    using 3 4 by (intro conjI refl)
qed

lemma exact_settle: "exact_books u cap (settle rid amount kind L) = exact_books u cap (book rid amount L)"
  by (simp add: settle_def exact_books_def ledger_books_def)

text \<open>A unit of ten every amount is a multiple of, with room below \<open>10 ^ 28\<close> of them; and
  terminal rows that book at most their model's worst case.\<close>

definition unit_fits :: "int \<Rightarrow> config \<Rightarrow> bool" where
  "unit_fits u c \<longleftrightarrow> (\<forall>w\<in>snd ` set (c_worst c). on_grid u (dec_val w) \<and> in_range u (dec_val (c_cap c) + dec_val w))"

definition within_worst :: "int \<Rightarrow> config \<Rightarrow> event list \<Rightarrow> bool" where
  "within_worst u c rows \<longleftrightarrow> list_all (\<lambda>e. case e of
       Started rid lane model \<Rightarrow> True
     | Ended t \<Rightarrow> on_grid u (row_value t) \<and> row_value t \<le> worst_value c (t_model t)) rows"

lemma rows_grow:
  assumes "relay_step loads c port Y Z" shows "\<exists>es. y_rows Z = y_rows Y @ es"
  using assms
proof cases
  case (step_serve rid q)
  then show ?thesis
    by (auto simp: serve_def refuse_def start_call_def split: verdict.splits option.splits prod.splits bool.splits)
next
  case (step_end rid r)
  then show ?thesis by (cases rule: end_call_cases [of c rid "ending_of r" Y]) (auto simp: put_open_def)
next
  case (step_undelivered rid)
  then show ?thesis by (auto simp: undelivered_def split: option.splits)
next
  case (step_release rid)
  then show ?thesis
    by (cases rule: end_call_cases [of c rid "(ending_at ''error'' ''relay_error'', no_info)" Y])
      (auto simp: put_open_def release_def Let_def)
next
  case step_stop
  then show ?thesis by (simp add: stop_def)
qed


lemma exact_new: "0 \<le> cap \<Longrightarrow> exact_books u cap new_ledger"
  by (simp add: exact_books_def new_ledger_def ledger_books_def)

lemma exact_serve:
  assumes ok: "config_ok c" "unit_fits u c" and inv: "relay_inv c Y"
    and ex: "exact_books u (dec_val (c_cap c)) (y_ledger Y)"
    and new: "rid \<notin> set (keys_of (l_booked (y_ledger Y)))"
  shows "exact_books u (dec_val (c_cap c)) (y_ledger (serve loads c port rid q Y))"
proof (cases "y_ledger (serve loads c port rid q Y) = y_ledger Y")
  case False
  then obtain lane model L where "admit c rid model (y_ledger Y) = Some (True, L)"
    and L: "y_ledger (serve loads c port rid q Y) = L"
    by (auto simp: serve_def refuse_def start_call_def split: verdict.splits if_splits option.splits bool.splits)
  then obtain w where w: "map_of (c_worst c) model = Some w"
    "dec_le (dec_add (l_total (y_ledger Y)) w) (c_cap c)" and b: "L = book rid w (y_ledger Y)"
    by (auto simp: admit_True)
  have win: "w \<in> snd ` set (c_worst c)" using w(1) by (force dest: map_of_SomeD)
  then have u: "on_grid u (dec_val w)" "in_range u (dec_val (c_cap c) + dec_val w)"
    using ok(2) by (auto simp: unit_fits_def)
  have pos: "0 < dec_val w" "0 < dec_val (c_cap c)" using win ok(1) by (auto simp: config_ok_def)
  let ?S = "dec_val (l_total (y_ledger Y))"
  have S: "0 \<le> ?S" "?S \<le> dec_val (c_cap c)" "on_grid u ?S"
    using ex by (auto simp: exact_books_def intro!: sum_list_nonneg on_grid_sum_list)
  have "dec_val (dec_add (l_total (y_ledger Y)) w) = ?S + dec_val w"
    by (rule dec_val_add [of u]) (use S u pos in \<open>auto intro: on_grid_add in_range_mono\<close>)
  then have le: "?S + dec_val w \<le> dec_val (c_cap c)" using w(2) by (simp add: dec_le_val)
  have "rid \<notin> fst ` set (ledger_books (y_ledger Y))" using new by (simp add: keys_ledger_books)
  then have "dict_get (ledger_books (y_ledger Y)) rid 0 = 0"
    by (simp add: dict_get_def map_of_eq_None_iff [THEN iffD2])
  then show ?thesis unfolding L b
    by (intro exact_book ex) (use u pos le in \<open>auto intro: in_range_mono\<close>)
qed (use ex in simp)

lemma exact_end_call:
  assumes ok: "config_ok c" "in_range u (dec_val (c_cap c))" and inv: "relay_inv c Y"
    and ex: "exact_books u (dec_val (c_cap c)) (y_ledger Y)"
    and ww: "within_worst u c (y_rows (end_call c rid ei Y))"
  shows "exact_books u (dec_val (c_cap c)) (y_ledger (end_call c rid ei Y))"
proof (cases rule: end_call_cases [of c rid ei Y])
  case (ends k t amount)
  note t = end_row_Some [OF ok(1) ends(3)]
  have row: "on_grid u (dec_val amount)" "dec_val amount \<le> worst_value c (o_model k)"
    using ww t unfolding ends(4) by (simp_all add: within_worst_def put_open_def)
  have "(rid, k) \<in> set (y_open Y)" using ends(1) by (rule map_of_SomeD)
  then have "call_ok c (books c (y_rows Y)) (rid, k)" using inv by (auto simp: relay_inv_def)
  then have "dict_get (ledger_books (y_ledger Y)) rid 0 = worst_value c (o_model k)"
    using ends(2) inv by (simp add: call_ok_def relay_inv_def dict_get_def)
  then have "exact_books u (dec_val (c_cap c)) (book rid amount (y_ledger Y))"
    by (intro exact_book ex) (use row t ok ex in \<open>auto simp: nonneg_val exact_books_def\<close>)
  then show ?thesis unfolding ends(4) by (simp add: put_open_def exact_settle)
qed (use ex in simp)

lemma within_worst_prefix: "within_worst u c (xs @ ys) \<Longrightarrow> within_worst u c xs"
  by (simp add: within_worst_def)

lemma exact_step:
  assumes "relay_step loads c port Y Z" and ok: "config_ok c" "unit_fits u c" "in_range u (dec_val (c_cap c))"
    and inv: "relay_inv c Y" and ex: "exact_books u (dec_val (c_cap c)) (y_ledger Y)"
    and ww: "within_worst u c (y_rows Z)"
  shows "exact_books u (dec_val (c_cap c)) (y_ledger Z)"
  using assms(1)
proof cases
  case (step_serve rid q)
  then show ?thesis using exact_serve [OF ok(1,2) inv ex] by simp
next
  case (step_end rid r)
  then show ?thesis using exact_end_call [OF ok(1,3) inv ex] ww by simp
next
  case (step_undelivered rid)
  then have "y_ledger Z = y_ledger Y" by (simp add: undelivered_def split: option.splits)
  then show ?thesis using ex by simp
next
  case (step_release rid)
  then show ?thesis using exact_end_call [OF ok(1,3) inv ex] ww by (simp add: release_def Let_def)
next
  case step_stop
  then show ?thesis using ex by (simp add: stop_def)
qed

lemma run_exact:
  assumes "relay_run loads c port Y" "config_ok c" "unit_fits u c" "in_range u (dec_val (c_cap c))"
    "within_worst u c (y_rows Y)"
  shows "exact_books u (dec_val (c_cap c)) (y_ledger Y)"
  using assms(1,5)
proof induction
  case run_new
  then show ?case using assms(2) exact_new by (simp add: new_relay_def config_ok_def)
next
  case (run_step Y Z)
  have "within_worst u c (y_rows Y)"
    using rows_grow [OF run_step(2)] run_step(4) within_worst_prefix by metis
  then show ?case using run_step run_inv [OF run_step(1) assms(2)] assms
    by (intro exact_step [OF run_step(2)]) simp_all
qed

text \<open>C1. The cap holds: where no call ends at more than its model's worst case, the amount booked,
  which is exactly the sum of what the calls have booked, is at most the cap at every point of
  every run, however the calls interleave. The amounts must share a unit small enough that 28
  significant digits hold the cap and a worst case: then the decimal context never rounds.\<close>

theorem booked_within_cap:
  assumes "config_of M doc = Inr c" "unit_fits u c" "in_range u (dec_val (c_cap c))"
    "relay_run loads c port Y" "within_worst u c (y_rows Y)"
  shows "dec_val (l_total (y_ledger Y)) = sum_list (map snd (books c (y_rows Y))) \<and>
    dec_val (l_total (y_ledger Y)) \<le> dec_val (c_cap c)"
  using run_exact [OF assms(4) config_of_ok [OF assms(1)] assms(2,3,5)]
    run_inv [OF assms(4) config_of_ok [OF assms(1)]]
  by (simp add: exact_books_def relay_inv_def)

end
