(* ===== verification/Redaction.thy ===== *)
theory Redaction imports RelayRuns
begin

text \<open>
  Replies as the lane relay passes them on (\<open>redact\<close> of \<open>unify/lanes/relay_server.py\<close>): what the
  replacement of one secret after another leaves, and that no secret is in it.
\<close>

section \<open>Redaction\<close>

lemma starts_with_Cons: "starts_with (a # p) (b # s) \<longleftrightarrow> a = b \<and> starts_with p s"
  by (auto simp: starts_with_def)

lemma starts_with_Nil [simp]: "starts_with [] s" "starts_with p [] \<longleftrightarrow> p = []"
  by (auto simp: starts_with_def)

lemma starts_with_stop: "b \<notin> set p \<Longrightarrow> starts_with p (x @ b # y) \<longleftrightarrow> starts_with p x"
proof (induction p arbitrary: x)
  case (Cons a p)
  then show ?case by (cases x) (auto simp: starts_with_Cons)
qed simp

lemma contains_stop:
  assumes "b \<notin> set p" "p \<noteq> []"
  shows "contains p (x @ b # y) \<longleftrightarrow> contains p x \<or> contains p y"
proof (induction x)
  case Nil
  show ?case using assms starts_with_stop [OF assms(1), of "[]" y] by simp
next
  case (Cons c x)
  show ?case using Cons starts_with_stop [OF assms(1), of "c # x" y] by auto
qed

text \<open>A secret the marker cannot hide or complete: no bracket in it, and not a part of the
  marker's word.\<close>

definition hidden :: "string \<Rightarrow> bool" where
  "hidden s \<longleftrightarrow> s \<noteq> [] \<and> CHR ''['' \<notin> set s \<and> CHR '']'' \<notin> set s \<and> \<not> contains s ''redacted''"

lemma REDACTED_parts: "REDACTED @ y = [] @ CHR ''['' # (''redacted'' @ CHR '']'' # y)"
  by (simp add: REDACTED_def)

lemma contains_marker: "hidden s \<Longrightarrow> contains s (REDACTED @ y) \<longleftrightarrow> contains s y"
  unfolding REDACTED_parts hidden_def by (subst contains_stop; (subst contains_stop)?; simp)

lemma starts_with_replaced:
  "CHR ''['' \<notin> set s \<Longrightarrow> starts_with s (replace_all r REDACTED d) \<Longrightarrow> starts_with s d"
proof (induction r "REDACTED" d arbitrary: s rule: replace_all.induct)
  case (2 r c t)
  show ?case
  proof (cases "r \<noteq> [] \<and> starts_with r (c # t)")
    case True
    then have "starts_with s ([] @ CHR ''['' # (''redacted'' @ CHR '']'' #
        replace_all r REDACTED (drop (length r) (c # t))))"
      using "2.prems"(2) REDACTED_parts by (simp del: drop.simps)
    then have "starts_with s []" using starts_with_stop [OF "2.prems"(1)] by blast
    then show ?thesis by simp
  next
    case False
    then show ?thesis using "2.prems" "2.hyps"(2) [OF False] by (cases s) (auto simp: starts_with_Cons)
  qed
qed simp

lemma contains_drop: "contains s (drop n d) \<Longrightarrow> contains s d"
  unfolding contains_iff by (metis append_assoc append_take_drop_id)

lemma replace_all_keeps_out:
  "hidden s \<Longrightarrow> \<not> contains s d \<Longrightarrow> \<not> contains s (replace_all r REDACTED d)"
proof (induction r "REDACTED" d rule: replace_all.induct)
  case (2 r c t)
  show ?case
  proof (cases "r \<noteq> [] \<and> starts_with r (c # t)")
    case True
    then have "\<not> contains s (replace_all r REDACTED (drop (length r) (c # t)))"
      using "2.hyps"(1) [OF True] "2.prems" contains_drop by blast
    then show ?thesis using True "2.prems"(1) by (simp add: contains_marker del: drop.simps)
  next
    case False
    have "\<not> contains s (replace_all r REDACTED t)" using "2.hyps"(2) [OF False] "2.prems" by simp
    moreover have "\<not> starts_with s (c # replace_all r REDACTED t)"
      using starts_with_replaced [of "tl s" r t] "2.prems"
      by (cases s) (auto simp: starts_with_Cons hidden_def)
    ultimately show ?thesis using False by auto
  qed
qed simp

lemma replace_all_removes: "hidden s \<Longrightarrow> \<not> contains s (replace_all s REDACTED d)"
proof (induction s "REDACTED" d rule: replace_all.induct)
  case (1 s)
  then show ?case by (simp add: hidden_def)
next
  case (2 s c t)
  show ?case
  proof (cases "s \<noteq> [] \<and> starts_with s (c # t)")
    case True
    then show ?thesis using "2.hyps"(1) [OF True] "2.prems" by (simp add: contains_marker del: drop.simps)
  next
    case False
    have "\<not> starts_with s (c # replace_all s REDACTED t)"
      using starts_with_replaced [of "tl s" s t] False "2.prems"
      by (cases s) (auto simp: starts_with_Cons hidden_def)
    then show ?thesis using False "2.hyps"(2) [OF False] "2.prems" by auto
  qed
qed

lemma redact_keeps_out: "hidden s \<Longrightarrow> \<not> contains s d \<Longrightarrow> \<not> contains s (redact ss d)"
  unfolding redact_def by (induction ss arbitrary: d) (auto simp: replace_all_keeps_out)

lemma redact_removes: "hidden s \<Longrightarrow> s \<in> set ss \<Longrightarrow> \<not> contains s (redact ss d)"
proof (induction ss arbitrary: d)
  case (Cons r ss)
  let ?d = "if r \<noteq> [] \<and> contains r d then replace_all r REDACTED d else d"
  have step: "redact (r # ss) d = redact ss ?d" by (simp add: redact_def)
  show ?case
  proof (cases "s \<in> set ss")
    case True
    then show ?thesis unfolding step using Cons by blast
  next
    case False
    with Cons.prems have "r = s" by simp
    then have "\<not> contains s ?d" using Cons.prems(1) replace_all_removes [of s d] by (simp add: hidden_def)
    then show ?thesis unfolding step using Cons.prems(1) by (rule redact_keeps_out [rotated])
  qed
qed simp

lemma contains_length: "contains s d \<Longrightarrow> length s \<le> length d"
  by (auto simp: contains_iff)

lemma bracket_not_token: "\<not> (is_alnum (CHR ''['') \<or> CHR ''['' \<in> set ''._~-'')"
  "\<not> (is_alnum (CHR '']'') \<or> CHR '']'' \<in> set ''._~-'')"
  by code_simp+

lemma token_hidden: "token_form s \<Longrightarrow> hidden s"
  using contains_length [of s "''redacted''"] bracket_not_token
  by (auto simp: token_form_def hidden_def list_all_iff)


end
