(* ===== verification/RelaySample.thy ===== *)
theory RelaySample imports Redaction
begin

text \<open>
  The relay's properties at concrete inputs: a configuration of two lanes, a request on the
  writer lane, and a run that serves it.
\<close>

section \<open>A configuration, a request and a run\<close>

definition sample_machine :: machine where
  "sample_machine = \<lparr>urlsplit = (\<lambda>s. Some \<lparr>u_scheme = ''https'', u_user = [], u_password = [],
     u_query = [], u_fragment = [], u_host = ''openrouter.ai'', u_port = None, u_path = ''/api/v1''\<rparr>),
     is_file = (\<lambda>s. False), folder_ok = (\<lambda>s. Some True)\<rparr>"

definition token_a :: string where "token_a = replicate 32 (CHR ''a'')"
definition token_b :: string where "token_b = replicate 32 (CHR ''b'')"

definition sample_doc :: jrow where
  "sample_doc = [(''format'', JStr FORMAT), (''key'', JStr ''sk-12345''),
     (''upstream'', JStr ''https://openrouter.ai/api/v1''), (''journal_dir'', JStr ''/j''),
     (''cap_usd'', JStr ''2''), (''worst_case_usd'', JObj [(''m'', JStr ''0.5'')]),
     (''lanes'', JObj [(''writer'', JObj [(''token'', JStr token_a), (''models'', JArr [JStr ''m''])]),
        (''helper'', JObj [(''token'', JStr token_b), (''models'', JArr [JStr ''m''])])])]"

definition sample_config :: config where
  "sample_config = \<lparr>c_key = ''sk-12345'', c_upstream = (''https'', ''openrouter.ai'', 443, ''/api/v1''),
     c_cafile = None, c_journal_dir = ''/j'', c_cap = Dec 2 0, c_worst = [(''m'', Dec 5 (-1))], c_prices = [],
     c_tokens = [(''writer'', token_a), (''helper'', token_b)],
     c_models = [(''writer'', [''m'']), (''helper'', [''m''])]\<rparr>"

lemma sample_accepted: "config_of sample_machine sample_doc = Inr sample_config"
  by code_simp


lemma accepted_config_ok_witness: "config_ok sample_config"
  by (rule accepted_config_ok [OF sample_accepted])


definition sample_loads :: loads where
  "sample_loads b = Inr (JObj [(''model'', JStr ''m''), (''stream'', JBool True)])"

definition sample_request :: request where
  "sample_request = \<lparr>q_method = ''POST'', q_path = ''/writer/v1/chat/completions'',
     q_hosts = [''127.0.0.1:80''], q_auths = [''Bearer '' @ token_a], q_te = [], q_lengths = [''2''],
     q_input = ''{}'', q_headers = []\<rparr>"

lemma sample_forwarded: "handle sample_loads sample_config 80 False sample_request =
    Forward ''writer'' ''m'' [(''model'', JStr ''m''), (''stream'', JBool True)]"
proof -
  have host: "strip ''127.0.0.1:80'' = LOOPBACK @ '':'' @ show_nat 80" by code_simp
  have path: "route ''/writer/v1/chat/completions'' = Some ''writer''" by code_simp
  have tok: "map_of (c_tokens sample_config) ''writer'' = Some token_a" by code_simp
  have auth: "authorized sample_config ''writer'' token_a [''Bearer '' @ token_a] = None" by code_simp
  have size: "content_length [''2''] = Some (Inr 2)" by code_simp
  have body: "check_body sample_loads (dict_get (c_models sample_config) ''writer'' []) ''{}'' =
    Body [(''model'', JStr ''m''), (''stream'', JBool True)] ''m''" by code_simp
  show ?thesis
    by (simp add: handle_def sample_request_def host path tok auth [simplified append.simps] read_body_def
      size body MAX_REQUEST_BYTES_def)
qed


lemma superscript_length_escapes_witness:
  "read_body sample_loads sample_config ''writer'' (sample_request\<lparr>q_lengths := [[char_of (178 :: nat)]]\<rparr>) = Raised"
  by (rule superscript_length_escapes) (simp_all add: sample_request_def)

definition sample_relay :: relay where
  "sample_relay = end_call sample_config ''r1'' (ending_of (Whole 200 (Some (JObj
       [(''usage'', JObj [(''prompt_tokens'', JInt 3), (''cost'', JFloat ''0.25'')])]))))
     (serve sample_loads sample_config 80 ''r1'' sample_request new_relay)"

lemma sample_admit: "admit sample_config ''r1'' ''m'' new_ledger =
    Some (True, book ''r1'' (Dec 5 (-1)) new_ledger)"
  by code_simp

lemma sample_served: "serve sample_loads sample_config 80 ''r1'' sample_request new_relay =
    start_call ''r1'' ''writer'' ''m'' (book ''r1'' (Dec 5 (-1)) new_ledger) new_relay"
  using sample_admit by (simp add: serve_def sample_forwarded new_relay_def MAX_IN_FLIGHT_def)

lemma sample_run: "relay_run sample_loads sample_config 80 sample_relay"
  unfolding sample_relay_def
  by (rule run_step [OF run_step [OF run_new step_serve] step_end]) (simp add: new_relay_def new_ledger_def)


lemma sample_rows: "map (\<lambda>e. case e of Started rid lane model \<Rightarrow> [rid, lane, model]
    | Ended t \<Rightarrow> [t_rid t, t_model t, t_booked t, t_class t]) (y_rows sample_relay) =
  [[''r1'', ''writer'', ''m''], [''r1'', ''m'', ''0.25'', ''charge'']]"
  unfolding sample_relay_def sample_served by code_simp

lemma sample_within: "within_worst (-2) sample_config (y_rows sample_relay)"
proof -
  obtain e f where rows: "y_rows sample_relay = [e, f]" using sample_rows by (auto simp: map_eq_Cons_conv)
  obtain a b c where e: "e = Started a b c" using sample_rows rows by (cases e) auto
  obtain t where f: "f = Ended t" using sample_rows rows by (cases f) auto
  have t: "t_booked t = ''0.25''" "t_model t = ''m''" using sample_rows rows f by auto
  have "dec_of_text ''0.25'' = Some (Dec 25 (-2))" by code_simp
  then have v: "row_value t = 25 * 10 powi (-2)" by (simp add: row_value_def t dec_val_Dec)
  have w: "worst_value sample_config ''m'' = 5 * 10 powi (-1)"
    by (simp add: worst_value_def sample_config_def dec_val_Dec)
  have "on_grid (-2) (25 * 10 powi (-2))" unfolding on_grid_def by (intro exI [of _ 25]) simp
  then show ?thesis unfolding within_worst_def rows e f by (simp add: v w t power_int_minus)
qed

lemma booked_within_cap_witness: "dec_val (l_total (y_ledger sample_relay)) \<le> 2"
proof -
  have "on_grid (-2) (5 * 10 powi (-1))"
    unfolding on_grid_def by (intro exI [of _ 50]) (simp add: power_int_minus)
  then have u: "unit_fits (-2) sample_config"
    by (simp add: unit_fits_def sample_config_def dec_val_Dec in_range_def PREC_def power_int_minus)
  have r: "in_range (-2) (dec_val (c_cap sample_config))"
    by (simp add: sample_config_def dec_val_Dec in_range_def PREC_def power_int_minus)
  show ?thesis using booked_within_cap [OF sample_accepted u r sample_run sample_within]
    by (simp add: sample_config_def dec_val_Dec)
qed

end
