(* ===== verification/AttentionDecisions.thy ===== *)
theory AttentionDecisions imports AttentionPasses Decimals
begin

text \<open>
  What the writer's decisions say of library items and captures, read from the ledger's close rows
  (\<open>unify/memory/attention.py\<close>: \<open>item_decisions\<close>, \<open>decision_reason\<close>, \<open>retired_captures\<close>). The rows
  of each pass's \<open>decisions.jsonl\<close> are an argument. \<open>says\<close> is what one close row says of one item;
  the lemmas show that the latest row that says anything wins.
\<close>

section \<open>Items\<close>

definition KEEPS :: "ledger_decision list" where
  "KEEPS = [NewItem, ChangedItem, NoteDecision]"

definition named_items :: "jrow \<Rightarrow> string list" where
  "named_items row = str_items (jget row ''items'')"

definition entry_items :: "ledger_state \<Rightarrow> jrow \<Rightarrow> string list" where
  "entry_items state row = (case as_str (jget row ''entry'') of None \<Rightarrow> [] | Some eid \<Rightarrow>
     (case map_of state eid of Some e \<Rightarrow> r_items (e_refs e) | None \<Rightarrow> []))"

datatype said = Said_Retired | Said_Superseded string | Said_Kept

definition closing_decision :: "jrow \<Rightarrow> ledger_decision option" where
  "closing_decision row = (if jget row ''op'' = JStr ''close'' then decision_of (jget row ''decision'') else None)"

text \<open>The puts of one row, in the code's order.\<close>

definition row_puts :: "ledger_state \<Rightarrow> jrow \<Rightarrow> (string \<times> said) list" where
  "row_puts state row =
    (let named = named_items row in
     case closing_decision row of
       None \<Rightarrow> []
     | Some d \<Rightarrow>
         if d = RetireItem then map (\<lambda>i. (i, Said_Retired)) named
         else if d = MergedInto \<and> named \<noteq> [] then
           map (\<lambda>i. (i, Said_Superseded (hd named))) (filter (\<lambda>i. i \<notin> set named) (entry_items state row)) @
           [(hd named, Said_Kept)]
         else if d \<in> set KEEPS then map (\<lambda>i. (i, Said_Kept)) named
         else [])"

definition library_item :: "string \<Rightarrow> bool" where
  "library_item i \<longleftrightarrow> i \<noteq> [] \<and> \<not> starts_with CAPTURE_PREFIX i"

fun said_status :: "said \<Rightarrow> string" where
  "said_status Said_Retired = ''retired''"
| "said_status (Said_Superseded t) = ''superseded''"
| "said_status Said_Kept = ''kept''"

fun said_by :: "said \<Rightarrow> json" where
  "said_by (Said_Superseded t) = JStr t"
| "said_by Said_Retired = JNull"
| "said_by Said_Kept = JNull"

definition decision_doc :: "jrow \<Rightarrow> said \<Rightarrow> jrow" where
  "decision_doc row s = [(''status'', JStr (said_status s)), (''by'', said_by s),
     (''ref'', jget row ''reason_ref''), (''at'', jget row ''at'')]"

definition put_decision :: "jrow \<Rightarrow> (string \<times> jrow) list \<Rightarrow> string \<times> said \<Rightarrow> (string \<times> jrow) list" where
  "put_decision row out p = (case p of (i, s) \<Rightarrow> if library_item i then dict_put i (decision_doc row s) out else out)"

definition item_decisions :: "jrow list \<Rightarrow> (string \<times> jrow) list" where
  "item_decisions rows = (let state = ledger_fold rows in
     foldl (\<lambda>out row. foldl (put_decision row) out (row_puts state row)) [] rows)"

section \<open>Captures\<close>

definition DECISIONS_FILE :: string where "DECISIONS_FILE = ''decisions.jsonl''"

text \<open>\<open>pass:<name>/decisions.jsonl#<number>\<close>: the pass and the row's number.\<close>

definition reason_ref_of :: "string \<Rightarrow> (string \<times> nat) option" where
  "reason_ref_of s =
    (case strip_prefix ''pass:'' s of None \<Rightarrow> None
     | Some r \<Rightarrow>
         let name = takeWhile (\<lambda>c. is_word c \<or> c = CHR ''.'' \<or> c = CHR ''-'') r in
         case strip_prefix (''/'' @ DECISIONS_FILE @ ''#'') (drop (length name) r) of
           None \<Rightarrow> None
         | Some ds \<Rightarrow>
             if name = [] \<or> name = ''.'' \<or> name = ''..'' \<or> ds = [] \<or> \<not> list_all is_digit ds then None
             else Some (name, digits_val ds))"

definition decision_reason :: "(string \<Rightarrow> jrow list) \<Rightarrow> json \<Rightarrow> string" where
  "decision_reason decisions_of ref =
    (case reason_ref_of (text_or_empty ref) of None \<Rightarrow> []
     | Some (name, n) \<Rightarrow>
         (case find (\<lambda>row. jget row ''n'' = JInt (int n)) (decisions_of name) of
            Some row \<Rightarrow> text_or_empty (jget row ''reason'') | None \<Rightarrow> []))"

definition is_capture_id :: "string \<Rightarrow> bool" where
  "is_capture_id c \<longleftrightarrow> length c = 16 \<and> list_all (\<lambda>x. x \<in> set ''0123456789abcdef'') c"

definition capture_of :: "string \<Rightarrow> string option" where
  "capture_of item = (case strip_prefix CAPTURE_PREFIX item of
     Some c \<Rightarrow> if is_capture_id c then Some c else None | None \<Rightarrow> None)"

definition retired_doc :: "(string \<Rightarrow> jrow list) \<Rightarrow> jrow \<Rightarrow> jrow" where
  "retired_doc decisions_of row = (let reason = decision_reason decisions_of (jget row ''reason_ref'') in
     [(''status'', JStr ''retired''), (''by'', JNull),
      (''reason'', JStr (if reason \<noteq> [] then reason else ''retired''))])"

definition capture_step :: "(string \<Rightarrow> jrow list) \<Rightarrow> jrow \<Rightarrow> (string \<times> jrow) list \<Rightarrow> string \<Rightarrow> (string \<times> jrow) list" where
  "capture_step decisions_of row out item =
    (case (closing_decision row, capture_of item) of
       (Some d, Some c) \<Rightarrow>
         if d = RetireItem then dict_put c (retired_doc decisions_of row) out
         else if d \<in> set KEEPS then AList.delete c out
         else out
     | _ \<Rightarrow> out)"

definition retired_captures :: "(string \<Rightarrow> jrow list) \<Rightarrow> jrow list \<Rightarrow> (string \<times> jrow) list" where
  "retired_captures decisions_of rows =
    foldl (\<lambda>out row. foldl (capture_step decisions_of row) out (named_items row)) [] rows"

section \<open>The latest decision wins\<close>

definition says :: "ledger_state \<Rightarrow> jrow \<Rightarrow> string \<Rightarrow> said option" where
  "says state row i =
    (let named = named_items row in
     case closing_decision row of
       Some RetireItem \<Rightarrow> if i \<in> set named then Some Said_Retired else None
     | Some MergedInto \<Rightarrow>
         if named = [] then None
         else if i = hd named then Some Said_Kept
         else if i \<in> set (entry_items state row) \<and> i \<notin> set named then Some (Said_Superseded (hd named))
         else None
     | Some NewItem \<Rightarrow> if i \<in> set named then Some Said_Kept else None
     | Some ChangedItem \<Rightarrow> if i \<in> set named then Some Said_Kept else None
     | Some NoteDecision \<Rightarrow> if i \<in> set named then Some Said_Kept else None
     | _ \<Rightarrow> None)"

text \<open>The latest row that says something of the item, with what it says.\<close>

definition latest_said :: "jrow list \<Rightarrow> string \<Rightarrow> (jrow \<times> said) option" where
  "latest_said rows i = (let state = ledger_fold rows in
     case filter (\<lambda>r. says state r i \<noteq> None) (rev rows) of
       [] \<Rightarrow> None | r # _ \<Rightarrow> Some (r, the (says state r i)))"

lemma puts_same:
  "map_of (foldl (put_decision row) out (map (\<lambda>i. (i, s)) xs)) k =
    (if library_item k \<and> k \<in> set xs then Some (decision_doc row s) else map_of out k)"
  by (induction xs arbitrary: out) (auto simp: put_decision_def)

lemma puts_row:
  "map_of (foldl (put_decision row) out (row_puts state row)) k =
    (if library_item k then case says state row k of Some s \<Rightarrow> Some (decision_doc row s) | None \<Rightarrow> map_of out k
     else map_of out k)"
proof (cases "closing_decision row")
  case None
  then show ?thesis by (simp add: row_puts_def says_def)
next
  case (Some d)
  show ?thesis
  proof (cases d)
    case MergedInto
    then show ?thesis using Some
      by (auto simp: row_puts_def says_def Let_def puts_same) (auto simp: put_decision_def puts_same)
  qed (use Some in \<open>auto simp: row_puts_def says_def Let_def puts_same KEEPS_def\<close>)
qed

lemma item_decisions_said:
  "map_of (item_decisions rows) i =
    (if library_item i then map_option (\<lambda>(r, s). decision_doc r s) (latest_said rows i) else None)"
proof -
  define state where "state = ledger_fold rows"
  have "map_of (foldl (\<lambda>out row. foldl (put_decision row) out (row_puts state row)) out rs) i =
      (if library_item i then case filter (\<lambda>r. says state r i \<noteq> None) (rev rs) of
         [] \<Rightarrow> map_of out i | r # _ \<Rightarrow> Some (decision_doc r (the (says state r i))) else map_of out i)" for out rs
    by (induction rs rule: rev_induct) (auto simp: puts_row split: option.splits)
  then show ?thesis
    unfolding item_decisions_def latest_said_def Let_def state_def [symmetric]
    by (auto split: list.splits)
qed

text \<open>For every library item \<open>item_decisions\<close> holds what the latest close row naming it says, and
  nothing for an item no row names: retired by a \<open>retire\<close>, superseded by the first named item when
  an entry about it was merged into another, kept by a later \<open>new_item\<close>, \<open>changed_item\<close> or \<open>note\<close>.
  A capture's id is never among them.\<close>

theorem item_decisions_latest:
  "map_of (item_decisions rows) i =
    (if library_item i then map_option (\<lambda>(r, s). decision_doc r s) (latest_said rows i) else None)"
  by (rule item_decisions_said)

section \<open>A capture's latest decision\<close>

text \<open>What one close row says of a capture: retired, or kept.\<close>

definition capture_said :: "jrow \<Rightarrow> string \<Rightarrow> bool option" where
  "capture_said row c =
    (if CAPTURE_PREFIX @ c \<in> set (named_items row) \<and> is_capture_id c then
       case closing_decision row of
         Some d \<Rightarrow> if d = RetireItem then Some True else if d \<in> set KEEPS then Some False else None
       | None \<Rightarrow> None
     else None)"

lemma capture_of_Some [simp]: "capture_of item = Some c \<longleftrightarrow> item = CAPTURE_PREFIX @ c \<and> is_capture_id c"
proof -
  have "strip_prefix CAPTURE_PREFIX (CAPTURE_PREFIX @ c) = Some c" by simp
  then show ?thesis by (cases "strip_prefix CAPTURE_PREFIX item") (auto simp: capture_of_def simp del: strip_prefix_Some
    simp: strip_prefix_Some [THEN iffD1])
qed

definition capture_put :: "(string \<Rightarrow> jrow list) \<Rightarrow> jrow \<Rightarrow> jrow option \<Rightarrow> jrow option" where
  "capture_put D row old = (case closing_decision row of
     Some d \<Rightarrow> if d = RetireItem then Some (retired_doc D row) else if d \<in> set KEEPS then None else old
   | None \<Rightarrow> old)"

lemma capture_put_twice [simp]: "capture_put D row (capture_put D row x) = capture_put D row x"
  by (auto simp: capture_put_def split: option.split)

lemma capture_one:
  "map_of (capture_step D row out x) c =
    (if x = CAPTURE_PREFIX @ c \<and> is_capture_id c then capture_put D row (map_of out c) else map_of out c)"
proof (cases "capture_of x")
  case None
  then have "\<not> (x = CAPTURE_PREFIX @ c \<and> is_capture_id c)" using capture_of_Some [of x c] by auto
  then show ?thesis by (auto simp: capture_step_def None split: option.split)
next
  case (Some k)
  then have x: "x = CAPTURE_PREFIX @ k" "is_capture_id k" by simp_all
  show ?thesis unfolding capture_step_def Some using x
    by (auto simp: capture_put_def AList.delete_conv' split: option.split)
qed

lemma capture_steps:
  "map_of (foldl (capture_step D row) out xs) c =
    (if CAPTURE_PREFIX @ c \<in> set xs \<and> is_capture_id c then capture_put D row (map_of out c) else map_of out c)"
  by (induction xs arbitrary: out) (auto simp: capture_one)

text \<open>A capture is retired exactly when the latest close row naming it that retires or keeps a thing
  is a \<open>retire\<close>, with the writer's reason for that row; a later \<open>new_item\<close>, \<open>changed_item\<close> or
  \<open>note\<close> naming it puts it back. A name that is no capture id never appears.\<close>

theorem retired_captures_latest:
  "map_of (retired_captures D rows) c =
    (case filter (\<lambda>r. capture_said r c \<noteq> None) (rev rows) of
       r # _ \<Rightarrow> if capture_said r c = Some True then Some (retired_doc D r) else None
     | [] \<Rightarrow> None)"
proof -
  have "map_of (foldl (\<lambda>out row. foldl (capture_step D row) out (named_items row)) out rows) c =
      (case filter (\<lambda>r. capture_said r c \<noteq> None) (rev rows) of
         r # _ \<Rightarrow> if capture_said r c = Some True then Some (retired_doc D r) else None
       | [] \<Rightarrow> map_of out c)" for out
    by (induction rows rule: rev_induct)
      (auto simp: capture_steps capture_said_def capture_put_def split: option.splits if_splits)
  then show ?thesis by (simp add: retired_captures_def split: list.split)
qed

end
