(* ===== verification/ItemStates.thy ===== *)
theory ItemStates imports Prelude
begin

text \<open>
  The vocabulary of a library item (\<open>unify/memory/item_states.py\<close>): its evidence level, its
  status, and how stored names, old ones included, are read. Also the two thresholds of
  \<open>unify/memory/lifecycle.py\<close> that every status decision uses.
\<close>

datatype level = Unchecked | ReproducesItsCase | ConfirmedByOutcomes
datatype status = OnTrial | Adopted | Retired

definition K_STABLE :: nat where "K_STABLE = 3"
definition MIN_EPISODES :: nat where "MIN_EPISODES = 2"

fun level_name :: "level \<Rightarrow> string" where
  "level_name Unchecked = ''unchecked''"
| "level_name ReproducesItsCase = ''reproduces-its-case''"
| "level_name ConfirmedByOutcomes = ''confirmed-by-outcomes''"

fun status_name :: "status \<Rightarrow> string" where
  "status_name OnTrial = ''on-trial''"
| "status_name Adopted = ''adopted''"
| "status_name Retired = ''retired''"

definition OLD_LEVELS :: "(string \<times> level) list" where
  "OLD_LEVELS =
    [(''unverified'', Unchecked), (''experimental'', Unchecked), (''verified'', Unchecked),
     (''reproduces-its-case'', Unchecked)]"

definition OLD_STATUSES :: "(string \<times> status) list" where
  "OLD_STATUSES =
    [(''experimental'', OnTrial), (''stable'', Adopted), (''suspect'', Retired),
     (''deprecated'', Retired)]"

text \<open>\<open>value in STATUSES\<close> first, then the old names, then the default.\<close>

definition status_from_stored :: "status option \<Rightarrow> json \<Rightarrow> status option" where
  "status_from_stored dflt v =
    (case as_str v of
       None \<Rightarrow> dflt
     | Some s \<Rightarrow>
         (case find (\<lambda>st. status_name st = s) [OnTrial, Adopted, Retired] of
            Some st \<Rightarrow> Some st
          | None \<Rightarrow> (case map_of OLD_STATUSES s of Some st \<Rightarrow> Some st | None \<Rightarrow> dflt)))"

definition level_from_stored :: "level option \<Rightarrow> json \<Rightarrow> level option" where
  "level_from_stored dflt v =
    (case as_str v of
       None \<Rightarrow> dflt
     | Some s \<Rightarrow>
         (case map_of OLD_LEVELS s of
            Some l \<Rightarrow> Some l
          | None \<Rightarrow>
              (case find (\<lambda>l. level_name l = s)
                 [Unchecked, ReproducesItsCase, ConfirmedByOutcomes] of
                 Some l \<Rightarrow> Some l
               | None \<Rightarrow> dflt)))"

fun level_of_record :: "json \<Rightarrow> level" where
  "level_of_record (JObj r) =
     (case level_from_stored None (jget r ''level'') of Some l \<Rightarrow> l | None \<Rightarrow> Unchecked)"
| "level_of_record _ = Unchecked"

lemma status_roundtrip: "status_from_stored d (JStr (status_name st)) = Some st"
  by (cases st) (simp_all add: status_from_stored_def)

text \<open>No stored record, whatever it holds, reads as a level a test run gave: only the level
  outcomes give survives a read.\<close>

lemma level_of_record_never_reproduces: "level_of_record v \<noteq> ReproducesItsCase"
  by (cases v) (auto simp: level_from_stored_def OLD_LEVELS_def split: option.splits)

lemma level_of_record_confirmed:
  "level_of_record v = ConfirmedByOutcomes \<longleftrightarrow>
   (\<exists>r. v = JObj r \<and> jget r ''level'' = JStr ''confirmed-by-outcomes'')"
  by (cases v) (auto simp: level_from_stored_def OLD_LEVELS_def split: option.splits if_splits)

end
