(* ===== verification/Signals.thy ===== *)
theory Signals imports ItemStates
begin

text \<open>
  An episode's signals and its regime (\<open>unify/memory/signals.py\<close>): which sources each regime
  observes, which labels support or contradict an episode, how the regime of an episode is
  inferred from the signals that arrived, and the run's prior.
\<close>

datatype regime = Dense | Sparse | Implicit | NoSignal

definition REGIMES :: "regime list" where
  "REGIMES = [Dense, Sparse, Implicit, NoSignal]"

fun regime_name :: "regime \<Rightarrow> string" where
  "regime_name Dense = ''dense''"
| "regime_name Sparse = ''sparse''"
| "regime_name Implicit = ''implicit''"
| "regime_name NoSignal = ''none''"

definition regime_of :: "string \<Rightarrow> regime option" where
  "regime_of s = find (\<lambda>r. regime_name r = s) REGIMES"

lemma regime_of_name [simp]: "regime_of (regime_name r) = Some r"
  by (cases r) (simp_all add: regime_of_def REGIMES_def)

text \<open>The sources a regime observes; a regime no table names observes none
  (\<open>REGIME_SOURCES.get(regime, frozenset())\<close>).\<close>

fun REGIME_SOURCES :: "regime \<Rightarrow> string list" where
  "REGIME_SOURCES Dense = [''checker'']"
| "REGIME_SOURCES Sparse = [''checker'']"
| "REGIME_SOURCES Implicit = []"
| "REGIME_SOURCES NoSignal = []"

definition regime_sources :: "string \<Rightarrow> string list" where
  "regime_sources s = (case regime_of s of Some r \<Rightarrow> REGIME_SOURCES r | None \<Rightarrow> [])"

definition SUPPORT :: "(string \<times> string) list" where
  "SUPPORT = [(''checker'', ''pass'')]"

definition CONTRARY :: "(string \<times> string) list" where
  "CONTRARY = [(''checker'', ''fail'')]"

record signal =
  signal_id :: string
  s_episode_id :: string
  source :: string
  label :: string
  refers_to :: string
  visible_to_actor :: bool
  arrived_at :: string
  timing :: string

datatype regime_basis = BasisSignals | BasisPrior | BasisNothing

definition AFTER_EPISODE :: string where "AFTER_EPISODE = ''after_episode''"

definition per_action :: "signal \<Rightarrow> bool" where
  "per_action s \<longleftrightarrow> contains (s_episode_id s @ ''/actions/'') (refers_to s)"

definition infer_regime :: "signal list \<Rightarrow> bool \<Rightarrow> regime option \<Rightarrow> regime \<times> regime_basis" where
  "infer_regime sigs implicit_evidence prior =
    (let seen = filter (\<lambda>s. source s = ''checker'' \<and> visible_to_actor s) sigs;
         within = filter (\<lambda>s. timing s \<noteq> AFTER_EPISODE) seen
     in if list_ex per_action within \<or> 2 \<le> length within then (Dense, BasisSignals)
        else if seen \<noteq> [] then (Sparse, BasisSignals)
        else if implicit_evidence then (Implicit, BasisSignals)
        else (case prior of
                Some r \<Rightarrow> if r \<noteq> NoSignal then (r, BasisPrior) else (NoSignal, BasisNothing)
              | None \<Rightarrow> (NoSignal, BasisNothing)))"

text \<open>The run's prior: the most common regime among the episodes whose own signals gave one,
  ties to the earlier of \<open>REGIMES\<close>.\<close>

definition prior_count :: "(regime \<times> regime_basis) list \<Rightarrow> regime \<Rightarrow> nat" where
  "prior_count inferred r = length (filter (\<lambda>(r', b). b = BasisSignals \<and> r' = r) inferred)"

definition run_prior :: "(regime \<times> regime_basis) list \<Rightarrow> regime option" where
  "run_prior inferred =
    (let top = Max (set (map (prior_count inferred) REGIMES))
     in if top = 0 then None else find (\<lambda>r. prior_count inferred r = top) REGIMES)"

section \<open>What they promise\<close>

text \<open>A verdict the actor never saw decides nothing.\<close>

lemma infer_regime_visible_only:
  "infer_regime (filter (\<lambda>s. source s = ''checker'' \<and> visible_to_actor s) sigs) e p =
   infer_regime sigs e p"
  by (simp add: infer_regime_def)

lemma in_REGIMES [simp]: "r \<in> set REGIMES"
  by (cases r) (simp_all add: REGIMES_def)

lemma run_prior_None: "run_prior inferred = None \<longleftrightarrow> (\<forall>r. prior_count inferred r = 0)"
proof -
  let ?cs = "map (prior_count inferred) REGIMES"
  have le: "prior_count inferred r \<le> Max (set ?cs)" for r
    by (rule Max_ge) (simp, metis in_REGIMES image_eqI set_map)
  have "Max (set ?cs) \<in> set ?cs" by (rule Max_in) (simp_all add: REGIMES_def)
  then have found: "find (\<lambda>r. prior_count inferred r = Max (set ?cs)) REGIMES \<noteq> None"
    by (auto simp: find_None_iff)
  show ?thesis
  proof
    assume "run_prior inferred = None"
    with found have "Max (set ?cs) = 0" by (auto simp: run_prior_def Let_def split: if_splits)
    with le show "\<forall>r. prior_count inferred r = 0" by (metis le_zero_eq)
  next
    assume z: "\<forall>r. prior_count inferred r = 0"
    with \<open>Max (set ?cs) \<in> set ?cs\<close> have "Max (set ?cs) = 0" by auto
    then show "run_prior inferred = None" by (simp add: run_prior_def Let_def)
  qed
qed

lemma run_prior_max:
  assumes "run_prior inferred = Some r"
  shows "0 < prior_count inferred r" and "prior_count inferred r' \<le> prior_count inferred r"
proof -
  let ?cs = "map (prior_count inferred) REGIMES"
  from assms have "find (\<lambda>r. prior_count inferred r = Max (set ?cs)) REGIMES = Some r"
    and "Max (set ?cs) \<noteq> 0"
    by (auto simp: run_prior_def Let_def split: if_splits)
  then have eq: "prior_count inferred r = Max (set ?cs)"
    by (auto simp: find_Some_iff)
  with \<open>Max (set ?cs) \<noteq> 0\<close> show "0 < prior_count inferred r" by simp
  have "prior_count inferred r' \<le> Max (set ?cs)"
    by (rule Max_ge) (simp, metis in_REGIMES image_eqI set_map)
  with eq show "prior_count inferred r' \<le> prior_count inferred r" by simp
qed

end
