(* ===== verification/Trust.thy ===== *)
theory Trust imports Signals
begin

text \<open>
  Outcome-driven trust (\<open>unify/memory/trust.py\<close>): what one use of a stored procedure counts as
  under its episode's regime (\<open>judge\<close>), the track record per kind of signal (\<open>track\<close>), the
  status its uses give (\<open>decide\<close>) and the evidence level outcomes raise or lower
  (\<open>apply_outcome\<close>). The lemmas give \<open>decide\<close> an abstract reading over three sets of episodes.
\<close>

datatype verdict = Accepted | Rejected
datatype end_outcome = EndPositive | EndContrary
datatype call_outcome = Returned | Refused | CallError
datatype judgement = Clean | Failed | Neutral
datatype adoption_basis = BasisVerdicts | BasisImplicit

text \<open>Why a use failed or does not count; the last is the fallback of \<open>why or "failed"\<close>.\<close>

datatype why =
    WError | WNegative | WRejected | WContraryEnd | WCorrected | WHoldsFalse | WDisagreed
  | WRefused | WUnknown | WNotAnswered | WFailed

fun why_name :: "why \<Rightarrow> string" where
  "why_name WError = ''error''"
| "why_name WNegative = ''negative''"
| "why_name WRejected = ''rejected''"
| "why_name WContraryEnd = ''contrary_end''"
| "why_name WCorrected = ''corrected''"
| "why_name WHoldsFalse = ''holds_false''"
| "why_name WDisagreed = ''disagreed''"
| "why_name WRefused = ''refused''"
| "why_name WUnknown = ''unknown outcome''"
| "why_name WNotAnswered = ''not answered in an episode that ended contrary''"
| "why_name WFailed = ''failed''"

record use =
  episode :: string
  regime :: regime
  outcome :: call_outcome
  answered :: "bool option"
  verdict :: "verdict option"
  end_outcome :: "end_outcome option"
  holds :: "bool option"
  corrected :: bool
  agreed :: "bool option"
  episode_negative :: bool
  unknown :: bool

section \<open>A use and its JSON row\<close>

fun verdict_name :: "verdict \<Rightarrow> string" where
  "verdict_name Accepted = ''accepted''"
| "verdict_name Rejected = ''rejected''"

fun end_name :: "end_outcome \<Rightarrow> string" where
  "end_name EndPositive = ''positive''"
| "end_name EndContrary = ''contrary''"

fun outcome_name :: "call_outcome \<Rightarrow> string" where
  "outcome_name Returned = ''returned''"
| "outcome_name Refused = ''refused''"
| "outcome_name CallError = ''error''"

definition verdict_of :: "json \<Rightarrow> verdict option" where
  "verdict_of v = find (\<lambda>x. v = JStr (verdict_name x)) [Accepted, Rejected]"

definition end_of :: "json \<Rightarrow> end_outcome option" where
  "end_of v = find (\<lambda>x. v = JStr (end_name x)) [EndPositive, EndContrary]"

definition outcome_of :: "json \<Rightarrow> call_outcome option" where
  "outcome_of v = find (\<lambda>x. v = JStr (outcome_name x)) [Returned, Refused, CallError]"

definition jbool_opt :: "bool option \<Rightarrow> json" where
  "jbool_opt b = (case b of None \<Rightarrow> JNull | Some x \<Rightarrow> JBool x)"

definition use_row :: "use \<Rightarrow> jrow" where
  "use_row u =
    [(''episode'', JStr (episode u)),
     (''regime'', JStr (regime_name (regime u))),
     (''outcome'', JStr (outcome_name (outcome u))),
     (''answered'', jbool_opt (answered u)),
     (''verdict'', jopt (map_option verdict_name (verdict u))),
     (''end_outcome'', jopt (map_option end_name (end_outcome u))),
     (''holds'', jbool_opt (holds u)),
     (''corrected'', JBool (corrected u)),
     (''agreed'', jbool_opt (agreed u)),
     (''episode_negative'', JBool (episode_negative u)),
     (''unknown'', JBool (unknown u))]"

definition use_from_row :: "json \<Rightarrow> use option" where
  "use_from_row v =
    (case v of
       JObj r \<Rightarrow>
         (case (as_str (jget r ''episode''),
                Option.bind (as_str (jget r ''regime'')) regime_of,
                (if ''outcome'' \<in> set (keys_of r) then outcome_of (jget r ''outcome'')
                 else Some Returned)) of
            (Some e, Some g, Some oc) \<Rightarrow>
              Some \<lparr>episode = e, regime = g, outcome = oc,
                    answered = as_bool (jget r ''answered''),
                    verdict = verdict_of (jget r ''verdict''),
                    end_outcome = end_of (jget r ''end_outcome''),
                    holds = as_bool (jget r ''holds''),
                    corrected = (jget r ''corrected'' = JBool True),
                    agreed = as_bool (jget r ''agreed''),
                    episode_negative = (jget r ''episode_negative'' = JBool True),
                    unknown = (jget r ''unknown'' = JBool True)\<rparr>
          | _ \<Rightarrow> None)
     | _ \<Rightarrow> None)"

section \<open>One use\<close>

definition judge :: "use \<Rightarrow> judgement \<times> why option \<times> bool" where
  "judge u =
    (if outcome u = Refused then (Neutral, Some WRefused, False)
     else if outcome u = CallError then (Failed, Some WError, False)
     else if holds u = Some False then (Failed, Some WHoldsFalse, False)
     else case answered u of
       None \<Rightarrow>
         if episode_negative u \<and> regime u \<in> {Dense, Sparse, Implicit}
         then (Failed, Some WNegative, False)
         else if unknown u then (Neutral, Some WUnknown, False)
         else (Clean, None, False)
     | Some a \<Rightarrow>
         if unknown u then (Neutral, Some WUnknown, False)
         else if regime u = Dense then
           (if a \<and> verdict u = Some Rejected then (Failed, Some WRejected, False)
            else (Clean, None, a \<and> verdict u = Some Accepted))
         else if regime u = Sparse then
           (if a \<and> end_outcome u = Some EndContrary then (Failed, Some WContraryEnd, False)
            else if end_outcome u = Some EndContrary then (Neutral, Some WNotAnswered, False)
            else (Clean, None, end_outcome u = Some EndPositive))
         else if regime u = Implicit \<and> corrected u \<and> a then (Failed, Some WCorrected, False)
         else if agreed u = Some False then (Failed, Some WDisagreed, False)
         else (Clean, None, False))"

abbreviation kind_of_use :: "use \<Rightarrow> judgement" where
  "kind_of_use u \<equiv> fst (judge u)"

definition why_of :: "use \<Rightarrow> why" where
  "why_of u = (case fst (snd (judge u)) of Some w \<Rightarrow> w | None \<Rightarrow> WFailed)"

definition supported :: "use \<Rightarrow> bool" where
  "supported u \<longleftrightarrow> snd (snd (judge u))"

section \<open>The track record\<close>

record track_record =
  t_accepted :: nat
  t_rejected :: nat
  t_positive :: nat
  t_contrary :: nat
  t_errors :: nat
  t_refusals :: nat
  t_holds_true :: nat
  t_holds_false :: nat
  t_ran_ok :: nat
  t_agreed :: nat
  t_disagreed :: nat
  t_corrected :: nat
  t_reused_episodes :: nat

definition empty_track :: track_record where
  "empty_track =
    \<lparr>t_accepted = 0, t_rejected = 0, t_positive = 0, t_contrary = 0, t_errors = 0,
     t_refusals = 0, t_holds_true = 0, t_holds_false = 0, t_ran_ok = 0, t_agreed = 0,
     t_disagreed = 0, t_corrected = 0, t_reused_episodes = 0\<rparr>"

definition count_if :: "bool \<Rightarrow> nat" where
  "count_if b = (if b then 1 else 0)"

text \<open>One turn of the loop: the record so far and the set \<open>ran\<close> of episodes a call returned in.\<close>

definition track_use :: "track_record \<times> string list \<Rightarrow> use \<Rightarrow> track_record \<times> string list" where
  "track_use = (\<lambda>(t, ran) u.
    if outcome u = Refused then (t\<lparr>t_refusals := t_refusals t + 1\<rparr>, ran)
    else if outcome u = CallError then (t\<lparr>t_errors := t_errors t + 1\<rparr>, ran)
    else
      (t\<lparr>t_ran_ok := t_ran_ok t + 1,
         t_holds_true := t_holds_true t + count_if (holds u = Some True),
         t_holds_false := t_holds_false t + count_if (holds u = Some False),
         t_agreed := t_agreed t + count_if (agreed u = Some True),
         t_disagreed := t_disagreed t + count_if (agreed u = Some False),
         t_corrected := t_corrected t + count_if (corrected u \<and> regime u \<noteq> NoSignal),
         t_accepted := t_accepted t +
           count_if (answered u = Some True \<and> regime u = Dense \<and> verdict u = Some Accepted),
         t_rejected := t_rejected t +
           count_if (answered u = Some True \<and> regime u = Dense \<and> verdict u = Some Rejected),
         t_positive := t_positive t +
           count_if (answered u = Some True \<and> regime u \<in> {Dense, Sparse} \<and> end_outcome u = Some EndPositive),
         t_contrary := t_contrary t +
           count_if (answered u = Some True \<and> regime u \<in> {Dense, Sparse} \<and> end_outcome u = Some EndContrary)\<rparr>,
       List.insert (episode u) ran))"

definition track :: "use list \<Rightarrow> track_record" where
  "track uses =
    (let (t, ran) = foldl track_use (empty_track, []) uses
     in t\<lparr>t_reused_episodes := length ran\<rparr>)"

section \<open>The decision\<close>

definition RETIRE_ORDER :: "why list" where
  "RETIRE_ORDER = [WError, WNegative, WRejected, WContraryEnd, WCorrected, WHoldsFalse, WDisagreed]"

text \<open>\<open>_RULE\<close>: the rule's name, and the reason's text before and after the number of episodes.\<close>

fun RULE :: "why \<Rightarrow> string \<times> string \<times> string" where
  "RULE WError = (''errors'', ''it raised in '', '' episodes'')"
| "RULE WNegative = (''negative_signals'', ''negative signals followed its use in '', '' episodes'')"
| "RULE WRejected = (''rejected'', ''its result was rejected in '', '' episodes'')"
| "RULE WContraryEnd = (''contrary_end'', ''it answered in '', '' episodes that ended contrary'')"
| "RULE WCorrected = (''corrected'', ''a correction followed its answer in '', '' episodes'')"
| "RULE WHoldsFalse =
     (''holds_false'', ''its stated result condition was false in '', '' episodes'')"
| "RULE WDisagreed =
     (''disagreed'', ''its result disagreed with the final result in '', '' episodes'')"
| "RULE _ = ('''', '''', '''')"

fun WHY :: "why \<Rightarrow> string" where
  "WHY WError = ''errors''"
| "WHY WNegative = ''negative signals''"
| "WHY WHoldsFalse = ''its stated result condition false''"
| "WHY WRejected = ''a rejected result''"
| "WHY WContraryEnd = ''an answer in an episode that ended contrary''"
| "WHY WCorrected = ''a correction after its answer''"
| "WHY WDisagreed = ''disagreement with the final result''"
| "WHY _ = ''failures''"

record decision =
  d_status :: status
  d_basis :: "adoption_basis option"
  d_rule :: "string option"
  d_reason :: "string option"
  d_episodes :: "string list"

text \<open>The loop that groups the failing episodes by the signal that failed them:
  \<open>failed.setdefault(why or "failed", [])\<close>, each episode once.\<close>

definition add_failed :: "(why \<times> string list) list \<Rightarrow> use \<Rightarrow> (why \<times> string list) list" where
  "add_failed failed u =
    (if kind_of_use u = Failed then
       let w = why_of u; eps = dict_get failed w []
       in dict_put w (if episode u \<in> set eps then eps else eps @ [episode u]) failed
     else failed)"

definition failed_by_why :: "use list \<Rightarrow> (why \<times> string list) list" where
  "failed_by_why uses = foldl add_failed [] uses"

definition failed_eps :: "use list \<Rightarrow> string list" where
  "failed_eps uses = sorted_set (concat (map snd (failed_by_why uses)))"

definition episodes_where :: "(use \<Rightarrow> bool) \<Rightarrow> use list \<Rightarrow> string list" where
  "episodes_where P uses = sorted_set (map episode (filter P uses))"

definition clean_eps :: "use list \<Rightarrow> string list" where
  "clean_eps uses =
     filter (\<lambda>e. e \<notin> set (failed_eps uses)) (episodes_where (\<lambda>u. kind_of_use u = Clean) uses)"

definition supported_eps :: "use list \<Rightarrow> string list" where
  "supported_eps uses =
     filter (\<lambda>e. e \<notin> set (failed_eps uses))
       (episodes_where (\<lambda>u. kind_of_use u = Clean \<and> supported u) uses)"

text \<open>The verdict requirement applies to attributed uses in regimes that give verdicts or end
  outcomes.\<close>

definition needs_support :: "use list \<Rightarrow> bool" where
  "needs_support uses \<longleftrightarrow>
     list_ex (\<lambda>u. kind_of_use u = Clean \<and> answered u \<noteq> None \<and> regime u \<in> {Dense, Sparse}) uses"

definition decide :: "use list \<Rightarrow> status option \<Rightarrow> decision" where
  "decide uses prior =
    (let failed = failed_by_why uses;
         failed_eps = failed_eps uses
     in case find (\<lambda>w. MIN_EPISODES \<le> length (dict_get failed w [])) RETIRE_ORDER of
       Some w \<Rightarrow>
         (let eps = sort (dict_get failed w []); (rule, pre, post) = RULE w
          in \<lparr>d_status = Retired, d_basis = None, d_rule = Some rule,
              d_reason = Some (pre @ show_nat (length eps) @ post), d_episodes = eps\<rparr>)
     | None \<Rightarrow>
       if MIN_EPISODES \<le> length failed_eps then
         \<lparr>d_status = Retired, d_basis = None, d_rule = Some ''failed_uses'',
          d_reason = Some (''failed uses in '' @ show_nat (length failed_eps) @ '' episodes ('' @
            join_str '', '' (map (\<lambda>w. WHY w @ '' in '' @ show_nat (length (dict_get failed w [])))
                             (sort_key why_name (keys_of failed))) @ '')''),
          d_episodes = failed_eps\<rparr>
       else
         (let clean = clean_eps uses;
              supp = supported_eps uses;
              needs = needs_support uses;
              basis = (if supp \<noteq> [] then BasisVerdicts else BasisImplicit);
              implicit_only = (basis = BasisImplicit \<and>
                \<not> list_ex (\<lambda>u. kind_of_use u = Clean \<and> regime u \<in> {Dense, Sparse}) uses);
              adopted_reason =
                (if implicit_only
                 then Some (''used without problems in '' @ show_nat (length clean) @ '' episodes'')
                 else None)
          in if prior = Some Adopted then
               \<lparr>d_status = Adopted, d_basis = Some basis, d_rule = None,
                d_reason = adopted_reason, d_episodes = clean\<rparr>
             else if failed_eps = [] \<and> K_STABLE \<le> length clean then
               (if needs \<and> supp = [] then
                  \<lparr>d_status = OnTrial, d_basis = None, d_rule = None,
                   d_reason = Some (''clean uses in '' @ show_nat (length clean) @
                     '' episodes, none yet with an accepted verdict or a positive end''),
                   d_episodes = []\<rparr>
                else
                  \<lparr>d_status = Adopted, d_basis = Some basis, d_rule = None,
                   d_reason = adopted_reason, d_episodes = clean\<rparr>)
             else
               \<lparr>d_status = OnTrial, d_basis = None, d_rule = None, d_reason = None,
                d_episodes = []\<rparr>))"

record trust_outcome =
  o_status :: status
  o_level :: "level option"
  o_basis :: "adoption_basis option"
  o_rule :: "string option"
  o_reason :: "string option"
  o_episodes :: "string list"

definition apply_outcome :: "level option \<Rightarrow> status option \<Rightarrow> use list \<Rightarrow> trust_outcome" where
  "apply_outcome level prior uses =
    (let d = decide uses prior;
         new = (if d_status d = Adopted \<and> d_basis d = Some BasisVerdicts
                then Some ConfirmedByOutcomes
                else if level = Some ConfirmedByOutcomes then Some Unchecked
                else level)
     in \<lparr>o_status = d_status d, o_level = new, o_basis = d_basis d, o_rule = d_rule d,
         o_reason = d_reason d, o_episodes = d_episodes d\<rparr>)"

section \<open>What a card says\<close>

definition record_line :: "track_record \<Rightarrow> string" where
  "record_line t =
    (if t_accepted t \<noteq> 0 \<or> t_rejected t \<noteq> 0
     then ''its record has verdicts: '' @ show_nat (t_accepted t) @ '' accepted, '' @
          show_nat (t_rejected t) @ '' rejected''
     else if t_reused_episodes t \<noteq> 0
     then ''its record has no verdicts; it ran without errors in '' @
          show_nat (t_reused_episodes t) @ '' episodes''
     else ''no later use recorded yet'')"

definition status_text :: "status \<Rightarrow> adoption_basis option \<Rightarrow> string" where
  "status_text st basis =
    (if st = Adopted \<and> basis = Some BasisImplicit then ''adopted (implicit)''
     else status_name st)"

datatype status_basis = StVerdicts | StEndOutcomes | StImplicit | StNoOutcomeSignals

definition status_basis :: "use list \<Rightarrow> status_basis" where
  "status_basis us =
    (let negative = map regime (filter (\<lambda>u. answered u = None \<and> episode_negative u) us)
     in if list_ex (\<lambda>u. verdict u \<noteq> None) us \<or> Dense \<in> set negative then StVerdicts
        else if list_ex (\<lambda>u. end_outcome u \<noteq> None) us \<or> Sparse \<in> set negative then StEndOutcomes
        else if list_ex (\<lambda>u. holds u \<noteq> None \<or> corrected u) us \<or> Implicit \<in> set negative
        then StImplicit
        else StNoOutcomeSignals)"

record judged_counts =
  n_clean :: nat
  n_failed :: nat
  n_neutral :: nat

definition count_use :: "judged_counts \<Rightarrow> use \<Rightarrow> judged_counts" where
  "count_use c u =
    (case kind_of_use u of
       Clean \<Rightarrow> c\<lparr>n_clean := n_clean c + 1\<rparr>
     | Failed \<Rightarrow> c\<lparr>n_failed := n_failed c + 1\<rparr>
     | Neutral \<Rightarrow> c\<lparr>n_neutral := n_neutral c + 1\<rparr>)"

definition use_counts :: "use list \<Rightarrow> judged_counts" where
  "use_counts uses = foldl count_use \<lparr>n_clean = 0, n_failed = 0, n_neutral = 0\<rparr> uses"

definition basis_text :: "status \<Rightarrow> status_basis \<Rightarrow> judged_counts \<Rightarrow> string" where
  "basis_text st basis c =
    (let plural = (\<lambda>n. if n \<noteq> 1 then ''s'' else '''');
         how = (case basis of
                  StVerdicts \<Rightarrow> ''judged by the verdict after each answered call''
                | StEndOutcomes \<Rightarrow> ''all judged at episode end''
                | StImplicit \<Rightarrow> ''judged by implicit signals only (its errors and its stated result condition), never by an outcome''
                | StNoOutcomeSignals \<Rightarrow> '''')
     in if basis = StNoOutcomeSignals then
          (let used = n_clean c + n_failed c + n_neutral c
           in status_name st @ '': no outcome signal has arrived for any use of this item'' @
              (if used \<noteq> 0 then '' ('' @ show_nat used @ '' use'' @ plural used @ '' without one)''
               else '' (no later use yet)''))
        else status_name st @ '': '' @ show_nat (n_clean c) @ '' clean use'' @ plural (n_clean c) @
             '', '' @ show_nat (n_failed c) @ '' failed, '' @ how)"

section \<open>Signals to outcomes\<close>

definition signal_step ::
  "string \<Rightarrow> verdict option \<times> end_outcome option \<Rightarrow> signal \<Rightarrow> verdict option \<times> end_outcome option" where
  "signal_step rg = (\<lambda>(v, e) s.
    if source s \<notin> set (regime_sources rg) \<or> \<not> visible_to_actor s then (v, e)
    else if regime_of rg = Some Dense then
      (if label s = ''fail'' \<or> v = Some Rejected then Some Rejected
       else if label s = ''pass'' then Some Accepted else v, e)
    else if regime_of rg = Some Sparse then
      (v, if label s = ''fail'' \<or> e = Some EndContrary then Some EndContrary
          else if label s = ''pass'' then Some EndPositive else e)
    else (v, e))"

definition signal_outcome :: "signal list \<Rightarrow> string \<Rightarrow> verdict option \<times> end_outcome option" where
  "signal_outcome signals rg = foldl (signal_step rg) (None, None) signals"

section \<open>The abstract decision\<close>

text \<open>The decision reads its uses through three sets of episodes: those with a failed use,
  those with a clean one, and those with a clean use that carries an accepted verdict or a
  positive end.\<close>

definition failed_episodes :: "use list \<Rightarrow> string set" where
  "failed_episodes uses = set (map episode (filter (\<lambda>u. kind_of_use u = Failed) uses))"

definition clean_episodes :: "use list \<Rightarrow> string set" where
  "clean_episodes uses = set (map episode (filter (\<lambda>u. kind_of_use u = Clean) uses))"

definition supported_episodes :: "use list \<Rightarrow> string set" where
  "supported_episodes uses =
     set (map episode (filter (\<lambda>u. kind_of_use u = Clean \<and> supported u) uses))"

definition abstract_status ::
  "status option \<Rightarrow> string set \<Rightarrow> string set \<Rightarrow> string set \<Rightarrow> bool \<Rightarrow> status" where
  "abstract_status prior F C S needs =
    (if MIN_EPISODES \<le> card F then Retired
     else if prior = Some Adopted then Adopted
     else if F = {} \<and> K_STABLE \<le> card C \<and> (needs \<longrightarrow> S \<noteq> {}) then Adopted
     else OnTrial)"

lemma failed_by_why_snoc:
  "failed_by_why (us @ [u]) = add_failed (failed_by_why us) u"
  by (simp add: failed_by_why_def)

lemma set_failed_get:
  "set (dict_get (failed_by_why us) w []) =
     {episode u |u. u \<in> set us \<and> kind_of_use u = Failed \<and> why_of u = w}"
proof (induction us rule: rev_induct)
  case Nil
  show ?case by (simp add: failed_by_why_def)
next
  case (snoc u us)
  then show ?case
    by (auto simp: failed_by_why_snoc add_failed_def Let_def dict_get_put)
qed

lemma distinct_failed_get: "distinct (dict_get (failed_by_why us) w [])"
proof (induction us arbitrary: w rule: rev_induct)
  case Nil
  show ?case by (simp add: failed_by_why_def)
next
  case (snoc u us)
  then show ?case by (simp add: failed_by_why_snoc add_failed_def Let_def dict_get_put)
qed

lemma distinct_failed_keys: "distinct (keys_of (failed_by_why us))"
proof (induction us rule: rev_induct)
  case Nil
  show ?case by (simp add: failed_by_why_def)
next
  case (snoc u us)
  then show ?case by (simp add: failed_by_why_snoc add_failed_def Let_def distinct_update)
qed

lemma set_failed_keys:
  "fst ` set (failed_by_why us) = {why_of u |u. u \<in> set us \<and> kind_of_use u = Failed}"
proof (induction us rule: rev_induct)
  case Nil
  show ?case by (simp add: failed_by_why_def)
next
  case (snoc u us)
  then show ?case
    by (auto simp: failed_by_why_snoc add_failed_def Let_def)
qed

lemma set_failed_all:
  "set (concat (map snd (failed_by_why us))) = failed_episodes us"
  unfolding set_concat_values [OF distinct_failed_keys] set_failed_keys set_failed_get
  by (auto simp: failed_episodes_def)

lemma set_failed_eps: "set (failed_eps us) = failed_episodes us"
  unfolding failed_eps_def set_sorted_set by (rule set_failed_all)

lemma sort_failed_get:
  "sort (dict_get (failed_by_why us) w []) =
     episodes_where (\<lambda>u. kind_of_use u = Failed \<and> why_of u = w) us"
  unfolding sort_distinct_eq_sorted_set [OF distinct_failed_get] episodes_where_def
  by (rule sorted_set_eqI) (auto simp: set_failed_get)

lemma length_failed_get:
  "length (dict_get (failed_by_why us) w []) =
     card (set (episodes_where (\<lambda>u. kind_of_use u = Failed \<and> why_of u = w) us))"
  using sort_failed_get [of us w] distinct_card [OF distinct_failed_get [of us w]]
  by (metis set_sort)

lemma failed_get_subset: "set (dict_get (failed_by_why us) w []) \<subseteq> failed_episodes us"
  by (auto simp: set_failed_get failed_episodes_def)

lemma finite_episode_sets [simp]:
  "finite (failed_episodes us)" "finite (clean_episodes us)" "finite (supported_episodes us)"
  by (simp_all add: failed_episodes_def clean_episodes_def supported_episodes_def)

lemma one_rule_needs_two:
  assumes "find (\<lambda>w. MIN_EPISODES \<le> length (dict_get (failed_by_why us) w [])) RETIRE_ORDER = Some w"
  shows "MIN_EPISODES \<le> card (failed_episodes us)"
proof -
  from assms have "MIN_EPISODES \<le> length (dict_get (failed_by_why us) w [])"
    by (auto simp: find_Some_iff)
  also have "\<dots> = card (set (dict_get (failed_by_why us) w []))"
    by (simp add: distinct_card [OF distinct_failed_get])
  also have "\<dots> \<le> card (failed_episodes us)"
    by (rule card_mono) (simp_all add: failed_get_subset)
  finally show ?thesis .
qed

lemma length_failed_eps: "length (failed_eps us) = card (failed_episodes us)"
  using distinct_card [of "failed_eps us"] by (simp add: set_failed_eps) (simp add: failed_eps_def)

lemma failed_eps_Nil: "failed_eps us = [] \<longleftrightarrow> failed_episodes us = {}"
  by (metis set_failed_eps set_empty)

lemma set_clean_eps: "set (clean_eps us) = clean_episodes us - failed_episodes us"
  by (auto simp: clean_eps_def clean_episodes_def episodes_where_def set_failed_eps)

lemma set_supported_eps: "set (supported_eps us) = supported_episodes us - failed_episodes us"
  by (auto simp: supported_eps_def supported_episodes_def episodes_where_def set_failed_eps)

lemma length_clean_eps: "length (clean_eps us) = card (clean_episodes us - failed_episodes us)"
proof -
  have "distinct (clean_eps us)" by (simp add: clean_eps_def episodes_where_def)
  from distinct_card [OF this] show ?thesis by (simp add: set_clean_eps)
qed

lemma supported_eps_Nil: "supported_eps us = [] \<longleftrightarrow> supported_episodes us - failed_episodes us = {}"
  by (metis set_supported_eps set_empty)

lemma decide_abstract:
  "d_status (decide uses prior) =
     abstract_status prior (failed_episodes uses)
       (clean_episodes uses - failed_episodes uses)
       (supported_episodes uses - failed_episodes uses) (needs_support uses)"
proof (cases "MIN_EPISODES \<le> card (failed_episodes uses)")
  case True
  show ?thesis
  proof (cases "find (\<lambda>w. MIN_EPISODES \<le> length (dict_get (failed_by_why uses) w [])) RETIRE_ORDER")
    case None
    then show ?thesis
      using True by (simp add: decide_def abstract_status_def Let_def length_failed_eps)
  next
    case (Some w)
    then show ?thesis
      using True by (simp add: decide_def abstract_status_def Let_def split: prod.split)
  qed
next
  case False
  then have nf: "find (\<lambda>w. MIN_EPISODES \<le> length (dict_get (failed_by_why uses) w [])) RETIRE_ORDER = None"
    using one_rule_needs_two by (metis option.exhaust)
  show ?thesis
    using False
    by (cases "failed_episodes uses = {}")
      (simp_all add: decide_def abstract_status_def Let_def nf length_failed_eps failed_eps_Nil
        length_clean_eps supported_eps_Nil)
qed


section \<open>What the decision does not depend on\<close>

lemma inj_why_name: "inj why_name"
proof (rule injI)
  fix v w
  assume "why_name v = why_name w"
  then show "v = w" by (cases v; cases w; simp)
qed

definition counting :: "use list \<Rightarrow> use set" where
  "counting uses = {u \<in> set uses. kind_of_use u \<noteq> Neutral}"

lemma failed_get_counting:
  "set (dict_get (failed_by_why us) w []) =
     {episode u |u. u \<in> counting us \<and> kind_of_use u = Failed \<and> why_of u = w}"
  by (auto simp: set_failed_get counting_def)

lemma failed_keys_counting:
  "fst ` set (failed_by_why us) = {why_of u |u. u \<in> counting us \<and> kind_of_use u = Failed}"
  by (auto simp: set_failed_keys counting_def)

lemma episode_sets_counting:
  "failed_episodes us = {episode u |u. u \<in> counting us \<and> kind_of_use u = Failed}"
  "clean_episodes us = {episode u |u. u \<in> counting us \<and> kind_of_use u = Clean}"
  "supported_episodes us = {episode u |u. u \<in> counting us \<and> kind_of_use u = Clean \<and> supported u}"
  by (auto simp: failed_episodes_def clean_episodes_def supported_episodes_def counting_def)

lemma sorted_eps:
  "sorted (clean_eps us)" "distinct (clean_eps us)"
  "sorted (supported_eps us)" "distinct (supported_eps us)"
  by (simp_all add: clean_eps_def supported_eps_def episodes_where_def sorted_wrt_filter)

lemma sorted_eps_counting:
  assumes "counting us = counting vs"
  shows "failed_eps us = failed_eps vs" and "clean_eps us = clean_eps vs"
    and "supported_eps us = supported_eps vs"
proof -
  show "failed_eps us = failed_eps vs"
    unfolding failed_eps_def
    by (rule sorted_set_eqI) (simp only: set_failed_all episode_sets_counting assms)
  show "clean_eps us = clean_eps vs"
    by (rule sorted_distinct_set_unique [OF sorted_eps(1,2) sorted_eps(1,2)])
      (simp only: set_clean_eps episode_sets_counting assms)
  show "supported_eps us = supported_eps vs"
    by (rule sorted_distinct_set_unique [OF sorted_eps(3,4) sorted_eps(3,4)])
      (simp only: set_supported_eps episode_sets_counting assms)
qed

lemma list_ex_counting:
  "(\<And>u. P u \<Longrightarrow> kind_of_use u = Clean) \<Longrightarrow> list_ex P us \<longleftrightarrow> (\<exists>u\<in>counting us. P u)"
  by (auto simp: list_ex_iff counting_def)

lemma failed_get_cong:
  assumes "counting us = counting vs"
  shows "length (dict_get (failed_by_why us) w []) = length (dict_get (failed_by_why vs) w [])"
    and "sort (dict_get (failed_by_why us) w []) = sort (dict_get (failed_by_why vs) w [])"
    and "sort_key why_name (keys_of (failed_by_why us)) = sort_key why_name (keys_of (failed_by_why vs))"
proof -
  have s: "set (dict_get (failed_by_why us) w []) = set (dict_get (failed_by_why vs) w [])"
    by (simp add: failed_get_counting assms)
  then show "length (dict_get (failed_by_why us) w []) = length (dict_get (failed_by_why vs) w [])"
    by (metis distinct_card distinct_failed_get)
  show "sort (dict_get (failed_by_why us) w []) = sort (dict_get (failed_by_why vs) w [])"
    by (rule sorted_distinct_set_unique) (simp_all add: s distinct_failed_get)
  show "sort_key why_name (keys_of (failed_by_why us)) = sort_key why_name (keys_of (failed_by_why vs))"
    by (rule sort_key_set_eq [OF inj_why_name distinct_failed_keys distinct_failed_keys])
      (simp add: failed_keys_counting assms)
qed

text \<open>
  The whole decision (status, basis, rule, reason text and episodes) depends only on the set
  of uses that count: not on their order or repetition, and not on any neutral use, so a
  refusal or a use of unknown outcome never changes it.
\<close>

theorem decide_order_free:
  assumes "counting us = counting vs"
  shows "decide us prior = decide vs prior"
proof -
  have needs: "needs_support us = needs_support vs"
    unfolding needs_support_def by (subst (1 2) list_ex_counting) (simp_all add: assms)
  have impl: "list_ex (\<lambda>u. kind_of_use u = Clean \<and> regime u \<in> {Dense, Sparse}) us =
      list_ex (\<lambda>u. kind_of_use u = Clean \<and> regime u \<in> {Dense, Sparse}) vs"
    by (subst (1 2) list_ex_counting) (simp_all add: assms)
  show ?thesis
    unfolding decide_def Let_def sorted_eps_counting [OF assms] failed_get_cong [OF assms] needs impl
    by (rule refl)
qed

definition sample_use :: "string \<Rightarrow> call_outcome \<Rightarrow> use" where
  "sample_use e oc =
    \<lparr>episode = e, regime = Implicit, outcome = oc, answered = Some True, verdict = None,
     end_outcome = None, holds = None, corrected = False, agreed = None,
     episode_negative = False, unknown = False\<rparr>"

lemma counting_Cons:
  "counting [] = {}"
  "counting (u # us) = (if kind_of_use u = Neutral then counting us else insert u (counting us))"
  by (auto simp: counting_def)

theorem decide_order_free_witness:
  "decide [sample_use ''b'' CallError, sample_use ''a'' Refused, sample_use ''a'' CallError] None =
   decide [sample_use ''a'' CallError, sample_use ''b'' CallError, sample_use ''b'' CallError] None"
  by (rule decide_order_free)
    (simp add: counting_Cons judge_def sample_use_def insert_commute)

section \<open>Levels\<close>

lemma supported_cases:
  "supported u \<longleftrightarrow> kind_of_use u = Clean \<and>
     (regime u = Dense \<and> answered u = Some True \<and> verdict u = Some Accepted \<or>
      regime u = Sparse \<and> answered u \<noteq> None \<and> end_outcome u = Some EndPositive)"
  by (auto simp: supported_def judge_def split: option.splits)

lemma decide_basis_verdicts:
  assumes "d_status (decide uses prior) = Adopted"
  shows "d_basis (decide uses prior) = Some BasisVerdicts \<longleftrightarrow>
     supported_episodes uses - failed_episodes uses \<noteq> {}"
proof (cases "find (\<lambda>w. MIN_EPISODES \<le> length (dict_get (failed_by_why uses) w [])) RETIRE_ORDER")
  case None
  then show ?thesis
    using assms by (auto simp: decide_def Let_def supported_eps_Nil split: if_splits)
next
  case (Some w)
  then show ?thesis using assms by (simp add: decide_def Let_def split: prod.splits)
qed

text \<open>
  Outcomes confirm a procedure only on evidence of success: \<open>apply_outcome\<close> gives the level
  \<open>confirmed-by-outcomes\<close> exactly when the procedure is adopted and some use of it, in an episode
  with no failed use, was an answered call whose verdict was accepted in a dense episode or ran
  in a sparse episode that ended positive. In every other case that level is taken away and
  any other level is left as it was.
\<close>

theorem apply_outcome_confirms_only_on_support:
  "o_level (apply_outcome level prior uses) =
    (if o_status (apply_outcome level prior uses) = Adopted \<and>
        (\<exists>u\<in>set uses. kind_of_use u = Clean \<and> episode u \<notin> failed_episodes uses \<and>
          (regime u = Dense \<and> answered u = Some True \<and> verdict u = Some Accepted \<or>
           regime u = Sparse \<and> answered u \<noteq> None \<and> end_outcome u = Some EndPositive))
     then Some ConfirmedByOutcomes
     else if level = Some ConfirmedByOutcomes then Some Unchecked else level)"
proof -
  have "supported_episodes uses - failed_episodes uses \<noteq> {} \<longleftrightarrow>
      (\<exists>u\<in>set uses. kind_of_use u = Clean \<and> episode u \<notin> failed_episodes uses \<and>
          (regime u = Dense \<and> answered u = Some True \<and> verdict u = Some Accepted \<or>
           regime u = Sparse \<and> answered u \<noteq> None \<and> end_outcome u = Some EndPositive))"
    unfolding supported_episodes_def supported_cases by auto
  then show ?thesis
    using decide_basis_verdicts [of uses prior] by (auto simp: apply_outcome_def Let_def)
qed

text \<open>
  A use written to its JSON row and read back is the same use.
\<close>

theorem use_row_roundtrip: "use_from_row (JObj (use_row u)) = Some u"
proof -
  have v1: "verdict_of (JStr (verdict_name a)) = Some a" for a
    by (cases a) (simp_all add: verdict_of_def)
  have v: "verdict_of (jopt (map_option verdict_name x)) = x" for x
    by (cases x) (simp_all add: jopt_def v1, simp add: verdict_of_def)
  have e1: "end_of (JStr (end_name a)) = Some a" for a
    by (cases a) (simp_all add: end_of_def)
  have e: "end_of (jopt (map_option end_name x)) = x" for x
    by (cases x) (simp_all add: jopt_def e1, simp add: end_of_def)
  have oc: "outcome_of (JStr (outcome_name x)) = Some x" for x
    by (cases x) (simp_all add: outcome_of_def)
  have b: "as_bool (jbool_opt x) = x" for x
    by (cases x) (simp_all add: jbool_opt_def)
  show ?thesis
    by (simp add: use_from_row_def use_row_def v e oc b)
qed

definition tracked :: "track_record \<Rightarrow> nat" where
  "tracked t = t_errors t + t_refusals t + t_ran_ok t"

lemma tracked_step: "tracked (fst (track_use s u)) = tracked (fst s) + 1"
  by (simp add: track_use_def tracked_def split: prod.split)

lemma track_counts_every_use: "tracked (track us) = length us"
proof -
  have "tracked (fst (foldl track_use s us)) = tracked (fst s) + length us" for s
    by (induction us arbitrary: s) (simp_all add: tracked_step)
  from this [of "(empty_track, [])"] have "tracked (fst (foldl track_use (empty_track, []) us)) = length us"
    by (simp add: tracked_def empty_track_def)
  then show ?thesis
    by (cases "foldl track_use (empty_track, []) us") (simp add: track_def tracked_def)
qed

lemma use_counts_total:
  "n_clean (use_counts us) + n_failed (use_counts us) + n_neutral (use_counts us) = length us"
proof -
  have "n_clean (foldl count_use c us) + n_failed (foldl count_use c us) + n_neutral (foldl count_use c us)
      = n_clean c + n_failed c + n_neutral c + length us" for c
    by (induction us arbitrary: c) (simp_all add: count_use_def split: judgement.split)
  then show ?thesis by (simp add: use_counts_def)
qed

end
