(* ===== verification/LifecycleUse.thy ===== *)
theory LifecycleUse imports Trust
begin

text \<open>
  What an item's recorded uses say and the status they give (\<open>unify/memory/lifecycle.py\<close>): one
  item's facts in one episode (\<open>_item_use\<close>), the signals that count (\<open>counted_signals\<close>), the
  facts of the evidence store's index (\<open>facts_from_evidence\<close>), the use record per library commit
  (\<open>aggregate_use\<close>), the uses the one decider judges (\<open>trust_uses\<close>) and \<open>decide_status\<close>.

  The evidence store is a record of the rows its queries return, in their order.
\<close>

section \<open>One item in one episode\<close>

datatype use_basis = Runtime | Static

record item_use =
  iu_used :: bool
  iu_uses :: int
  iu_refused :: bool
  iu_errored :: bool
  iu_unknown :: bool
  iu_seen :: bool
  iu_basis :: use_basis
  iu_calls :: "(int \<times> int \<times> int) option"
  iu_answered :: "bool option"
  iu_verdict :: "string option"
  iu_end_outcome :: "string option"
  iu_conditions :: "string option"
  iu_corrected :: bool
  iu_spared :: bool

definition mk_item_use :: "bool \<Rightarrow> int \<Rightarrow> bool \<Rightarrow> bool \<Rightarrow> bool \<Rightarrow> bool \<Rightarrow> use_basis \<Rightarrow>
    (int \<times> int \<times> int) option \<Rightarrow> item_use" where
  "mk_item_use us n refused errored unk seen basis calls =
    \<lparr>iu_used = us, iu_uses = n, iu_refused = refused, iu_errored = errored, iu_unknown = unk,
     iu_seen = seen, iu_basis = basis, iu_calls = calls, iu_answered = None, iu_verdict = None,
     iu_end_outcome = None, iu_conditions = None, iu_corrected = False, iu_spared = False\<rparr>"

definition call_returned :: "int \<Rightarrow> int \<Rightarrow> int \<Rightarrow> bool" where
  "call_returned called refused errored \<longleftrightarrow> called > refused + errored"

definition item_use_of :: "int \<Rightarrow> int \<Rightarrow> int \<Rightarrow> int \<Rightarrow> bool \<Rightarrow> (int \<times> int \<times> int) option \<Rightarrow> item_use option" where
  "item_use_of imported called refused errored unk runtime =
    (case runtime of
       Some (ok, r_refused, r_errored) \<Rightarrow>
         if imported = 0 \<and> called = 0 \<and> refused = 0 \<and> errored = 0 \<and> ok = 0 \<and> r_refused = 0 \<and> r_errored = 0
         then None
         else let us = ok > 0 in
           Some (mk_item_use us called (r_refused > 0) (r_errored > 0) unk
             (\<not> us \<and> (imported \<noteq> 0 \<or> called \<noteq> 0 \<or> r_refused \<noteq> 0 \<or> r_errored \<noteq> 0)) Runtime
             (Some (ok, r_refused, r_errored)))
     | None \<Rightarrow>
         if imported = 0 \<and> called = 0 \<and> refused = 0 \<and> errored = 0 then None
         else let us = call_returned called refused errored in
           Some (mk_item_use us called (refused > 0) (errored > 0) unk
             (\<not> us \<and> (imported \<noteq> 0 \<or> called \<noteq> 0)) Static None))"

record episode_use =
  eu_id :: string
  eu_main :: string
  eu_regime :: string
  eu_positive :: bool
  eu_negative :: bool
  eu_items :: "(string \<times> item_use) list"

section \<open>The signals that count\<close>

definition NO_SIGNAL_REGIME :: string where "NO_SIGNAL_REGIME = ''none''"

definition counts_for :: "string \<Rightarrow> signal \<Rightarrow> bool" where
  "counts_for rg s \<longleftrightarrow> source s \<in> set (regime_sources rg) \<and> (source s = ''checker'' \<longrightarrow> visible_to_actor s)"

definition counted_signals :: "signal list \<Rightarrow> string \<Rightarrow> bool \<times> bool" where
  "counted_signals signals rg =
    (if rg = NO_SIGNAL_REGIME then (False, False)
     else foldl (\<lambda>(p, n) s. if \<not> counts_for rg s then (p, n)
                else (p \<or> (source s, label s) \<in> set SUPPORT, n \<or> (source s, label s) \<in> set CONTRARY))
            (False, False) signals)"

section \<open>The facts of the evidence store\<close>

record item_row =
  ir_item :: string
  ir_episode :: string
  ir_imported :: "int option"
  ir_called :: "int option"
  ir_refused :: "int option"
  ir_errored :: "int option"
  ir_unknown :: "int option"
  ir_basis :: "string option"
  ir_ok :: "int option"
  ir_r_refused :: "int option"
  ir_r_errored :: "int option"

record evidence =
  ev_item_use :: "item_row list"
  ev_episodes :: "(string \<times> string option \<times> string option) list"
  ev_signals :: "string \<Rightarrow> signal list"
  ev_signal_items :: "string \<Rightarrow> (string \<times> string list) list"

definition int_or_0 :: "int option \<Rightarrow> int" where
  "int_or_0 n = (case n of None \<Rightarrow> 0 | Some k \<Rightarrow> k)"

definition str_or_empty :: "string option \<Rightarrow> string" where
  "str_or_empty s = (case s of None \<Rightarrow> [] | Some x \<Rightarrow> x)"

definition row_use :: "item_row \<Rightarrow> item_use option" where
  "row_use r = item_use_of (int_or_0 (ir_imported r)) (int_or_0 (ir_called r)) (int_or_0 (ir_refused r))
     (int_or_0 (ir_errored r)) (int_or_0 (ir_unknown r) \<noteq> 0)
     (if str_or_empty (ir_basis r) \<noteq> []
      then Some (int_or_0 (ir_ok r), int_or_0 (ir_r_refused r), int_or_0 (ir_r_errored r)) else None)"

definition by_episode :: "item_row list \<Rightarrow> (string \<times> (string \<times> item_use) list) list" where
  "by_episode rows = foldl (\<lambda>d r. case row_use r of
       None \<Rightarrow> d
     | Some u \<Rightarrow> dict_put (ir_episode r) (dict_put (ir_item r) u (dict_get d (ir_episode r) [])) d) [] rows"

definition contrary_signals :: "signal list \<Rightarrow> string \<Rightarrow> signal list" where
  "contrary_signals signals rg = filter (\<lambda>s. snd (counted_signals [s] rg)) signals"

definition spare_unscoped :: "(string \<times> item_use) list \<Rightarrow> signal list \<Rightarrow> string \<Rightarrow> (string \<times> string list) list \<Rightarrow>
    (string \<times> item_use) list" where
  "spare_unscoped items signals rg scoped =
    (let contrary = contrary_signals signals rg in
     if contrary = [] \<or> list_ex (\<lambda>s. map_of scoped (signal_id s) = None) contrary then items
     else let hit = concat (map (\<lambda>s. dict_get scoped (signal_id s) []) contrary) in
       map (\<lambda>(i, u). (i, if i \<in> set hit then u else u\<lparr>iu_spared := True\<rparr>)) items)"

definition episode_facts :: "evidence \<Rightarrow> (string \<times> (string \<times> item_use) list) list \<Rightarrow>
    string \<times> string option \<times> string option \<Rightarrow> episode_use" where
  "episode_facts ev by = (\<lambda>(eid, main, stored).
    let rg = str_or_empty stored; signals = ev_signals ev eid;
        (p, n) = counted_signals signals rg;
        items = dict_get by eid [];
        items' = (if n then spare_unscoped items signals rg (ev_signal_items ev eid) else items)
    in \<lparr>eu_id = eid, eu_main = str_or_empty main, eu_regime = rg, eu_positive = p, eu_negative = n,
        eu_items = sort_key fst items'\<rparr>)"

definition facts_from_evidence :: "evidence \<Rightarrow> string list option \<Rightarrow> episode_use list" where
  "facts_from_evidence ev eids =
    map (episode_facts ev (by_episode (ev_item_use ev)))
      (filter (\<lambda>(eid, _, _). case eids of None \<Rightarrow> True | Some want \<Rightarrow> eid \<in> set want) (ev_episodes ev))"

section \<open>The use record\<close>

record counts =
  n_episodes :: int
  n_uses :: int
  n_seen :: int
  n_errors :: int
  n_refused :: int
  n_negative :: int
  n_positive :: int
  n_unknown :: int
  n_runtime :: int

definition no_counts :: counts where
  "no_counts = \<lparr>n_episodes = 0, n_uses = 0, n_seen = 0, n_errors = 0, n_refused = 0, n_negative = 0,
     n_positive = 0, n_unknown = 0, n_runtime = 0\<rparr>"

definition of_flag :: "bool \<Rightarrow> int" where
  "of_flag b = (if b then 1 else 0)"

definition count_item :: "counts \<Rightarrow> episode_use \<Rightarrow> item_use \<Rightarrow> counts" where
  "count_item r f u = (let against = eu_negative f \<and> \<not> iu_spared u in
     \<lparr>n_episodes = n_episodes r + of_flag (iu_used u), n_uses = n_uses r + iu_uses u,
      n_seen = n_seen r + of_flag (iu_seen u), n_errors = n_errors r + of_flag (iu_errored u),
      n_refused = n_refused r + of_flag (iu_refused u),
      n_negative = n_negative r + of_flag (iu_used u \<and> against),
      n_positive = n_positive r + of_flag (iu_used u \<and> eu_positive f \<and> \<not> against),
      n_unknown = n_unknown r + of_flag (iu_unknown u),
      n_runtime = n_runtime r + of_flag (iu_basis u = Runtime)\<rparr>)"

type_synonym use_record = "(string \<times> (string \<times> counts) list) list"

definition aggregate_item :: "episode_use \<Rightarrow> use_record \<Rightarrow> string \<times> item_use \<Rightarrow> use_record" where
  "aggregate_item f out p = (case p of (item, u) \<Rightarrow>
     let by = dict_get out item []; row = dict_get by (eu_main f) no_counts in
     dict_put item (dict_put (eu_main f) (count_item row f u) by) out)"

definition aggregate_use :: "episode_use list \<Rightarrow> use_record" where
  "aggregate_use facts =
    (let out = foldl (\<lambda>out f. foldl (aggregate_item f) out (eu_items f)) [] facts in
     map (\<lambda>(i, c). (i, sort_key fst c)) (sort_key fst out))"

section \<open>The uses the decider judges\<close>

definition eu_negative_signal :: "episode_use \<Rightarrow> bool" where
  "eu_negative_signal f \<longleftrightarrow> eu_negative f \<and> eu_regime f \<noteq> NO_SIGNAL_REGIME"

definition regime_or_none :: "string \<Rightarrow> regime" where
  "regime_or_none s = (case regime_of s of Some r \<Rightarrow> r | None \<Rightarrow> NoSignal)"

definition plain_use :: "string \<Rightarrow> regime \<Rightarrow> call_outcome \<Rightarrow> use" where
  "plain_use eid rg oc = \<lparr>episode = eid, regime = rg, outcome = oc, answered = None, verdict = None,
     end_outcome = None, holds = None, corrected = False, agreed = None, episode_negative = False,
     unknown = False\<rparr>"

definition holds_of :: "string option \<Rightarrow> bool option" where
  "holds_of c = map_of [(''held'', True), (''failed'', False)] (str_or_empty c)"

definition trust_uses :: "episode_use \<Rightarrow> item_use \<Rightarrow> use list" where
  "trust_uses f u =
    (let rg = regime_or_none (eu_regime f); new = plain_use (eu_id f) rg in
     (if iu_used u \<and> iu_answered u \<noteq> None
      then [(new Returned)\<lparr>answered := iu_answered u, verdict := verdict_of (jopt (iu_verdict u)),
              end_outcome := end_of (jopt (iu_end_outcome u)), holds := holds_of (iu_conditions u),
              corrected := iu_corrected u, unknown := iu_unknown u\<rparr>]
      else if iu_used u
      then [(new Returned)\<lparr>episode_negative := eu_negative_signal f \<and> \<not> iu_spared u,
              unknown := iu_unknown u\<rparr>]
      else []) @
     (if iu_errored u then [new CallError] else []) @
     (if iu_refused u then [new Refused] else []))"

definition item_uses :: "string \<Rightarrow> episode_use list \<Rightarrow> use list" where
  "item_uses item facts = concat (map (\<lambda>f. case map_of (eu_items f) item of
       None \<Rightarrow> [] | Some u \<Rightarrow> trust_uses f u) facts)"

definition item_outcome :: "string \<Rightarrow> status option \<Rightarrow> episode_use list \<Rightarrow> level option \<Rightarrow>
    trust_outcome \<times> track_record" where
  "item_outcome item prior facts level =
    (let uses = item_uses item facts in (apply_outcome level prior uses, track uses))"

text \<open>What a status rests on: the strongest of its own uses' signals and the regimes of the
  signalled episodes that used it.\<close>

fun basis_rank :: "status_basis \<Rightarrow> nat" where
  "basis_rank StVerdicts = 0"
| "basis_rank StEndOutcomes = 1"
| "basis_rank StImplicit = 2"
| "basis_rank StNoOutcomeSignals = 3"

text \<open>The bases are ordered from the strongest: the code's \<open>order.index\<close>.\<close>

lemma basis_rank_inject: "basis_rank a = basis_rank b \<longleftrightarrow> a = b"
  by (cases a; cases b; simp)

instantiation status_basis :: linorder
begin

definition less_eq_status_basis :: "status_basis \<Rightarrow> status_basis \<Rightarrow> bool" where
  "less_eq_status_basis a b \<longleftrightarrow> basis_rank a \<le> basis_rank b"

definition less_status_basis :: "status_basis \<Rightarrow> status_basis \<Rightarrow> bool" where
  "less_status_basis a b \<longleftrightarrow> basis_rank a < basis_rank b"

instance
  by standard (auto simp: less_eq_status_basis_def less_status_basis_def basis_rank_inject)

end

definition basis_of_regime :: "string \<Rightarrow> status_basis option" where
  "basis_of_regime rg = map_of [(''dense'', StVerdicts), (''sparse'', StEndOutcomes), (''implicit'', StImplicit)] rg"

definition evidence_basis :: "string \<Rightarrow> episode_use list \<Rightarrow> status_basis \<times> judged_counts" where
  "evidence_basis item facts =
    (let mine = filter (\<lambda>f. map_of (eu_items f) item \<noteq> None) facts;
         uses = item_uses item mine;
         signalled = map eu_regime (filter (\<lambda>f. (eu_positive f \<or> eu_negative f) \<and>
           (case map_of (eu_items f) item of Some u \<Rightarrow> iu_used u | None \<Rightarrow> False)) mine)
     in (foldl (\<lambda>b rg. case basis_of_regime rg of
               Some b' \<Rightarrow> if b' < b then b' else b | None \<Rightarrow> b)
           (status_basis uses) signalled, use_counts uses))"

lemma basis_fold:
  fixes b :: "'a::linorder"
  shows "foldl (\<lambda>b rg. case f rg of Some b' \<Rightarrow> if b' < b then b' else b | None \<Rightarrow> b) b rgs =
    Min (set (b # List.map_filter f rgs))"
  unfolding Min.set_eq_fold
proof (induction rgs arbitrary: b)
  case (Cons rg rgs)
  then show ?case by (cases "f rg") (simp_all add: List.map_filter_simps min_def order.order_iff_strict)
qed (simp add: List.map_filter_simps)

text \<open>The basis is the strongest of the uses' own and the signalled regimes'.\<close>

lemma evidence_basis_strongest:
  "fst (evidence_basis i facts) \<le> status_basis (item_uses i (filter (\<lambda>f. map_of (eu_items f) i \<noteq> None) facts))"
  unfolding evidence_basis_def Let_def fst_conv basis_fold by simp

definition adoption_basis_of :: "string \<Rightarrow> episode_use list \<Rightarrow> adoption_basis option" where
  "adoption_basis_of item facts =
    (let out = fst (item_outcome item None facts None) in
     if o_status out = Adopted then o_basis out else None)"

section \<open>The status\<close>

definition CURATE_RULE :: string where "CURATE_RULE = ''curate''"

definition OLD_CURATOR_STATUS :: string where "OLD_CURATOR_STATUS = ''deprecated''"

text \<open>The status, the rule that gave it, the reason and the evidence episodes.\<close>

type_synonym status_row = "status \<times> string option \<times> string option \<times> string list"

definition prior_of :: "string option \<Rightarrow> string option \<Rightarrow> status option \<times> string option" where
  "prior_of prior rule =
    (if prior = Some OLD_CURATOR_STATUS then (Some Retired, Some CURATE_RULE)
     else (case prior of None \<Rightarrow> None | Some s \<Rightarrow> status_from_stored None (JStr s), rule))"

definition refused_reason :: "nat \<Rightarrow> string" where
  "refused_reason n = ''it refused inputs it was not built for in '' @ show_nat n @
     '' episodes and no call to it has returned yet; a refusal is not a failure''"

definition decide_status :: "string \<Rightarrow> string option \<Rightarrow> episode_use list \<Rightarrow> string option \<Rightarrow> status_row" where
  "decide_status item prior facts prior_rule =
    (let (pr, rule) = prior_of prior prior_rule in
     if pr = Some Retired \<and> rule = Some CURATE_RULE then (Retired, Some CURATE_RULE, None, [])
     else let out = fst (item_outcome item pr facts None) in
       if o_status out = Retired then (Retired, o_rule out, o_reason out, o_episodes out)
       else if o_status out = Adopted then (Adopted, None, o_reason out, o_episodes out)
       else let mine = List.map_filter (\<lambda>f. map_option (\<lambda>u. (eu_id f, u)) (map_of (eu_items f) item)) facts;
                refused = sorted_set (map fst (filter (\<lambda>(_, u). iu_refused u) mine))
            in if refused \<noteq> [] \<and> \<not> list_ex (\<lambda>(_, u). iu_used u) mine
               then (OnTrial, None, Some (refused_reason (length refused)), [])
               else (OnTrial, None, o_reason out, []))"

section \<open>What the status needs\<close>

definition curated :: "string option \<Rightarrow> string option \<Rightarrow> bool" where
  "curated prior rule \<longleftrightarrow> fst (prior_of prior rule) = Some Retired \<and> snd (prior_of prior rule) = Some CURATE_RULE"

definition use_in :: "string \<Rightarrow> episode_use \<Rightarrow> item_use option" where
  "use_in item f = map_of (eu_items f) item"

lemma decide_status_abstract:
  "fst (decide_status item prior facts rule) =
    (if curated prior rule then Retired
     else let us = item_uses item facts in
       abstract_status (fst (prior_of prior rule)) (failed_episodes us) (clean_episodes us - failed_episodes us)
         (supported_episodes us - failed_episodes us) (needs_support us))"
proof -
  obtain pr r where p: "prior_of prior rule = (pr, r)" by (cases "prior_of prior rule")
  let ?out = "fst (item_outcome item pr facts None)"
  have o: "o_status ?out = d_status (decide (item_uses item facts) pr)"
    by (simp add: item_outcome_def apply_outcome_def Let_def)
  have "fst (decide_status item prior facts rule) =
      (if pr = Some Retired \<and> r = Some CURATE_RULE then Retired else o_status ?out)"
    by (cases "o_status ?out") (simp_all add: decide_status_def p Let_def)
  then show ?thesis by (simp add: curated_def p o decide_abstract Let_def)
qed

lemma in_item_uses:
  "x \<in> set (item_uses item facts) \<longleftrightarrow>
   (\<exists>f\<in>set facts. \<exists>u. use_in item f = Some u \<and> x \<in> set (trust_uses f u))"
  unfolding item_uses_def use_in_def by (force split: option.splits)

lemma trust_uses_episode: "x \<in> set (trust_uses f u) \<Longrightarrow> episode x = eu_id f"
  by (auto simp: trust_uses_def plain_use_def Let_def split: if_splits)

lemma kind_plain:
  "kind_of_use (plain_use e rg CallError) = Failed" "kind_of_use (plain_use e rg Refused) = Neutral"
  by (simp_all add: plain_use_def judge_def)

lemma trust_uses_failed:
  assumes "x \<in> set (trust_uses f u)" "kind_of_use x = Failed"
  shows "iu_errored u \<or> (iu_used u \<and> (iu_answered u \<noteq> None \<or> (eu_negative f \<and> \<not> iu_spared u)))"
proof (rule ccontr)
  assume n: "\<not> ?thesis"
  have "kind_of_use ((plain_use (eu_id f) rg Returned)\<lparr>episode_negative := False, unknown := k\<rparr>) \<noteq> Failed" for rg k
    by (simp add: plain_use_def judge_def)
  then show False using assms n
    by (auto simp: trust_uses_def Let_def kind_plain eu_negative_signal_def split: if_splits)
qed

lemma trust_uses_clean: "x \<in> set (trust_uses f u) \<Longrightarrow> kind_of_use x = Clean \<Longrightarrow> iu_used u"
  by (auto simp: trust_uses_def Let_def kind_plain split: if_splits)

text \<open>The episodes whose facts can fail a use of the item, and those that used it.\<close>

definition failing_episodes :: "string \<Rightarrow> episode_use list \<Rightarrow> string set" where
  "failing_episodes item facts = {eu_id f |f u. f \<in> set facts \<and> use_in item f = Some u \<and>
     (iu_errored u \<or> (iu_used u \<and> (iu_answered u \<noteq> None \<or> (eu_negative f \<and> \<not> iu_spared u))))}"

definition using_episodes :: "string \<Rightarrow> episode_use list \<Rightarrow> string set" where
  "using_episodes item facts = {eu_id f |f u. f \<in> set facts \<and> use_in item f = Some u \<and> iu_used u}"

lemma finite_using: "finite (using_episodes item facts)" "finite (failing_episodes item facts)"
  by (rule finite_subset [of _ "eu_id ` set facts"]; auto simp: using_episodes_def failing_episodes_def)+

lemma failed_subset: "failed_episodes (item_uses item facts) \<subseteq> failing_episodes item facts"
  by (force simp: failed_episodes_def failing_episodes_def in_item_uses dest: trust_uses_episode trust_uses_failed)

lemma clean_subset: "clean_episodes (item_uses item facts) \<subseteq> using_episodes item facts"
  by (force simp: clean_episodes_def using_episodes_def in_item_uses dest: trust_uses_episode trust_uses_clean)

lemma decide_status_cases:
  "(case fst (decide_status item prior facts rule) of
      Retired \<Rightarrow> curated prior rule \<or> MIN_EPISODES \<le> card (failing_episodes item facts)
    | Adopted \<Rightarrow> \<not> curated prior rule \<and>
        (fst (prior_of prior rule) = Some Adopted \<or> K_STABLE \<le> card (using_episodes item facts))
    | OnTrial \<Rightarrow> \<not> curated prior rule)"
proof -
  let ?us = "item_uses item facts"
  have F: "card (failed_episodes ?us) \<le> card (failing_episodes item facts)"
    by (rule card_mono [OF finite_using(2) failed_subset])
  have C: "card (clean_episodes ?us - failed_episodes ?us) \<le> card (using_episodes item facts)"
    by (rule card_mono [OF finite_using(1)]) (use clean_subset in blast)
  show ?thesis unfolding decide_status_abstract
    using F C by (auto simp: Let_def abstract_status_def split: if_splits)
qed

text \<open>One episode never decides an item's status. Unless a curate pass retired it, an item is
  retired only when calls to it raised, or were used under a contrary signal that bears on it or
  with a recorded answer, in at least two distinct episodes; and it is adopted only when it was
  adopted before or calls to it returned in at least three distinct episodes. An import, a
  refusal and a signal scoped to other items never do either. A curate pass's retirement stays.\<close>

theorem decide_status_needs_episodes:
  "(case fst (decide_status item prior facts rule) of
      Retired \<Rightarrow> curated prior rule \<or> MIN_EPISODES \<le> card (failing_episodes item facts)
    | Adopted \<Rightarrow> \<not> curated prior rule \<and>
        (fst (prior_of prior rule) = Some Adopted \<or> K_STABLE \<le> card (using_episodes item facts))
    | OnTrial \<Rightarrow> \<not> curated prior rule)"
  by (rule decide_status_cases)

section \<open>The use record is a count\<close>

definition item_rows :: "string \<Rightarrow> string \<Rightarrow> episode_use list \<Rightarrow> (episode_use \<times> item_use) list" where
  "item_rows item main facts = concat (map (\<lambda>f. if eu_main f = main
     then map (\<lambda>p. (f, snd p)) (filter (\<lambda>p. fst p = item) (eu_items f)) else []) facts)"

definition use_at :: "use_record \<Rightarrow> string \<Rightarrow> string \<Rightarrow> counts" where
  "use_at rec item main = dict_get (dict_get rec item []) main no_counts"

lemma use_at_aggregate_item:
  "use_at (aggregate_item f out p) item main =
    (if fst p = item \<and> eu_main f = main then count_item (use_at out item main) f (snd p) else use_at out item main)"
  by (cases p) (auto simp: aggregate_item_def use_at_def Let_def)

lemma use_at_items:
  "use_at (foldl (aggregate_item f) out ps) item main =
    foldl (\<lambda>r p. count_item r f (snd p)) (use_at out item main)
      (filter (\<lambda>p. fst p = item \<and> eu_main f = main) ps)"
  by (induction ps arbitrary: out) (auto simp: use_at_aggregate_item)

lemma use_at_facts:
  "use_at (foldl (\<lambda>out f. foldl (aggregate_item f) out (eu_items f)) out facts) item main =
    foldl (\<lambda>r (f, u). count_item r f u) (use_at out item main) (item_rows item main facts)"
proof (induction facts arbitrary: out)
  case (Cons f facts)
  have "foldl (\<lambda>r p. count_item r f (snd p)) r (filter (\<lambda>p. fst p = item \<and> eu_main f = main) (eu_items f)) =
      foldl (\<lambda>r (f, u). count_item r f u) r (if eu_main f = main
        then map (\<lambda>p. (f, snd p)) (filter (\<lambda>p. fst p = item) (eu_items f)) else [])" for r
    by (simp add: foldl_map)
  then show ?case using Cons by (simp add: item_rows_def use_at_items)
qed (simp add: item_rows_def)

lemma map_of_sort_key:
  fixes d :: "('a::linorder \<times> 'b) list"
  assumes "distinct (keys_of d)" shows "map_of (sort_key fst d) = map_of d"
proof (rule map_of_inject_set [THEN iffD2])
  show "distinct (map fst (sort_key fst d))" using assms
    by (metis distinct_map distinct_sort set_sort)
qed (use assms in simp_all)

lemma dict_get_sort_key:
  fixes d :: "('a::linorder \<times> 'b) list"
  shows "distinct (keys_of d) \<Longrightarrow> dict_get (sort_key fst d) k v = dict_get d k v"
  by (simp add: dict_get_def map_of_sort_key)

definition keyed :: "use_record \<Rightarrow> bool" where
  "keyed out \<longleftrightarrow> distinct (keys_of out) \<and> (\<forall>d\<in>snd ` set out. distinct (keys_of d))"

lemma keyed_get: "keyed out \<Longrightarrow> distinct (keys_of (dict_get out i []))"
  by (force simp: keyed_def dict_get_def split: option.splits dest: map_of_SomeD)

lemma keyed_put: "keyed out \<Longrightarrow> distinct (keys_of d) \<Longrightarrow> keyed (dict_put i d out)"
  unfolding keyed_def by (simp add: set_dict_put)

lemma keyed_aggregate: "keyed out \<Longrightarrow> keyed (aggregate_item f out p)"
  by (cases p) (auto simp: aggregate_item_def Let_def intro!: keyed_put distinct_dict_put keyed_get simp del: set_map)

lemma keyed_facts: "keyed (foldl (\<lambda>out f. foldl (aggregate_item f) out (eu_items f)) [] facts)"
proof -
  have items: "keyed out \<Longrightarrow> keyed (foldl (aggregate_item f) out ps)" for f out ps
    by (induction ps arbitrary: out) (auto intro: keyed_aggregate)
  have "keyed out \<Longrightarrow> keyed (foldl (\<lambda>out f. foldl (aggregate_item f) out (eu_items f)) out facts)" for out
    by (induction facts arbitrary: out) (auto intro: items)
  from this [of "[]"] show ?thesis by (simp add: keyed_def)
qed

lemma use_at_sorted:
  assumes "keyed out" shows "use_at (map (\<lambda>(i, c). (i, sort_key fst c)) (sort_key fst out)) item main = use_at out item main"
proof -
  have "map_of (map (\<lambda>(i, c). (i, sort_key fst c)) (sort_key fst out)) item =
      map_option (sort_key fst) (map_of out item)"
    using assms by (simp add: keyed_def map_of_map [of "sort_key fst"] map_of_sort_key)
  then have "dict_get (map (\<lambda>(i, c). (i, sort_key fst c)) (sort_key fst out)) item [] =
      sort_key fst (dict_get out item [])"
    by (simp add: dict_get_def split: option.split)
  then show ?thesis using keyed_get [OF assms] by (simp add: use_at_def dict_get_sort_key)
qed

lemma count_fields:
  fixes rows :: "(episode_use \<times> item_use) list"
  defines "at r0 \<equiv> foldl (\<lambda>r (f, u). count_item r f u) r0 rows"
  defines "number P \<equiv> int (length (filter (\<lambda>(f, u). P f u) rows))"
  shows "n_episodes (at r0) = n_episodes r0 + number (\<lambda>f u. iu_used u)"
    "n_errors (at r0) = n_errors r0 + number (\<lambda>f u. iu_errored u)"
    "n_refused (at r0) = n_refused r0 + number (\<lambda>f u. iu_refused u)"
    "n_seen (at r0) = n_seen r0 + number (\<lambda>f u. iu_seen u)"
    "n_negative (at r0) = n_negative r0 + number (\<lambda>f u. iu_used u \<and> eu_negative f \<and> \<not> iu_spared u)"
    "n_positive (at r0) = n_positive r0 + number (\<lambda>f u. iu_used u \<and> eu_positive f \<and> \<not> (eu_negative f \<and> \<not> iu_spared u))"
  unfolding at_def number_def
  by (induction rows arbitrary: r0) (simp_all add: count_item_def Let_def of_flag_def split_beta)

text \<open>The use record counts: an item's row at a library commit has, for each count, exactly
  the number of that commit's episode facts of the item that show it, and an episode that used
  the item counts as positive or negative at most once.\<close>

theorem aggregate_use_counts:
  "let r = use_at (aggregate_use facts) item main; rows = item_rows item main facts;
       number = (\<lambda>P. int (length (filter (\<lambda>(f, u). P f u) rows))) in
   n_episodes r = number (\<lambda>f u. iu_used u) \<and> n_errors r = number (\<lambda>f u. iu_errored u) \<and>
   n_refused r = number (\<lambda>f u. iu_refused u) \<and> n_seen r = number (\<lambda>f u. iu_seen u) \<and>
   n_negative r = number (\<lambda>f u. iu_used u \<and> eu_negative f \<and> \<not> iu_spared u) \<and>
   n_positive r + n_negative r \<le> n_episodes r"
proof -
  have r: "use_at (aggregate_use facts) item main =
      foldl (\<lambda>r (f, u). count_item r f u) no_counts (item_rows item main facts)"
    using use_at_sorted [OF keyed_facts] use_at_facts [of "[]" facts item main]
    by (simp add: aggregate_use_def Let_def) (simp add: use_at_def)
  have "length (filter (\<lambda>(f, u). iu_used u \<and> eu_positive f \<and> \<not> (eu_negative f \<and> \<not> iu_spared u)) rows) +
      length (filter (\<lambda>(f, u). iu_used u \<and> eu_negative f \<and> \<not> iu_spared u) rows) \<le>
      length (filter (\<lambda>(f, u). iu_used u) rows)" for rows :: "(episode_use \<times> item_use) list"
    by (induction rows) auto
  then show ?thesis
    unfolding r Let_def count_fields by (simp add: no_counts_def del: of_nat_add flip: of_nat_add)
qed

end
