(* ===== verification/LifecycleTaint.thy ===== *)
theory LifecycleTaint imports LifecycleUse
begin

text \<open>
  Taint (\<open>unify/memory/lifecycle.py\<close>, \<open>taint\<close>, with \<open>dependants\<close> of \<open>layout.py\<close>): the items
  that depend on a function retired by its outcomes, through the library's import graph, through
  the parsed fixtures a reader produced, and through the functions a note uses.

  A module graph is a dictionary of import lists. Python pops a work list and iterates over sets;
  the closure does not depend on the order, which is fixed here to the dictionary's.
\<close>

section \<open>The modules that import a module\<close>

type_synonym module_graph = "(string \<times> string list) list"

definition importers :: "module_graph \<Rightarrow> string \<Rightarrow> string list" where
  "importers g m = dedup (map fst (filter (\<lambda>(k, ts). m \<in> set ts) g))"

lemma importers_keys: "set (importers g m) \<subseteq> fst ` set g"
  by (auto simp: importers_def)

lemma fresh_card: "a \<in> A \<Longrightarrow> a \<notin> S \<Longrightarrow> a \<in> T \<Longrightarrow> S \<subseteq> T \<Longrightarrow> finite A \<Longrightarrow> card (A - T) < card (A - S)"
  by (intro psubset_card_mono) auto

text \<open>The work list's last element is the head of \<open>todo\<close>.\<close>

function dependants_loop :: "module_graph \<Rightarrow> string list \<Rightarrow> string list \<Rightarrow> string list" where
  "dependants_loop g seen [] = seen"
| "dependants_loop g seen (m # todo) =
    (let new = filter (\<lambda>n. n \<notin> set seen) (importers g m)
     in dependants_loop g (seen @ new) (rev new @ todo))"
  by pat_completeness auto

termination
proof (relation "measures [\<lambda>(g, seen, todo). card (fst ` set g - set seen), \<lambda>(g, seen, todo). length todo]", simp)
  fix g seen m todo new
  assume new: "new = filter (\<lambda>n. n \<notin> set seen) (importers g m)"
  show "((g, seen @ new, rev new @ todo), g, seen, m # todo)
      \<in> measures [\<lambda>(g, seen, todo). card (fst ` set g - set seen), \<lambda>(g, seen, todo). length todo]"
  proof (cases new)
    case Nil
    then show ?thesis by simp
  next
    case (Cons a as)
    then have "a \<in> set (filter (\<lambda>n. n \<notin> set seen) (importers g m))" using new by (metis list.set_intros(1))
    then have "a \<in> fst ` set g" "a \<notin> set seen" using importers_keys [of g m] by auto
    then have "card (fst ` set g - set (seen @ new)) < card (fst ` set g - set seen)"
      by (rule fresh_card) (use Cons in auto)
    then show ?thesis by simp
  qed
qed

definition dependants :: "module_graph \<Rightarrow> string list \<Rightarrow> string list" where
  "dependants g changed = dependants_loop g changed (rev changed)"

definition imports_rel :: "module_graph \<Rightarrow> (string \<times> string) set" where
  "imports_rel g = {(m, n). m \<in> set (importers g n)}"

lemma dependants_loop_set:
  assumes "set todo \<subseteq> set seen"
    and "\<And>m n. m \<in> set seen \<Longrightarrow> m \<notin> set todo \<Longrightarrow> n \<in> set (importers g m) \<Longrightarrow> n \<in> set seen"
  shows "set (dependants_loop g seen todo) = {m. \<exists>s\<in>set seen. (m, s) \<in> (imports_rel g)\<^sup>*}"
  using assms
proof (induction g seen todo rule: dependants_loop.induct)
  case (1 g seen)
  have "m \<in> set seen" if "(m, s) \<in> (imports_rel g)\<^sup>*" "s \<in> set seen" for m s
    using that by (induction rule: converse_rtrancl_induct) (auto simp: imports_rel_def dest: "1.prems"(2))
  then show ?case by auto
next
  case (2 g seen m todo)
  define new where "new = filter (\<lambda>n. n \<notin> set seen) (importers g m)"
  have "n \<in> set (seen @ new)" if k: "k \<in> set (seen @ new)" "k \<notin> set (rev new @ todo)" "n \<in> set (importers g k)" for k n
  proof (cases "k = m")
    case True
    then show ?thesis using k(3) by (auto simp: new_def)
  next
    case False
    then have "k \<in> set seen" "k \<notin> set (m # todo)" using k(1,2) by auto
    then show ?thesis using "2.prems"(2) k(3) by simp
  qed
  then have "set (dependants_loop g (seen @ new) (rev new @ todo)) =
      {k. \<exists>s\<in>set (seen @ new). (k, s) \<in> (imports_rel g)\<^sup>*}"
    using "2.prems"(1) by (intro "2.IH" [OF new_def]) auto
  moreover have "(k, m) \<in> (imports_rel g)\<^sup>*" if "s \<in> set new" "(k, s) \<in> (imports_rel g)\<^sup>*" for k s
    using that by (auto simp: new_def imports_rel_def intro: rtrancl_into_rtrancl)
  ultimately show ?case using "2.prems"(1) by (auto simp: new_def [symmetric] Let_def)
qed

lemma dependants_set: "set (dependants g changed) = {m. \<exists>s\<in>set changed. (m, s) \<in> (imports_rel g)\<^sup>*}"
  unfolding dependants_def by (rule dependants_loop_set) auto

section \<open>Taint\<close>

text \<open>The library as \<open>taint\<close> is given it: the stored status of each item, the module of each
  function, the import graph, what each note uses, the status rules, and the readers of each
  function's fixtures.\<close>

record library =
  b_status :: "(string \<times> string) list"
  b_functions :: "(string \<times> string) list"
  b_graph :: module_graph
  b_notes :: "(string \<times> string list) list"
  b_rules :: "(string \<times> string option) list"
  b_readers :: "(string \<times> string list) list"

text \<open>An item, the reason and the items behind it.\<close>

type_synonym tainted = "(string \<times> (string \<times> string list)) list"

text \<open>A function of the frontier, and whether its importers are still to be tainted.\<close>

type_synonym frontier = "(string \<times> bool) list"

definition is_retired :: "library \<Rightarrow> string \<Rightarrow> bool" where
  "is_retired B i \<longleftrightarrow> (case map_of (b_status B) i of None \<Rightarrow> False
     | Some st \<Rightarrow> status_from_stored (Some OnTrial) (JStr st) = Some Retired)"

definition failing :: "library \<Rightarrow> string \<Rightarrow> bool" where
  "failing B i \<longleftrightarrow> is_retired B i \<and> dict_get (b_rules B) i None \<noteq> Some CURATE_RULE"

definition consumers :: "library \<Rightarrow> string \<Rightarrow> string list" where
  "consumers B s = map fst (filter (\<lambda>(f, rs). s \<in> set rs) (sort_key fst (b_readers B)))"

definition functions_in :: "library \<Rightarrow> string \<Rightarrow> string list" where
  "functions_in B m = sort (map fst (filter (\<lambda>(i, fm). fm = m) (b_functions B)))"

definition is_function :: "library \<Rightarrow> string \<Rightarrow> bool" where
  "is_function B f \<longleftrightarrow> f \<in> set (keys_of (b_functions B))"

definition mark :: "library \<Rightarrow> string \<Rightarrow> string \<Rightarrow> bool \<Rightarrow> tainted \<times> frontier \<Rightarrow> string \<Rightarrow> tainted \<times> frontier" where
  "mark B why s imp st f = (case st of (out, nxt) \<Rightarrow>
     if \<not> is_retired B f \<and> f \<notin> set (keys_of out) then (out @ [(f, why @ s, [s])], nxt @ [(f, imp)])
     else (out, nxt))"

definition import_targets :: "library \<Rightarrow> string \<Rightarrow> string list" where
  "import_targets B s = (let md = dict_get (b_functions B) s [] in
     concat (map (functions_in B) (sorted_set (filter (\<lambda>m. m \<noteq> md) (dependants (b_graph B) [md])))))"

definition consumer_targets :: "library \<Rightarrow> string \<Rightarrow> string list" where
  "consumer_targets B s = filter (is_function B) (consumers B s)"

definition IMPORT_WHY :: string where "IMPORT_WHY = ''depends on retired ''"
definition READER_WHY :: string where "READER_WHY = ''its tests load fixtures read by retired ''"

definition taint_one :: "library \<Rightarrow> tainted \<times> frontier \<Rightarrow> string \<times> bool \<Rightarrow> tainted \<times> frontier" where
  "taint_one B st p = (case p of (s, imp) \<Rightarrow>
     foldl (mark B READER_WHY s True)
       (if imp then foldl (mark B IMPORT_WHY s False) st (import_targets B s) else st)
       (consumer_targets B s))"

definition taint_round :: "library \<Rightarrow> tainted \<Rightarrow> frontier \<Rightarrow> tainted \<times> frontier" where
  "taint_round B out fr = foldl (taint_one B) (out, []) fr"

text \<open>What a run of marks adds: the same functions to the taint and to the next frontier, each
  new, not retired and a function of the library.\<close>

definition fresh :: "library \<Rightarrow> string set \<Rightarrow> frontier \<Rightarrow> bool" where
  "fresh B old nxt \<longleftrightarrow> (\<forall>f\<in>fst ` set nxt. f \<notin> old \<and> is_function B f \<and> \<not> is_retired B f)"

definition adds :: "library \<Rightarrow> tainted \<times> frontier \<Rightarrow> tainted \<times> frontier \<Rightarrow> bool" where
  "adds B st st' \<longleftrightarrow> (\<exists>nxt. snd st' = snd st @ nxt \<and> keys_of (fst st') = keys_of (fst st) @ map fst nxt \<and>
     fresh B (set (keys_of (fst st))) nxt)"

lemma adds_refl: "adds B st st"
  by (simp add: adds_def fresh_def)

lemma adds_trans:
  assumes "adds B a b" "adds B b c" shows "adds B a c"
proof -
  obtain n1 n2 where 1: "snd b = snd a @ n1" "keys_of (fst b) = keys_of (fst a) @ map fst n1"
      "fresh B (set (keys_of (fst a))) n1"
    and 2: "snd c = snd b @ n2" "keys_of (fst c) = keys_of (fst b) @ map fst n2"
      "fresh B (set (keys_of (fst b))) n2"
    using assms unfolding adds_def by blast
  have "set (keys_of (fst a)) \<subseteq> set (keys_of (fst b))" unfolding 1(2) by simp
  then have "fresh B (set (keys_of (fst a))) (n1 @ n2)"
    using 1(3) 2(3) unfolding fresh_def image_Un set_append by blast
  then show ?thesis unfolding adds_def by (intro exI [of _ "n1 @ n2"]) (simp add: 1 2)
qed

lemma adds_fold:
  assumes "\<And>st x. x \<in> set xs \<Longrightarrow> adds B st (f st x)" shows "adds B st (foldl f st xs)"
  using assms
proof (induction xs arbitrary: st)
  case (Cons x xs)
  have "adds B (f st x) (foldl f (f st x) xs)" using Cons.IH Cons.prems by simp
  with Cons.prems [of x st] have "adds B st (foldl f (f st x) xs)" by (auto intro: adds_trans)
  then show ?case by simp
qed (simp add: adds_refl)

lemma adds_mark: "is_function B f \<Longrightarrow> adds B st (mark B w s imp st f)"
  by (cases st) (simp add: adds_def mark_def fresh_def)

lemma targets_functions:
  "f \<in> set (import_targets B s) \<Longrightarrow> is_function B f"
  "f \<in> set (consumer_targets B s) \<Longrightarrow> is_function B f"
  by (force simp: import_targets_def functions_in_def Let_def is_function_def, simp add: consumer_targets_def)

lemma adds_marks:
  "adds B st (foldl (mark B w s imp) st (import_targets B s'))"
  "adds B st (foldl (mark B w s imp) st (consumer_targets B s'))"
  by (rule adds_fold, rule adds_mark, erule targets_functions)+

lemma adds_one: "adds B st (taint_one B st p)"
proof (cases p)
  case (Pair s imp)
  have "adds B st (if imp then foldl (mark B IMPORT_WHY s False) st (import_targets B s) else st)"
    by (simp add: adds_marks adds_refl)
  from adds_trans [OF this adds_marks(2)] show ?thesis by (simp add: taint_one_def Pair)
qed

lemma adds_round: "adds B (out, []) (taint_round B out fr)"
  unfolding taint_round_def by (rule adds_fold) (rule adds_one)

lemma round_keys:
  assumes "taint_round B out fr = (out', nxt)"
  shows "keys_of out' = keys_of out @ map fst nxt" "fresh B (set (keys_of out)) nxt"
  using adds_round [of B out fr] unfolding assms adds_def by auto

text \<open>\<open>while frontier\<close>: a round that adds nothing is the last.\<close>

function taint_loop :: "library \<Rightarrow> tainted \<Rightarrow> frontier \<Rightarrow> tainted" where
  "taint_loop B out fr =
    (if fr = [] then out
     else let r = taint_round B out fr in taint_loop B (fst r) (sort (snd r)))"
  by pat_completeness auto

termination
proof (relation "measures [\<lambda>(B, out, fr). card (set (keys_of (b_functions B)) - set (keys_of out)),
    \<lambda>(B, out, fr). length fr]", simp)
  fix B :: library and out fr r
  assume fr: "fr \<noteq> []" and r: "r = taint_round B out fr"
  obtain out' nxt where p: "r = (out', nxt)" by (cases r)
  note k = round_keys [OF r [symmetric, unfolded p]]
  show "((B, fst r, sort (snd r)), B, out, fr) \<in> measures
      [\<lambda>(B, out, fr). card (set (keys_of (b_functions B)) - set (keys_of out)), \<lambda>(B, out, fr). length fr]"
  proof (cases nxt)
    case Nil
    then show ?thesis using k(1) fr by (simp add: p del: set_map)
  next
    case (Cons a as)
    have "card (set (keys_of (b_functions B)) - set (keys_of out')) <
        card (set (keys_of (b_functions B)) - set (keys_of out))"
    proof (rule fresh_card [of "fst a"])
      show "fst a \<in> set (keys_of (b_functions B))" "fst a \<notin> set (keys_of out)"
        using k(2) by (simp_all add: fresh_def is_function_def Cons)
      show "fst a \<in> set (keys_of out')" "set (keys_of out) \<subseteq> set (keys_of out')"
        unfolding k(1) by (auto simp add: Cons simp del: set_map)
    qed simp
    then show ?thesis by (simp add: p)
  qed
qed

declare taint_loop.simps [simp del]

definition first_frontier :: "library \<Rightarrow> frontier" where
  "first_frontier B = sort (map (\<lambda>i. (i, True)) (filter (\<lambda>i. failing B i \<and> is_function B i) (keys_of (b_status B))))"

definition tainted_functions :: "library \<Rightarrow> tainted" where
  "tainted_functions B = taint_loop B [] (first_frontier B)"

text \<open>The notes, in order: one that uses a failed item, unless it is retired or already there.\<close>

definition taint_note :: "library \<Rightarrow> (string \<Rightarrow> bool) \<Rightarrow> tainted \<Rightarrow> string \<times> string list \<Rightarrow> tainted" where
  "taint_note B failed out p = (case p of (n, us) \<Rightarrow>
     let hit = sort (filter failed us) in
     if hit \<noteq> [] \<and> \<not> is_retired B n \<and> n \<notin> set (keys_of out)
     then out @ [(n, ''uses retired '' @ hd hit, hit)] else out)"

definition taint :: "library \<Rightarrow> tainted" where
  "taint B = (let out = tainted_functions B; tainted = set (keys_of out) in
     foldl (taint_note B (\<lambda>i. failing B i \<or> i \<in> tainted)) out (sort_key fst (b_notes B)))"

section \<open>The taint is the closure\<close>

text \<open>The abstract account: the functions reached from one that failed, through importing modules
  and through fixtures, with no frontier and no flag.\<close>

definition seed :: "library \<Rightarrow> string \<Rightarrow> bool" where
  "seed B s \<longleftrightarrow> failing B s \<and> is_function B s"

definition targets :: "library \<Rightarrow> string \<Rightarrow> string set" where
  "targets B s = set (import_targets B s) \<union> set (consumer_targets B s)"

inductive depends :: "library \<Rightarrow> string \<Rightarrow> bool" for B where
  on_failed: "seed B s \<Longrightarrow> f \<in> targets B s \<Longrightarrow> \<not> is_retired B f \<Longrightarrow> depends B f"
| on_tainted: "depends B s \<Longrightarrow> f \<in> targets B s \<Longrightarrow> \<not> is_retired B f \<Longrightarrow> depends B f"

definition covered :: "library \<Rightarrow> string set \<Rightarrow> string list \<Rightarrow> bool" where
  "covered B keys fs \<longleftrightarrow> (\<forall>f\<in>set fs. \<not> is_retired B f \<longrightarrow> f \<in> keys)"

lemma covered_mono: "covered B K fs \<Longrightarrow> K \<subseteq> K' \<Longrightarrow> covered B K' fs"
  by (auto simp: covered_def)

definition taken :: "tainted \<times> frontier \<Rightarrow> string set" where
  "taken st = set (keys_of (fst st))"

lemma mark_mono: "taken st \<subseteq> taken (mark B w s imp st f)"
  by (cases st) (auto simp: mark_def taken_def)

lemma fold_mono:
  assumes "\<And>st x. taken st \<subseteq> taken (h st x)" shows "taken st \<subseteq> taken (foldl h st xs)"
proof (induction xs arbitrary: st)
  case (Cons x xs)
  from assms [of st x] Cons [of "h st x"] show ?case by simp
qed simp

lemma marks_mono: "taken st \<subseteq> taken (foldl (mark B w s imp) st fs)"
  by (rule fold_mono) (rule mark_mono)

lemma marks_cover: "covered B (taken (foldl (mark B w s imp) st fs)) fs"
proof (induction fs arbitrary: st)
  case (Cons g fs)
  have "g \<in> taken (mark B w s imp st g)" if "\<not> is_retired B g"
    using that by (cases st) (auto simp: mark_def taken_def)
  then have "g \<in> taken (foldl (mark B w s imp) (mark B w s imp st g) fs)" if "\<not> is_retired B g"
    using that by (blast intro: marks_mono [THEN subsetD])
  with Cons [of "mark B w s imp st g"] show ?case by (simp add: covered_def)
qed (simp add: covered_def)

lemma marks_new:
  "set (snd (foldl (mark B w s imp) st fs)) \<subseteq> set (snd st) \<union> {(f, imp) |f. f \<in> set fs}"
proof (induction fs arbitrary: st)
  case (Cons g fs)
  have "set (snd (mark B w s imp st g)) \<subseteq> set (snd st) \<union> {(g, imp)}"
    by (cases st) (auto simp: mark_def)
  then show ?case using Cons [of "mark B w s imp st g"] by auto
qed simp

lemma one_mono: "taken st \<subseteq> taken (taint_one B st p)"
proof (cases p)
  case (Pair s imp)
  have "taken st \<subseteq> taken (if imp then foldl (mark B IMPORT_WHY s False) st (import_targets B s) else st)"
    by (simp add: marks_mono)
  from subset_trans [OF this marks_mono] show ?thesis by (simp add: taint_one_def Pair)
qed

lemma one_cover:
  "covered B (taken (taint_one B st (s, imp))) (consumer_targets B s)"
  "imp \<Longrightarrow> covered B (taken (taint_one B st (s, imp))) (import_targets B s)"
  unfolding taint_one_def prod.case
  by (rule marks_cover) (simp, rule covered_mono [OF marks_cover marks_mono])

lemma one_new:
  "(f, i) \<in> set (snd (taint_one B st (s, imp))) \<Longrightarrow> (f, i) \<in> set (snd st) \<or>
     (i \<and> f \<in> set (consumer_targets B s)) \<or> (\<not> i \<and> imp \<and> f \<in> set (import_targets B s))"
  unfolding taint_one_def
  by (auto dest!: marks_new [THEN subsetD] split: if_splits)

lemma round_cover:
  assumes "(s, imp) \<in> set fr"
  shows "covered B (taken (taint_round B out fr)) (consumer_targets B s)"
    "imp \<Longrightarrow> covered B (taken (taint_round B out fr)) (import_targets B s)"
proof -
  obtain l r where fr: "fr = l @ (s, imp) # r" using assms by (metis split_list)
  define st where "st = foldl (taint_one B) (out, []) l"
  have m: "taken (taint_one B st (s, imp)) \<subseteq> taken (taint_round B out fr)"
    unfolding taint_round_def fr foldl_append foldl_Cons st_def by (rule fold_mono) (rule one_mono)
  show "covered B (taken (taint_round B out fr)) (consumer_targets B s)"
    by (rule covered_mono [OF one_cover(1) m])
  show "covered B (taken (taint_round B out fr)) (import_targets B s)" if imp
    by (rule covered_mono [OF one_cover(2) [OF that] m])
qed

lemma round_new:
  assumes "(f, i) \<in> set (snd (taint_round B out fr))"
  shows "\<exists>s imp. (s, imp) \<in> set fr \<and>
    ((i \<and> f \<in> set (consumer_targets B s)) \<or> (\<not> i \<and> imp \<and> f \<in> set (import_targets B s)))"
proof -
  have "(f, i) \<in> set (snd (foldl (taint_one B) st fr)) \<Longrightarrow> (f, i) \<in> set (snd st) \<or> (\<exists>s imp. (s, imp) \<in> set fr \<and>
    ((i \<and> f \<in> set (consumer_targets B s)) \<or> (\<not> i \<and> imp \<and> f \<in> set (import_targets B s))))" for st
  proof (induction fr arbitrary: st)
    case (Cons p fr)
    obtain s imp where p: "p = (s, imp)" by (cases p)
    from Cons.IH [of "taint_one B st p"] Cons.prems show ?case
      using one_new [of f i B st s imp] unfolding p by auto
  qed simp
  then show ?thesis using assms unfolding taint_round_def by (metis empty_iff list.set(1) snd_conv)
qed

definition import_dag :: "library \<Rightarrow> bool" where
  "import_dag B \<longleftrightarrow> acyclic (imports_rel (b_graph B)) \<and> distinct (keys_of (b_functions B))"

definition module_of :: "library \<Rightarrow> string \<Rightarrow> string" where
  "module_of B s = dict_get (b_functions B) s []"

lemma in_import_targets:
  "f \<in> set (import_targets B s) \<longleftrightarrow> (\<exists>fm. (f, fm) \<in> set (b_functions B) \<and> fm \<noteq> module_of B s \<and>
     (fm, module_of B s) \<in> (imports_rel (b_graph B))\<^sup>*)"
  by (force simp: import_targets_def functions_in_def module_of_def Let_def dependants_set)

lemma import_targets_trans:
  assumes dag: "import_dag B" and f: "f \<in> set (import_targets B s)" and g: "g \<in> set (import_targets B f)"
  shows "g \<in> set (import_targets B s)"
proof -
  obtain fm where f: "(f, fm) \<in> set (b_functions B)" "fm \<noteq> module_of B s"
      "(fm, module_of B s) \<in> (imports_rel (b_graph B))\<^sup>*"
    using f unfolding in_import_targets by blast
  have "module_of B f = fm" using f(1) dag by (simp add: module_of_def dict_get_def import_dag_def)
  then obtain gm where g: "(g, gm) \<in> set (b_functions B)" "gm \<noteq> fm" "(gm, fm) \<in> (imports_rel (b_graph B))\<^sup>*"
    using g unfolding in_import_targets by blast
  have "antisym ((imports_rel (b_graph B))\<^sup>*)"
    using dag by (simp add: import_dag_def acyclic_impl_antisym_rtrancl)
  then have "gm \<noteq> module_of B s" using f(2,3) g(3) by (auto dest: antisymD)
  then show ?thesis unfolding in_import_targets using f(3) g by (blast intro: rtrancl_trans)
qed

definition source_in :: "library \<Rightarrow> string set \<Rightarrow> string \<Rightarrow> bool" where
  "source_in B K s \<longleftrightarrow> seed B s \<or> s \<in> K"

definition taint_inv :: "library \<Rightarrow> string set \<Rightarrow> frontier \<Rightarrow> bool" where
  "taint_inv B K fr \<longleftrightarrow>
    (\<forall>s i. (s, i) \<in> set fr \<longrightarrow> source_in B K s) \<and> (\<forall>f\<in>K. depends B f) \<and>
    (\<forall>s. source_in B K s \<longrightarrow> s \<notin> fst ` set fr \<longrightarrow> covered B K (consumer_targets B s)) \<and>
    (\<forall>s. source_in B K s \<longrightarrow> (s, True) \<notin> set fr \<longrightarrow> covered B K (import_targets B s))"

lemma depends_source:
  "source_in B K s \<Longrightarrow> \<forall>f\<in>K. depends B f \<Longrightarrow> f \<in> targets B s \<Longrightarrow> \<not> is_retired B f \<Longrightarrow> depends B f"
  unfolding source_in_def by (blast intro: depends.intros)

lemma taint_inv_round:
  assumes dag: "import_dag B" and inv: "taint_inv B (set (keys_of out)) fr"
  shows "taint_inv B (taken (taint_round B out fr)) (snd (taint_round B out fr))"
proof -
  obtain out' nxt where r: "taint_round B out fr = (out', nxt)" by (cases "taint_round B out fr")
  define K where "K = set (keys_of out)"
  define K' where "K' = taken (taint_round B out fr)"
  have K': "K' = K \<union> fst ` set nxt" and fresh: "fresh B K nxt"
    using round_keys [OF r] by (auto simp: K_def K'_def r taken_def)
  have cons: "covered B K' (consumer_targets B s)" if "(s, i) \<in> set fr" for s i
    unfolding K'_def by (rule round_cover(1) [OF that])
  have imps: "covered B K' (import_targets B s)" if "(s, True) \<in> set fr" for s
    unfolding K'_def by (rule round_cover(2) [OF that]) simp
  have new: "\<exists>s imp. (s, imp) \<in> set fr \<and> ((i \<and> f \<in> set (consumer_targets B s)) \<or>
      (\<not> i \<and> imp \<and> f \<in> set (import_targets B s)))" if "(f, i) \<in> set nxt" for f i
    using round_new [of f i B out fr] that by (simp add: r)
  note I = inv [unfolded taint_inv_def, folded K_def]
  have 1: "source_in B K' s" if "(s, i) \<in> set nxt" for s i
    using that by (force simp: source_in_def K')
  have 2: "depends B f" if "f \<in> K'" for f
  proof (cases "f \<in> K")
    case False
    then have "f \<in> fst ` set nxt" using that K' by blast
    then obtain i where i: "(f, i) \<in> set nxt" by auto
    then have "\<not> is_retired B f" using fresh by (force simp: fresh_def)
    then show ?thesis using new [OF i] I depends_source [of B K _ f] by (auto simp: targets_def)
  qed (use I in blast)
  have 3: "covered B K' (consumer_targets B s)" if "source_in B K' s" "s \<notin> fst ` set nxt" for s
  proof (cases "s \<in> fst ` set fr")
    case False
    have "source_in B K s" using that by (auto simp: source_in_def K')
    then show ?thesis using I False covered_mono [of B K _ K'] by (auto simp: K')
  qed (use cons in auto)
  have 4: "covered B K' (import_targets B s)" if s: "source_in B K' s" "(s, True) \<notin> set nxt" for s
  proof (cases "source_in B K s")
    case True
    then show ?thesis using I imps covered_mono [of B K _ K'] by (cases "(s, True) \<in> set fr") (auto simp: K')
  next
    case False
    then have "(s, False) \<in> set nxt" using s by (auto simp: source_in_def K') (metis (full_types))
    from new [OF this] obtain q where q: "(q, True) \<in> set fr" "s \<in> set (import_targets B q)" by auto
    then show ?thesis using imps [OF q(1)] import_targets_trans [OF dag q(2)] by (simp add: covered_def)
  qed
  have "taint_inv B K' nxt" unfolding taint_inv_def
    by (intro conjI allI impI ballI) (erule 1, erule 2, erule (1) 3, erule (1) 4)
  then show ?thesis by (simp add: K'_def r)
qed

lemma taint_inv_sort: "taint_inv B K (sort fr) = taint_inv B K fr"
  by (simp add: taint_inv_def)

lemma taint_inv_loop:
  "import_dag B \<Longrightarrow> taint_inv B (set (keys_of out)) fr \<Longrightarrow> taint_inv B (set (keys_of (taint_loop B out fr))) []"
proof (induction B out fr rule: taint_loop.induct)
  case (1 B out fr)
  show ?case
  proof (cases "fr = []")
    case True
    then show ?thesis using "1.prems" by (simp add: taint_loop.simps del: set_map)
  next
    case False
    have "taint_inv B (set (keys_of (fst (taint_round B out fr)))) (sort (snd (taint_round B out fr)))"
      using taint_inv_round [OF "1.prems"] by (simp add: taint_inv_sort taken_def del: set_map)
    from "1.IH" [OF False refl "1.prems"(1) this] show ?thesis
      using False by (simp add: taint_loop.simps [of B out fr] Let_def del: set_map)
  qed
qed

lemma seed_frontier: "(s, i) \<in> set (first_frontier B) \<longleftrightarrow> i \<and> seed B s"
proof -
  have "s \<in> set (keys_of (b_status B))" if "seed B s"
    using that by (auto simp: seed_def failing_def is_retired_def dest: map_of_Some_in_keys split: option.splits)
  then show ?thesis by (auto simp: first_frontier_def seed_def)
qed

lemma tainted_functions_inv:
  assumes "import_dag B" shows "taint_inv B (set (keys_of (tainted_functions B))) []"
  unfolding tainted_functions_def
proof (rule taint_inv_loop [OF assms])
  have "s \<in> fst ` set (first_frontier B)" if "seed B s" for s
    using that seed_frontier [of s True B] by force
  then show "taint_inv B (set (keys_of [])) (first_frontier B)"
    by (auto simp: taint_inv_def source_in_def seed_frontier)
qed

lemma tainted_functions_closure:
  assumes "import_dag B" shows "set (keys_of (tainted_functions B)) = {f. depends B f}"
proof -
  define K where "K = set (keys_of (tainted_functions B))"
  note I = tainted_functions_inv [OF assms, folded K_def, unfolded taint_inv_def]
  have step: "f \<in> K" if "source_in B K s" "f \<in> targets B s" "\<not> is_retired B f" for s f
    using I that by (auto simp: covered_def targets_def)
  have "f \<in> K" if "depends B f" for f
    using that by (induction rule: depends.induct) (auto intro: step simp: source_in_def)
  then show ?thesis using I unfolding K_def [symmetric] by blast
qed

lemma taint_notes_keys:
  "set (keys_of (foldl (taint_note B failed) out ns)) = set (keys_of out) \<union>
    {n. \<exists>us. (n, us) \<in> set ns \<and> \<not> is_retired B n \<and> (\<exists>u\<in>set us. failed u)}"
proof (induction ns arbitrary: out)
  case (Cons p ns)
  obtain n us where p: "p = (n, us)" by (cases p)
  have "sort (filter failed us) \<noteq> [] \<longleftrightarrow> (\<exists>u\<in>set us. failed u)"
    by (metis filter_empty_conv set_empty set_sort)
  then have "set (keys_of (taint_note B failed out p)) = set (keys_of out) \<union>
      {k. k = n \<and> \<not> is_retired B n \<and> (\<exists>u\<in>set us. failed u)}"
    by (auto simp: taint_note_def p Let_def)
  then show ?case using Cons [of "taint_note B failed out p"] by (auto simp: p simp del: set_map)
qed simp

text \<open>C38. The taint is exactly the closure it stands for. Where no modules import each other in a
  circle, the items \<open>taint\<close> names are the functions that depend, through importing modules and
  through fixtures, on a function retired by its outcomes, and the notes that use a failed or
  tainted item, each unless it is retired itself: not following the importers of a function
  tainted through the import graph loses none.\<close>

theorem taint_is_closure:
  assumes "import_dag B"
  shows "set (keys_of (taint B)) = {f. depends B f} \<union>
    {n. \<exists>us. (n, us) \<in> set (b_notes B) \<and> \<not> is_retired B n \<and> (\<exists>u\<in>set us. failing B u \<or> depends B u)}"
  unfolding taint_def Let_def taint_notes_keys tainted_functions_closure [OF assms] by simp

definition sample_library :: library where
  "sample_library =
    \<lparr>b_status = [(''f'', ''retired''), (''g'', ''stable''), (''n'', ''on-trial'')],
     b_functions = [(''f'', ''a''), (''g'', ''b''), (''h'', ''a'')], b_graph = [(''b'', [''a''])],
     b_notes = [(''n'', [''g''])], b_rules = [], b_readers = []\<rparr>"

lemma import_dag_sample: "import_dag sample_library"
proof -
  have "imports_rel (b_graph sample_library) = {(''b'', ''a'')}"
    by (auto simp: imports_rel_def importers_def sample_library_def)
  moreover have "acyclic {(''b'', ''a'')}" by (simp add: acyclic_insert) (simp add: acyclic_def)
  ultimately show ?thesis unfolding import_dag_def by (simp add: sample_library_def)
qed

theorem taint_is_closure_witness:
  "keys_of (taint sample_library) = [''g'', ''n''] \<and>
   set (keys_of (taint sample_library)) = {f. depends sample_library f} \<union>
     {n. \<exists>us. (n, us) \<in> set (b_notes sample_library) \<and> \<not> is_retired sample_library n \<and>
       (\<exists>u\<in>set us. failing sample_library u \<or> depends sample_library u)}"
proof (intro conjI)
  show "keys_of (taint sample_library) = [''g'', ''n'']" by code_simp
qed (rule taint_is_closure [OF import_dag_sample])

end
