(* ===== verification/LifecycleMap.thy ===== *)
theory LifecycleMap imports LifecycleTaint
begin

text \<open>
  The next map of the library's items (\<open>unify/memory/lifecycle.py\<close>, \<open>identities\<close> and the identity,
  use and status fields of \<open>next_records\<close>, with \<open>record_from_stored\<close> and \<open>new_uid\<close> of
  \<open>item_records.py\<close>): an item's persistent identity through renames and aliases, the episodes that
  count for its current version, the one decision on its status, what overrides it, and the taint
  laid over the whole map.

  A stored record is a row of JSON values; the hash behind a new uid is a parameter.
\<close>

section \<open>Stored records\<close>

definition LEVELS_NOW :: "level list" where
  "LEVELS_NOW = [Unchecked, ReproducesItsCase, ConfirmedByOutcomes]"

definition in_statuses :: "json \<Rightarrow> bool" where
  "in_statuses v \<longleftrightarrow> list_ex (\<lambda>st. v = JStr (status_name st)) [OnTrial, Adopted, Retired]"

definition in_levels :: "json \<Rightarrow> bool" where
  "in_levels v \<longleftrightarrow> list_ex (\<lambda>l. v = JStr (level_name l)) LEVELS_NOW"

definition status_json :: "json \<Rightarrow> json" where
  "status_json v = (case status_from_stored (Some OnTrial) v of Some st \<Rightarrow> JStr (status_name st) | None \<Rightarrow> JNull)"

definition level_json :: "json \<Rightarrow> json" where
  "level_json v = (case level_from_stored None v of Some l \<Rightarrow> JStr (level_name l) | None \<Rightarrow> JNull)"

definition record_from_stored :: "jrow \<Rightarrow> jrow" where
  "record_from_stored r =
    (let stored = jget r ''status''; lv = jget r ''level'' in
     if in_statuses stored \<and> (lv = JNull \<or> in_levels lv) then r
     else let r1 = dict_put ''status'' (status_json stored) r;
              r2 = (if stored = JStr OLD_CURATOR_STATUS then dict_put ''status_rule'' (JStr CURATE_RULE) r1 else r1)
          in if lv \<noteq> JNull then dict_put ''level'' (level_json lv) r2 else r2)"

section \<open>Identities\<close>

text \<open>A uid and the ids the item had before, oldest first.\<close>

type_synonym identity = "string \<times> string list"

definition new_uid :: "(string \<Rightarrow> string) \<Rightarrow> string \<Rightarrow> string option \<Rightarrow> string" where
  "new_uid hash i changed = take 16 (hash (i @ [char_of (0::nat)] @ str_or_empty changed))"

definition recorded :: "(string \<Rightarrow> string) \<Rightarrow> (string \<times> jrow) list \<Rightarrow> string \<Rightarrow> identity option" where
  "recorded hash prev n = (case map_of prev n of None \<Rightarrow> None
     | Some r \<Rightarrow> Some (
         case as_str (jget r ''uid'') of
           Some uid \<Rightarrow> if uid \<noteq> [] then uid else new_uid hash n (as_str (jget r ''changed_at''))
         | None \<Rightarrow> new_uid hash n (as_str (jget r ''changed_at'')),
         str_items (jget r ''renamed_from'')))"

definition rename_dict :: "(string \<times> string) list \<Rightarrow> (string \<times> string) list" where
  "rename_dict renames = foldl (\<lambda>d (old, new). dict_put new old d) [] renames"

text \<open>The nearest recorded ancestor, and the ids passed through.\<close>

function rename_walk :: "(string \<Rightarrow> identity option) \<Rightarrow> (string \<times> string) list \<Rightarrow> string \<Rightarrow> string list \<Rightarrow>
    string list \<Rightarrow> identity option \<times> string list" where
  "rename_walk rc d name lineage seen =
    (case map_of d name of
       None \<Rightarrow> (None, lineage)
     | Some old \<Rightarrow>
         if old \<in> set seen then (None, lineage)
         else case rc old of
           Some (uid, lin) \<Rightarrow> (Some (uid, lin @ old # lineage), old # lineage)
         | None \<Rightarrow> rename_walk rc d old (old # lineage) (old # seen))"
  by pat_completeness auto

termination
proof (relation "measure (\<lambda>(rc, d, name, lineage, seen). card (snd ` set d - set seen))", simp)
  fix rc :: "string \<Rightarrow> identity option" and d :: "(string \<times> string) list" and name lineage seen old
  assume d: "map_of d name = Some old" "old \<notin> set seen"
  have "old \<in> snd ` set d" using map_of_SomeD [OF d(1)] by force
  then have "card (snd ` set d - set (old # seen)) < card (snd ` set d - set seen)"
    by (rule fresh_card) (use d in auto)
  then show "((rc, d, old, old # lineage, old # seen), rc, d, name, lineage, seen)
      \<in> measure (\<lambda>(rc, d, name, lineage, seen). card (snd ` set d - set seen))" by simp
qed

declare rename_walk.simps [simp del]

definition by_target :: "(string \<times> jrow) list \<Rightarrow> string \<Rightarrow> string list" where
  "by_target aliases i = map fst (filter (\<lambda>(a, row). jget row ''target'' = JStr i) (sort_key fst aliases))"

definition identity_of :: "(string \<Rightarrow> string) \<Rightarrow> (string \<times> jrow) list \<Rightarrow> (string \<times> string option) list \<Rightarrow>
    (string \<times> string) list \<Rightarrow> (string \<times> jrow) list \<Rightarrow> string \<Rightarrow> identity" where
  "identity_of hash prev changed renames aliases i =
    (let rc = recorded hash prev; at = dict_get changed i None in
     case rc i of
       Some found \<Rightarrow> found
     | None \<Rightarrow>
         (case rename_walk rc (rename_dict renames) i [] [i] of
            (Some found, _) \<Rightarrow> found
          | (None, l # ls) \<Rightarrow> (new_uid hash l at, l # ls)
          | (None, []) \<Rightarrow>
              (case List.map_filter (\<lambda>a. map_option (\<lambda>(uid, lin). (uid, lin @ [a])) (rc a)) (by_target aliases i) of
                 found # _ \<Rightarrow> found
               | [] \<Rightarrow> (new_uid hash i at, []))))"

definition identities :: "(string \<Rightarrow> string) \<Rightarrow> string list \<Rightarrow> (string \<times> jrow) list \<Rightarrow> (string \<times> string option) list \<Rightarrow>
    (string \<times> string) list \<Rightarrow> (string \<times> jrow) list \<Rightarrow> (string \<times> identity) list" where
  "identities hash xs prev changed renames aliases =
    map (\<lambda>i. (i, identity_of hash prev changed renames aliases i)) (sort xs)"

text \<open>Every id that stands for a uid, sorted.\<close>

definition names_of :: "(string \<times> identity) list \<Rightarrow> string \<Rightarrow> string list" where
  "names_of ident uid = sorted_set (concat (map (\<lambda>(i, u, lin). if u = uid then i # lin else []) ident))"

definition as_item :: "episode_use \<Rightarrow> string \<Rightarrow> string list \<Rightarrow> episode_use" where
  "as_item f i ids =
    (if i \<in> set (keys_of (eu_items f)) \<or> length ids = 1 then f
     else case List.map_filter (map_of (eu_items f)) ids of
       u # _ \<Rightarrow> f\<lparr>eu_items := dict_put i u (eu_items f)\<rparr>
     | [] \<Rightarrow> f)"

definition counts_add :: "counts \<Rightarrow> counts \<Rightarrow> counts" where
  "counts_add a b =
    \<lparr>n_episodes = n_episodes a + n_episodes b, n_uses = n_uses a + n_uses b, n_seen = n_seen a + n_seen b,
     n_errors = n_errors a + n_errors b, n_refused = n_refused a + n_refused b,
     n_negative = n_negative a + n_negative b, n_positive = n_positive a + n_positive b,
     n_unknown = n_unknown a + n_unknown b, n_runtime = n_runtime a + n_runtime b\<rparr>"

definition combined_use :: "(string \<times> counts) list list \<Rightarrow> (string \<times> counts) list" where
  "combined_use rows = sort_key fst (foldl (\<lambda>out (commit, row).
     dict_put commit (counts_add (dict_get out commit no_counts) row) out) [] (concat rows))"

section \<open>The status of one item\<close>

definition WRITER_RULE :: string where "WRITER_RULE = ''writer''"

record map_input =
  mi_items :: "(string \<times> string) list"
  mi_prev :: "(string \<times> jrow) list"
  mi_facts :: "episode_use list"
  mi_since :: "(string \<times> string list) list"
  mi_changed :: "(string \<times> string option) list"
  mi_functions :: "(string \<times> string) list"
  mi_graph :: module_graph
  mi_notes :: "(string \<times> string list) list"
  mi_verification :: "(string \<times> jrow) list"
  mi_provenance :: "(string \<times> string list) list"
  mi_failure :: "(string \<times> string list) list"
  mi_aliases :: "(string \<times> jrow) list option"
  mi_curations :: "jrow list"
  mi_unknown :: "string list"
  mi_decisions :: "(string \<times> jrow) list option"

text \<open>The fields of a record that follow from the item's identity, use and status.\<close>

record item_record =
  r_item :: string
  r_kind :: string
  r_uid :: string
  r_renamed :: "string list"
  r_changed :: "string option"
  r_alias :: "string option"
  r_use :: "(string \<times> counts) list"
  r_level :: "level option"
  r_episodes :: "string list"
  r_failure_only :: bool
  r_track :: track_record
  r_basis :: "adoption_basis option"
  r_superseded :: "string option"
  r_status :: status
  r_rule :: "string option"
  r_reason :: "string option"
  r_evidence :: "string list"

definition kind_at :: "map_input \<Rightarrow> string \<Rightarrow> string" where
  "kind_at M i = dict_get (mi_items M) i []"

definition old_record :: "map_input \<Rightarrow> string \<Rightarrow> jrow" where
  "old_record M i = record_from_stored (dict_get (mi_prev M) i [])"

definition same_version :: "map_input \<Rightarrow> string \<Rightarrow> bool" where
  "same_version M i \<longleftrightarrow> jget (old_record M i) ''changed_at'' = jopt (dict_get (mi_changed M) i None)"

definition renames_of :: "map_input \<Rightarrow> (string \<times> string) list" where
  "renames_of M = List.map_filter (\<lambda>r.
     if jget r ''action'' = JStr ''rename''
     then (case (as_str (jget r ''item''), as_str (jget r ''target'')) of
             (Some a, Some b) \<Rightarrow> Some (a, b) | _ \<Rightarrow> None)
     else None) (mi_curations M)"

text \<open>The last \<open>retire\<close> row that names the item.\<close>

definition retired_row :: "map_input \<Rightarrow> string \<Rightarrow> jrow option" where
  "retired_row M i = find (\<lambda>r. jget r ''action'' = JStr ''retire'' \<and> jget r ''item'' = JStr i) (rev (mi_curations M))"

definition all_identities :: "(string \<Rightarrow> string) \<Rightarrow> map_input \<Rightarrow> (string \<times> identity) list" where
  "all_identities hash M = identities hash (keys_of (mi_items M)) (mi_prev M) (mi_changed M) (renames_of M)
     (case mi_aliases M of Some a \<Rightarrow> a | None \<Rightarrow> [])"

definition alias_at :: "map_input \<Rightarrow> string \<Rightarrow> string option" where
  "alias_at M i = (case mi_aliases M of
     Some live \<Rightarrow> (case map_of live i of Some row \<Rightarrow> as_str (jget row ''target'') | None \<Rightarrow> None)
   | None \<Rightarrow> as_str (jget (old_record M i) ''alias_of''))"

definition is_alias :: "map_input \<Rightarrow> string \<Rightarrow> bool" where
  "is_alias M i \<longleftrightarrow> str_or_empty (alias_at M i) \<noteq> []"

definition verification_at :: "map_input \<Rightarrow> string \<Rightarrow> json" where
  "verification_at M i = (let v = dict_get (mi_verification M) i [] in
     if v \<noteq> [] then JObj v
     else if same_version M i then jget (old_record M i) ''verification'' else JNull)"

text \<open>A curate pass's retirement carries across versions; any other status only while the version is
  unchanged, and one the writer's decisions gave is read again.\<close>

definition prior_at :: "map_input \<Rightarrow> string \<Rightarrow> string option \<times> string option" where
  "prior_at M i =
    (let r = old_record M i;
         kept = jget r ''status'' = JStr (status_name Retired) \<and> jget r ''status_rule'' = JStr CURATE_RULE;
         carry = same_version M i \<or> kept;
         prior = (if carry then as_str (jget r ''status'') else None);
         rule = (if carry then as_str (jget r ''status_rule'') else None)
     in if mi_decisions M \<noteq> None \<and> rule = Some WRITER_RULE then (None, None) else (prior, rule))"

definition counted_facts :: "map_input \<Rightarrow> string list \<Rightarrow> string \<Rightarrow> episode_use list" where
  "counted_facts M ids i = map (\<lambda>f. as_item f i ids)
     (filter (\<lambda>f. eu_main f \<in> set (dict_get (mi_since M) i [])) (mi_facts M))"

definition UNKNOWN_WHY :: string where
  "UNKNOWN_WHY = ''not promoted to adopted: the commit that last changed it is beyond the scanned history''"

definition decided_at :: "map_input \<Rightarrow> string list \<Rightarrow> string \<Rightarrow> status_row" where
  "decided_at M ids i =
    (case prior_at M i of (prior, prior_rule) \<Rightarrow>
     case decide_status i prior (counted_facts M ids i) prior_rule of (st, rule, reason, evidence) \<Rightarrow>
       if i \<in> set (mi_unknown M) \<and> st = Adopted \<and> prior \<noteq> Some (status_name Adopted)
       then (OnTrial, None, Some UNKNOWN_WHY, []) else (st, rule, reason, evidence))"

definition writer_row :: "map_input \<Rightarrow> string \<Rightarrow> jrow option" where
  "writer_row M i = (case mi_decisions M of None \<Rightarrow> None | Some d \<Rightarrow>
     (case map_of d i of
        Some wd \<Rightarrow> if jget wd ''status'' = JStr ''retired'' \<or> jget wd ''status'' = JStr ''superseded''
                   then Some wd else None
      | None \<Rightarrow> None))"

definition superseded_by :: "jrow \<Rightarrow> string option" where
  "superseded_by wd = (if jget wd ''status'' = JStr ''superseded'' then as_str (jget wd ''by'') else None)"

definition writer_reason :: "jrow \<Rightarrow> string" where
  "writer_reason wd =
    (if str_or_empty (superseded_by wd) \<noteq> [] then ''superseded by '' @ str_or_empty (superseded_by wd) else ''retired'') @
     '' by the writer ('' @
     (if str_or_empty (as_str (jget wd ''ref'')) \<noteq> [] then str_or_empty (as_str (jget wd ''ref'')) else ''a decision'') @ '')''"

text \<open>An alias, a curate pass's retirement and the writer's decision, in that order.\<close>

definition overridden :: "map_input \<Rightarrow> string \<Rightarrow> status_row \<Rightarrow> status_row" where
  "overridden M i row =
    (if is_alias M i then (Retired, Some CURATE_RULE, Some (''an alias of '' @ str_or_empty (alias_at M i)), [])
     else case retired_row M i of
       Some r \<Rightarrow> (Retired, Some CURATE_RULE, Some (strip (''retired: '' @ str_or_empty (as_str (jget r ''reason'')))), [])
     | None \<Rightarrow> (case writer_row M i of
         Some wd \<Rightarrow> (Retired, Some WRITER_RULE, Some (writer_reason wd), [])
       | None \<Rightarrow> row))"

definition flagged_at :: "map_input \<Rightarrow> string \<Rightarrow> string list" where
  "flagged_at M i = sort (dict_get (mi_failure M) i [])"

definition FAILURE_RULE :: string where "FAILURE_RULE = ''failure_only''"

definition failure_reason :: "nat \<Rightarrow> string" where
  "failure_reason n = ''failure-only provenance: its '' @ show_nat n @
     '' source episodes all ended with negative signals; it belongs in a note''"

definition failure_checked :: "map_input \<Rightarrow> string \<Rightarrow> status_row \<Rightarrow> status_row" where
  "failure_checked M i row = (let flagged = flagged_at M i in
     if fst row \<noteq> Retired \<and> kind_at M i = ''function'' \<and> MIN_EPISODES \<le> length flagged
     then (Retired, Some FAILURE_RULE, Some (failure_reason (length flagged)), flagged) else row)"

section \<open>The map\<close>

definition ids_at :: "(string \<Rightarrow> string) \<Rightarrow> map_input \<Rightarrow> string \<Rightarrow> string list" where
  "ids_at hash M i = (let ident = all_identities hash M in
     names_of ident (fst (dict_get ident i ([], []))))"

definition final_row :: "map_input \<Rightarrow> string list \<Rightarrow> string \<Rightarrow> status_row" where
  "final_row M ids i = failure_checked M i (overridden M i (decided_at M ids i))"

definition source_episodes :: "map_input \<Rightarrow> string list \<Rightarrow> string \<Rightarrow> string list" where
  "source_episodes M ids i = foldl (\<lambda>eps n. if n = i then eps
       else eps @ filter (\<lambda>e. e \<notin> set eps) (dict_get (mi_provenance M) n []))
     (dict_get (mi_provenance M) i []) ids"

definition prior_status :: "map_input \<Rightarrow> string \<Rightarrow> status option" where
  "prior_status M i = (case fst (prior_at M i) of None \<Rightarrow> None | Some s \<Rightarrow> status_from_stored None (JStr s))"

text \<open>One turn of the loop over the items: the level moves only when the gate set one.\<close>

definition next_record :: "(string \<Rightarrow> string) \<Rightarrow> map_input \<Rightarrow> string \<Rightarrow> item_record" where
  "next_record hash M i =
    (let ident = all_identities hash M; (uid, lineage) = dict_get ident i ([], []);
         ids = names_of ident uid; used = aggregate_use (mi_facts M); mine = counted_facts M ids i;
         lv = (if kind_at M i = ''function'' then Some (level_of_record (verification_at M i)) else None);
         (out, tr) = item_outcome i (prior_status M i) mine lv;
         (raw, _, _, _) = (case prior_at M i of (prior, prior_rule) \<Rightarrow> decide_status i prior mine prior_rule);
         (fin, rule, reason, evidence) = final_row M ids i
     in \<lparr>r_item = i, r_kind = kind_at M i, r_uid = uid, r_renamed = lineage,
         r_changed = dict_get (mi_changed M) i None, r_alias = alias_at M i,
         r_use = (if ids = [i] then dict_get used i [] else combined_use (map (\<lambda>n. dict_get used n []) ids)),
         r_level = (if lv \<noteq> None then o_level out else None),
         r_episodes = source_episodes M ids i, r_failure_only = (flagged_at M i \<noteq> []), r_track = tr,
         r_basis = (if raw = Adopted then o_basis out else None),
         r_superseded = (if is_alias M i \<or> retired_row M i \<noteq> None then None else case writer_row M i of
            Some wd \<Rightarrow> if str_or_empty (superseded_by wd) \<noteq> [] then superseded_by wd else None
          | None \<Rightarrow> None),
         r_status = fin, r_rule = rule, r_reason = reason, r_evidence = evidence\<rparr>)"

definition base_records :: "(string \<Rightarrow> string) \<Rightarrow> map_input \<Rightarrow> (string \<times> item_record) list" where
  "base_records hash M = map (\<lambda>i. (i, next_record hash M i)) (sort (keys_of (mi_items M)))"

definition current_library :: "map_input \<Rightarrow> (string \<times> item_record) list \<Rightarrow> library" where
  "current_library M rs =
    \<lparr>b_status = map (\<lambda>(i, r). (i, status_name (r_status r))) rs, b_functions = mi_functions M,
     b_graph = mi_graph M, b_notes = mi_notes M, b_rules = map (\<lambda>(i, r). (i, r_rule r)) rs, b_readers = []\<rparr>"

definition TAINT_RULE :: string where "TAINT_RULE = ''taint''"

text \<open>A tainted item the map does not have raises a \<open>KeyError\<close>.\<close>

definition lay_taint :: "(string \<times> item_record) list \<Rightarrow> string \<times> (string \<times> string list) \<Rightarrow>
    unit + (string \<times> item_record) list" where
  "lay_taint rs t = (case t of (i, why, behind) \<Rightarrow>
     case map_of rs i of
       None \<Rightarrow> Inl ()
     | Some r \<Rightarrow> Inr (dict_put i (r\<lparr>r_status := Retired, r_rule := Some TAINT_RULE, r_reason := Some why,
         r_evidence := behind\<rparr>) rs))"

definition next_records :: "(string \<Rightarrow> string) \<Rightarrow> map_input \<Rightarrow> unit + (string \<times> item_record) list" where
  "next_records hash M = (let rs = base_records hash M in fold_r lay_taint rs (taint (current_library M rs)))"

definition status_in :: "map_input \<Rightarrow> string \<Rightarrow> status" where
  "status_in M i = (case status_from_stored (Some OnTrial) (jget (dict_get (mi_prev M) i []) ''status'') of
     Some st \<Rightarrow> st | None \<Rightarrow> OnTrial)"

definition status_changes :: "map_input \<Rightarrow> (string \<times> item_record) list \<Rightarrow> (string \<times> status) list" where
  "status_changes M rs = List.map_filter (\<lambda>(i, r).
     if r_status r \<noteq> status_in M i then Some (i, r_status r) else None) rs"

section \<open>What an adopted item has\<close>

lemma map_of_lay_taint:
  "lay_taint rs (i, why, behind) = Inr rs' \<Longrightarrow> map_of rs' k = Some r \<Longrightarrow> r_status r \<noteq> Retired \<Longrightarrow>
     k \<noteq> i \<and> map_of rs k = Some r"
  by (auto simp: lay_taint_def split: option.splits if_splits)

lemma laid_taint:
  "fold_r lay_taint rs ts = Inr rs' \<Longrightarrow> map_of rs' k = Some r \<Longrightarrow> r_status r \<noteq> Retired \<Longrightarrow>
     k \<notin> set (keys_of ts) \<and> map_of rs k = Some r"
proof (induction ts arbitrary: rs)
  case (Cons t ts)
  obtain i why behind where t: "t = (i, why, behind)" by (cases t)
  obtain rs1 where 1: "lay_taint rs t = Inr rs1" "fold_r lay_taint rs1 ts = Inr rs'"
    using Cons.prems(1) by auto
  note 2 = Cons.IH [OF 1(2) Cons.prems(2,3)]
  show ?case using map_of_lay_taint [OF 1(1) [unfolded t], of k r] 2 Cons.prems(3) by (simp add: t)
qed simp

lemma base_record: "map_of (base_records hash M) k = Some r \<Longrightarrow> r = next_record hash M k"
  unfolding base_records_def map_of_map_restrict by (auto simp: restrict_map_def split: if_splits)

lemma next_record_status: "r_status (next_record hash M i) = fst (final_row M (ids_at hash M i) i)"
  by (simp add: next_record_def ids_at_def Let_def split: prod.split)

lemma prior_adopted_same:
  assumes "prior_status M i = Some Adopted" shows "same_version M i"
proof (rule ccontr)
  assume n: "\<not> same_version M i"
  have "fst (prior_at M i) \<noteq> None" using assms by (cases "fst (prior_at M i)") (simp_all add: prior_status_def)
  then have "fst (prior_at M i) = Some (status_name Retired)"
    using n by (auto simp: prior_at_def Let_def split: if_splits)
  then show False using assms by (simp add: prior_status_def status_from_stored_def)
qed

lemma decided_adopted:
  assumes "fst (decided_at M ids i) = Adopted"
  shows "prior_status M i = Some Adopted \<or>
    (i \<notin> set (mi_unknown M) \<and> K_STABLE \<le> card (using_episodes i (counted_facts M ids i)))"
proof -
  obtain prior rule where p: "prior_at M i = (prior, rule)" by (cases "prior_at M i")
  have row: "fst (decide_status i prior (counted_facts M ids i) rule) = Adopted"
    "\<not> (i \<in> set (mi_unknown M) \<and> prior \<noteq> Some (status_name Adopted))"
    using assms by (auto simp: decided_at_def p split: prod.splits if_splits)
  note cases = decide_status_cases [where item = i and prior = prior and facts = "counted_facts M ids i" and rule = rule,
    unfolded row(1), simplified]
  have st: "status_from_stored None (JStr (status_name Adopted)) = Some Adopted" by (rule status_roundtrip)
  have pr: "fst (prior_of prior rule) = prior_status M i" if "\<not> curated prior rule"
    using that by (auto simp: prior_of_def curated_def prior_status_def p)
  show ?thesis
  proof (cases "i \<in> set (mi_unknown M)")
    case True
    then have "prior = Some (status_name Adopted)" using row(2) by blast
    then show ?thesis using st by (simp add: prior_status_def p)
  next
    case False
    then show ?thesis using cases pr by auto
  qed
qed

lemma final_adopted:
  assumes "fst (final_row M ids i) = Adopted"
  shows "\<not> is_alias M i" "retired_row M i = None" "writer_row M i = None"
    "kind_at M i = ''function'' \<Longrightarrow> length (flagged_at M i) < MIN_EPISODES"
    "fst (decided_at M ids i) = Adopted"
  using assms
  by (auto simp: final_row_def failure_checked_def overridden_def Let_def split: if_splits option.splits)

text \<open>C39. An item the next map shows as adopted has earned it: no curate pass retired it or made it
  an alias, the writer neither retired nor superseded it, a function's provenance is not
  failure-only in two episodes, nothing that failed taints it, and either this same version was
  adopted before or its current version, whose commit is known, returned from calls in at least
  three distinct episodes pinned to that version.\<close>

theorem adopted_record_earned:
  assumes "next_records hash M = Inr rs" "map_of rs i = Some r" "r_status r = Adopted"
  shows "\<not> is_alias M i \<and> retired_row M i = None \<and> writer_row M i = None \<and>
    (kind_at M i = ''function'' \<longrightarrow> length (flagged_at M i) < MIN_EPISODES) \<and>
    i \<notin> set (keys_of (taint (current_library M (base_records hash M)))) \<and>
    (prior_status M i = Some Adopted \<and> same_version M i \<or>
     i \<notin> set (mi_unknown M) \<and> K_STABLE \<le> card (using_episodes i (counted_facts M (ids_at hash M i) i)))"
proof -
  have l: "i \<notin> set (keys_of (taint (current_library M (base_records hash M))))"
      "map_of (base_records hash M) i = Some r"
    using laid_taint [OF assms(1) [unfolded next_records_def Let_def] assms(2)] assms(3) by simp_all
  have f: "fst (final_row M (ids_at hash M i) i) = Adopted"
    using assms(3) unfolding base_record [OF l(2)] next_record_status .
  note f = final_adopted [OF f]
  show ?thesis using l(1) f decided_adopted [OF f(5)] prior_adopted_same by blast
qed

definition sample_map :: map_input where
  "sample_map = \<lparr>mi_items = [(''f'', ''function''), (''g'', ''function'')],
     mi_prev = [(''f'', [(''status'', JStr ''adopted''), (''changed_at'', JStr ''c''), (''uid'', JStr ''u'')])],
     mi_facts = [], mi_since = [], mi_changed = [(''f'', Some ''c''), (''g'', Some ''d'')],
     mi_functions = [(''f'', ''a''), (''g'', ''b'')], mi_graph = [], mi_notes = [], mi_verification = [],
     mi_provenance = [], mi_failure = [], mi_aliases = None, mi_curations = [], mi_unknown = [],
     mi_decisions = None\<rparr>"

definition sample_records :: "(string \<times> item_record) list" where
  "sample_records = (case next_records (\<lambda>s. s) sample_map of Inr rs \<Rightarrow> rs | Inl e \<Rightarrow> [])"

theorem adopted_record_earned_witness:
  "prior_status sample_map ''f'' = Some Adopted \<and> same_version sample_map ''f'' \<or>
    ''f'' \<notin> set (mi_unknown sample_map) \<and>
    K_STABLE \<le> card (using_episodes ''f'' (counted_facts sample_map (ids_at (\<lambda>s. s) sample_map ''f'') ''f''))"
proof -
  have n: "next_records (\<lambda>s. s) sample_map = Inr sample_records" by code_simp
  obtain r where r: "map_of sample_records ''f'' = Some r" "r_status r = Adopted"
  proof (rule that)
    show "map_of sample_records ''f'' = Some (next_record (\<lambda>s. s) sample_map ''f'')" by code_simp
    show "r_status (next_record (\<lambda>s. s) sample_map ''f'') = Adopted" by code_simp
  qed
  show ?thesis using adopted_record_earned [OF n r] by blast
qed

end
