(* ===== verification/Consolidation.thy ===== *)
theory Consolidation imports AttentionDecisions LifecycleMap
begin

text \<open>
  The attention ledger and the item lifecycle together: the map built from the writer's decisions
  as the ledger's close rows give them (\<open>next_records\<close> called with \<open>item_decisions\<close>,
  \<open>_writer_decisions\<close> of \<open>unify/memory/lifecycle.py\<close>).
\<close>

section \<open>The rule of an item's status\<close>

lemma RULE_not_writer: "fst (RULE w) \<noteq> WRITER_RULE"
  by (cases w) (simp_all add: WRITER_RULE_def)

lemma decide_rule: "d_rule (decide us prior) \<noteq> Some WRITER_RULE"
  by (auto simp: decide_def Let_def WRITER_RULE_def split: option.split prod.split
      dest: arg_cong [where f = fst] simp: RULE_not_writer [unfolded WRITER_RULE_def, simplified])

lemma decide_status_rule: "fst (snd (decide_status i prior facts rule)) \<noteq> Some WRITER_RULE"
  by (auto simp: decide_status_def item_outcome_def apply_outcome_def Let_def CURATE_RULE_def WRITER_RULE_def
      decide_rule [unfolded WRITER_RULE_def] split: prod.split)

lemma decided_rule: "fst (snd (decided_at M ids i)) \<noteq> Some WRITER_RULE"
proof -
  obtain prior rule where p: "prior_at M i = (prior, rule)" by (cases "prior_at M i")
  show ?thesis using decide_status_rule [of i prior "counted_facts M ids i" rule]
    by (cases "decide_status i prior (counted_facts M ids i) rule") (simp add: decided_at_def p)
qed

lemma final_writer_rule:
  "fst (snd (final_row M ids i)) = Some WRITER_RULE \<Longrightarrow> writer_row M i \<noteq> None"
  using decided_rule [of M ids i]
  by (auto simp: final_row_def failure_checked_def overridden_def Let_def CURATE_RULE_def WRITER_RULE_def
      FAILURE_RULE_def split: if_splits option.splits)

lemma final_writer_retired: "writer_row M i \<noteq> None \<Longrightarrow> fst (final_row M ids i) = Retired"
  by (auto simp: final_row_def failure_checked_def overridden_def Let_def split: option.split)

lemma next_record_rule: "r_rule (next_record hash M i) = fst (snd (final_row M (ids_at hash M i) i))"
  by (simp add: next_record_def ids_at_def Let_def split: prod.split)

lemma map_of_laid:
  "fold_r lay_taint rs ts = Inr rs' \<Longrightarrow> map_of rs' k = Some r \<Longrightarrow>
     map_of rs k = Some r \<or> (r_status r = Retired \<and> r_rule r = Some TAINT_RULE)"
proof (induction ts arbitrary: rs)
  case (Cons t ts)
  obtain i why behind where t: "t = (i, why, behind)" by (cases t)
  obtain rs1 where 1: "lay_taint rs t = Inr rs1" "fold_r lay_taint rs1 ts = Inr rs'"
    using Cons.prems(1) by auto
  show ?case using Cons.IH [OF 1(2) Cons.prems(2)] 1(1)
    by (auto simp: lay_taint_def t split: option.splits if_splits)
qed simp

section \<open>The writer's decisions in the map\<close>

definition writer_retired :: "jrow list \<Rightarrow> string \<Rightarrow> bool" where
  "writer_retired rows i \<longleftrightarrow> library_item i \<and>
     (case latest_said rows i of Some (r, s) \<Rightarrow> s \<noteq> Said_Kept | None \<Rightarrow> False)"

lemma writer_row_decisions:
  assumes "mi_decisions M = Some (item_decisions rows)"
  shows "writer_row M i \<noteq> None \<longleftrightarrow> writer_retired rows i"
proof -
  have "said_status s = ''retired'' \<or> said_status s = ''superseded'' \<longleftrightarrow> s \<noteq> Said_Kept" for s
    by (cases s) simp_all
  then show ?thesis
    unfolding writer_row_def assms option.case item_decisions_said writer_retired_def
    by (auto simp: decision_doc_def jget_def split: option.splits prod.splits)
qed

text \<open>C40. The writer's decisions govern the map. With the map built from the ledger's decisions, an item
  whose latest decision retired it or merged it into another is shown as retired, whatever its
  record or its uses say; and the rule \<open>writer\<close> is shown for no other item, so a decision a later
  one undid does not live on in the record.\<close>

theorem writer_decisions_govern:
  assumes "mi_decisions M = Some (item_decisions rows)" "next_records hash M = Inr rs" "map_of rs i = Some r"
  shows "(writer_retired rows i \<longrightarrow> r_status r = Retired) \<and> (r_rule r = Some WRITER_RULE \<longrightarrow> writer_retired rows i)"
proof -
  note w = writer_row_decisions [OF assms(1), of i]
  from map_of_laid [OF assms(2) [unfolded next_records_def Let_def] assms(3)] show ?thesis
  proof
    assume "map_of (base_records hash M) i = Some r"
    then have r: "r = next_record hash M i" by (rule base_record)
    show ?thesis using final_writer_rule [of M "ids_at hash M i" i] final_writer_retired [of M i "ids_at hash M i"]
      unfolding r next_record_status next_record_rule w by blast
  qed (simp add: TAINT_RULE_def WRITER_RULE_def)
qed

definition retire_rows :: "jrow list" where
  "retire_rows = [[(''op'', JStr ''close''), (''entry'', JStr ''e''), (''decision'', JStr ''retire''),
     (''items'', jstrs [''f'']), (''reason_ref'', JStr ''pass:p/decisions.jsonl#1''), (''at'', JStr ''t'')]]"

definition decided_map :: map_input where
  "decided_map = sample_map\<lparr>mi_decisions := Some (item_decisions retire_rows)\<rparr>"

theorem writer_decisions_govern_witness:
  "\<exists>r. map_of (base_records (\<lambda>s. s) decided_map) ''f'' = Some r \<and> writer_retired retire_rows ''f'' \<and>
     r_status r = Retired \<and> r_rule r = Some WRITER_RULE"
proof -
  define r where "r = next_record (\<lambda>s. s) decided_map ''f''"
  have n: "next_records (\<lambda>s. s) decided_map = Inr (base_records (\<lambda>s. s) decided_map)" by code_simp
  have m: "map_of (base_records (\<lambda>s. s) decided_map) ''f'' = Some r" unfolding r_def by code_simp
  have w: "r_rule r = Some WRITER_RULE" unfolding r_def by code_simp
  have d: "mi_decisions decided_map = Some (item_decisions retire_rows)" by (simp add: decided_map_def)
  from writer_decisions_govern [OF d n m] show ?thesis using m w by blast
qed

end
