(* ===== verification/RunEntry.thy ===== *)
theory RunEntry imports AttentionLog Layout
begin

text \<open>
  One entry of the run record (\<open>unify/agents/entry.py\<close>, with \<open>row_of\<close>, \<open>cut_to\<close> of
  \<open>unify/agents/run_record.py\<close> and \<open>fit_text\<close> of \<open>unify/agents/record.py\<close>): names, the
  mentions in a text, the row an entry is written as and read from, and the cutting of a text to a
  number of UTF-8 bytes. Characters are Latin-1 code points; sizes are integers.
\<close>

section \<open>Names and mentions\<close>

definition ENTRY_KINDS :: "string list" where
  "ENTRY_KINDS = [''post'', ''reply'', ''cancel'', ''system'']"

definition MAX_TEXT_BYTES :: int where "MAX_TEXT_BYTES = 16 * 1024"

definition newline :: char where "newline = char_of (10::nat)"

definition lower_name_char :: "char \<Rightarrow> bool" where
  "lower_name_char c \<longleftrightarrow> is_lower c \<or> is_digit c"

text \<open>\<open>[a-z0-9](?:[a-z0-9-]{0,30}[a-z0-9])?\<close>, the whole of a text.\<close>

definition name_pattern :: "string \<Rightarrow> bool" where
  "name_pattern s \<longleftrightarrow> s \<noteq> [] \<and> length s \<le> 32 \<and> list_all (\<lambda>c. lower_name_char c \<or> c = CHR ''-'') s \<and>
     lower_name_char (hd s) \<and> lower_name_char (last s)"

text \<open>The pattern's \<open>$\<close> also matches before a newline that ends the text.\<close>

definition valid_name :: "string \<Rightarrow> bool" where
  "valid_name s \<longleftrightarrow> name_pattern s \<or> (s \<noteq> [] \<and> last s = newline \<and> name_pattern (butlast s))"

definition to_lower :: "char \<Rightarrow> char" where
  "to_lower c = (if is_upper c then char_of ((of_char c :: nat) + 32) else c)"

text \<open>\<open>\w\<close> over Latin-1.\<close>

definition is_word_any :: "char \<Rightarrow> bool" where
  "is_word_any c \<longleftrightarrow> is_word c \<or> (let n = (of_char c :: nat) in
     n \<in> {170, 178, 179, 181, 185, 186, 188, 189, 190} \<or> (192 \<le> n \<and> n \<noteq> 215 \<and> n \<noteq> 247))"

definition mention_start :: "char option \<Rightarrow> bool" where
  "mention_start prev = (case prev of None \<Rightarrow> True
     | Some c \<Rightarrow> \<not> (is_word_any c \<or> c = CHR ''@'' \<or> c = CHR ''.''))"

definition name_char :: "char \<Rightarrow> bool" where
  "name_char c \<longleftrightarrow> is_lower c \<or> is_upper c \<or> is_digit c"

text \<open>The longest name at the start of a text, any case.\<close>

definition name_at :: "string \<Rightarrow> string" where
  "name_at s = (case s of [] \<Rightarrow> [] | c # t \<Rightarrow>
     if name_char c
     then c # rev (dropWhile (\<lambda>x. x = CHR ''-'') (rev (take 31 (takeWhile (\<lambda>x. name_char x \<or> x = CHR ''-'') t))))
     else [])"

function mentions_from :: "char option \<Rightarrow> string \<Rightarrow> string list" where
  "mentions_from prev [] = []"
| "mentions_from prev (c # s) =
    (if c = CHR ''@'' \<and> mention_start prev \<and> name_at s \<noteq> []
     then map to_lower (name_at s) # mentions_from (Some (last (name_at s))) (drop (length (name_at s)) s)
     else mentions_from (Some c) s)"
  by pat_completeness auto
termination by (relation "measure (\<lambda>(p, s). length s)") auto

definition mention_tokens :: "string \<Rightarrow> string list" where
  "mention_tokens text = dedup (mentions_from None text)"

section \<open>Sizes and cuts\<close>

definition utf8_width :: "char \<Rightarrow> int" where
  "utf8_width c = (if (of_char c :: nat) < 128 then 1 else 2)"

definition utf8_len :: "string \<Rightarrow> int" where
  "utf8_len s = sum_list (map utf8_width s)"

text \<open>\<open>data[:room].decode(errors="ignore")\<close> for a \<open>room\<close> that is not negative.\<close>

fun utf8_take :: "int \<Rightarrow> string \<Rightarrow> string" where
  "utf8_take room [] = []"
| "utf8_take room (c # s) = (if utf8_width c \<le> room then c # utf8_take (room - utf8_width c) s else [])"

text \<open>\<open>data[:room]\<close>: a negative \<open>room\<close> counts from the end.\<close>

definition utf8_cut :: "int \<Rightarrow> string \<Rightarrow> string" where
  "utf8_cut room s = utf8_take (if room < 0 then utf8_len s + room else room) s"

definition fit_note :: "int \<Rightarrow> string \<Rightarrow> string" where
  "fit_note n at = newline # ''[cut: '' @ show_int n @ '' bytes in all; the full text is in '' @ at @ '']''"

definition fit_text :: "string \<Rightarrow> string \<Rightarrow> string" where
  "fit_text text at =
    (if utf8_len text \<le> MAX_TEXT_BYTES then text
     else let note = fit_note (utf8_len text) at in utf8_cut (MAX_TEXT_BYTES - utf8_len note) text @ note)"

definition cut_note :: "string \<Rightarrow> string" where
  "cut_note why = newline # ''[cut: '' @ why @ '']''"

definition cut_to :: "string \<Rightarrow> int \<Rightarrow> string \<Rightarrow> string" where
  "cut_to text limit why =
    (if utf8_len text \<le> limit then text
     else utf8_take (max 0 (limit - utf8_len (cut_note why))) text @ cut_note why)"

section \<open>Entries and their rows\<close>

record run_entry =
  en_seq :: int
  en_ts :: string
  en_author :: string
  en_kind :: string
  en_text :: string
  en_mentions :: "string list"
  en_role :: "string option"
  en_episode :: "string option"
  en_pass :: "string option"
  en_reply_to :: "int option"
  en_refs :: "string list"
  en_acts :: "int option"

definition jint_opt :: "int option \<Rightarrow> json" where
  "jint_opt n = (case n of None \<Rightarrow> JNull | Some k \<Rightarrow> JInt k)"

definition RECORD_VERSION :: int where "RECORD_VERSION = 1"

definition row_of :: "run_entry \<Rightarrow> jrow" where
  "row_of e =
    [(''v'', JInt RECORD_VERSION), (''seq'', JInt (en_seq e)), (''ts'', JStr (en_ts e)),
     (''author'', JStr (en_author e)), (''kind'', JStr (en_kind e)), (''text'', JStr (en_text e)),
     (''mentions'', jstrs (en_mentions e)), (''role'', jopt (en_role e)), (''episode'', jopt (en_episode e)),
     (''pass_id'', jopt (en_pass e)), (''reply_to'', jint_opt (en_reply_to e)), (''refs'', jstrs (en_refs e)),
     (''acts'', jint_opt (en_acts e))]"

text \<open>\<open>str(v)\<close>; and \<open>int(v)\<close> of a JSON value: a whole number, a truth value, or digits with a sign
  and spaces around. A number with a fraction, which no writer writes as a seq, is taken as unreadable.\<close>

definition str_of :: "json \<Rightarrow> string" where
  "str_of v = (case v of JStr s \<Rightarrow> s | _ \<Rightarrow> py_repr v)"

definition digit_value :: "char \<Rightarrow> int" where
  "digit_value c = int (of_char c) - 48"

definition int_text :: "string \<Rightarrow> int option" where
  "int_text s0 = (let s = strip s0;
      ds = (if s \<noteq> [] \<and> hd s \<in> {CHR ''-'', CHR ''+''} then tl s else s);
      n = foldl (\<lambda>n c. 10 * n + digit_value c) 0 ds
    in if ds = [] \<or> \<not> list_all is_digit ds then None
       else Some (if hd s = CHR ''-'' then - n else n))"

fun int_value :: "json \<Rightarrow> int option" where
  "int_value (JInt n) = Some n"
| "int_value (JBool b) = Some (if b then 1 else 0)"
| "int_value (JStr s) = int_text s"
| "int_value _ = None"

text \<open>\<open>tuple(str(x) for x in v or ())\<close>; a value that cannot be iterated raises.\<close>

fun str_tuple :: "json \<Rightarrow> string list option" where
  "str_tuple (JArr xs) = Some (map str_of xs)"
| "str_tuple (JStr s) = Some (map (\<lambda>c. [c]) s)"
| "str_tuple (JObj ps) = Some (map fst ps)"
| "str_tuple v = (if falsy v then Some [] else None)"

text \<open>\<open>Entry.from_dict\<close>; \<open>None\<close> is an error the readers skip the row for.\<close>

definition from_dict :: "jrow \<Rightarrow> run_entry option" where
  "from_dict d =
    (let run = (jget d ''role'' \<noteq> JNull); opt = (\<lambda>k. if run \<and> jget d k \<noteq> JNull then Some (str_of (jget d k)) else None) in
     case (map_of d ''seq'', map_of d ''ts'', map_of d ''author'', map_of d ''kind'', map_of d ''text'') of
       (Some sq, Some ts, Some au, Some kd, Some tx) \<Rightarrow>
         (case (int_value sq, str_tuple (jget d ''mentions''), if run then str_tuple (jget d ''refs'') else Some []) of
            (Some n, Some ms, Some rs) \<Rightarrow> Some
              \<lparr>en_seq = n, en_ts = str_of ts, en_author = str_of au, en_kind = str_of kd, en_text = str_of tx,
               en_mentions = ms, en_role = opt ''role'', en_episode = opt ''episode'', en_pass = opt ''pass_id'',
               en_reply_to = (if run then as_int (jget d ''reply_to'') else None), en_refs = rs,
               en_acts = (if run then as_int (jget d ''acts'') else None)\<rparr>
          | _ \<Rightarrow> None)
     | _ \<Rightarrow> None)"

section \<open>Rows are read back\<close>

lemma jopt_eq [simp]: "jopt x = JNull \<longleftrightarrow> x = None"
  by (cases x) (simp_all add: jopt_def)

lemma str_of_JStr [simp]: "str_of (JStr s) = s"
  by (simp add: str_of_def)

lemma str_of_jopt [simp]: "str_of (jopt (Some x)) = x"
  by (simp add: jopt_def)

lemma as_int_jint_opt [simp]: "as_int (jint_opt n) = n"
  by (cases n) (simp_all add: jint_opt_def)

lemma str_tuple_jstrs [simp]: "str_tuple (jstrs xs) = Some xs"
  by (simp add: jstrs_def comp_def)

lemma entry_reads_back: "en_role e \<noteq> None \<Longrightarrow> from_dict (row_of e) = Some e"
  by (cases "en_role e"; cases "en_episode e"; cases "en_pass e")
    (simp_all add: from_dict_def row_of_def jget_def Let_def)

section \<open>Sizes\<close>

lemma utf8_width_pos: "0 < utf8_width c"
  by (simp add: utf8_width_def)

lemma utf8_len_Cons [simp]: "utf8_len (c # s) = utf8_width c + utf8_len s"
  by (simp add: utf8_len_def)

lemma utf8_len_Nil [simp]: "utf8_len [] = 0"
  by (simp add: utf8_len_def)

lemma utf8_len_append [simp]: "utf8_len (s @ t) = utf8_len s + utf8_len t"
  by (simp add: utf8_len_def)

lemma utf8_len_nonneg [simp]: "0 \<le> utf8_len s"
  by (induction s) (auto simp: utf8_width_def)

lemma utf8_take_len: "utf8_len (utf8_take room s) \<le> max 0 room"
  by (induction room s rule: utf8_take.induct) auto

lemma fit_text_len:
  "utf8_len (fit_note (utf8_len text) at) \<le> MAX_TEXT_BYTES \<Longrightarrow> utf8_len (fit_text text at) \<le> MAX_TEXT_BYTES"
  using utf8_take_len [of "MAX_TEXT_BYTES - utf8_len (fit_note (utf8_len text) at)" "text"]
  by (simp add: fit_text_def Let_def utf8_cut_def)

lemma cut_to_len: "utf8_len (cut_note why) \<le> limit \<Longrightarrow> utf8_len (cut_to text limit why) \<le> limit"
  using utf8_take_len [of "max 0 (limit - utf8_len (cut_note why))" "text"] by (simp add: cut_to_def)

section \<open>Mentions are names\<close>

lemma name_at_pattern:
  assumes "name_at s \<noteq> []"
  shows "length (name_at s) \<le> 32" "list_all (\<lambda>c. name_char c \<or> c = CHR ''-'') (name_at s)"
    "name_char (hd (name_at s))" "name_char (last (name_at s))"
proof -
  obtain c t where s: "s = c # t" "name_char c" using assms by (cases s) (auto simp: name_at_def split: if_splits)
  define u where "u = take 31 (takeWhile (\<lambda>x. name_char x \<or> x = CHR ''-'') t)"
  define d where "d = dropWhile (\<lambda>x. x = CHR ''-'') (rev u)"
  have n: "name_at s = c # rev d" by (simp add: name_at_def s u_def d_def)
  have u: "list_all (\<lambda>x. name_char x \<or> x = CHR ''-'') u"
    unfolding u_def list_all_iff by (auto dest!: in_set_takeD set_takeWhileD)
  have d: "set d \<subseteq> set u" "length d \<le> length u"
    unfolding d_def using set_dropWhileD length_dropWhile_le [of _ "rev u"] by fastforce+
  show "length (name_at s) \<le> 32" using d(2) by (simp add: n u_def)
  show "list_all (\<lambda>c. name_char c \<or> c = CHR ''-'') (name_at s)" using u d(1) s(2) by (auto simp: n list_all_iff)
  show "name_char (hd (name_at s))" unfolding n using s(2) by simp
  show "name_char (last (name_at s))"
  proof (cases d)
    case (Cons x xs)
    then have "x \<noteq> CHR ''-''" using hd_dropWhile [of "\<lambda>x. x = CHR ''-''" "rev u"] by (simp add: d_def [symmetric])
    then show ?thesis using u d(1) Cons by (auto simp: n list_all_iff)
  qed (use s(2) in \<open>unfold n, simp\<close>)
qed

lemma to_lower_name: "name_char c \<Longrightarrow> lower_name_char (to_lower c)"
proof -
  assume "name_char c"
  moreover have "list_all (\<lambda>c. lower_name_char (to_lower c)) ''ABCDEFGHIJKLMNOPQRSTUVWXYZ''"
    by code_simp
  then have "lower_name_char (to_lower c)" if "is_upper c"
    using that by (simp only: is_upper_def list_all_iff)
  ultimately show ?thesis by (auto simp: name_char_def to_lower_def lower_name_char_def)
qed

lemma to_lower_dash [simp]: "to_lower (CHR ''-'') = CHR ''-''"
  by (simp add: to_lower_def is_upper_def)

lemma mentions_from_names: "t \<in> set (mentions_from p s) \<Longrightarrow> name_pattern t"
proof (induction p s rule: mentions_from.induct)
  case (2 p c s)
  show ?case
  proof (cases "c = CHR ''@'' \<and> mention_start p \<and> name_at s \<noteq> []")
    case True
    note n = name_at_pattern [OF conjunct2 [OF conjunct2 [OF True]]]
    have "name_pattern (map to_lower (name_at s))"
      using n True by (auto simp: name_pattern_def list_all_iff hd_map last_map to_lower_name)
    then show ?thesis using 2 True by auto
  qed (use 2 in auto)
qed simp

lemma mention_tokens_names: "t \<in> set (mention_tokens text) \<Longrightarrow> name_pattern t"
  by (auto simp: mention_tokens_def intro: mentions_from_names)

text \<open>A name that ends in a newline is accepted, and no mention is ever that name.\<close>

lemma newline_name_accepted: "valid_name (''h1'' @ [newline]) \<and> \<not> name_pattern (''h1'' @ [newline]) \<and>
    ''h1'' @ [newline] \<notin> set (mention_tokens (''@h1'' @ [newline]))"
  by code_simp

end
