(* ===== verification/RunRecord.thy ===== *)
theory RunRecord imports RunEntry Decimals
begin

text \<open>
  The run record (\<open>unify/agents/run_record.py\<close>, class \<open>RunRecord\<close>, over \<open>Record\<close> of
  \<open>unify/agents/record.py\<close>): the files every process of a run shares, what one process has read of
  them, and the operations a process runs: reading on (\<open>sync\<close>), joining and ending agents, resolving
  the addresses in a text, appending an entry under the file lock, the storm notice, and the three ways an entry
  is given to an agent.

  An operation takes the shared files and the process's own state and returns both; one that
  holds a file lock is one step. The files are their lines: a whole line is a JSON object or not
  one, and the last line may be torn (written without its newline). \<open>world\<close> holds what the code asks of
  the machine, and \<open>clean_text\<close> and \<open>refs_in\<close>.
\<close>

section \<open>Shared files and one process\<close>

datatype line = Good jrow | Bad int

record agent_row =
  ag_name :: string
  ag_role :: string
  ag_state :: string
  ag_helps :: "nat list"
  ag_episode :: "string option"
  ag_pass :: "string option"
  ag_spawner :: "string option"
  ag_pid :: int
  ag_start :: string
  ag_joined :: string
  ag_note :: "string option"
  ag_left :: "string option"

record shared =
  sh_lines :: "line list"
  sh_torn :: "line option"
  sh_cursors :: "jrow list"
  sh_roster :: "agent_row list"
  sh_ended :: "string list"

record participant =
  pa_name :: string
  pa_role :: string
  pa_spawner :: "string option"
  pa_state :: string
  pa_last_seq :: "int option"
  pa_cursor :: int
  pa_returned :: "int list"
  pa_run_role :: "string option"
  pa_episode :: "string option"
  pa_pass :: "string option"
  pa_acts :: int
  pa_all_cursor :: int

record process =
  q_entries :: "run_entry list"
  q_offset :: nat
  q_size :: int
  q_doff :: nat
  q_delivered :: "(string \<times> (int \<times> int list)) list"
  q_parts :: "(string \<times> participant) list"

record world =
  w_clean :: "string \<Rightarrow> string"
  w_refs :: "string \<Rightarrow> string option \<Rightarrow> string list"
  w_bytes :: "jrow \<Rightarrow> int"
  w_now :: string
  w_alive :: "int \<Rightarrow> string \<Rightarrow> bool"
  w_seeded :: "string \<Rightarrow> bool"
  w_pid :: int
  w_start :: string

record run_options =
  op_deliver_all :: bool
  op_tokens :: int
  op_max_bytes :: "int option"

definition USER :: string where "USER = ''user''"
definition HARNESS :: string where "HARNESS = ''harness''"
definition EVERYONE :: string where "EVERYONE = ''all''"
definition WRITER :: string where "WRITER = ''writer''"
definition RUN_STATES :: "string list" where "RUN_STATES = [''running'', ''waiting'', ''idle'', ''ended'']"
definition AGENT_ROLES :: "string list" where
  "AGENT_ROLES = [''actor'', ''fork'', ''librarian'', ''writer'', ''helper'']"
definition ROLE_ADDRESSES :: "string list" where
  "ROLE_ADDRESSES = [''writer'', ''actor'', ''librarian'', ''fork'', ''helpers'']"
definition INSTANCE_ROLES :: "string list" where "INSTANCE_ROLES = [''librarian'']"

section \<open>Reading the shared files\<close>

definition last_seq :: "run_entry list \<Rightarrow> int" where
  "last_seq es = (if es = [] then 0 else en_seq (last es))"

definition add_row :: "run_entry list \<Rightarrow> line \<Rightarrow> run_entry list" where
  "add_row es l = (case l of Bad n \<Rightarrow> es
     | Good row \<Rightarrow> (case from_dict row of None \<Rightarrow> es
         | Some e \<Rightarrow> if en_seq e \<le> last_seq es then es else es @ [e]))"

definition read_lines :: "run_entry list \<Rightarrow> line list \<Rightarrow> run_entry list" where
  "read_lines es ls = foldl add_row es ls"

fun int_items :: "json \<Rightarrow> int list" where
  "int_items (JArr xs) = List.map_filter as_int xs"
| "int_items _ = []"

definition note_delivery :: "(string \<times> (int \<times> int list)) list \<Rightarrow> jrow \<Rightarrow> (string \<times> (int \<times> int list)) list" where
  "note_delivery d row = (case as_str (jget row ''agent'') of None \<Rightarrow> d
     | Some agent \<Rightarrow>
         (let (til, seqs) = dict_get d agent (0, []) in
          dict_put agent (case as_int (jget row ''upto'') of Some g \<Rightarrow> max til g | None \<Rightarrow> til,
            seqs @ filter (\<lambda>s. s \<notin> set seqs) (int_items (jget row ''seqs''))) d))"

definition line_bytes :: "world \<Rightarrow> line \<Rightarrow> int" where
  "line_bytes W l = (case l of Good r \<Rightarrow> w_bytes W r | Bad n \<Rightarrow> n)"

definition file_size :: "world \<Rightarrow> shared \<Rightarrow> int" where
  "file_size W sh = sum_list (map (\<lambda>l. line_bytes W l + 1) (sh_lines sh)) +
     (case sh_torn sh of None \<Rightarrow> 0 | Some l \<Rightarrow> line_bytes W l)"

definition sync :: "world \<Rightarrow> shared \<Rightarrow> process \<Rightarrow> process" where
  "sync W sh q = q\<lparr>
     q_entries := read_lines (q_entries q) (drop (q_offset q) (sh_lines sh)),
     q_offset := length (sh_lines sh), q_size := file_size W sh,
     q_delivered := foldl note_delivery (q_delivered q) (drop (q_doff q) (sh_cursors sh)),
     q_doff := length (sh_cursors sh)\<rparr>"

definition base_participant :: "string \<Rightarrow> string \<Rightarrow> participant" where
  "base_participant n role = \<lparr>pa_name = n, pa_role = role, pa_spawner = None, pa_state = ''running'',
     pa_last_seq = None, pa_cursor = 0, pa_returned = [], pa_run_role = None, pa_episode = None,
     pa_pass = None, pa_acts = 0, pa_all_cursor = 0\<rparr>"

definition new_process :: "world \<Rightarrow> shared \<Rightarrow> process" where
  "new_process W sh = sync W sh \<lparr>q_entries = [], q_offset = 0, q_size = 0, q_doff = 0, q_delivered = [],
     q_parts = [(USER, base_participant USER ''user''), (HARNESS, base_participant HARNESS ''harness'')]\<rparr>"

section \<open>The roster\<close>

fun map_first :: "('a \<Rightarrow> bool) \<Rightarrow> ('a \<Rightarrow> 'a) \<Rightarrow> 'a list \<Rightarrow> 'a list" where
  "map_first P f [] = []"
| "map_first P f (x # xs) = (if P x then f x # xs else x # map_first P f xs)"

definition effective_state :: "world \<Rightarrow> agent_row \<Rightarrow> string" where
  "effective_state W a =
    (if ag_state a \<notin> set RUN_STATES then ''ended''
     else if ag_state a \<noteq> ''ended'' \<and> 0 < ag_pid a \<and> \<not> w_alive W (ag_pid a) (ag_start a) then ''ended''
     else ag_state a)"

definition roster_rows :: "world \<Rightarrow> shared \<Rightarrow> agent_row list" where
  "roster_rows W sh = map (\<lambda>a. a\<lparr>ag_state := effective_state W a\<rparr>) (sh_roster sh)"

definition name_taken :: "shared \<Rightarrow> string \<Rightarrow> bool" where
  "name_taken sh n \<longleftrightarrow> n \<in> set (map ag_name (sh_roster sh)) \<or> n \<in> set (sh_ended sh)"

definition HELPS_WITH :: "(string \<times> string) list" where
  "HELPS_WITH =
    [(''actor'', ''is doing the current request''),
     (''fork'', ''reviews its episode and writes down what is worth keeping from it''),
     (''librarian'', ''answers which stored items fit a situation''),
     (''writer'', ''keeps the library: decides what it stores, changes and retires, and answers questions about stored items'')]"

definition help_line :: "world \<Rightarrow> string \<Rightarrow> string option \<Rightarrow> nat list" where
  "help_line W role given =
    (let h = join_str '' '' (words (w_clean W (case given of Some t \<Rightarrow> t | None \<Rightarrow> dict_get HELPS_WITH role [])));
         cps = map of_char h
     in if 120 < length h then take 120 cps @ [8230] else cps)"

datatype refusal =
    Unknown_Kind | Too_Long int | Record_Full | Not_Read_Back | Bad_Role | Bad_State | Bad_Name | Name_Taken | Not_On_Record

record join_request =
  j_name :: string
  j_role :: string
  j_state :: string
  j_episode :: "string option"
  j_pass :: "string option"
  j_spawner :: "string option"
  j_helps :: "string option"
  j_rejoin :: bool

definition join_row :: "world \<Rightarrow> join_request \<Rightarrow> agent_row" where
  "join_row W j = \<lparr>ag_name = j_name j, ag_role = j_role j, ag_state = j_state j,
     ag_helps = help_line W (j_role j) (j_helps j), ag_episode = j_episode j, ag_pass = j_pass j,
     ag_spawner = j_spawner j, ag_pid = w_pid W, ag_start = w_start W, ag_joined = w_now W,
     ag_note = None, ag_left = None\<rparr>"

definition joined_participant :: "process \<Rightarrow> join_request \<Rightarrow> participant" where
  "joined_participant q j =
    (let fresh = (base_participant (j_name j) ''agent'')\<lparr>pa_cursor := max (fst (dict_get (q_delivered q) (j_name j) (0, []))) 0\<rparr>;
         p = (case map_of (q_parts q) (j_name j) of
                Some p \<Rightarrow> if pa_run_role p \<noteq> None then p else fresh
              | None \<Rightarrow> fresh)
     in p\<lparr>pa_run_role := Some (j_role j), pa_episode := j_episode j, pa_pass := j_pass j,
          pa_spawner := j_spawner j, pa_state := ''running''\<rparr>)"

definition join_check :: "join_request \<Rightarrow> refusal option" where
  "join_check j =
    (if j_role j \<notin> set AGENT_ROLES then Some Bad_Role
     else if j_state j \<notin> set RUN_STATES \<or> j_state j = ''ended'' then Some Bad_State
     else if \<not> valid_name (j_name j) \<or> j_name j \<in> {USER, HARNESS, EVERYONE} \<or>
       (j_name j \<in> set ROLE_ADDRESSES \<and> j_name j \<noteq> WRITER) then Some Bad_Name
     else if j_name j = WRITER \<and> j_role j \<noteq> ''writer'' then Some Bad_Name
     else None)"

definition join :: "world \<Rightarrow> join_request \<Rightarrow> shared \<Rightarrow> process \<Rightarrow> refusal + (shared \<times> process)" where
  "join W j sh q =
    (case join_check j of Some r \<Rightarrow> Inl r
     | None \<Rightarrow>
         let back = j_rejoin j \<and> j_name j = WRITER;
             rows = (if back then filter (\<lambda>a. ag_name a \<noteq> j_name j) (sh_roster sh) else sh_roster sh)
         in if \<not> back \<and> name_taken sh (j_name j) then Inl Name_Taken
            else Inr (sh\<lparr>sh_roster := rows @ [join_row W j]\<rparr>,
                      q\<lparr>q_parts := dict_put (j_name j) (joined_participant q j) (q_parts q)\<rparr>))"

definition attach :: "world \<Rightarrow> string \<Rightarrow> shared \<Rightarrow> process \<Rightarrow> refusal + (shared \<times> process)" where
  "attach W n sh q =
    (case find (\<lambda>a. ag_name a = n) (sh_roster sh) of
       None \<Rightarrow> Inl Not_On_Record
     | Some a \<Rightarrow>
         if ag_state a = ''ended'' then Inl Not_On_Record
         else let p = (base_participant n ''agent'')\<lparr>pa_spawner := ag_spawner a,
                  pa_cursor := max (fst (dict_get (q_delivered q) n (0, []))) 0,
                  pa_run_role := Some (if ag_role a \<noteq> [] then ag_role a else ''helper''),
                  pa_episode := ag_episode a, pa_pass := ag_pass a\<rparr>;
                claim = (\<lambda>b. b\<lparr>ag_pid := w_pid W, ag_start := w_start W\<rparr>)
              in Inr (sh\<lparr>sh_roster := map_first (\<lambda>b. ag_name b = n) claim (sh_roster sh)\<rparr>,
                      q\<lparr>q_parts := dict_put n p (q_parts q)\<rparr>))"

text \<open>The fields \<open>set_state\<close> may be given: the pass, the episode, a note.\<close>

type_synonym state_fields = "string option option \<times> string option option \<times> string option option"

definition given_field :: "'a option \<Rightarrow> 'a \<Rightarrow> 'a" where
  "given_field x old = (case x of Some v \<Rightarrow> v | None \<Rightarrow> old)"

definition state_row :: "world \<Rightarrow> string \<Rightarrow> state_fields \<Rightarrow> agent_row \<Rightarrow> agent_row" where
  "state_row W st fs a = (case fs of (pass, ep, note) \<Rightarrow>
     a\<lparr>ag_state := st, ag_pass := given_field pass (ag_pass a), ag_episode := given_field ep (ag_episode a),
       ag_note := given_field note (ag_note a), ag_left := if st = ''ended'' then Some (w_now W) else ag_left a\<rparr>)"

fun set_rows :: "world \<Rightarrow> string \<Rightarrow> string \<Rightarrow> state_fields \<Rightarrow> agent_row list \<Rightarrow> agent_row list" where
  "set_rows W n st fs [] = []"
| "set_rows W n st fs (a # as) =
    (if ag_name a \<noteq> n then a # set_rows W n st fs as
     else if ag_state a = ''ended'' \<and> st \<noteq> ''ended'' then a # as
     else state_row W st fs a # set_rows W n st fs as)"

definition set_state :: "world \<Rightarrow> string \<Rightarrow> string \<Rightarrow> state_fields \<Rightarrow> shared \<Rightarrow> refusal + shared" where
  "set_state W n st fs sh =
    (if st \<notin> set RUN_STATES then Inl Bad_State
     else if n \<notin> set (map ag_name (sh_roster sh)) then Inr sh
     else Inr (sh\<lparr>sh_roster := set_rows W n st fs (sh_roster sh),
                 sh_ended := sh_ended sh @ (if st = ''ended'' then [n] else [])\<rparr>))"

definition leave :: "world \<Rightarrow> string \<Rightarrow> shared \<Rightarrow> process \<Rightarrow> refusal + (shared \<times> process)" where
  "leave W n sh q =
    (let q' = (case map_of (q_parts q) n of
         Some p \<Rightarrow> if pa_run_role p \<noteq> None \<and> pa_state p = ''running''
                   then q\<lparr>q_parts := dict_put n (p\<lparr>pa_state := ''stopped''\<rparr>) (q_parts q)\<rparr> else q
       | None \<Rightarrow> q)
     in bind_r (set_state W n ''ended'' (None, None, None) sh) (\<lambda>sh'. Inr (sh', q')))"

definition taken_names :: "shared \<Rightarrow> process \<Rightarrow> string list" where
  "taken_names sh q = map ag_name (sh_roster sh) @ sh_ended sh @ keys_of (q_parts q)"

lemma finite_names: "finite {j. p @ show_nat j \<in> set taken}"
proof -
  have "inj (\<lambda>j. p @ show_nat j)" by (rule injI) (metis append_same_eq digits_val_show_nat same_append_eq)
  then have "finite ((\<lambda>j. p @ show_nat j) -` set taken)" by (intro finite_vimageI) simp_all
  then show ?thesis by (simp add: vimage_def)
qed

function name_from :: "string \<Rightarrow> string list \<Rightarrow> nat \<Rightarrow> string" where
  "name_from p taken k = (if p @ show_nat k \<in> set taken then name_from p taken (k + 1) else p @ show_nat k)"
  by pat_completeness auto
termination
proof (relation "measure (\<lambda>(p, taken, k). card {j. k \<le> j \<and> p @ show_nat j \<in> set taken})", simp)
  fix p taken k
  assume k: "p @ show_nat k \<in> set taken"
  have "k \<notin> {j. k + 1 \<le> j \<and> p @ show_nat j \<in> set taken}" "k \<in> {j. k \<le> j \<and> p @ show_nat j \<in> set taken}"
    using k by simp_all
  moreover have "{j. k + 1 \<le> j \<and> p @ show_nat j \<in> set taken} \<subseteq> {j. k \<le> j \<and> p @ show_nat j \<in> set taken}" by auto
  ultimately have "{j. k + 1 \<le> j \<and> p @ show_nat j \<in> set taken} \<subset> {j. k \<le> j \<and> p @ show_nat j \<in> set taken}" by blast
  moreover have "finite {j. k \<le> j \<and> p @ show_nat j \<in> set taken}"
    by (rule finite_subset [OF _ finite_names [of p taken]]) auto
  ultimately show "((p, taken, k + 1), p, taken, k) \<in> measure (\<lambda>(p, taken, k). card {j. k \<le> j \<and> p @ show_nat j \<in> set taken})"
    by (simp add: psubset_card_mono)
qed

declare name_from.simps [simp del]

definition next_name :: "string \<Rightarrow> shared \<Rightarrow> process \<Rightarrow> string" where
  "next_name prefix sh q = name_from prefix (taken_names sh q) 1"

section \<open>Addresses\<close>

definition live_rows :: "agent_row list \<Rightarrow> agent_row list" where
  "live_rows rows = filter (\<lambda>a. ag_state a \<in> {''running'', ''waiting''}) rows"

definition live_agents :: "world \<Rightarrow> shared \<Rightarrow> string list" where
  "live_agents W sh = map ag_name (live_rows (roster_rows W sh))"

definition row_named :: "agent_row list \<Rightarrow> string \<Rightarrow> agent_row option" where
  "row_named rows n = find (\<lambda>a. ag_name a = n) (rev rows)"

text \<open>What was resolved, what matched nobody, and the named agents that have ended.\<close>

type_synonym addressed = "string list \<times> string list \<times> string list"

definition add_names :: "string \<Rightarrow> string list \<Rightarrow> string list \<Rightarrow> string list" where
  "add_names author ns resolved = foldl (\<lambda>r n. if n \<noteq> author \<and> n \<notin> set r then r @ [n] else r) resolved ns"

definition my_episode :: "agent_row list \<Rightarrow> process \<Rightarrow> string \<Rightarrow> string option" where
  "my_episode rows q author =
    (case row_named rows author of
       Some a \<Rightarrow> if ag_episode a \<notin> {None, Some []} then ag_episode a
                 else (case map_of (q_parts q) author of Some p \<Rightarrow> pa_episode p | None \<Rightarrow> None)
     | None \<Rightarrow> (case map_of (q_parts q) author of Some p \<Rightarrow> pa_episode p | None \<Rightarrow> None))"

definition role_names :: "agent_row list \<Rightarrow> string option \<Rightarrow> string \<Rightarrow> string list" where
  "role_names rows ep token =
    (let live = live_rows rows in
     if token = ''actor'' then map ag_name (filter (\<lambda>a. ag_role a = ''actor'') live)
     else if token = ''fork'' then map ag_name (filter (\<lambda>a. ag_role a = token \<and> ep \<notin> {None, Some []} \<and> ag_episode a = ep) live)
     else map ag_name (filter (\<lambda>a. ag_role a = ''helper'') live))"

definition resolve_token :: "world \<Rightarrow> agent_row list \<Rightarrow> process \<Rightarrow> string \<Rightarrow> addressed \<Rightarrow> string \<Rightarrow> addressed" where
  "resolve_token W rows q author acc token = (case acc of (res, unres, ended) \<Rightarrow>
     if token = EVERYONE then (add_names author (map ag_name (live_rows rows)) res, unres, ended)
     else if token = WRITER then
       (case row_named rows WRITER of
          Some a \<Rightarrow> (add_names author [WRITER] res, unres, if ag_state a = ''ended'' then ended @ [WRITER] else ended)
        | None \<Rightarrow> (res, unres @ [token], ended))
     else if token = ''actor'' \<or> (token \<notin> set INSTANCE_ROLES \<and> token \<in> {''fork'', ''helpers''}) then
       (let found = role_names rows (my_episode rows q author) token in
        if found \<noteq> [] then (add_names author found res, unres, ended) else (res, unres @ [token], ended))
     else if token \<in> set INSTANCE_ROLES then
       (if w_seeded W token then (add_names author [token] res, unres, ended) else (res, unres @ [token], ended))
     else if token = USER \<and> USER \<in> set (keys_of (q_parts q)) then (add_names author [USER] res, unres, ended)
     else (case row_named rows token of
             Some a \<Rightarrow> if token \<noteq> HARNESS
               then (add_names author [token] res, unres,
                     if ag_state a = ''ended'' \<and> token \<notin> set ended then ended @ [token] else ended)
               else (res, unres @ [token], ended)
           | None \<Rightarrow> (res, unres @ [token], ended)))"

definition resolve_for :: "world \<Rightarrow> shared \<Rightarrow> process \<Rightarrow> string \<Rightarrow> string \<Rightarrow> addressed" where
  "resolve_for W sh q author text =
    foldl (resolve_token W (roster_rows W sh) q author) ([], [], []) (mention_tokens text)"

section \<open>The storm notice\<close>

definition STORM_RUN :: nat where "STORM_RUN = 20"
definition STORM_MARK :: string where "STORM_MARK = ''this exchange has gone back and forth''"

text \<open>A storm notice to the pair, and an entry of the pair to each other only.\<close>

definition pair_notice :: "string \<Rightarrow> string \<Rightarrow> run_entry \<Rightarrow> bool" where
  "pair_notice a b e \<longleftrightarrow> en_author e = HARNESS \<and> en_kind e = ''system'' \<and> set (en_mentions e) = {a, b} \<and>
     contains STORM_MARK (en_text e)"

definition pair_only :: "string \<Rightarrow> string \<Rightarrow> run_entry \<Rightarrow> bool" where
  "pair_only a b e \<longleftrightarrow> en_kind e \<in> {''post'', ''reply''} \<and> set (en_mentions e) = {a, b} - {en_author e}"

text \<open>The run of entries of the pair \<open>a\<close>, \<open>b\<close> only to each other, newest first.\<close>

fun storm_chain :: "string \<Rightarrow> string \<Rightarrow> run_entry list \<Rightarrow> run_entry list" where
  "storm_chain a b [] = []"
| "storm_chain a b (e # es) =
    (if pair_notice a b e then []
     else if en_author e \<notin> {a, b} then storm_chain a b es
     else if \<not> pair_only a b e then []
     else e # storm_chain a b es)"

text \<open>Whether the run shows no evidence for \<open>who\<close>: its entries are there, and all carry one count.\<close>

definition no_evidence :: "run_entry list \<Rightarrow> string \<Rightarrow> bool" where
  "no_evidence recent who =
    (case map en_acts (filter (\<lambda>e. en_author e = who) recent) of
       [] \<Rightarrow> False | c # cs \<Rightarrow> c \<noteq> None \<and> list_all (\<lambda>x. x = c) cs)"

definition storm_text :: "string \<Rightarrow> string \<Rightarrow> nat \<Rightarrow> string" where
  "storm_text a b n = ''@'' @ a @ '' @'' @ b @ '' '' @ STORM_MARK @ '' '' @ show_nat n @
     '' times with no new evidence: neither of you made a tool call or read a file between these messages. '' @
     ''Settle it from evidence (read the record or the files it names, run a test), or say what is still open '' @
     ''and go on with your own work.''"

definition storm_notice :: "world \<Rightarrow> run_entry list \<Rightarrow> run_entry \<Rightarrow> run_entry option" where
  "storm_notice W es e =
    (case en_mentions e of
       [b] \<Rightarrow>
         let a = en_author e; chain = storm_chain a b (rev es); recent = take STORM_RUN chain in
         if en_kind e \<notin> {''post'', ''reply''} \<or> en_acts e = None then None
         else if length chain < STORM_RUN \<or> \<not> no_evidence recent a \<or> \<not> no_evidence recent b then None
         else Some \<lparr>en_seq = last_seq es + 1, en_ts = w_now W, en_author = HARNESS, en_kind = ''system'',
                en_text = storm_text a b (length chain), en_mentions = sorted_set [a, b],
                en_role = Some ''harness'', en_episode = None, en_pass = None, en_reply_to = None,
                en_refs = [], en_acts = None\<rparr>
     | _ \<Rightarrow> None)"

section \<open>Appending under the file lock\<close>

definition CUT_TEXT_BYTES :: int where "CUT_TEXT_BYTES = 1024"
definition ROW_OVERHEAD :: int where "ROW_OVERHEAD = 2048"

definition backstop_why :: "string \<Rightarrow> string" where
  "backstop_why place = ''the run record reached its size backstop; the full text is in '' @ place"

text \<open>What a caller posts; \<open>po_fit\<close> is where the whole text is, for an entry the harness writes.\<close>

record posting =
  po_author :: string
  po_text :: string
  po_kind :: string
  po_mentions :: "string list option"
  po_fit :: "string option"
  po_reply_to :: "int option"
  po_refs :: "string list option"

definition close_torn_line :: "shared \<Rightarrow> shared" where
  "close_torn_line sh = (case sh_torn sh of None \<Rightarrow> sh
     | Some l \<Rightarrow> sh\<lparr>sh_lines := sh_lines sh @ [l], sh_torn := None\<rparr>)"

definition author_role :: "process \<Rightarrow> string \<Rightarrow> string" where
  "author_role q a =
    (case map_option pa_run_role (map_of (q_parts q) a) of
       Some (Some (c # r)) \<Rightarrow> c # r
     | _ \<Rightarrow> if a = USER then ''user'' else if a = HARNESS then ''harness'' else ''helper'')"

definition author_acts :: "process \<Rightarrow> string \<Rightarrow> int option" where
  "author_acts q a = (case map_of (q_parts q) a of
     Some p \<Rightarrow> if pa_run_role p \<noteq> None then Some (pa_acts p) else None | None \<Rightarrow> None)"

definition author_episode :: "process \<Rightarrow> string \<Rightarrow> string option" where
  "author_episode q a = (case map_of (q_parts q) a of Some p \<Rightarrow> pa_episode p | None \<Rightarrow> None)"

definition author_pass :: "process \<Rightarrow> string \<Rightarrow> string option" where
  "author_pass q a = (case map_of (q_parts q) a of Some p \<Rightarrow> pa_pass p | None \<Rightarrow> None)"

definition write_entry :: "world \<Rightarrow> run_entry \<Rightarrow> shared \<Rightarrow> process \<Rightarrow> refusal option \<times> shared \<times> process" where
  "write_entry W e sh q =
    (let sh' = sh\<lparr>sh_lines := sh_lines sh @ [Good (row_of e)]\<rparr>; q' = sync W sh' q in
     (if q_entries q' = [] \<or> en_seq (last (q_entries q')) \<noteq> en_seq e then Some Not_Read_Back else None, sh', q'))"

definition mark_last_seq :: "string \<Rightarrow> int \<Rightarrow> process \<Rightarrow> process" where
  "mark_last_seq a n q = (case map_of (q_parts q) a of
     Some p \<Rightarrow> q\<lparr>q_parts := dict_put a (p\<lparr>pa_last_seq := Some n\<rparr>) (q_parts q)\<rparr> | None \<Rightarrow> q)"

text \<open>The text as it is kept, or why it is not.\<close>

definition clean_posting :: "world \<Rightarrow> posting \<Rightarrow> refusal + string" where
  "clean_posting W po =
    (if po_kind po \<notin> set ENTRY_KINDS then Inl Unknown_Kind
     else let t = w_clean W (po_text po);
              t' = (case po_fit po of Some place \<Rightarrow> fit_text t place | None \<Rightarrow> t)
          in if MAX_TEXT_BYTES < utf8_len t' then Inl (Too_Long (utf8_len t')) else Inr t')"

definition addressed_by :: "world \<Rightarrow> posting \<Rightarrow> string \<Rightarrow> shared \<Rightarrow> process \<Rightarrow> string list \<times> string list" where
  "addressed_by W po text sh q = (case po_mentions po of
     None \<Rightarrow> (case resolve_for W sh q (po_author po) text of (res, unres, ended) \<Rightarrow> (res, unres))
   | Some ms \<Rightarrow> (dedup ms, []))"

definition entry_of :: "world \<Rightarrow> posting \<Rightarrow> string \<Rightarrow> string \<Rightarrow> string list \<Rightarrow> process \<Rightarrow> int \<Rightarrow> run_entry" where
  "entry_of W po clean text resolved q n =
    \<lparr>en_seq = n, en_ts = w_now W, en_author = po_author po, en_kind = po_kind po, en_text = text,
     en_mentions = resolved, en_role = Some (author_role q (po_author po)),
     en_episode = author_episode q (po_author po), en_pass = author_pass q (po_author po),
     en_reply_to = po_reply_to po,
     en_refs = (case po_refs po of Some rs \<Rightarrow> rs | None \<Rightarrow> w_refs W clean (author_episode q (po_author po))),
     en_acts = author_acts q (po_author po)\<rparr>"

text \<open>The answer: the entry, the addresses that matched nobody, and the storm notice it set off.\<close>

type_synonym accepted = "refusal + run_entry \<times> string list \<times> run_entry option"

definition write_and_watch :: "world \<Rightarrow> run_entry \<Rightarrow> string list \<Rightarrow> shared \<Rightarrow> process \<Rightarrow> accepted \<times> shared \<times> process" where
  "write_and_watch W e unresolved sh q =
    (case write_entry W e sh q of
       (Some r, sh1, q1) \<Rightarrow> (Inl r, sh1, q1)
     | (None, sh1, q1) \<Rightarrow>
         (let q2 = mark_last_seq (en_author e) (en_seq e) q1 in
          case storm_notice W (q_entries q2) e of
            None \<Rightarrow> (Inr (e, unresolved, None), sh1, q2)
          | Some n \<Rightarrow>
              (case write_entry W n sh1 q2 of
                 (Some r, sh3, q3) \<Rightarrow> (Inl r, sh3, q3)
               | (None, sh3, q3) \<Rightarrow> (Inr (e, unresolved, Some n), sh3, q3))))"

definition accept_locked :: "world \<Rightarrow> run_options \<Rightarrow> posting \<Rightarrow> string \<Rightarrow> string list \<times> string list \<Rightarrow> shared \<Rightarrow> process \<Rightarrow>
    accepted \<times> shared \<times> process" where
  "accept_locked W opts po clean to sh0 q0 =
    (let sh = close_torn_line sh0; q = sync W sh q0;
         full = (case op_max_bytes opts of None \<Rightarrow> False
                 | Some room \<Rightarrow> q_size q + utf8_len clean + ROW_OVERHEAD > room)
     in if full \<and> po_fit po = None then (Inl Record_Full, sh, q)
        else let text = (if full then cut_to clean CUT_TEXT_BYTES
                           (backstop_why (case po_fit po of Some place \<Rightarrow> place | None \<Rightarrow> [])) else clean)
             in write_and_watch W (entry_of W po clean text (fst to) q0 (last_seq (q_entries q) + 1)) (snd to) sh q)"

definition accept :: "world \<Rightarrow> run_options \<Rightarrow> posting \<Rightarrow> shared \<Rightarrow> process \<Rightarrow> accepted \<times> shared \<times> process" where
  "accept W opts po sh q =
    (case clean_posting W po of
       Inl r \<Rightarrow> (Inl r, sh, q)
     | Inr clean \<Rightarrow> accept_locked W opts po clean (addressed_by W po clean sh q) sh q)"

definition note_act :: "string \<Rightarrow> process \<Rightarrow> process" where
  "note_act n q = (case map_of (q_parts q) n of
     Some p \<Rightarrow> if pa_run_role p \<noteq> None then q\<lparr>q_parts := dict_put n (p\<lparr>pa_acts := pa_acts p + 1\<rparr>) (q_parts q)\<rparr> else q
   | None \<Rightarrow> q)"

section \<open>Delivery\<close>

definition is_for :: "run_options \<Rightarrow> run_entry \<Rightarrow> string \<Rightarrow> bool" where
  "is_for opts e n \<longleftrightarrow> en_author e \<noteq> n \<and> (op_deliver_all opts \<or> n \<in> set (en_mentions e))"

definition delivery_row :: "world \<Rightarrow> process \<Rightarrow> string \<Rightarrow> int list \<Rightarrow> string \<Rightarrow> int option \<Rightarrow> jrow" where
  "delivery_row W q n seqs via til =
    [(''v'', JInt RECORD_VERSION), (''agent'', JStr n),
     (''role'', jopt (case map_of (q_parts q) n of Some p \<Rightarrow> pa_run_role p | None \<Rightarrow> None)),
     (''seqs'', JArr (map JInt (sorted_set seqs))), (''via'', JStr via), (''pass_id'', jopt (author_pass q n)),
     (''episode'', jopt (author_episode q n)), (''ts'', JStr (w_now W))] @
    (case til of Some u \<Rightarrow> [(''upto'', JInt u)] | None \<Rightarrow> [])"

definition log_delivery :: "world \<Rightarrow> string \<Rightarrow> int list \<Rightarrow> string \<Rightarrow> int option \<Rightarrow> shared \<Rightarrow> process \<Rightarrow> shared \<times> process" where
  "log_delivery W n seqs via til sh q =
    (let row = delivery_row W q n seqs via til in
     (sh\<lparr>sh_cursors := sh_cursors sh @ [row]\<rparr>, q\<lparr>q_delivered := note_delivery (q_delivered q) row\<rparr>))"

definition put_part :: "process \<Rightarrow> string \<Rightarrow> participant \<Rightarrow> process" where
  "put_part q n p = q\<lparr>q_parts := dict_put n p (q_parts q)\<rparr>"

text \<open>Each of these is given an agent of the process; for another name the code raises, which is \<open>None\<close>.\<close>

definition set_cursor :: "world \<Rightarrow> string \<Rightarrow> int \<Rightarrow> shared \<Rightarrow> process \<Rightarrow> (shared \<times> process) option" where
  "set_cursor W n til sh q = (case map_of (q_parts q) n of None \<Rightarrow> None
     | Some p \<Rightarrow> Some (log_delivery W n [] ''block'' (Some til) sh (put_part q n (p\<lparr>pa_cursor := til\<rparr>))))"

definition unseen :: "run_options \<Rightarrow> process \<Rightarrow> string \<Rightarrow> participant \<Rightarrow> bool \<Rightarrow> run_entry list" where
  "unseen opts q n p mentions_only = filter (\<lambda>e. pa_cursor p < en_seq e \<and> en_seq e \<notin> set (pa_returned p) \<and>
     en_author e \<noteq> n \<and> (is_for opts e n \<or> \<not> mentions_only)) (q_entries q)"

definition give :: "participant \<Rightarrow> run_entry list \<Rightarrow> participant" where
  "give p es = p\<lparr>pa_returned := pa_returned p @ map en_seq es\<rparr>"

definition take_unseen :: "world \<Rightarrow> run_options \<Rightarrow> string \<Rightarrow> string \<Rightarrow> shared \<Rightarrow> process \<Rightarrow>
    (run_entry list \<times> shared \<times> process) option" where
  "take_unseen W opts n via sh q0 =
    (let q = sync W sh q0 in
     case map_of (q_parts q) n of None \<Rightarrow> None
     | Some p \<Rightarrow>
         (let found = unseen opts q n p True in
          if found = [] then Some ([], sh, q)
          else case log_delivery W n (map en_seq found) via None sh (put_part q n (give p found)) of
            (sh', q') \<Rightarrow> Some (found, sh', q')))"

definition has_unseen :: "process \<Rightarrow> string \<Rightarrow> bool" where
  "has_unseen q n =
    (let (upto0, seqs0) = dict_get (q_delivered q) n (0, []);
         (til, seqs) = (case map_of (q_parts q) n of
            Some p \<Rightarrow> if pa_run_role p \<noteq> None then (max upto0 (pa_cursor p), seqs0 @ pa_returned p) else (upto0, seqs0)
          | None \<Rightarrow> (upto0, seqs0))
     in list_ex (\<lambda>e. n \<in> set (en_mentions e) \<and> en_author e \<noteq> n \<and> til < en_seq e \<and> en_seq e \<notin> set seqs) (q_entries q))"

text \<open>What a block is made of: the entries for the agent, the others, and the entries given before.\<close>

record block =
  bl_mine :: "run_entry list"
  bl_others :: "run_entry list"
  bl_returned :: "int list"

definition take_block :: "world \<Rightarrow> run_options \<Rightarrow> string \<Rightarrow> shared \<Rightarrow> process \<Rightarrow> (block option \<times> shared \<times> process) option" where
  "take_block W opts n sh q0 =
    (let q = sync W sh q0 in
     case map_of (q_parts q) n of None \<Rightarrow> None
     | Some p \<Rightarrow>
         (let new = filter (\<lambda>e. pa_cursor p < en_seq e \<and> en_author e \<noteq> n) (q_entries q);
              mine = filter (\<lambda>e. is_for opts e n) new; others = filter (\<lambda>e. \<not> is_for opts e n) new;
              til = last_seq (q_entries q);
              shown = map en_seq (filter (\<lambda>e. en_seq e \<notin> set (pa_returned p)) mine);
              p' = p\<lparr>pa_cursor := til, pa_returned := filter (\<lambda>s. til < s) (pa_returned p)\<rparr>
          in if mine = [] then Some (None, sh, q)
             else case log_delivery W n shown ''block'' (Some til) sh (put_part q n p') of
               (sh', q') \<Rightarrow> Some (Some \<lparr>bl_mine = mine, bl_others = others, bl_returned = pa_returned p\<rparr>, sh', q')))"

definition page_all :: "world \<Rightarrow> run_options \<Rightarrow> string \<Rightarrow> nat \<Rightarrow> shared \<Rightarrow> process \<Rightarrow>
    ((run_entry list \<times> nat) \<times> shared \<times> process) option" where
  "page_all W opts n limit sh q0 =
    (let q = sync W sh q0 in
     case map_of (q_parts q) n of None \<Rightarrow> None
     | Some p \<Rightarrow>
         (let after = filter (\<lambda>e. pa_all_cursor p < en_seq e \<and> en_author e \<noteq> n) (q_entries q);
              page = take limit after; rest = length after - limit
          in if page = [] then Some (([], rest), sh, q)
             else let p' = (give p (filter (\<lambda>e. is_for opts e n) page))\<lparr>pa_all_cursor := en_seq (last page)\<rparr>
                  in case log_delivery W n (map en_seq page) ''messages'' None sh (put_part q n p') of
                       (sh', q') \<Rightarrow> Some ((page, rest), sh', q')))"

end
