(* ===== verification/RunRecordRuns.thy ===== *)
theory RunRecordRuns imports RunRecord
begin

text \<open>
  Runs of the run record: any number of processes over the shared files, each operation one step,
  interleaved in any order, with a crash in the middle of a write. The properties: the record is
  numbered without gaps and every process reads a part of it from the start; a post is always
  read back; names and ends are for good; an agent is given every entry for it once.
\<close>

section \<open>Steps of a run\<close>

record system =
  y_shared :: shared
  y_procs :: "(nat \<times> process) list"

text \<open>What a step gave an agent of a process as new, that it hosts the agent anew or moves its cursor, or that the
  process started or died.\<close>

datatype label = Silent | Gave nat string "int list" | Hosts nat string | Restarts nat

definition entries_of :: "shared \<Rightarrow> run_entry list" where
  "entries_of sh = read_lines [] (sh_lines sh)"

text \<open>A line a crash can leave: no JSON object, or the whole of the next entry's row.\<close>

definition torn_ok :: "int \<Rightarrow> line \<Rightarrow> bool" where
  "torn_ok n l = (case l of Bad k \<Rightarrow> True | Good row \<Rightarrow> \<exists>e. row = row_of e \<and> en_role e \<noteq> None \<and> en_seq e = n + 1)"

definition put_proc :: "system \<Rightarrow> nat \<Rightarrow> shared \<Rightarrow> process \<Rightarrow> system" where
  "put_proc s k sh q = s\<lparr>y_shared := sh, y_procs := dict_put k q (y_procs s)\<rparr>"

definition news :: "run_options \<Rightarrow> string \<Rightarrow> participant \<Rightarrow> run_entry list \<Rightarrow> int list" where
  "news opts n p es = map en_seq (filter (\<lambda>e. pa_cursor p < en_seq e \<and> en_seq e \<notin> set (pa_returned p) \<and> is_for opts e n) es)"

inductive run_step :: "run_options \<Rightarrow> system \<Rightarrow> label \<Rightarrow> system \<Rightarrow> bool" for opts where
  opens: "map_of (y_procs s) k = None \<Longrightarrow>
     run_step opts s (Restarts k) (put_proc s k (y_shared s) (new_process W (y_shared s)))"
| reads: "map_of (y_procs s) k = Some q \<Longrightarrow>
     run_step opts s Silent (put_proc s k (y_shared s) (sync W (y_shared s) q))"
| joins: "map_of (y_procs s) k = Some q \<Longrightarrow> join W j (y_shared s) q = Inr (sh', q') \<Longrightarrow>
     run_step opts s (Hosts k (j_name j)) (put_proc s k sh' q')"
| attaches: "map_of (y_procs s) k = Some q \<Longrightarrow> attach W n (y_shared s) q = Inr (sh', q') \<Longrightarrow>
     run_step opts s (Hosts k n) (put_proc s k sh' q')"
| states: "set_state W n st fs (y_shared s) = Inr sh' \<Longrightarrow> run_step opts s Silent (s\<lparr>y_shared := sh'\<rparr>)"
| leaves: "map_of (y_procs s) k = Some q \<Longrightarrow> leave W n (y_shared s) q = Inr (sh', q') \<Longrightarrow>
     run_step opts s Silent (put_proc s k sh' q')"
| posts: "map_of (y_procs s) k = Some q \<Longrightarrow> accept W opts po (y_shared s) q = (r, sh', q') \<Longrightarrow>
     run_step opts s Silent (put_proc s k sh' q')"
| acts: "map_of (y_procs s) k = Some q \<Longrightarrow> run_step opts s Silent (put_proc s k (y_shared s) (note_act n q))"
| moves: "map_of (y_procs s) k = Some q \<Longrightarrow> set_cursor W n til (y_shared s) q = Some (sh', q') \<Longrightarrow>
     run_step opts s (Hosts k n) (put_proc s k sh' q')"
| waits: "map_of (y_procs s) k = Some q \<Longrightarrow> map_of (q_parts q) n = Some p \<Longrightarrow>
     take_unseen W opts n via (y_shared s) q = Some (es, sh', q') \<Longrightarrow>
     run_step opts s (Gave k n (map en_seq es)) (put_proc s k sh' q')"
| blocks: "map_of (y_procs s) k = Some q \<Longrightarrow> map_of (q_parts q) n = Some p \<Longrightarrow>
     take_block W opts n (y_shared s) q = Some (b, sh', q') \<Longrightarrow>
     run_step opts s (Gave k n (case b of None \<Rightarrow> [] | Some bl \<Rightarrow> news opts n p (bl_mine bl))) (put_proc s k sh' q')"
| pages: "map_of (y_procs s) k = Some q \<Longrightarrow> map_of (q_parts q) n = Some p \<Longrightarrow>
     page_all W opts n limit (y_shared s) q = Some ((es, rest), sh', q') \<Longrightarrow>
     run_step opts s (Gave k n (news opts n p es)) (put_proc s k sh' q')"
| dies: "map_of (y_procs s) k = Some q \<Longrightarrow> sh1 = close_torn_line (y_shared s) \<Longrightarrow>
     torn_ok (last_seq (entries_of sh1)) l \<Longrightarrow>
     run_step opts s (Restarts k) (s\<lparr>y_shared := sh1\<lparr>sh_torn := Some l\<rparr>, y_procs := AList.delete k (y_procs s)\<rparr>)"

definition first_system :: system where
  "first_system = \<lparr>y_shared = \<lparr>sh_lines = [], sh_torn = None, sh_cursors = [], sh_roster = [], sh_ended = []\<rparr>, y_procs = []\<rparr>"

inductive runs :: "run_options \<Rightarrow> system \<Rightarrow> label list \<Rightarrow> system \<Rightarrow> bool" for opts where
  stays: "runs opts s [] s"
| goes: "runs opts s ls t \<Longrightarrow> run_step opts t l u \<Longrightarrow> runs opts s (ls @ [l]) u"

section \<open>Numbering\<close>

definition numbered :: "run_entry list \<Rightarrow> bool" where
  "numbered es \<longleftrightarrow> map en_seq es = map int [1..<length es + 1]"

lemma numbered_Nil [simp]: "numbered []"
  by (simp add: numbered_def)

lemma numbered_last: "numbered es \<Longrightarrow> last_seq es = int (length es)"
proof (cases es rule: rev_cases)
  case (snoc xs x)
  assume "numbered es"
  then have "last (map en_seq es) = last (map int [1..<length es + 1])" by (simp add: numbered_def)
  then show ?thesis by (simp add: snoc last_seq_def last_map)
qed (simp add: last_seq_def)

lemma numbered_snoc: "numbered es \<Longrightarrow> en_seq e = last_seq es + 1 \<Longrightarrow> numbered (es @ [e])"
  using numbered_last [of es] by (simp add: numbered_def)

lemma numbered_distinct: "numbered es \<Longrightarrow> distinct (map en_seq es)"
  by (simp add: numbered_def distinct_map)

lemma numbered_bound: "numbered es \<Longrightarrow> e \<in> set es \<Longrightarrow> 1 \<le> en_seq e \<and> en_seq e \<le> last_seq es"
proof -
  assume n: "numbered es" and e: "e \<in> set es"
  then have "en_seq e \<in> set (map en_seq es)" by simp
  also have "set (map en_seq es) = int ` {1..<length es + 1}"
    unfolding n [unfolded numbered_def] by (simp only: set_map set_upt)
  finally show ?thesis using numbered_last [OF n] by auto
qed

lemma read_lines_append: "read_lines es (l1 @ l2) = read_lines (read_lines es l1) l2"
  by (simp add: read_lines_def)

text \<open>Any lines at all, a corrupted file too, are read as entries of rising numbers; and reading on
  takes nothing back.\<close>

definition rising :: "run_entry list \<Rightarrow> bool" where
  "rising es \<longleftrightarrow> sorted_wrt (<) (map en_seq es) \<and> (\<forall>e\<in>set es. en_seq e \<le> last_seq es)"

lemma add_row_rising: "rising es \<Longrightarrow> rising (add_row es l)"
  by (force simp: rising_def add_row_def sorted_wrt_append last_seq_def split: line.split option.split)

interpretation record_rows: event_log add_row "[]" rising
  by unfold_locales (simp add: rising_def, rule add_row_rising)

interpretation record_history: monotone_log add_row "\<lambda>es es'. \<exists>rest. es' = es @ rest"
  by unfold_locales (auto simp: add_row_def split: line.split option.split)

lemma read_lines_prefix: "\<exists>rest. read_lines es ls = es @ rest"
  unfolding read_lines_def by (rule record_history.rel_rows)

lemma entries_rising: "rising (entries_of sh)"
  unfolding entries_of_def read_lines_def by (rule record_rows.inv_log)

lemma add_torn:
  assumes "numbered es" "torn_ok (last_seq es) l" shows "numbered (add_row es l)"
  using assms numbered_snoc [OF assms(1)]
  by (auto simp: torn_ok_def add_row_def entry_reads_back split: line.splits)

definition file_ok :: "shared \<Rightarrow> bool" where
  "file_ok sh \<longleftrightarrow> numbered (entries_of sh) \<and>
     (case sh_torn sh of None \<Rightarrow> True | Some l \<Rightarrow> torn_ok (last_seq (entries_of sh)) l)"

definition proc_ok :: "shared \<Rightarrow> process \<Rightarrow> bool" where
  "proc_ok sh q \<longleftrightarrow> q_offset q \<le> length (sh_lines sh) \<and> q_entries q = read_lines [] (take (q_offset q) (sh_lines sh))"

lemma entries_append: "entries_of (sh\<lparr>sh_lines := sh_lines sh @ ls\<rparr>) = read_lines (entries_of sh) ls"
  by (simp add: entries_of_def read_lines_append)

lemma entries_closed: "entries_of (close_torn_line sh) =
    (case sh_torn sh of None \<Rightarrow> entries_of sh | Some l \<Rightarrow> add_row (entries_of sh) l)"
  by (simp add: close_torn_line_def entries_of_def read_lines_def split: option.split)

lemma file_ok_closed: "file_ok sh \<Longrightarrow> file_ok (close_torn_line sh) \<and> sh_torn (close_torn_line sh) = None"
  unfolding file_ok_def entries_closed by (auto simp: close_torn_line_def add_torn split: option.splits)

lemma sync_ok: "proc_ok sh q \<Longrightarrow> proc_ok sh (sync W sh q) \<and> q_entries (sync W sh q) = entries_of sh"
proof -
  assume q: "proc_ok sh q"
  have "read_lines (q_entries q) (drop (q_offset q) (sh_lines sh)) = entries_of sh"
    using q read_lines_append [of "[]" "take (q_offset q) (sh_lines sh)" "drop (q_offset q) (sh_lines sh)"]
    by (simp add: proc_ok_def entries_of_def)
  then show ?thesis by (simp add: proc_ok_def sync_def entries_of_def)
qed

definition grows :: "shared \<Rightarrow> shared \<Rightarrow> bool" where
  "grows sh sh' \<longleftrightarrow> (\<exists>ls. sh_lines sh' = sh_lines sh @ ls)"

lemma grows_refl [simp]: "grows sh sh"
  by (simp add: grows_def)

lemma grows_trans: "grows a b \<Longrightarrow> grows b c \<Longrightarrow> grows a c"
  by (auto simp: grows_def)

lemma grows_closed: "grows sh (close_torn_line sh)"
  by (auto simp: grows_def close_torn_line_def split: option.split)

lemma proc_ok_grows: "grows sh sh' \<Longrightarrow> proc_ok sh q \<Longrightarrow> proc_ok sh' q"
  by (auto simp: grows_def proc_ok_def)

lemma proc_ok_same: "proc_ok sh q \<Longrightarrow> q_entries q' = q_entries q \<Longrightarrow> q_offset q' = q_offset q \<Longrightarrow> proc_ok sh q'"
  by (simp add: proc_ok_def)

lemma new_process_ok: "proc_ok sh (new_process W sh)"
  unfolding new_process_def by (rule sync_ok [THEN conjunct1]) (simp add: proc_ok_def read_lines_def)

section \<open>A post is read back\<close>

lemma add_entry: "en_role e \<noteq> None \<Longrightarrow> en_seq e = last_seq es + 1 \<Longrightarrow> add_row es (Good (row_of e)) = es @ [e]"
  by (simp add: add_row_def entry_reads_back)

text \<open>The files and the process after a step that appended \<open>new\<close> under the lock.\<close>

definition appended :: "shared \<Rightarrow> shared \<Rightarrow> process \<Rightarrow> run_entry list \<Rightarrow> bool" where
  "appended sh sh' q' new \<longleftrightarrow> grows sh sh' \<and> file_ok sh' \<and> sh_torn sh' = None \<and> proc_ok sh' q' \<and>
     entries_of sh' = entries_of sh @ new \<and> q_entries q' = entries_of sh' \<and>
     sh_roster sh' = sh_roster sh \<and> sh_ended sh' = sh_ended sh \<and> sh_cursors sh' = sh_cursors sh"

lemma write_entry_reads_back:
  assumes "file_ok sh" "sh_torn sh = None" "proc_ok sh q" "en_role e \<noteq> None" "en_seq e = last_seq (entries_of sh) + 1"
    and w: "write_entry W e sh q = (r, sh', q')"
  shows "r = None" "appended sh sh' q' [e]" "q_parts q' = q_parts q"
proof -
  define sh1 where "sh1 = sh\<lparr>sh_lines := sh_lines sh @ [Good (row_of e)]\<rparr>"
  have g: "grows sh sh1" by (auto simp: grows_def sh1_def)
  have e: "entries_of sh1 = entries_of sh @ [e]"
    unfolding sh1_def entries_append by (simp add: read_lines_def add_entry assms(4,5))
  have f: "file_ok sh1" using assms(1,2,5) numbered_snoc unfolding file_ok_def e by (simp add: sh1_def)
  note q = sync_ok [OF proc_ok_grows [OF g assms(3)], of W]
  have w: "r = (if q_entries (sync W sh1 q) = [] \<or> en_seq (last (q_entries (sync W sh1 q))) \<noteq> en_seq e then Some Not_Read_Back else None)"
    "sh' = sh1" "q' = sync W sh1 q"
    using w [unfolded write_entry_def Let_def, folded sh1_def] by auto
  show "r = None" using q e by (simp add: w)
  show "appended sh sh' q' [e]" using g f e q assms(2) by (simp add: appended_def w) (simp add: sh1_def)
  show "q_parts q' = q_parts q" by (simp add: w sync_def)
qed

lemma appended_then:
  "appended sh sh1 q1 xs \<Longrightarrow> appended sh1 sh2 q2 ys \<Longrightarrow> appended sh sh2 q2 (xs @ ys)"
  unfolding appended_def by (auto intro: grows_trans)

lemma mark_last_seq_simps [simp]:
  "q_entries (mark_last_seq a n q) = q_entries q" "q_offset (mark_last_seq a n q) = q_offset q"
  by (simp_all add: mark_last_seq_def split: option.split)

lemma appended_mark: "appended sh sh' q new \<Longrightarrow> appended sh sh' (mark_last_seq a n q) new"
  unfolding appended_def by (auto intro: proc_ok_same)

lemma storm_notice_entry: "storm_notice W es e = Some n \<Longrightarrow> en_role n \<noteq> None \<and> en_seq n = last_seq es + 1"
  by (auto simp: storm_notice_def Let_def split: list.splits if_splits)

lemma appended_closed:
  assumes "file_ok sh" "proc_ok sh q" "appended (close_torn_line sh) sh' q' new"
  shows "\<exists>torn. length torn \<le> 1 \<and> appended sh sh' q' (torn @ new)"
proof -
  have "\<exists>torn. length torn \<le> 1 \<and> entries_of (close_torn_line sh) = entries_of sh @ torn"
    unfolding entries_closed
    by (force simp: add_row_def split: option.split line.split)
  then show ?thesis using assms(3) grows_trans [OF grows_closed [of sh]]
    by (auto simp: appended_def close_torn_line_def split: option.splits)
qed

text \<open>What a post does: refused with nothing written, or written at the end.\<close>

definition post_outcome :: "accepted \<Rightarrow> run_entry list \<Rightarrow> bool" where
  "post_outcome r new \<longleftrightarrow> (case r of
     Inl why \<Rightarrow> why \<noteq> Not_Read_Back \<and> new = []
   | Inr (e, un, None) \<Rightarrow> new = [e]
   | Inr (e, un, Some n) \<Rightarrow> new = [e, n])"

lemma write_and_watch_outcome:
  assumes f: "file_ok sh" "sh_torn sh = None" "proc_ok sh q"
    and e: "en_role e \<noteq> None" "en_seq e = last_seq (entries_of sh) + 1"
    and res: "write_and_watch W e un sh q = (r, sh', q')"
  shows "\<exists>new. post_outcome r new \<and> appended sh sh' q' new \<and> (\<exists>x. r = Inr x)"
proof -
  obtain w sh2 q2 where w: "write_entry W e sh q = (w, sh2, q2)" by (metis prod_cases3)
  note a = write_entry_reads_back [OF f e w]
  define q3 where "q3 = mark_last_seq (en_author e) (en_seq e) q2"
  have a3: "appended sh sh2 q3 [e]" unfolding q3_def by (rule appended_mark [OF a(2)])
  note res = res [unfolded write_and_watch_def w a(1) prod.case option.case Let_def, folded q3_def]
  show ?thesis
  proof (cases "storm_notice W (q_entries q3) e")
    case None
    then have "r = Inr (e, un, None)" "sh' = sh2" "q' = q3" using res by simp_all
    then show ?thesis using a3 by (intro exI [of _ "[e]"]) (simp add: post_outcome_def)
  next
    case (Some n)
    have n: "en_role n \<noteq> None" "en_seq n = last_seq (entries_of sh2) + 1"
      using storm_notice_entry [OF Some] a3 by (simp_all add: appended_def)
    have s2: "file_ok sh2" "sh_torn sh2 = None" "proc_ok sh2 q3" using a3 by (simp_all add: appended_def)
    obtain w' sh4 q4 where w': "write_entry W n sh2 q3 = (w', sh4, q4)" by (metis prod_cases3)
    note b = write_entry_reads_back [OF s2 n w']
    have "r = Inr (e, un, Some n)" "sh' = sh4" "q' = q4" using res Some w' b(1) by simp_all
    then show ?thesis using appended_then [OF a3 b(2)]
      by (intro exI [of _ "[e, n]"]) (simp add: post_outcome_def)
  qed
qed

lemma accept_locked_outcome:
  assumes "file_ok sh" "proc_ok sh q" "accept_locked W opts po clean to sh q = (r, sh', q')"
  shows "\<exists>new. post_outcome r new \<and> appended (close_torn_line sh) sh' q' new \<and> (po_fit po \<noteq> None \<longrightarrow> (\<exists>x. r = Inr x))"
proof -
  define sh1 where "sh1 = close_torn_line sh"
  define q1 where "q1 = sync W sh1 q"
  have f: "file_ok sh1" "sh_torn sh1 = None" using file_ok_closed [OF assms(1)] by (simp_all add: sh1_def)
  have q: "proc_ok sh1 q1" "q_entries q1 = entries_of sh1"
    unfolding q1_def using sync_ok [OF proc_ok_grows [OF grows_closed assms(2)], of W] by (simp_all add: sh1_def)
  have "(r = Inl Record_Full \<and> sh' = sh1 \<and> q' = q1 \<and> po_fit po = None) \<or>
      (\<exists>kept. write_and_watch W (entry_of W po clean kept (fst to) q (last_seq (q_entries q1) + 1)) (snd to) sh1 q1 = (r, sh', q'))"
    using assms(3) unfolding accept_locked_def Let_def sh1_def [symmetric] q1_def [symmetric]
    by (simp only: split: if_splits) auto
  then show ?thesis
  proof (elim disjE exE)
    assume "r = Inl Record_Full \<and> sh' = sh1 \<and> q' = q1 \<and> po_fit po = None"
    then show ?thesis using f q
      by (intro exI [of _ "[]"]) (simp add: post_outcome_def appended_def sh1_def)
  next
    fix kept
    assume w: "write_and_watch W (entry_of W po clean kept (fst to) q (last_seq (q_entries q1) + 1)) (snd to) sh1 q1 = (r, sh', q')"
    show ?thesis using write_and_watch_outcome [OF f q(1) _ _ w] q(2) by (auto simp: entry_of_def sh1_def)
  qed
qed

section \<open>Every step keeps the record\<close>

definition op_ok :: "shared \<Rightarrow> process \<Rightarrow> shared \<Rightarrow> process \<Rightarrow> bool" where
  "op_ok sh q sh' q' \<longleftrightarrow> grows sh sh' \<and> (file_ok sh \<longrightarrow> proc_ok sh q \<longrightarrow> file_ok sh' \<and> proc_ok sh' q')"

definition same_files :: "shared \<Rightarrow> shared \<Rightarrow> bool" where
  "same_files sh sh' \<longleftrightarrow> sh_lines sh' = sh_lines sh \<and> sh_torn sh' = sh_torn sh"

definition same_read :: "process \<Rightarrow> process \<Rightarrow> bool" where
  "same_read q q' \<longleftrightarrow> q_entries q' = q_entries q \<and> q_offset q' = q_offset q"

lemma same_files_ok: "same_files sh sh' \<Longrightarrow> file_ok sh' = file_ok sh \<and> proc_ok sh' q = proc_ok sh q \<and> grows sh sh'"
  by (cases "sh_torn sh") (simp_all add: same_files_def file_ok_def proc_ok_def entries_of_def grows_def)

lemma same_read_ok: "same_read q q' \<Longrightarrow> proc_ok sh q' = proc_ok sh q"
  by (simp add: same_read_def proc_ok_def)

lemma quiet_op: "same_files sh sh' \<Longrightarrow> same_read q q' \<Longrightarrow> op_ok sh q sh' q'"
  using same_files_ok [of sh sh'] same_read_ok [of q q'] by (simp add: op_ok_def)

lemma quiet_op_sync: "same_files sh sh' \<Longrightarrow> same_read (sync W sh q) q' \<Longrightarrow> op_ok sh q sh' q'"
  using same_files_ok [of sh sh'] same_read_ok [of "sync W sh q" q'] sync_ok [of sh q W] by (simp add: op_ok_def)

lemma log_delivery_same:
  "log_delivery W n seqs via til sh q = (sh', q') \<Longrightarrow> same_files sh sh' \<and> same_read q q' \<and>
     q_parts q' = q_parts q \<and> sh_roster sh' = sh_roster sh \<and> sh_ended sh' = sh_ended sh"
  by (auto simp: log_delivery_def Let_def same_files_def same_read_def)

lemma put_part_same [simp]: "same_read (put_part q n p) q' = same_read q q'" "same_read q (put_part q' n p) = same_read q q'"
  "q_entries (put_part q n p) = q_entries q" "q_parts (put_part q n p) = dict_put n p (q_parts q)"
  by (simp_all add: same_read_def put_part_def)

lemma same_refl [simp]: "same_read q q" "same_files sh sh"
  by (simp_all add: same_read_def same_files_def)

lemma take_unseen_cases:
  assumes "take_unseen W opts n via sh q = Some (es, sh', q')" "map_of (q_parts q) n = Some p"
  shows "es = unseen opts (sync W sh q) n p True" "same_files sh sh'" "same_read (sync W sh q) q'"
    "q_parts q' = (if es = [] then q_parts q else dict_put n (give p es) (q_parts q))"
    "sh_roster sh' = sh_roster sh" "sh_ended sh' = sh_ended sh"
proof -
  have p: "map_of (q_parts (sync W sh q)) n = Some p" "q_parts (sync W sh q) = q_parts q"
    using assms(2) by (simp_all add: sync_def)
  define found where "found = unseen opts (sync W sh q) n p True"
  obtain sh1 q1 where l: "log_delivery W n (map en_seq found) via None sh (put_part (sync W sh q) n (give p found)) = (sh1, q1)"
    by (metis surj_pair)
  note res = assms(1) [unfolded take_unseen_def Let_def p(1) option.case found_def [symmetric] l prod.case]
  show "es = unseen opts (sync W sh q) n p True" using res by (auto simp: found_def split: if_splits)
  show "same_files sh sh'" "same_read (sync W sh q) q'" "sh_roster sh' = sh_roster sh" "sh_ended sh' = sh_ended sh"
    using res log_delivery_same [OF l] by (auto split: if_splits)
  show "q_parts q' = (if es = [] then q_parts q else dict_put n (give p es) (q_parts q))"
    using res log_delivery_same [OF l] p(2) by (auto split: if_splits)
qed

lemma take_block_cases:
  assumes "take_block W opts n sh q = Some (b, sh', q')" "map_of (q_parts q) n = Some p"
  defines "mine \<equiv> filter (\<lambda>e. pa_cursor p < en_seq e \<and> is_for opts e n) (q_entries (sync W sh q))"
  shows "map_option bl_mine b = (if mine = [] then None else Some mine)"
    "same_files sh sh'" "same_read (sync W sh q) q'" "sh_roster sh' = sh_roster sh" "sh_ended sh' = sh_ended sh"
    "q_parts q' = (if mine = [] then q_parts q else dict_put n
       (p\<lparr>pa_cursor := last_seq (q_entries (sync W sh q)),
          pa_returned := filter (\<lambda>s. last_seq (q_entries (sync W sh q)) < s) (pa_returned p)\<rparr>) (q_parts q))"
proof -
  have p: "map_of (q_parts (sync W sh q)) n = Some p" "q_parts (sync W sh q) = q_parts q"
    using assms(2) by (simp_all add: sync_def)
  have m: "filter (\<lambda>e. is_for opts e n) (filter (\<lambda>e. pa_cursor p < en_seq e \<and> en_author e \<noteq> n) (q_entries (sync W sh q))) = mine"
    unfolding mine_def filter_filter by (rule filter_cong) (auto simp: is_for_def)
  define p' where "p' = p\<lparr>pa_cursor := last_seq (q_entries (sync W sh q)),
      pa_returned := filter (\<lambda>s. last_seq (q_entries (sync W sh q)) < s) (pa_returned p)\<rparr>"
  define shown where "shown = map en_seq (filter (\<lambda>e. en_seq e \<notin> set (pa_returned p)) mine)"
  obtain sh1 q1 where l: "log_delivery W n shown ''block'' (Some (last_seq (q_entries (sync W sh q)))) sh
      (put_part (sync W sh q) n p') = (sh1, q1)" by (metis surj_pair)
  note res = assms(1) [unfolded take_block_def Let_def p(1) option.case m p'_def [symmetric] shown_def [symmetric] l prod.case]
  show "map_option bl_mine b = (if mine = [] then None else Some mine)" using res by (auto split: if_splits)
  show "same_files sh sh'" "same_read (sync W sh q) q'" "sh_roster sh' = sh_roster sh" "sh_ended sh' = sh_ended sh"
    using res log_delivery_same [OF l] by (auto split: if_splits)
  show "q_parts q' = (if mine = [] then q_parts q else dict_put n
       (p\<lparr>pa_cursor := last_seq (q_entries (sync W sh q)),
          pa_returned := filter (\<lambda>s. last_seq (q_entries (sync W sh q)) < s) (pa_returned p)\<rparr>) (q_parts q))"
    using res log_delivery_same [OF l] p(2) unfolding p'_def [symmetric] by (auto split: if_splits)
qed

lemma page_all_cases:
  assumes "page_all W opts n limit sh q = Some ((es, rest), sh', q')" "map_of (q_parts q) n = Some p"
  shows "set es \<subseteq> set (q_entries (sync W sh q))" "distinct (map en_seq (q_entries (sync W sh q))) \<Longrightarrow> distinct (map en_seq es)"
    "same_files sh sh'" "same_read (sync W sh q) q'" "sh_roster sh' = sh_roster sh" "sh_ended sh' = sh_ended sh"
    "\<exists>c. q_parts q' = (if es = [] then q_parts q
       else dict_put n ((give p (filter (\<lambda>e. is_for opts e n) es))\<lparr>pa_all_cursor := c\<rparr>) (q_parts q))"
    "es = take limit (filter (\<lambda>e. pa_all_cursor p < en_seq e \<and> en_author e \<noteq> n) (q_entries (sync W sh q)))"
proof -
  have p: "map_of (q_parts (sync W sh q)) n = Some p" "q_parts (sync W sh q) = q_parts q"
    using assms(2) by (simp_all add: sync_def)
  define pg where "pg = take limit (filter (\<lambda>e. pa_all_cursor p < en_seq e \<and> en_author e \<noteq> n) (q_entries (sync W sh q)))"
  define p' where "p' = (give p (filter (\<lambda>e. is_for opts e n) pg))\<lparr>pa_all_cursor := en_seq (last pg)\<rparr>"
  obtain sh1 q1 where l: "log_delivery W n (map en_seq pg) ''messages'' None sh (put_part (sync W sh q) n p') = (sh1, q1)"
    by (metis surj_pair)
  note res = assms(1) [unfolded page_all_def Let_def p(1) option.case pg_def [symmetric] p'_def [symmetric] l prod.case]
  have es: "es = pg" using res by (auto split: if_splits)
  then show "es = take limit (filter (\<lambda>e. pa_all_cursor p < en_seq e \<and> en_author e \<noteq> n) (q_entries (sync W sh q)))"
    by (simp add: pg_def)
  show "set es \<subseteq> set (q_entries (sync W sh q))"
    unfolding es pg_def by (auto dest: in_set_takeD)
  show "distinct (map en_seq es)" if "distinct (map en_seq (q_entries (sync W sh q)))"
    unfolding es pg_def take_map [symmetric] by (rule distinct_take) (rule distinct_map_filter [OF that])
  show "same_files sh sh'" "same_read (sync W sh q) q'" "sh_roster sh' = sh_roster sh" "sh_ended sh' = sh_ended sh"
    using res log_delivery_same [OF l] by (auto split: if_splits)
  show "\<exists>c. q_parts q' = (if es = [] then q_parts q
       else dict_put n ((give p (filter (\<lambda>e. is_for opts e n) es))\<lparr>pa_all_cursor := c\<rparr>) (q_parts q))"
    using res log_delivery_same [OF l] p(2) unfolding p'_def by (auto split: if_splits)
qed

lemma join_same: "join W j sh q = Inr (sh', q') \<Longrightarrow> same_files sh sh' \<and> same_read q q'"
  by (auto simp: join_def Let_def same_files_def same_read_def split: option.splits if_splits)

lemma attach_same: "attach W n sh q = Inr (sh', q') \<Longrightarrow> same_files sh sh' \<and> same_read q q'"
  by (auto simp: attach_def Let_def same_files_def same_read_def split: option.splits if_splits)

lemma set_state_same: "set_state W n st fs sh = Inr sh' \<Longrightarrow> same_files sh sh'"
  by (auto simp: set_state_def same_files_def split: if_splits)

lemma leave_same: "leave W n sh q = Inr (sh', q') \<Longrightarrow> same_files sh sh' \<and> same_read q q'"
  by (auto simp: leave_def Let_def same_read_def dest!: set_state_same split: option.splits if_splits)

lemma note_act_same: "same_read q (note_act n q)"
  by (simp add: note_act_def same_read_def split: option.split)

lemma set_cursor_same: "set_cursor W n til sh q = Some (sh', q') \<Longrightarrow> same_files sh sh' \<and> same_read q q'"
  by (auto simp: set_cursor_def split: option.splits dest!: log_delivery_same)

lemma accept_cases:
  assumes "file_ok sh" "proc_ok sh q" "accept W opts po sh q = (r, sh', q')"
  shows "(sh' = sh \<and> q' = q \<and> post_outcome r []) \<or>
    (\<exists>new. post_outcome r new \<and> appended (close_torn_line sh) sh' q' new)"
proof (cases "clean_posting W po")
  case (Inl why)
  then have "why \<noteq> Not_Read_Back" by (auto simp: clean_posting_def Let_def split: if_splits)
  then show ?thesis using assms(3) Inl by (auto simp: accept_def post_outcome_def)
next
  case (Inr clean)
  then have "accept_locked W opts po clean (addressed_by W po clean sh q) sh q = (r, sh', q')"
    using assms(3) by (simp add: accept_def)
  from accept_locked_outcome [OF assms(1,2) this] show ?thesis by blast
qed

lemma accept_ok: "file_ok sh \<Longrightarrow> proc_ok sh q \<Longrightarrow> accept W opts po sh q = (r, sh', q') \<Longrightarrow>
    grows sh sh' \<and> file_ok sh' \<and> proc_ok sh' q'"
  using accept_cases [of sh q W opts po r sh' q'] grows_trans [OF grows_closed [of sh], of sh']
  by (auto simp: appended_def)

definition sys_ok :: "system \<Rightarrow> bool" where
  "sys_ok s \<longleftrightarrow> file_ok (y_shared s) \<and> (\<forall>k q. map_of (y_procs s) k = Some q \<longrightarrow> proc_ok (y_shared s) q)"

lemma sys_ok_put:
  assumes "sys_ok s" "grows (y_shared s) sh'" "file_ok sh'" "proc_ok sh' q'"
  shows "sys_ok (put_proc s k sh' q')"
  using assms proc_ok_grows [OF assms(2)] by (auto simp: sys_ok_def put_proc_def)

lemma sys_ok_op: "sys_ok s \<Longrightarrow> map_of (y_procs s) k = Some q \<Longrightarrow> op_ok (y_shared s) q sh' q' \<Longrightarrow>
    sys_ok (put_proc s k sh' q')"
  by (rule sys_ok_put) (auto simp: op_ok_def sys_ok_def)

lemma sys_ok_dies:
  assumes "sys_ok s" "torn_ok (last_seq (entries_of (close_torn_line (y_shared s)))) l"
  shows "sys_ok (s\<lparr>y_shared := (close_torn_line (y_shared s))\<lparr>sh_torn := Some l\<rparr>, y_procs := AList.delete k (y_procs s)\<rparr>)"
proof -
  define sh where "sh = close_torn_line (y_shared s)"
  have f: "file_ok sh" using assms(1) file_ok_closed by (simp add: sys_ok_def sh_def)
  have g: "grows (y_shared s) (sh\<lparr>sh_torn := Some l\<rparr>)"
    using grows_closed [of "y_shared s"] by (simp add: grows_def sh_def)
  have "file_ok (sh\<lparr>sh_torn := Some l\<rparr>)"
    using f assms(2) unfolding sh_def [symmetric] by (simp add: file_ok_def entries_of_def)
  then show ?thesis using assms(1) proc_ok_grows [OF g]
    by (auto simp: sys_ok_def sh_def [symmetric] AList.delete_conv' split: if_splits)
qed

lemma take_unseen_op:
  assumes "take_unseen W opts n via sh q = Some (es, sh', q')" "map_of (q_parts q) n = Some p" shows "op_ok sh q sh' q'"
  by (rule quiet_op_sync [OF take_unseen_cases(2,3) [OF assms]])

lemma take_block_op:
  assumes "take_block W opts n sh q = Some (b, sh', q')" "map_of (q_parts q) n = Some p" shows "op_ok sh q sh' q'"
  by (rule quiet_op_sync [OF take_block_cases(2,3) [OF assms]])

lemma page_all_op:
  assumes "page_all W opts n limit sh q = Some ((es, rest), sh', q')" "map_of (q_parts q) n = Some p" shows "op_ok sh q sh' q'"
  by (rule quiet_op_sync [OF page_all_cases(3,4) [OF assms]])

lemma step_ok: "run_step opts s l t \<Longrightarrow> sys_ok s \<Longrightarrow> sys_ok t"
proof (induction rule: run_step.induct)
  case (opens s k W)
  then show ?case by (intro sys_ok_put) (auto simp: sys_ok_def new_process_ok)
next
  case (reads s k q W)
  then show ?case using quiet_op_sync [OF same_refl(2) same_refl(1)] by (blast intro: sys_ok_op)
next
  case (joins s k q W j sh' q')
  then show ?case using join_same quiet_op by (blast intro: sys_ok_op)
next
  case (attaches s k q W n sh' q')
  then show ?case using attach_same quiet_op by (blast intro: sys_ok_op)
next
  case (states W n st fs s sh')
  then show ?case using same_files_ok [OF set_state_same] by (simp add: sys_ok_def)
next
  case (leaves s k q W n sh' q')
  then show ?case using leave_same quiet_op by (blast intro: sys_ok_op)
next
  case (posts s k q W po r sh' q')
  then show ?case using accept_ok by (blast intro: sys_ok_put dest: sys_ok_def [THEN iffD1])
next
  case (acts s k q n)
  then show ?case using note_act_same quiet_op same_refl by (blast intro: sys_ok_op)
next
  case (moves s k q W n til sh' q')
  then show ?case using set_cursor_same quiet_op by (blast intro: sys_ok_op)
next
  case (waits s k q n p W via es sh' q')
  then show ?case using take_unseen_op by (blast intro: sys_ok_op)
next
  case (blocks s k q n p W b sh' q')
  then show ?case using take_block_op by (blast intro: sys_ok_op)
next
  case (pages s k q n p W limit es rest sh' q')
  then show ?case using page_all_op by (blast intro: sys_ok_op)
next
  case (dies s k q sh1 l)
  then show ?case using sys_ok_dies by simp
qed

lemma sys_ok_first: "sys_ok first_system"
  by (simp add: sys_ok_def first_system_def file_ok_def entries_of_def read_lines_def)

lemma runs_ok: "runs opts s ls t \<Longrightarrow> sys_ok s \<Longrightarrow> sys_ok t"
  by (induction rule: runs.induct) (auto intro: step_ok)


end
