(* ===== verification/HelperPool.thy ===== *)
theory HelperPool imports RunRecordRuns
begin

text \<open>
  The helpers an agent starts (\<open>unify/agents/pool.py\<close>, class \<open>Pool\<close>, over the run record): \<open>spawn\<close> with its
  guards in order, the end of a helper's task (\<open>_run\<close>), \<open>stop\<close>, \<open>close\<close>, \<open>finish_request\<close> and \<open>list\<close>. A pool
  keeps the names it started, the number of each one's request entry and each task, ended or not; the states of the
  helpers are the participants' of its process, and setting one writes the agent's roster row.

  None of these waits while it runs, so each is one step of the event loop; other processes run between two
  locked accesses of the shared files, which is \<open>others\<close>: what the files have become at each of them.
\<close>

section \<open>The pool\<close>

record pool_limits =
  pl_live :: nat
  pl_total :: nat
  pl_entries :: "nat option"

record helper_pool =
  hp_started :: "string list"
  hp_requests :: "(string \<times> int) list"
  hp_tasks :: "(string \<times> bool) list"

definition empty_pool :: helper_pool where
  "empty_pool = \<lparr>hp_started = [], hp_requests = [], hp_tasks = []\<rparr>"

datatype pool_refusal =
    Spawn_Off | Bad_Request | Too_Many_Live nat | Total_Reached | Bad_Helper_Name | Request_Too_Long int | Entries_Full
  | No_Free_Name | Refused refusal | No_Such_Helper | Not_The_Starter

definition RESERVED_NAMES :: "string list" where
  "RESERVED_NAMES = [''user'', ''harness'', ''all'', ''root'']"

definition NAME_TRIES :: nat where "NAME_TRIES = 20"

definition PLACEHOLDERS :: "string list" where
  "PLACEHOLDERS = [''no-op'', ''noop'', ''n/a'', ''na'', ''not applicable'', ''none'', ''nothing'', ''todo'', ''tbd'']"

text \<open>A text that says nothing: one of these in any case, with a full stop or an exclamation mark and blanks.\<close>

definition placeholder :: "string \<Rightarrow> bool" where
  "placeholder s = (let t = strip s;
      u = (if t \<noteq> [] \<and> (last t = CHR ''.'' \<or> last t = CHR ''!'') then strip (butlast t) else t)
    in map to_lower t \<in> set PLACEHOLDERS \<or> map to_lower u \<in> set PLACEHOLDERS)"

section \<open>States\<close>

definition ROSTER_STATE :: "(string \<times> string) list" where
  "ROSTER_STATE = [(''running'', ''running''), (''replied'', ''ended''), (''stopped'', ''ended''), (''failed'', ''ended''),
     (''lost'', ''ended'')]"

text \<open>\<open>participant.state = st\<close>: a change is written to the agent's roster row; an error of that is logged.\<close>

definition set_part_state :: "world \<Rightarrow> string \<Rightarrow> string \<Rightarrow> shared \<Rightarrow> process \<Rightarrow> shared \<times> process" where
  "set_part_state W n st sh q = (case map_of (q_parts q) n of
       None \<Rightarrow> (sh, q)
     | Some p \<Rightarrow>
         (if pa_run_role p = None \<or> pa_state p = st then (sh, put_part q n (p\<lparr>pa_state := st\<rparr>))
          else (case map_of ROSTER_STATE st of
              None \<Rightarrow> sh
            | Some shown \<Rightarrow> (case set_state W n shown (None, None, None) sh of Inl r \<Rightarrow> sh | Inr sh' \<Rightarrow> sh'),
            put_part q n (p\<lparr>pa_state := st\<rparr>))))"

definition part_state :: "process \<Rightarrow> string \<Rightarrow> string option" where
  "part_state q n = map_option pa_state (map_of (q_parts q) n)"

definition live_helpers :: "helper_pool \<Rightarrow> process \<Rightarrow> string list" where
  "live_helpers P q = filter (\<lambda>n. part_state q n = Some ''running'') (hp_started P)"

section \<open>Starting a helper\<close>

definition helper_join :: "process \<Rightarrow> string \<Rightarrow> string \<Rightarrow> join_request" where
  "helper_join q spawner n = \<lparr>j_name = n, j_role = ''helper'', j_state = ''running'', j_episode = author_episode q spawner,
     j_pass = author_pass q spawner, j_spawner = Some spawner, j_helps = None, j_rejoin = False\<rparr>"

text \<open>The join, with another free name while other processes keep taking the picked one.\<close>

fun take_name :: "world \<Rightarrow> (nat \<Rightarrow> shared \<Rightarrow> shared) \<Rightarrow> string \<Rightarrow> bool \<Rightarrow> nat \<Rightarrow> string \<Rightarrow> shared \<Rightarrow> process \<Rightarrow>
    (pool_refusal + string) \<times> shared \<times> process" where
  "take_name W others spawner picked 0 n sh q = (Inl No_Free_Name, sh, q)"
| "take_name W others spawner picked (Suc k) n sh q =
    (let sh1 = others k sh in
     case join W (helper_join q spawner n) sh1 q of
       Inr (sh2, q2) \<Rightarrow> (Inr n, sh2, q2)
     | Inl r \<Rightarrow> (if picked then take_name W others spawner picked k (next_name ''h'' sh1 q) sh1 q
                else (Inl (Refused r), sh1, q)))"

definition mention_text :: "string \<Rightarrow> string \<Rightarrow> string" where
  "mention_text n request = ''@'' @ n @ '' '' @ request"

definition spawn_guard :: "pool_limits \<Rightarrow> string \<Rightarrow> process \<Rightarrow> helper_pool \<Rightarrow> pool_refusal option" where
  "spawn_guard L request q P =
    (if pl_total L = 0 then Some Spawn_Off
     else if length (filter (\<lambda>c. \<not> is_space c) request) < 16 \<or> placeholder request then Some Bad_Request
     else if pl_live L \<le> length (live_helpers P q) then Some (Too_Many_Live (length (live_helpers P q)))
     else if pl_total L \<le> length (hp_started P) then Some Total_Reached
     else None)"

definition name_guard :: "world \<Rightarrow> pool_limits \<Rightarrow> string \<Rightarrow> string \<Rightarrow> process \<Rightarrow> pool_refusal option" where
  "name_guard W L n request q =
    (let size = utf8_len (w_clean W (mention_text n request)) in
     if \<not> valid_name n \<or> n \<in> set RESERVED_NAMES \<or> n \<in> set (keys_of (q_parts q)) then Some Bad_Helper_Name
     else if MAX_TEXT_BYTES < size then Some (Request_Too_Long size)
     else if (case pl_entries L of Some m \<Rightarrow> m \<le> length (q_entries q) | None \<Rightarrow> False) then Some Entries_Full
     else None)"

definition request_posting :: "string \<Rightarrow> string \<Rightarrow> string \<Rightarrow> posting" where
  "request_posting spawner n request = \<lparr>po_author = spawner, po_text = mention_text n request, po_kind = ''post'',
     po_mentions = None, po_fit = None, po_reply_to = None, po_refs = None\<rparr>"

text \<open>The request's entry, the helper's cursor past it and its task; a refused request leaves a failed helper.\<close>

definition give_request :: "world \<Rightarrow> run_options \<Rightarrow> string \<Rightarrow> string \<Rightarrow> string \<Rightarrow> shared \<Rightarrow> process \<Rightarrow> helper_pool \<Rightarrow>
    (pool_refusal + string) \<times> shared \<times> process \<times> helper_pool" where
  "give_request W opts spawner n request sh q P0 =
    (let P = P0\<lparr>hp_started := hp_started P0 @ [n]\<rparr> in
     case accept W opts (request_posting spawner n request) sh q of
       (Inl r, sh1, q1) \<Rightarrow> (case set_part_state W n ''failed'' sh1 q1 of (sh2, q2) \<Rightarrow> (Inl (Refused r), sh2, q2, P))
     | (Inr (e, unresolved, storm), sh1, q1) \<Rightarrow>
         (case set_cursor W n (en_seq e) sh1 q1 of
            None \<Rightarrow> (Inl (Refused Not_On_Record), sh1, q1, P)
          | Some (sh2, q2) \<Rightarrow> (Inr n, sh2, q2, P\<lparr>hp_requests := dict_put n (en_seq e) (hp_requests P),
                hp_tasks := dict_put n False (hp_tasks P)\<rparr>)))"

definition spawn :: "world \<Rightarrow> run_options \<Rightarrow> pool_limits \<Rightarrow> (nat \<Rightarrow> shared \<Rightarrow> shared) \<Rightarrow> string \<Rightarrow> string \<Rightarrow> string option \<Rightarrow>
    shared \<Rightarrow> process \<Rightarrow> helper_pool \<Rightarrow> (pool_refusal + string) \<times> shared \<times> process \<times> helper_pool" where
  "spawn W opts L others spawner request given sh q P =
    (case spawn_guard L request q P of
       Some r \<Rightarrow> (Inl r, sh, q, P)
     | None \<Rightarrow>
         (let n = (case given of Some g \<Rightarrow> g | None \<Rightarrow> next_name ''h'' sh q) in
          case name_guard W L n request q of
            Some r \<Rightarrow> (Inl r, sh, q, P)
          | None \<Rightarrow>
              (case take_name W others spawner (given = None) NAME_TRIES n sh q of
                 (Inl r, sh1, q1) \<Rightarrow> (Inl r, sh1, q1, P)
               | (Inr m, sh1, q1) \<Rightarrow> give_request W opts spawner m request (others NAME_TRIES sh1) q1 P)))"

section \<open>The end of a helper's task\<close>

datatype task_end = Answered string | Raised string | Cancelled

definition harness_posting :: "string \<Rightarrow> string \<Rightarrow> string \<Rightarrow> string \<Rightarrow> string \<Rightarrow> posting" where
  "harness_posting author text kind to place = \<lparr>po_author = author, po_text = text, po_kind = kind,
     po_mentions = Some [to], po_fit = Some place, po_reply_to = None, po_refs = None\<rparr>"

definition end_task :: "string \<Rightarrow> helper_pool \<Rightarrow> helper_pool" where
  "end_task n P = P\<lparr>hp_tasks := dict_put n True (hp_tasks P)\<rparr>"

definition helper_ends :: "world \<Rightarrow> run_options \<Rightarrow> string \<Rightarrow> string \<Rightarrow> task_end \<Rightarrow> shared \<Rightarrow> process \<Rightarrow> helper_pool \<Rightarrow>
    shared \<times> process \<times> helper_pool" where
  "helper_ends W opts n spawner how sh q P =
    (case how of
       Cancelled \<Rightarrow>
         (if part_state q n = Some ''running''
          then (case set_part_state W n ''stopped'' sh q of (sh1, q1) \<Rightarrow> (sh1, q1, end_task n P))
          else (sh, q, end_task n P))
     | Raised why \<Rightarrow>
         (case set_part_state W n ''failed'' sh q of (sh1, q1) \<Rightarrow>
            (case accept W opts (harness_posting HARNESS (''@'' @ spawner @ '' '' @ n @ '' ended without replying: '' @ why)
                ''system'' spawner ''the harness log'') sh1 q1 of (a, sh2, q2) \<Rightarrow> (sh2, q2, end_task n P)))
     | Answered text \<Rightarrow>
         (case set_part_state W n ''replied'' sh q of (sh1, q1) \<Rightarrow>
            (case accept W opts (harness_posting n text ''reply'' spawner (''this helper'' @ [char_of (39::nat)] @ ''s transcript'')) sh1 q1 of
               (a, sh2, q2) \<Rightarrow> (sh2, q2, end_task n P))))"

section \<open>Stopping\<close>

definition stop_text :: "string \<Rightarrow> string \<Rightarrow> string" where
  "stop_text n reason = ''@'' @ n @ '' stop'' @ (if reason = [] then [] else '': '' @ reason)"

definition stop_helper :: "world \<Rightarrow> run_options \<Rightarrow> string \<Rightarrow> string \<Rightarrow> string \<Rightarrow> shared \<Rightarrow> process \<Rightarrow>
    (pool_refusal + unit) \<times> shared \<times> process" where
  "stop_helper W opts by n reason sh q =
    (case map_of (q_parts q) n of
       None \<Rightarrow> (Inl No_Such_Helper, sh, q)
     | Some p \<Rightarrow>
         (case pa_spawner p of
            None \<Rightarrow> (Inl No_Such_Helper, sh, q)
          | Some starter \<Rightarrow>
              if by \<noteq> starter \<and> by \<noteq> USER \<and> by \<noteq> HARNESS then (Inl Not_The_Starter, sh, q)
              else if pa_state p \<noteq> ''running'' then (Inr (), sh, q)
              else (case accept W opts (harness_posting by (stop_text n reason) ''cancel'' n ''the harness log'') sh q of
                 (Inl r, sh1, q1) \<Rightarrow> (Inl (Refused r), sh1, q1)
               | (Inr a, sh1, q1) \<Rightarrow> (case set_part_state W n ''stopped'' sh1 q1 of (sh2, q2) \<Rightarrow> (Inr (), sh2, q2)))))"

definition close_text :: "string \<Rightarrow> string \<Rightarrow> string \<Rightarrow> string" where
  "close_text spawner n reason = ''@'' @ spawner @ '' '' @ n @ '' stopped: '' @ reason"

text \<open>\<open>close\<close>, one task after another; a task that has ended, or whose helper has, is left.\<close>

fun close_tasks :: "world \<Rightarrow> run_options \<Rightarrow> string \<Rightarrow> (string \<times> bool) list \<Rightarrow> shared \<Rightarrow> process \<Rightarrow>
    (pool_refusal + unit) \<times> shared \<times> process" where
  "close_tasks W opts reason [] sh q = (Inr (), sh, q)"
| "close_tasks W opts reason ((n, ended) # ts) sh q =
    (if ended \<or> part_state q n \<noteq> Some ''running'' then close_tasks W opts reason ts sh q
     else let spawner = (case map_of (q_parts q) n of Some p \<Rightarrow> (case pa_spawner p of Some s \<Rightarrow> s | None \<Rightarrow> ''None'') | None \<Rightarrow> []) in
       case set_part_state W n ''stopped'' sh q of (sh1, q1) \<Rightarrow>
         (case accept W opts (harness_posting HARNESS (close_text spawner n reason) ''system'' spawner ''the harness log'') sh1 q1 of
            (Inl r, sh2, q2) \<Rightarrow> (Inl (Refused r), sh2, q2)
          | (Inr a, sh2, q2) \<Rightarrow> close_tasks W opts reason ts sh2 q2))"

definition close_pool :: "world \<Rightarrow> run_options \<Rightarrow> string \<Rightarrow> shared \<Rightarrow> process \<Rightarrow> helper_pool \<Rightarrow>
    (pool_refusal + unit) \<times> shared \<times> process" where
  "close_pool W opts reason sh q P = close_tasks W opts reason (hp_tasks P) sh q"

definition finish_request :: "world \<Rightarrow> run_options \<Rightarrow> string \<Rightarrow> string \<Rightarrow> string \<Rightarrow> shared \<Rightarrow> process \<Rightarrow> helper_pool \<Rightarrow>
    (pool_refusal + unit) \<times> shared \<times> process" where
  "finish_request W opts agent reply reason sh q P =
    (case accept W opts (harness_posting agent reply ''reply'' USER (''the session'' @ [char_of (39::nat)] @ ''s result'')) sh q of
       (Inl r, sh1, q1) \<Rightarrow> (Inl (Refused r), sh1, q1)
     | (Inr a, sh1, q1) \<Rightarrow> close_pool W opts reason sh1 q1 P)"

text \<open>\<open>list\<close>: the agents one agent started: name, state, request and last entry.\<close>

definition list_helpers :: "string \<Rightarrow> process \<Rightarrow> helper_pool \<Rightarrow> (string \<times> string \<times> int option \<times> int option) list" where
  "list_helpers spawner q P = map (\<lambda>p. (pa_name p, pa_state p, map_of (hp_requests P) (pa_name p), pa_last_seq p))
     (filter (\<lambda>p. pa_spawner p = Some spawner) (map snd (q_parts q)))"

end
