(* ===== verification/RunRecordDelivery.thy ===== *)
theory RunRecordDelivery imports RunRecordRuns
begin

text \<open>
  What an agent of the run record is given (\<open>take_unseen\<close>, \<open>take_block\<close> and \<open>page_all\<close> of
  \<open>unify/agents/run_record.py\<close>), over runs of any number of processes: nothing is given as new
  twice, and nothing addressed to the agent is lost. And what a post of the harness can rely on.
\<close>

section \<open>Posts\<close>

lemma reached_proc:
  "runs opts first_system ls s \<Longrightarrow> map_of (y_procs s) k = Some q \<Longrightarrow> file_ok (y_shared s) \<and> proc_ok (y_shared s) q"
  using runs_ok [OF _ sys_ok_first] by (auto simp: sys_ok_def)

text \<open>C10. A post that is accepted is the record's new end, read back by its author: whatever other
  processes did, the file gains exactly the entry, and the storm notice it set off, after at
  most one entry a crash had left without its newline; a refused post adds nothing of its own,
  and no post fails because it could not be read back.\<close>

theorem post_is_read_back:
  assumes "runs opts first_system ls s" "map_of (y_procs s) k = Some q" "accept W opts po (y_shared s) q = (r, sh', q')"
  shows "\<exists>torn new. length torn \<le> 1 \<and> entries_of sh' = entries_of (y_shared s) @ torn @ new \<and>
    (case r of Inl why \<Rightarrow> why \<noteq> Not_Read_Back \<and> new = []
     | Inr (e, unresolved, notice) \<Rightarrow> q_entries q' = entries_of sh' \<and>
         new = e # (case notice of None \<Rightarrow> [] | Some n \<Rightarrow> [n]))"
proof -
  note ok = reached_proc [OF assms(1,2)]
  from accept_cases [OF conjunct1 [OF ok] conjunct2 [OF ok] assms(3)] show ?thesis
  proof
    assume same: "sh' = y_shared s \<and> q' = q \<and> post_outcome r []"
    then obtain why where "r = Inl why" "why \<noteq> Not_Read_Back"
      by (auto simp: post_outcome_def split: sum.splits option.splits)
    then show ?thesis using same by (intro exI [of _ "[]"]) simp
  next
    assume "\<exists>new. post_outcome r new \<and> appended (close_torn_line (y_shared s)) sh' q' new"
    then obtain new where n: "post_outcome r new" "appended (close_torn_line (y_shared s)) sh' q' new" by blast
    obtain torn where t: "length torn \<le> 1" "appended (y_shared s) sh' q' (torn @ new)"
      using appended_closed [OF conjunct1 [OF ok] conjunct2 [OF ok] n(2)] by blast
    then show ?thesis using n(1)
      by (intro exI [of _ torn] exI [of _ new])
        (auto simp: appended_def post_outcome_def split: sum.splits option.splits)
  qed
qed

text \<open>C12. A harness entry is never refused. A request, a reply, a stop or a notice the harness writes, of
  a known kind and with a place for its whole text that leaves room for the note about it, is always
  accepted, however long it is and however full the record: an answer or a stop is never lost.\<close>

theorem harness_entry_never_refused:
  assumes "runs opts first_system ls s" "map_of (y_procs s) k = Some q"
    and "po_kind po \<in> set ENTRY_KINDS" "po_fit po = Some place"
    and "utf8_len (fit_note (utf8_len (w_clean W (po_text po))) place) \<le> MAX_TEXT_BYTES"
  shows "\<exists>e un n sh' q'. accept W opts po (y_shared s) q = (Inr (e, un, n), sh', q') \<and> e \<in> set (q_entries q')"
proof -
  note ok = reached_proc [OF assms(1,2)]
  obtain r sh' q' where a: "accept W opts po (y_shared s) q = (r, sh', q')" by (metis prod_cases3)
  define clean where "clean = fit_text (w_clean W (po_text po)) place"
  have "clean_posting W po = Inr clean"
    using assms(3,4) fit_text_len [OF assms(5)] by (simp add: clean_posting_def Let_def clean_def)
  then have "accept_locked W opts po clean (addressed_by W po clean (y_shared s) q) (y_shared s) q = (r, sh', q')"
    using a by (simp add: accept_def)
  from accept_locked_outcome [OF conjunct1 [OF ok] conjunct2 [OF ok] this] assms(4)
  obtain e un n where r: "r = Inr (e, un, n)" by auto
  from accept_cases [OF conjunct1 [OF ok] conjunct2 [OF ok] a] r have "e \<in> set (q_entries q')"
    by (auto simp: post_outcome_def appended_def split: option.splits)
  then show ?thesis using a r by blast
qed

section \<open>What one agent holds\<close>

text \<open>Every number given is the number of an entry for the agent after \<open>c0\<close>.\<close>

definition from_record :: "run_options \<Rightarrow> string \<Rightarrow> int \<Rightarrow> int list \<Rightarrow> run_entry list \<Rightarrow> bool" where
  "from_record opts n c0 gs es \<longleftrightarrow> (\<forall>s\<in>set gs. \<exists>e\<in>set es. en_seq e = s \<and> is_for opts e n \<and> c0 < s)"

definition agent_inv :: "run_options \<Rightarrow> string \<Rightarrow> int \<Rightarrow> int list \<Rightarrow> run_entry list \<Rightarrow> participant \<Rightarrow> bool" where
  "agent_inv opts n c0 gs es p \<longleftrightarrow> distinct gs \<and>
     (\<forall>s\<in>set gs. s \<le> pa_cursor p \<or> s \<in> set (pa_returned p)) \<and>
     (\<forall>e\<in>set es. is_for opts e n \<longrightarrow> c0 < en_seq e \<longrightarrow>
        en_seq e \<in> set gs \<or> (pa_cursor p < en_seq e \<and> en_seq e \<notin> set (pa_returned p))) \<and>
     pa_cursor p \<le> last_seq es \<and> (\<forall>s\<in>set (pa_returned p). s \<le> last_seq es) \<and>
     c0 \<le> pa_cursor p \<and> from_record opts n c0 gs es"

lemma from_record_news:
  "from_record opts n c0 gs es \<Longrightarrow> c0 \<le> pa_cursor p \<Longrightarrow> set fs \<subseteq> set es \<Longrightarrow> from_record opts n c0 (gs @ news opts n p fs) es"
  by (auto simp: from_record_def news_def)

lemma from_record_grow: "from_record opts n c0 gs es \<Longrightarrow> from_record opts n c0 gs (es @ new)"
  by (auto simp: from_record_def)

lemma numbered_prefix: "numbered (es @ new) \<Longrightarrow> numbered es"
proof -
  assume "numbered (es @ new)"
  then have "take (length es) (map en_seq (es @ new)) = take (length es) (map int [1..<length (es @ new) + 1])"
    by (simp only: numbered_def)
  then show ?thesis by (simp add: numbered_def take_map take_upt del: upt_Suc)
qed

lemma numbered_new: "numbered (es @ new) \<Longrightarrow> e \<in> set new \<Longrightarrow> last_seq es < en_seq e"
proof -
  assume n: "numbered (es @ new)" and e: "e \<in> set new"
  obtain i where i: "i < length new" "new ! i = e" using e by (auto simp: in_set_conv_nth)
  have "map en_seq (es @ new) ! (length es + i) = map int [1..<length (es @ new) + 1] ! (length es + i)"
    using n by (simp add: numbered_def)
  then have "en_seq e = int (length es + i + 1)" using i by (simp add: nth_append del: upt_Suc)
  then show ?thesis using numbered_last [OF numbered_prefix [OF n]] by simp
qed

lemma agent_inv_grow:
  assumes "agent_inv opts n c0 gs es p" "numbered (es @ new)" shows "agent_inv opts n c0 gs (es @ new) p"
proof -
  have le: "last_seq es \<le> last_seq (es @ new)"
    using numbered_last [OF assms(2)] numbered_last [OF numbered_prefix [OF assms(2)]] by simp
  have "pa_cursor p < en_seq e \<and> en_seq e \<notin> set (pa_returned p)" if "e \<in> set new" for e
    using numbered_new [OF assms(2) that] assms(1) by (auto simp: agent_inv_def)
  then show ?thesis using assms(1) le from_record_grow [of opts n c0 gs es new] by (fastforce simp: agent_inv_def)
qed

lemma agent_inv_cong:
  "pa_cursor p' = pa_cursor p \<Longrightarrow> set (pa_returned p') = set (pa_returned p) \<Longrightarrow>
   agent_inv opts n c0 gs es p' = agent_inv opts n c0 gs es p"
  by (simp add: agent_inv_def)

lemma news_fresh:
  assumes "agent_inv opts n c0 gs es p" "distinct (map en_seq fs)"
  shows "distinct (gs @ news opts n p fs)"
proof -
  have "distinct (news opts n p fs)" unfolding news_def using assms(2) by (rule distinct_map_filter)
  moreover have "set gs \<inter> set (news opts n p fs) = {}"
    using assms(1) by (auto simp: agent_inv_def news_def)
  ultimately show ?thesis using assms(1) by (simp add: agent_inv_def)
qed

section \<open>The contract of a delivery\<close>

text \<open>The three ways of giving share one contract: what is shown of the entries read, and the agent after. It shows
  entries of the record, each once; it forgets nothing it has marked as given; it marks what it shows; and it
  marks nothing new for the agent that it does not show.\<close>

definition marked :: "participant \<Rightarrow> int \<Rightarrow> bool" where
  "marked p s \<longleftrightarrow> s \<le> pa_cursor p \<or> s \<in> set (pa_returned p)"

definition held_in :: "participant \<Rightarrow> run_entry list \<Rightarrow> bool" where
  "held_in p es \<longleftrightarrow> pa_cursor p \<le> last_seq es \<and> (\<forall>s\<in>set (pa_returned p). s \<le> last_seq es)"

locale delivery =
  fixes shown :: "run_options \<Rightarrow> string \<Rightarrow> participant \<Rightarrow> run_entry list \<Rightarrow> run_entry list"
    and after :: "run_options \<Rightarrow> string \<Rightarrow> participant \<Rightarrow> run_entry list \<Rightarrow> participant"
  assumes shown_in: "set (shown opts n p es) \<subseteq> set es"
    and shown_once: "numbered es \<Longrightarrow> distinct (map en_seq (shown opts n p es))"
    and after_within: "numbered es \<Longrightarrow> held_in p es \<Longrightarrow> held_in (after opts n p es) es \<and> pa_cursor p \<le> pa_cursor (after opts n p es)"
    and remembers: "numbered es \<Longrightarrow> held_in p es \<Longrightarrow> marked p s \<Longrightarrow> marked (after opts n p es) s"
    and marks: "numbered es \<Longrightarrow> e \<in> set (shown opts n p es) \<Longrightarrow> is_for opts e n \<Longrightarrow> marked (after opts n p es) (en_seq e)"
    and skips_none: "numbered es \<Longrightarrow> e \<in> set es \<Longrightarrow> is_for opts e n \<Longrightarrow> marked (after opts n p es) (en_seq e) \<Longrightarrow>
      marked p (en_seq e) \<or> e \<in> set (shown opts n p es)"
begin

lemma agent_inv_given:
  assumes inv: "agent_inv opts n c0 gs es p" and es: "numbered es"
  shows "agent_inv opts n c0 (gs @ news opts n p (shown opts n p es)) es (after opts n p es)"
proof -
  define gs' where "gs' = gs @ news opts n p (shown opts n p es)"
  have w: "held_in p es" using inv by (simp add: agent_inv_def held_in_def)
  have "distinct gs'" unfolding gs'_def by (rule news_fresh [OF inv shown_once [OF es]])
  moreover have "marked (after opts n p es) s" if new: "s \<in> set gs'" for s
  proof (cases "s \<in> set gs")
    case True
    then show ?thesis using inv remembers [OF es w] by (auto simp: agent_inv_def marked_def)
  next
    case False
    then obtain e where "e \<in> set (shown opts n p es)" "is_for opts e n" "s = en_seq e"
      using new by (auto simp: gs'_def news_def)
    then show ?thesis using marks [OF es] by blast
  qed
  moreover have "en_seq e \<in> set gs' \<or> \<not> marked (after opts n p es) (en_seq e)"
    if e: "e \<in> set es" "is_for opts e n" "c0 < en_seq e" for e
  proof (rule ccontr)
    assume c: "\<not> (en_seq e \<in> set gs' \<or> \<not> marked (after opts n p es) (en_seq e))"
    then have "en_seq e \<notin> set gs" by (simp add: gs'_def)
    then have u: "\<not> marked p (en_seq e)" using inv e by (auto simp: agent_inv_def marked_def)
    then have "e \<in> set (shown opts n p es)" using skips_none [OF es e(1,2)] c by blast
    then have "en_seq e \<in> set gs'" using u e(2) by (auto simp: gs'_def news_def marked_def)
    then show False using c by simp
  qed
  moreover have "from_record opts n c0 gs' es" unfolding gs'_def
    using inv shown_in by (intro from_record_news) (simp_all add: agent_inv_def)
  moreover have "held_in (after opts n p es) es" "c0 \<le> pa_cursor (after opts n p es)"
    using after_within [OF es w, of opts n] inv by (simp_all add: agent_inv_def)
  ultimately show ?thesis unfolding gs'_def [symmetric] agent_inv_def held_in_def marked_def
    by (auto simp: not_le)
qed

end

definition waiting_shown :: "run_options \<Rightarrow> string \<Rightarrow> participant \<Rightarrow> run_entry list \<Rightarrow> run_entry list" where
  "waiting_shown opts n p es = filter (\<lambda>e. pa_cursor p < en_seq e \<and> en_seq e \<notin> set (pa_returned p) \<and> is_for opts e n) es"

definition block_mine :: "run_options \<Rightarrow> string \<Rightarrow> participant \<Rightarrow> run_entry list \<Rightarrow> run_entry list" where
  "block_mine opts n p es = filter (\<lambda>e. pa_cursor p < en_seq e \<and> is_for opts e n) es"

definition block_after :: "run_options \<Rightarrow> string \<Rightarrow> participant \<Rightarrow> run_entry list \<Rightarrow> participant" where
  "block_after opts n p es = (if block_mine opts n p es = [] then p
     else p\<lparr>pa_cursor := last_seq es, pa_returned := filter (\<lambda>s. last_seq es < s) (pa_returned p)\<rparr>)"

definition page_shown :: "nat \<Rightarrow> run_options \<Rightarrow> string \<Rightarrow> participant \<Rightarrow> run_entry list \<Rightarrow> run_entry list" where
  "page_shown limit opts n p es = take limit (filter (\<lambda>e. pa_all_cursor p < en_seq e \<and> en_author e \<noteq> n) es)"

lemma give_marked: "marked (give p es) s \<longleftrightarrow> marked p s \<or> s \<in> en_seq ` set es"
  by (auto simp: give_def marked_def)

lemma give_within:
  "numbered es \<Longrightarrow> held_in p es \<Longrightarrow> set fs \<subseteq> set es \<Longrightarrow> held_in (give p fs) es \<and> pa_cursor p \<le> pa_cursor (give p fs)"
  using numbered_bound [of es] by (auto simp: held_in_def give_def)

lemma same_seq: "numbered es \<Longrightarrow> e \<in> set es \<Longrightarrow> f \<in> set es \<Longrightarrow> en_seq f = en_seq e \<Longrightarrow> f = e"
  using numbered_distinct [of es] by (auto simp: distinct_map inj_on_def)

lemma page_shown_in: "set (page_shown limit opts n p es) \<subseteq> set es"
  by (auto simp: page_shown_def dest: in_set_takeD)

interpretation waiting: delivery waiting_shown "\<lambda>opts n p es. give p (waiting_shown opts n p es)"
proof unfold_locales
  fix opts n p and es :: "run_entry list" and e s
  show "set (waiting_shown opts n p es) \<subseteq> set es" by (auto simp: waiting_shown_def)
  assume es: "numbered es"
  show "distinct (map en_seq (waiting_shown opts n p es))"
    unfolding waiting_shown_def by (rule distinct_map_filter [OF numbered_distinct [OF es]])
  show "held_in (give p (waiting_shown opts n p es)) es \<and> pa_cursor p \<le> pa_cursor (give p (waiting_shown opts n p es))"
    if "held_in p es" using give_within [OF es that] by (simp add: waiting_shown_def)
  show "marked (give p (waiting_shown opts n p es)) s" if "marked p s" using that by (simp add: give_marked)
  show "marked (give p (waiting_shown opts n p es)) (en_seq e)" if "e \<in> set (waiting_shown opts n p es)"
    using that by (simp add: give_marked)
  show "marked p (en_seq e) \<or> e \<in> set (waiting_shown opts n p es)"
    if "e \<in> set es" "marked (give p (waiting_shown opts n p es)) (en_seq e)"
    using that same_seq [OF es] by (auto simp: give_marked waiting_shown_def)
qed

interpretation blocks: delivery block_mine block_after
proof unfold_locales
  fix opts n p and es :: "run_entry list" and e s
  show "set (block_mine opts n p es) \<subseteq> set es" by (auto simp: block_mine_def)
  assume es: "numbered es"
  note b = numbered_bound [OF es]
  show "distinct (map en_seq (block_mine opts n p es))"
    unfolding block_mine_def by (rule distinct_map_filter [OF numbered_distinct [OF es]])
  show "held_in (block_after opts n p es) es \<and> pa_cursor p \<le> pa_cursor (block_after opts n p es)"
    if "held_in p es" using that by (auto simp: block_after_def held_in_def)
  show "marked (block_after opts n p es) s" if "held_in p es" "marked p s"
    using that by (auto simp: block_after_def held_in_def marked_def)
  show "marked (block_after opts n p es) (en_seq e)" if "e \<in> set (block_mine opts n p es)"
  proof -
    have "en_seq e \<le> last_seq es" using that b by (simp add: block_mine_def)
    then show ?thesis using that by (auto simp: block_after_def marked_def)
  qed
  show "marked p (en_seq e) \<or> e \<in> set (block_mine opts n p es)" if "e \<in> set es" "is_for opts e n"
    using that by (auto simp: marked_def block_mine_def)
qed

interpretation pages: delivery "page_shown limit"
  "\<lambda>opts n p es. give p (filter (\<lambda>e. is_for opts e n) (page_shown limit opts n p es))" for limit
proof unfold_locales
  fix opts n p and es :: "run_entry list" and e s
  define fs where "fs = filter (\<lambda>e. is_for opts e n) (page_shown limit opts n p es)"
  have fs: "set fs \<subseteq> set es" using page_shown_in by (fastforce simp: fs_def)
  show "set (page_shown limit opts n p es) \<subseteq> set es" by (rule page_shown_in)
  assume es: "numbered es"
  show "distinct (map en_seq (page_shown limit opts n p es))"
    unfolding page_shown_def take_map [symmetric]
    by (rule distinct_take) (rule distinct_map_filter [OF numbered_distinct [OF es]])
  show "held_in (give p fs) es \<and> pa_cursor p \<le> pa_cursor (give p fs)" if "held_in p es" by (rule give_within [OF es that fs])
  show "marked (give p fs) s" if "marked p s" using that by (simp add: give_marked)
  show "marked (give p fs) (en_seq e)" if "e \<in> set (page_shown limit opts n p es)" "is_for opts e n"
    using that by (simp add: give_marked fs_def)
  show "marked p (en_seq e) \<or> e \<in> set (page_shown limit opts n p es)"
    if e: "e \<in> set es" "marked (give p fs) (en_seq e)"
  proof (cases "marked p (en_seq e)")
    case False
    then obtain f where f: "f \<in> set fs" "en_seq f = en_seq e" using e(2) by (auto simp: give_marked)
    then have "f = e" using same_seq [OF es e(1)] fs by blast
    then show ?thesis using f(1) by (simp add: fs_def)
  qed simp
qed

section \<open>Steps of other agents and processes\<close>

definition keeps :: "string \<Rightarrow> process \<Rightarrow> process \<Rightarrow> bool" where
  "keeps n q q' \<longleftrightarrow> (\<forall>p. map_of (q_parts q) n = Some p \<longrightarrow> (\<exists>p'. map_of (q_parts q') n = Some p' \<and>
     pa_cursor p' = pa_cursor p \<and> pa_returned p' = pa_returned p))"

definition reads_on :: "process \<Rightarrow> process \<Rightarrow> bool" where
  "reads_on q q' \<longleftrightarrow> (\<exists>new. q_entries q' = q_entries q @ new)"

lemma keeps_same: "q_parts q' = q_parts q \<Longrightarrow> keeps n q q'"
  by (simp add: keeps_def)

lemma keeps_other: "q_parts q' = dict_put m p (q_parts q) \<Longrightarrow> m \<noteq> n \<Longrightarrow> keeps n q q'"
  by (simp add: keeps_def)

lemma keeps_trans: "keeps n a b \<Longrightarrow> keeps n b c \<Longrightarrow> keeps n a c"
  unfolding keeps_def by metis

lemma keeps_sync [simp]: "keeps n q (sync W sh q)"
  by (simp add: keeps_same sync_def)

lemma keeps_mark [simp]: "keeps n q (mark_last_seq a m q)"
  by (auto simp: keeps_def mark_last_seq_def split: option.split)

lemma keeps_act [simp]: "keeps n q (note_act m q)"
  by (auto simp: keeps_def note_act_def split: option.split)

lemma keeps_leave: "leave W m sh q = Inr (sh', q') \<Longrightarrow> keeps n q q'"
  by (auto simp: leave_def keeps_def Let_def split: option.splits if_splits)

lemma keeps_write: "write_entry W e sh q = (r, sh', q') \<Longrightarrow> keeps n q q'"
  by (auto simp: write_entry_def Let_def)

lemma keeps_watch: "write_and_watch W e un sh q = (r, sh', q') \<Longrightarrow> keeps n q q'"
proof -
  assume a: "write_and_watch W e un sh q = (r, sh', q')"
  obtain w sh2 q2 where w: "write_entry W e sh q = (w, sh2, q2)" by (metis prod_cases3)
  define q3 where "q3 = mark_last_seq (en_author e) (en_seq e) q2"
  have 3: "keeps n q q2" "keeps n q q3"
    using keeps_write [OF w] keeps_trans [OF keeps_write [OF w] keeps_mark] by (simp_all add: q3_def)
  note a = a [unfolded write_and_watch_def w prod.case Let_def, folded q3_def]
  show ?thesis
  proof (cases "w = None \<and> storm_notice W (q_entries q3) e \<noteq> None")
    case True
    then obtain m where m: "w = None" "storm_notice W (q_entries q3) e = Some m" by auto
    obtain w' sh4 q4 where w': "write_entry W m sh2 q3 = (w', sh4, q4)" by (metis prod_cases3)
    have "q' = q4" using a m w' by (auto split: option.splits)
    then show ?thesis using keeps_trans [OF 3(2) keeps_write [OF w']] by simp
  next
    case False
    then show ?thesis using a 3 by (auto split: option.splits)
  qed
qed

lemma keeps_accept: "accept W opts po sh q = (r, sh', q') \<Longrightarrow> keeps n q q'"
  using keeps_trans [OF keeps_sync keeps_watch]
  by (auto simp: accept_def accept_locked_def Let_def keeps_same split: sum.splits if_splits)

lemma reads_same: "same_read q q' \<Longrightarrow> reads_on q q'"
  by (simp add: same_read_def reads_on_def)

lemma reads_sync: "same_read (sync W sh q) q' \<Longrightarrow> reads_on q q'"
  using read_lines_prefix [of "q_entries q" "drop (q_offset q) (sh_lines sh)"]
  by (simp add: same_read_def reads_on_def sync_def)

lemma reads_accept:
  assumes "file_ok sh" "proc_ok sh q" "accept W opts po sh q = (r, sh', q')" shows "reads_on q q'"
proof -
  have pre: "\<exists>new. entries_of sh = q_entries q @ new"
    using assms(2) read_lines_prefix [of "q_entries q" "drop (q_offset q) (sh_lines sh)"]
      read_lines_append [of "[]" "take (q_offset q) (sh_lines sh)" "drop (q_offset q) (sh_lines sh)"]
    by (simp add: proc_ok_def entries_of_def)
  from accept_cases [OF assms] show ?thesis
  proof
    assume "\<exists>new. post_outcome r new \<and> appended (close_torn_line sh) sh' q' new"
    then obtain new where "appended (close_torn_line sh) sh' q' new" by blast
    from appended_closed [OF assms(1,2) this] show ?thesis using pre by (auto simp: appended_def reads_on_def)
  qed (simp add: reads_on_def)
qed

section \<open>Delivery over a run\<close>

text \<open>What the label of a step gave agent \<open>n\<close> of process \<open>k\<close>.\<close>

fun given_by :: "nat \<Rightarrow> string \<Rightarrow> label \<Rightarrow> int list" where
  "given_by k n (Gave k' n' xs) = (if k' = k \<and> n' = n then xs else [])"
| "given_by k n l = []"

definition agent :: "run_options \<Rightarrow> nat \<Rightarrow> string \<Rightarrow> int \<Rightarrow> int list \<Rightarrow> system \<Rightarrow> bool" where
  "agent opts k n c0 gs s \<longleftrightarrow> (\<exists>q p. map_of (y_procs s) k = Some q \<and> map_of (q_parts q) n = Some p \<and>
     agent_inv opts n c0 gs (q_entries q) p)"

lemma agent_same:
  "agent opts k n c0 gs s \<Longrightarrow> map_of (y_procs t) k = map_of (y_procs s) k \<Longrightarrow> agent opts k n c0 gs t"
  by (simp add: agent_def)

lemma agent_elsewhere: "agent opts k n c0 gs s \<Longrightarrow> k' \<noteq> k \<Longrightarrow> agent opts k n c0 gs (put_proc s k' sh q)"
  by (rule agent_same) (simp_all add: put_proc_def)

lemma numbered_proc: "file_ok sh \<Longrightarrow> proc_ok sh q \<Longrightarrow> numbered (q_entries q)"
  using read_lines_prefix [of "q_entries q" "drop (q_offset q) (sh_lines sh)"]
    read_lines_append [of "[]" "take (q_offset q) (sh_lines sh)" "drop (q_offset q) (sh_lines sh)"]
  by (auto simp: file_ok_def proc_ok_def entries_of_def intro: numbered_prefix)

lemma sys_ok_proc: "sys_ok s \<Longrightarrow> map_of (y_procs s) k = Some q \<Longrightarrow> file_ok (y_shared s) \<and> proc_ok (y_shared s) q"
  by (simp add: sys_ok_def)

lemma agent_here:
  assumes "agent opts k n c0 gs s" "map_of (y_procs s) k' = Some q" "sys_ok (put_proc s k' sh' q')"
    and "k' = k \<Longrightarrow> reads_on q q' \<and> keeps n q q'"
  shows "agent opts k n c0 gs (put_proc s k' sh' q')"
proof (cases "k' = k")
  case True
  obtain p where p: "map_of (q_parts q) n = Some p" "agent_inv opts n c0 gs (q_entries q) p"
    using assms(1,2) True by (auto simp: agent_def)
  obtain p' where p': "map_of (q_parts q') n = Some p'" "pa_cursor p' = pa_cursor p" "pa_returned p' = pa_returned p"
    using assms(4) [OF True] p(1) by (auto simp: keeps_def)
  have "file_ok sh'" "proc_ok sh' q'" using sys_ok_proc [OF assms(3), of k' q'] by (simp_all add: put_proc_def)
  then have "numbered (q_entries q')" by (rule numbered_proc)
  then have "agent_inv opts n c0 gs (q_entries q') p"
    using assms(4) [OF True] agent_inv_grow [OF p(2)] by (auto simp: reads_on_def)
  then have "agent_inv opts n c0 gs (q_entries q') p'" using agent_inv_cong [of p' p] p'(2,3) by simp
  then show ?thesis using p'(1) True by (auto simp: agent_def put_proc_def)
next
  case False
  then show ?thesis using agent_elsewhere [OF assms(1)] by simp
qed

lemma agent_synced:
  assumes "agent opts k n c0 gs s" "map_of (y_procs s) k = Some q" "map_of (q_parts q) n = Some p" "sys_ok s"
  shows "agent_inv opts n c0 gs (q_entries (sync W (y_shared s) q)) p" "numbered (q_entries (sync W (y_shared s) q))"
proof -
  have ok: "file_ok (y_shared s)" "proc_ok (y_shared s) q" using assms(2,4) by (auto simp: sys_ok_def)
  show n: "numbered (q_entries (sync W (y_shared s) q))"
    by (rule numbered_proc [OF ok(1) sync_ok [OF ok(2), THEN conjunct1]])
  obtain new where new: "q_entries (sync W (y_shared s) q) = q_entries q @ new"
    using reads_sync [of W "y_shared s" q "sync W (y_shared s) q"] by (auto simp: reads_on_def)
  have "agent_inv opts n c0 gs (q_entries q) p" using assms(1-3) by (auto simp: agent_def)
  then show "agent_inv opts n c0 gs (q_entries (sync W (y_shared s) q)) p"
    using agent_inv_grow n unfolding new by blast
qed

lemma unseen_shown: "unseen opts q n p True = waiting_shown opts n p (q_entries q)"
  unfolding unseen_def waiting_shown_def by (rule filter_cong) (auto simp: is_for_def)

lemma news_shown: "news opts n p (waiting_shown opts n p es) = map en_seq (waiting_shown opts n p es)"
  unfolding news_def waiting_shown_def filter_filter by (rule arg_cong [where f = "map en_seq"]) (rule filter_cong; auto)

lemma news_mine: "news opts n p (block_mine opts n p es) = news opts n p es"
  unfolding news_def block_mine_def filter_filter by (rule arg_cong [where f = "map en_seq"]) (rule filter_cong; auto)

lemma agent_waits:
  assumes "agent opts k n c0 gs s" "map_of (y_procs s) k = Some q" "map_of (q_parts q) n = Some p" "sys_ok s"
    and t: "take_unseen W opts n via (y_shared s) q = Some (es, sh', q')"
  shows "agent opts k n c0 (gs @ map en_seq es) (put_proc s k sh' q')"
proof -
  note c = take_unseen_cases [OF t assms(3)]
  note i = agent_synced [OF assms(1-4), of W]
  define es0 where "es0 = q_entries (sync W (y_shared s) q)"
  have e: "q_entries q' = es0" using c(3) by (simp add: same_read_def es0_def)
  have u: "es = waiting_shown opts n p es0" using c(1) by (simp add: unseen_shown es0_def)
  have "agent_inv opts n c0 (gs @ map en_seq es) es0 (give p es)"
    using waiting.agent_inv_given [OF i [folded es0_def], folded u] news_shown [of opts n p es0, folded u] by simp
  moreover have "map_of (q_parts q') n = Some (if es = [] then p else give p es)" using c(4) assms(3) by simp
  moreover have "give p [] = p" by (simp add: give_def)
  ultimately show ?thesis by (cases "es = []") (auto simp: agent_def put_proc_def e)
qed

lemma agent_blocks:
  assumes "agent opts k n c0 gs s" "map_of (y_procs s) k = Some q" "map_of (q_parts q) n = Some p" "sys_ok s"
    and t: "take_block W opts n (y_shared s) q = Some (b, sh', q')"
  shows "agent opts k n c0 (gs @ (case b of None \<Rightarrow> [] | Some bl \<Rightarrow> news opts n p (bl_mine bl))) (put_proc s k sh' q')"
proof -
  note c = take_block_cases [OF t assms(3)]
  note i = agent_synced [OF assms(1-4), of W]
  define es0 where "es0 = q_entries (sync W (y_shared s) q)"
  have e: "q_entries q' = es0" using c(3) by (simp add: same_read_def es0_def)
  define mine where "mine = block_mine opts n p es0"
  have b: "map_option bl_mine b = (if mine = [] then None else Some mine)"
    using c(1) by (simp add: mine_def block_mine_def es0_def)
  have p: "map_of (q_parts q') n = Some (block_after opts n p es0)"
    using c(6) assms(3) by (auto simp: block_after_def block_mine_def es0_def)
  have "(case b of None \<Rightarrow> [] | Some bl \<Rightarrow> news opts n p (bl_mine bl)) = news opts n p mine"
    using b by (cases b) (auto simp: news_def split: if_splits)
  then show ?thesis
    using p blocks.agent_inv_given [OF i] by (auto simp: agent_def put_proc_def e es0_def mine_def)
qed

lemma agent_pages:
  assumes "agent opts k n c0 gs s" "map_of (y_procs s) k = Some q" "map_of (q_parts q) n = Some p" "sys_ok s"
    and t: "page_all W opts n limit (y_shared s) q = Some ((es, rest), sh', q')"
  shows "agent opts k n c0 (gs @ news opts n p es) (put_proc s k sh' q')"
proof -
  note c = page_all_cases [OF t assms(3)]
  note i = agent_synced [OF assms(1-4), of W]
  define es0 where "es0 = q_entries (sync W (y_shared s) q)"
  have e: "q_entries q' = es0" using c(4) by (simp add: same_read_def es0_def)
  have g: "agent_inv opts n c0 (gs @ news opts n p es) es0 (give p (filter (\<lambda>e. is_for opts e n) es))"
    using pages.agent_inv_given [OF i, of limit, folded es0_def] c(8) by (simp add: page_shown_def es0_def)
  obtain k' where k: "q_parts q' = (if es = [] then q_parts q
      else dict_put n ((give p (filter (\<lambda>e. is_for opts e n) es))\<lparr>pa_all_cursor := k'\<rparr>) (q_parts q))"
    using c(7) by blast
  show ?thesis
  proof (cases "es = []")
    case True
    then show ?thesis using k i assms(3) by (auto simp: agent_def put_proc_def e es0_def news_def)
  next
    case False
    then show ?thesis
      using k agent_inv_cong [of "(give p (filter (\<lambda>e. is_for opts e n) es))\<lparr>pa_all_cursor := k'\<rparr>"
          "give p (filter (\<lambda>e. is_for opts e n) es)"] g
      by (auto simp: agent_def put_proc_def e)
  qed
qed

text \<open>A step of this agent's process that gives it nothing keeps what it holds.\<close>

lemma agent_other:
  assumes "agent opts k n c0 gs s" "map_of (y_procs s) k' = Some q" "sys_ok (put_proc s k' sh' q')"
    and "reads_on q q'" "k' = k \<Longrightarrow> keeps n q q'"
  shows "agent opts k n c0 gs (put_proc s k' sh' q')"
  using agent_here [OF assms(1-3)] assms(4,5) by blast

lemma keeps_put_if: "q_parts q' = (if b then q_parts q else dict_put m p (q_parts q)) \<Longrightarrow> m \<noteq> n \<Longrightarrow> keeps n q q'"
  by (auto simp: keeps_def split: if_splits)

lemma keeps_cursor: "set_cursor W m til sh q = Some (sh', q') \<Longrightarrow> m \<noteq> n \<Longrightarrow> keeps n q q'"
  by (auto simp: set_cursor_def keeps_def split: option.splits dest!: log_delivery_same)

lemma agent_step:
  assumes "run_step opts s l t" "sys_ok s" "agent opts k n c0 gs s" "l \<noteq> Hosts k n" "l \<noteq> Restarts k"
  shows "agent opts k n c0 (gs @ given_by k n l) t"
  using assms(1) step_ok [OF assms(1,2)] assms(2-)
proof cases
  case (opens k' W)
  then show ?thesis using agent_elsewhere [OF assms(3)] assms(5) by auto
next
  case (reads k' q W)
  then show ?thesis using agent_other [OF assms(3)] reads_sync [OF same_refl(1)] step_ok [OF assms(1,2)] by simp
next
  case (joins k' q W j sh' q')
  have "reads_on q q'" using reads_same join_same [OF joins(4)] by blast
  moreover have "keeps n q q'" if "k' = k"
    using joins(1,4) assms(4) that by (auto simp: join_def Let_def keeps_def split: option.splits if_splits)
  ultimately show ?thesis using agent_other [OF assms(3) joins(3)] joins(1,2) step_ok [OF assms(1,2)] by simp
next
  case (attaches k' q W m sh' q')
  have "reads_on q q'" using reads_same attach_same [OF attaches(4)] by blast
  moreover have "keeps n q q'" if "k' = k"
    using attaches(1,4) assms(4) that by (auto simp: attach_def Let_def keeps_def split: option.splits if_splits)
  ultimately show ?thesis using agent_other [OF assms(3) attaches(3)] attaches(1,2) step_ok [OF assms(1,2)] by simp
next
  case (states W m st fs sh')
  then show ?thesis using agent_same [OF assms(3)] by simp
next
  case (leaves k' q W m sh' q')
  have "reads_on q q'" using reads_same leave_same [OF leaves(4)] by blast
  then show ?thesis
    using agent_other [OF assms(3) leaves(3)] keeps_leave [OF leaves(4)] leaves(1,2) step_ok [OF assms(1,2)] by simp
next
  case (posts k' q W po r sh' q')
  have ok: "file_ok (y_shared s)" "proc_ok (y_shared s) q" using assms(2) posts(3) by (auto simp: sys_ok_def)
  show ?thesis using agent_other [OF assms(3) posts(3) _ reads_accept [OF ok posts(4)]] keeps_accept [OF posts(4)]
      posts(1,2) step_ok [OF assms(1,2)] by simp
next
  case (acts k' q m)
  then show ?thesis
    using agent_other [OF assms(3)] reads_same [OF note_act_same] keeps_act step_ok [OF assms(1,2)] by simp
next
  case (moves k' q W m til sh' q')
  have "reads_on q q'" using reads_same set_cursor_same [OF moves(4)] by blast
  moreover have "keeps n q q'" if "k' = k"
    using keeps_cursor [OF moves(4)] moves(1) assms(4) that by auto
  ultimately show ?thesis using agent_other [OF assms(3) moves(3)] moves(1,2) step_ok [OF assms(1,2)] by simp
next
  case (waits k' q m p W via es sh' q')
  note c = take_unseen_cases [OF waits(5,4)]
  show ?thesis
  proof (cases "k' = k \<and> m = n")
    case True
    then show ?thesis using agent_waits [OF assms(3) _ _ assms(2)] waits by auto
  next
    case False
    then show ?thesis
      using agent_other [OF assms(3) waits(3) _ reads_sync [OF c(3)]] keeps_put_if [OF c(4)] waits(1,2) step_ok [OF assms(1,2)]
      by auto
  qed
next
  case (blocks k' q m p W b sh' q')
  note c = take_block_cases [OF blocks(5,4)]
  show ?thesis
  proof (cases "k' = k \<and> m = n")
    case True
    then show ?thesis using agent_blocks [OF assms(3) _ _ assms(2)] blocks by auto
  next
    case False
    then show ?thesis
      using agent_other [OF assms(3) blocks(3) _ reads_sync [OF c(3)]] keeps_put_if [OF c(6)] blocks(1,2) step_ok [OF assms(1,2)]
      by auto
  qed
next
  case (pages k' q m p W limit es rest sh' q')
  note c = page_all_cases [OF pages(5,4)]
  show ?thesis
  proof (cases "k' = k \<and> m = n")
    case True
    then show ?thesis using agent_pages [OF assms(3) _ _ assms(2)] pages by auto
  next
    case False
    then show ?thesis
      using agent_other [OF assms(3) pages(3) _ reads_sync [OF c(4)]] c(7) keeps_put_if pages(1,2) step_ok [OF assms(1,2)]
      by auto
  qed
next
  case (dies k' q sh1 l')
  then show ?thesis using agent_same [OF assms(3)] assms(5) by (auto simp: AList.delete_conv')
qed

lemma agent_runs:
  "runs opts s ls t \<Longrightarrow> sys_ok s \<Longrightarrow> agent opts k n c0 [] s \<Longrightarrow> Hosts k n \<notin> set ls \<Longrightarrow> Restarts k \<notin> set ls \<Longrightarrow>
   agent opts k n c0 (concat (map (given_by k n) ls)) t"
proof (induction rule: runs.induct)
  case (goes s ls t l u)
  then show ?case using agent_step [OF goes.hyps(2) runs_ok [OF goes.hyps(1)]] by auto
qed simp

lemma agent_starts:
  "map_of (y_procs s) k = Some q \<Longrightarrow> map_of (q_parts q) n = Some p \<Longrightarrow> pa_returned p = [] \<Longrightarrow>
   pa_cursor p \<le> last_seq (q_entries q) \<Longrightarrow> agent opts k n (pa_cursor p) [] s"
  by (auto simp: agent_def agent_inv_def from_record_def)


end
