(* ===== verification/RunRecordSample.thy ===== *)
theory RunRecordSample imports RunRecordDelivery
begin

text \<open>
  A concrete run of the run record, evaluated: two processes open the record, one hosts the helper \<open>h1\<close>,
  the other writes to it as the user, and \<open>h1\<close> is given the entry. It is the input at which the
  properties over runs are applied.
\<close>

section \<open>Steps as functions\<close>

definition run_open :: "world \<Rightarrow> nat \<Rightarrow> system \<Rightarrow> system" where
  "run_open W k s = put_proc s k (y_shared s) (new_process W (y_shared s))"

definition run_join :: "world \<Rightarrow> nat \<Rightarrow> join_request \<Rightarrow> system \<Rightarrow> system option" where
  "run_join W k j s = (case map_of (y_procs s) k of None \<Rightarrow> None
     | Some q \<Rightarrow> (case join W j (y_shared s) q of Inl r \<Rightarrow> None | Inr (sh', q') \<Rightarrow> Some (put_proc s k sh' q')))"

definition run_post :: "world \<Rightarrow> run_options \<Rightarrow> nat \<Rightarrow> posting \<Rightarrow> system \<Rightarrow> system option" where
  "run_post W opts k po s = (case map_of (y_procs s) k of None \<Rightarrow> None
     | Some q \<Rightarrow> (case accept W opts po (y_shared s) q of (r, sh', q') \<Rightarrow> Some (put_proc s k sh' q')))"

definition run_wait :: "world \<Rightarrow> run_options \<Rightarrow> nat \<Rightarrow> string \<Rightarrow> string \<Rightarrow> system \<Rightarrow> (int list \<times> system) option" where
  "run_wait W opts k n via s = (case map_of (y_procs s) k of None \<Rightarrow> None
     | Some q \<Rightarrow> if map_of (q_parts q) n = None then None
         else (case take_unseen W opts n via (y_shared s) q of None \<Rightarrow> None
           | Some (es, sh', q') \<Rightarrow> Some (map en_seq es, put_proc s k sh' q')))"

lemma runs_open: "runs opts s ls t \<Longrightarrow> map_of (y_procs t) k = None \<Longrightarrow> runs opts s (ls @ [Restarts k]) (run_open W k t)"
  unfolding run_open_def by (rule runs.goes) (auto intro: run_step.opens)

lemma runs_join: "runs opts s ls t \<Longrightarrow> run_join W k j t = Some u \<Longrightarrow> runs opts s (ls @ [Hosts k (j_name j)]) u"
  by (auto simp: run_join_def intro!: runs.goes run_step.joins split: option.splits sum.splits)

lemma runs_post: "runs opts s ls t \<Longrightarrow> run_post W opts k po t = Some u \<Longrightarrow> runs opts s (ls @ [Silent]) u"
  by (auto simp: run_post_def intro!: runs.goes run_step.posts split: option.splits prod.splits)

lemma runs_wait: "runs opts s ls t \<Longrightarrow> run_wait W opts k n via t = Some (xs, u) \<Longrightarrow> runs opts s (ls @ [Gave k n xs]) u"
  by (auto simp: run_wait_def intro!: runs.goes run_step.waits split: option.splits if_splits prod.splits)

section \<open>The run\<close>

definition sample_world :: world where
  "sample_world = \<lparr>w_clean = (\<lambda>t. t), w_refs = (\<lambda>t e. []), w_bytes = (\<lambda>r. 100), w_now = ''t0'',
     w_alive = (\<lambda>p s. True), w_seeded = (\<lambda>r. True), w_pid = 7, w_start = ''s0''\<rparr>"

definition sample_options :: run_options where
  "sample_options = \<lparr>op_deliver_all = False, op_tokens = 1000, op_max_bytes = None\<rparr>"

definition sample_join :: join_request where
  "sample_join = \<lparr>j_name = ''h1'', j_role = ''helper'', j_state = ''running'', j_episode = None, j_pass = None,
     j_spawner = None, j_helps = None, j_rejoin = False\<rparr>"

definition sample_post :: posting where
  "sample_post = \<lparr>po_author = USER, po_text = ''@h1 hello'', po_kind = ''post'', po_mentions = None, po_fit = None,
     po_reply_to = None, po_refs = None\<rparr>"

definition sample_system1 :: system where
  "sample_system1 = (case run_join sample_world 1 sample_join (run_open sample_world 2 (run_open sample_world 1 first_system)) of
     Some t \<Rightarrow> t | None \<Rightarrow> first_system)"

definition sample_system2 :: system where
  "sample_system2 = (case run_post sample_world sample_options 2 sample_post sample_system1 of
     Some t \<Rightarrow> t | None \<Rightarrow> first_system)"

definition sample_system3 :: system where
  "sample_system3 = (case run_wait sample_world sample_options 1 ''h1'' ''listen'' sample_system2 of
     Some (xs, t) \<Rightarrow> t | None \<Rightarrow> first_system)"

lemma sample_facts:
  "run_join sample_world 1 sample_join (run_open sample_world 2 (run_open sample_world 1 first_system)) \<noteq> None"
  "run_post sample_world sample_options 2 sample_post sample_system1 \<noteq> None"
  "map_option fst (run_wait sample_world sample_options 1 ''h1'' ''listen'' sample_system2) = Some [1]"
  by code_simp+

lemma sample_run1: "runs sample_options first_system [Restarts 1, Restarts 2, Hosts 1 ''h1''] sample_system1"
proof -
  have "map_of (y_procs first_system) 1 = None" by code_simp
  note a = runs_open [OF runs.stays this, of sample_options sample_world]
  have "map_of (y_procs (run_open sample_world 1 first_system)) 2 = None" by code_simp
  note b = runs_open [OF a this, of sample_world]
  have "run_join sample_world 1 sample_join (run_open sample_world 2 (run_open sample_world 1 first_system)) = Some sample_system1"
    using sample_facts(1) by (auto simp: sample_system1_def)
  from runs_join [OF b this] show ?thesis by (simp add: sample_join_def)
qed

lemma sample_run2: "runs sample_options first_system [Restarts 1, Restarts 2, Hosts 1 ''h1'', Silent] sample_system2"
proof -
  have "run_post sample_world sample_options 2 sample_post sample_system1 = Some sample_system2"
    using sample_facts(2) by (auto simp: sample_system2_def)
  from runs_post [OF sample_run1 this] show ?thesis by simp
qed

lemma sample_wait: "run_wait sample_world sample_options 1 ''h1'' ''listen'' sample_system2 = Some ([1], sample_system3)"
  using sample_facts(3) by (auto simp: sample_system3_def)

lemma sample_run3: "runs sample_options sample_system1 [Silent, Gave 1 ''h1'' [1]] sample_system3"
proof -
  have "run_post sample_world sample_options 2 sample_post sample_system1 = Some sample_system2"
    using sample_facts(2) by (auto simp: sample_system2_def)
  note a = runs_post [OF runs.stays this]
  from runs_wait [OF a sample_wait] show ?thesis by simp
qed

definition sample_proc :: "system \<Rightarrow> nat \<Rightarrow> process" where
  "sample_proc s k = (case map_of (y_procs s) k of Some q \<Rightarrow> q | None \<Rightarrow> new_process sample_world (y_shared s))"

definition sample_part :: "process \<Rightarrow> string \<Rightarrow> participant" where
  "sample_part q n = (case map_of (q_parts q) n of Some p \<Rightarrow> p | None \<Rightarrow> base_participant n [])"

lemma sample_proc_some: "map_of (y_procs s) k \<noteq> None \<Longrightarrow> map_of (y_procs s) k = Some (sample_proc s k)"
  by (auto simp: sample_proc_def)

lemma sample_part_some: "map_of (q_parts q) n \<noteq> None \<Longrightarrow> map_of (q_parts q) n = Some (sample_part q n)"
  by (auto simp: sample_part_def)

lemma sample_hosted:
  "map_of (y_procs sample_system1) 1 = Some (sample_proc sample_system1 1)"
  "map_of (y_procs sample_system2) 2 = Some (sample_proc sample_system2 2)"
  "map_of (q_parts (sample_proc sample_system1 1)) ''h1'' = Some (sample_part (sample_proc sample_system1 1) ''h1'')"
proof -
  have "map_of (y_procs sample_system1) 1 \<noteq> None" by code_simp
  then show "map_of (y_procs sample_system1) 1 = Some (sample_proc sample_system1 1)" by (rule sample_proc_some)
  have "map_of (y_procs sample_system2) 2 \<noteq> None" by code_simp
  then show "map_of (y_procs sample_system2) 2 = Some (sample_proc sample_system2 2)" by (rule sample_proc_some)
  have "map_of (q_parts (sample_proc sample_system1 1)) ''h1'' \<noteq> None" by code_simp
  then show "map_of (q_parts (sample_proc sample_system1 1)) ''h1'' = Some (sample_part (sample_proc sample_system1 1) ''h1'')"
    by (rule sample_part_some)
qed

section \<open>The properties at the run\<close>



theorem post_is_read_back_witness:
  "\<exists>e un notice. fst (accept sample_world sample_options sample_post (y_shared sample_system2) (sample_proc sample_system2 2)) =
      Inr (e, un, notice) \<and>
    q_entries (snd (snd (accept sample_world sample_options sample_post (y_shared sample_system2) (sample_proc sample_system2 2)))) =
    entries_of (fst (snd (accept sample_world sample_options sample_post (y_shared sample_system2) (sample_proc sample_system2 2))))"
proof -
  obtain r sh' q' where a: "accept sample_world sample_options sample_post (y_shared sample_system2) (sample_proc sample_system2 2) = (r, sh', q')"
    by (metis prod_cases3)
  have "\<not> isl (fst (accept sample_world sample_options sample_post (y_shared sample_system2) (sample_proc sample_system2 2)))"
    by code_simp
  then obtain e un notice where "r = Inr (e, un, notice)" using a by (cases r) auto
  then show ?thesis using post_is_read_back [OF sample_run2 sample_hosted(2) a] a by auto
qed

definition sample_reply :: posting where
  "sample_reply = \<lparr>po_author = HARNESS, po_text = ''@h1 answer'', po_kind = ''reply'', po_mentions = Some [''h1''],
     po_fit = Some ''answers/1.md'', po_reply_to = Some 1, po_refs = None\<rparr>"

theorem harness_entry_never_refused_witness:
  "\<exists>e un n sh' q'. accept sample_world sample_options sample_reply (y_shared sample_system2) (sample_proc sample_system2 2) =
     (Inr (e, un, n), sh', q') \<and> e \<in> set (q_entries q')"
proof (rule harness_entry_never_refused [OF sample_run2 sample_hosted(2)])
  show "po_kind sample_reply \<in> set ENTRY_KINDS" by code_simp
  show "po_fit sample_reply = Some ''answers/1.md''" by (simp add: sample_reply_def)
  show "utf8_len (fit_note (utf8_len (w_clean sample_world (po_text sample_reply))) ''answers/1.md'') \<le> MAX_TEXT_BYTES" by code_simp
qed

end
