(* ===== verification/RunRecordRoster.thy ===== *)
theory RunRecordRoster imports RunRecordSample
begin

text \<open>
  The roster and the addresses of the run record: a name is never given to two agents of a run, an agent that ended
  stays ended, a message is addressed to agents of the run and never to its author, and the harness's storm
  notices to one pair of agents are at least twenty entries apart.
\<close>

section \<open>Names\<close>

text \<open>The row of an agent keeps who it is, and its end.\<close>

definition kept :: "agent_row \<Rightarrow> agent_row \<Rightarrow> bool" where
  "kept a b \<longleftrightarrow> ag_name b = ag_name a \<and> ag_role b = ag_role a \<and> ag_spawner b = ag_spawner a \<and>
     ag_joined b = ag_joined a \<and> (ag_state a = ''ended'' \<longrightarrow> ag_state b = ''ended'')"

definition rows_kept :: "agent_row list \<Rightarrow> agent_row list \<Rightarrow> bool" where
  "rows_kept as bs \<longleftrightarrow> (\<forall>a\<in>set as. ag_name a \<noteq> WRITER \<longrightarrow> (\<exists>b\<in>set bs. kept a b))"

definition roster_step :: "agent_row list \<Rightarrow> agent_row list \<Rightarrow> bool" where
  "roster_step as bs \<longleftrightarrow> rows_kept as bs \<and> (distinct (map ag_name as) \<longrightarrow> distinct (map ag_name bs))"

lemma kept_refl [simp]: "kept a a"
  by (simp add: kept_def)

lemma kept_trans: "kept a b \<Longrightarrow> kept b c \<Longrightarrow> kept a c"
  by (simp add: kept_def)

lemma rows_kept_refl [simp]: "rows_kept as as"
  unfolding rows_kept_def using kept_refl by blast

lemma rows_kept_trans: "rows_kept as bs \<Longrightarrow> rows_kept bs cs \<Longrightarrow> rows_kept as cs"
  unfolding rows_kept_def by (metis kept_def kept_trans)

lemma roster_step_refl [simp]: "roster_step as as"
  by (simp add: roster_step_def)

lemma rows_kept_all2: "list_all2 kept as bs \<Longrightarrow> roster_step as bs"
proof -
  assume a: "list_all2 kept as bs"
  then have "map ag_name bs = map ag_name as"
    by (induction rule: list_all2_induct) (auto simp: kept_def)
  moreover have "rows_kept as bs"
    using a by (induction rule: list_all2_induct) (auto simp: rows_kept_def)
  ultimately show ?thesis by (simp add: roster_step_def)
qed

lemma set_rows_kept: "list_all2 kept as (set_rows W n st fs as)"
  by (induction as) (auto simp: state_row_def kept_def list_all2_refl split: prod.splits)

lemma set_rows_step [simp]: "roster_step as (set_rows W n st fs as)"
  by (rule rows_kept_all2 [OF set_rows_kept])

lemma map_first_kept: "(\<And>a. kept a (f a)) \<Longrightarrow> list_all2 kept as (map_first P f as)"
  by (induction as) (auto simp: list_all2_refl)

lemma join_roster: "join W j sh q = Inr (sh', q') \<Longrightarrow> roster_step (sh_roster sh) (sh_roster sh')"
  by (auto simp: join_def Let_def roster_step_def rows_kept_def name_taken_def join_row_def distinct_map_filter
      split: option.splits if_splits intro: kept_refl)

lemma attach_roster: "attach W n sh q = Inr (sh', q') \<Longrightarrow> roster_step (sh_roster sh) (sh_roster sh')"
  by (auto simp: attach_def Let_def kept_def intro!: rows_kept_all2 map_first_kept split: option.splits if_splits)

lemma set_state_roster: "set_state W n st fs sh = Inr sh' \<Longrightarrow> roster_step (sh_roster sh) (sh_roster sh')"
  by (auto simp: set_state_def simp del: set_rows.simps split: if_splits)

lemma leave_roster: "leave W n sh q = Inr (sh', q') \<Longrightarrow> roster_step (sh_roster sh) (sh_roster sh')"
  by (auto simp: leave_def dest!: set_state_roster split: option.splits if_splits sum.splits)

lemma write_entry_roster: "write_entry W e sh q = (r, sh', q') \<Longrightarrow> sh_roster sh' = sh_roster sh"
  by (auto simp: write_entry_def Let_def)

lemma accept_roster: "accept W opts po sh q = (r, sh', q') \<Longrightarrow> sh_roster sh' = sh_roster sh"
  by (auto simp: accept_def accept_locked_def write_and_watch_def Let_def close_torn_line_def
      dest!: write_entry_roster split: sum.splits prod.splits option.splits if_splits)

lemma step_roster: "run_step opts s l t \<Longrightarrow> roster_step (sh_roster (y_shared s)) (sh_roster (y_shared t))"
proof (induction rule: run_step.induct)
  case (joins s k q W j sh' q')
  then show ?case using join_roster by (simp add: put_proc_def)
next
  case (attaches s k q W n sh' q')
  then show ?case using attach_roster by (simp add: put_proc_def)
next
  case (states W n st fs s sh')
  then show ?case using set_state_roster by simp
next
  case (leaves s k q W n sh' q')
  then show ?case using leave_roster by (simp add: put_proc_def)
next
  case (posts s k q W po r sh' q')
  then show ?case using accept_roster by (simp add: put_proc_def)
next
  case (moves s k q W n til sh' q')
  then have "sh_roster sh' = sh_roster (y_shared s)"
    by (auto simp: set_cursor_def dest!: log_delivery_same split: option.splits)
  then show ?case by (simp add: put_proc_def)
next
  case (waits s k q n p W via es sh' q')
  then show ?case using take_unseen_cases(5) by (simp add: put_proc_def)
next
  case (blocks s k q n p W b sh' q')
  then show ?case using take_block_cases(4) by (simp add: put_proc_def)
next
  case (pages s k q n p W limit es rest sh' q')
  then show ?case using page_all_cases(5) by (simp add: put_proc_def)
qed (simp_all add: put_proc_def close_torn_line_def split: option.split)

lemma runs_roster: "runs opts s ls t \<Longrightarrow> roster_step (sh_roster (y_shared s)) (sh_roster (y_shared t))"
proof (induction rule: runs.induct)
  case (goes s ls t l u)
  then show ?case using step_roster [OF goes.hyps(2)] rows_kept_trans by (auto simp: roster_step_def)
qed simp

text \<open>C11. Names are for good. Over every run, no two agents on the roster have one name, and every agent but the writer,
  which alone may take its own name back, stays on it under its name with its role, its starter and
  the time it joined; one that has ended stays ended, whatever the processes do after.\<close>

theorem names_are_for_good:
  assumes "runs opts first_system ls0 s" "runs opts s ls t"
  shows "distinct (map ag_name (sh_roster (y_shared t))) \<and>
    (\<forall>a\<in>set (sh_roster (y_shared s)). ag_name a \<noteq> WRITER \<longrightarrow> (\<exists>b\<in>set (sh_roster (y_shared t)).
       ag_name b = ag_name a \<and> ag_role b = ag_role a \<and> ag_spawner b = ag_spawner a \<and> ag_joined b = ag_joined a \<and>
       (ag_state a = ''ended'' \<longrightarrow> ag_state b = ''ended'')))"
proof -
  have "distinct (map ag_name (sh_roster (y_shared s)))"
    using runs_roster [OF assms(1)] by (simp add: roster_step_def first_system_def)
  then show ?thesis using runs_roster [OF assms(2)] by (simp add: roster_step_def rows_kept_def kept_def)
qed

theorem names_are_for_good_witness:
  "distinct (map ag_name (sh_roster (y_shared sample_system3))) \<and>
   map ag_name (sh_roster (y_shared sample_system3)) = [''h1'']"
  by (rule conjI [OF conjunct1 [OF names_are_for_good [OF sample_run1 sample_run3]]]) code_simp

text \<open>The name made from a prefix is the first that no agent has had, so joining under it is not
  refused as taken.\<close>

lemma name_from_free: "name_from p taken k \<notin> set taken"
  by (induction p taken k rule: name_from.induct) (subst name_from.simps, simp)

lemma name_from_first:
  "\<exists>j\<ge>k. name_from p taken k = p @ show_nat j \<and> (\<forall>i. k \<le> i \<and> i < j \<longrightarrow> p @ show_nat i \<in> set taken)"
proof (induction p taken k rule: name_from.induct)
  case (1 p taken k)
  show ?case
  proof (cases "p @ show_nat k \<in> set taken")
    case True
    from "1.IH" [OF True] obtain j where "k + 1 \<le> j" "name_from p taken (k + 1) = p @ show_nat j"
      "\<forall>i. k + 1 \<le> i \<and> i < j \<longrightarrow> p @ show_nat i \<in> set taken" by blast
    moreover from this have "\<forall>i. k \<le> i \<and> i < j \<longrightarrow> p @ show_nat i \<in> set taken"
      using True by (metis Suc_eq_plus1 Suc_leI le_neq_implies_less)
    ultimately show ?thesis using True by (intro exI [of _ j]) (simp add: name_from.simps [of p taken k])
  next
    case False
    then show ?thesis by (intro exI [of _ k]) (auto simp: name_from.simps [of p taken k])
  qed
qed

lemma next_name_joins: "j_name j = next_name prefix sh q \<Longrightarrow> join W j sh q \<noteq> Inl Name_Taken"
  using name_from_free [of prefix "taken_names sh q" 1]
  by (auto simp: join_def Let_def next_name_def taken_names_def name_taken_def join_check_def split: option.splits if_splits)

section \<open>Addresses\<close>

lemma add_names_set: "set (add_names author ns res) = set res \<union> (set ns - {author})"
proof -
  have "set (foldl (\<lambda>r n. if n \<noteq> author \<and> n \<notin> set r then r @ [n] else r) res ns) = set res \<union> (set ns - {author})" for res
    by (induction ns arbitrary: res) auto
  then show ?thesis by (simp add: add_names_def)
qed

lemma add_names_distinct: "distinct res \<Longrightarrow> distinct (add_names author ns res)"
  unfolding add_names_def by (induction ns arbitrary: res) auto

text \<open>Everyone a message can reach: the agents on the roster, the user, the seeded roles.\<close>

definition reachable_names :: "world \<Rightarrow> shared \<Rightarrow> string set" where
  "reachable_names W sh = set (map ag_name (sh_roster sh)) \<union> {USER} \<union> {r \<in> set INSTANCE_ROLES. w_seeded W r}"

text \<open>What resolving the tokens \<open>ts\<close> has come to.\<close>

definition resolved_ok :: "world \<Rightarrow> shared \<Rightarrow> string \<Rightarrow> string list \<Rightarrow> addressed \<Rightarrow> bool" where
  "resolved_ok W sh author ts acc \<longleftrightarrow> (case acc of (res, unres, ended) \<Rightarrow>
     distinct res \<and> author \<notin> set res \<and> set res \<subseteq> reachable_names W sh \<and> set unres \<subseteq> set ts \<and>
     (EVERYONE \<in> set ts \<longrightarrow> set (live_agents W sh) - {author} \<subseteq> set res) \<and>
     (\<forall>t\<in>set ts. t \<in> set unres \<or> t \<in> set res \<union> {author} \<union> {EVERYONE} \<union> set ROLE_ADDRESSES) \<and>
     (\<forall>n\<in>set ended. \<exists>a\<in>set (roster_rows W sh). ag_name a = n \<and> ag_state a = ''ended''))"

lemma row_named_in: "row_named rows n = Some a \<Longrightarrow> a \<in> set rows \<and> ag_name a = n"
proof -
  assume "row_named rows n = Some a"
  then obtain i where i: "i < length (rev rows)" "ag_name (rev rows ! i) = n" "a = rev rows ! i"
    unfolding row_named_def find_Some_iff by blast
  then show ?thesis using nth_mem [OF i(1)] unfolding set_rev by simp
qed

lemma roster_names: "ag_name ` set (roster_rows W sh) = ag_name ` set (sh_roster sh)"
proof -
  have "map ag_name (roster_rows W sh) = map ag_name (sh_roster sh)"
    unfolding roster_rows_def map_map by (rule map_cong) simp_all
  then have "set (map ag_name (roster_rows W sh)) = set (map ag_name (sh_roster sh))" by (rule arg_cong)
  then show ?thesis by (simp only: set_map)
qed

lemma role_names_in: "set (role_names rows ep token) \<subseteq> ag_name ` set rows"
  by (auto simp: role_names_def live_rows_def Let_def)

lemma live_in: "set (map ag_name (live_rows rows)) \<subseteq> ag_name ` set rows"
  by (auto simp: live_rows_def)

text \<open>Every way a token is resolved: names added, the token left unresolved, an agent that has ended noted.\<close>

lemma resolve_token_shape:
  assumes "resolve_token W (roster_rows W sh) q author (res, unres, ended) token = (res', unres', ended')"
  shows "(\<exists>ns. res' = add_names author ns res \<and> unres' = unres \<and> set ns \<subseteq> reachable_names W sh \<and>
       (token = EVERYONE \<longrightarrow> ns = live_agents W sh) \<and> (token \<in> set ns \<or> token \<in> {EVERYONE} \<union> set ROLE_ADDRESSES)) \<or>
     (res' = res \<and> unres' = unres @ [token] \<and> token \<noteq> EVERYONE)"
    "set ended' \<subseteq> set ended \<union> {n. \<exists>a\<in>set (roster_rows W sh). ag_name a = n \<and> ag_state a = ''ended''}"
proof -
  have roster: "ns \<in> reachable_names W sh" if "ns \<in> ag_name ` set (roster_rows W sh)" for ns
    using that roster_names [of W sh] by (auto simp: reachable_names_def)
  have found: "n \<in> reachable_names W sh" if "row_named (roster_rows W sh) n = Some a" for n a
    using roster row_named_in [OF that] by blast
  have lives: "set (map ag_name (live_rows (roster_rows W sh))) \<subseteq> reachable_names W sh"
    using roster live_in by blast
  have roles: "set (role_names (roster_rows W sh) ep tk) \<subseteq> reachable_names W sh" for ep tk
    using roster role_names_in by blast
  show "set ended' \<subseteq> set ended \<union> {n. \<exists>a\<in>set (roster_rows W sh). ag_name a = n \<and> ag_state a = ''ended''}"
    using assms by (auto simp: resolve_token_def Let_def split: if_splits option.splits dest!: row_named_in)
  consider (all) "token = EVERYONE" | (writer) "token \<noteq> EVERYONE" "token = WRITER"
    | (role) "token \<noteq> EVERYONE" "token \<noteq> WRITER" "token = ''actor'' \<or> (token \<notin> set INSTANCE_ROLES \<and> token \<in> {''fork'', ''helpers''})"
    | (seeded) "token \<noteq> EVERYONE" "token \<noteq> WRITER" "token \<noteq> ''actor''" "token \<in> set INSTANCE_ROLES"
    | (name) "token \<noteq> EVERYONE" "token \<noteq> WRITER" "token \<noteq> ''actor''" "token \<notin> set INSTANCE_ROLES" "token \<notin> {''fork'', ''helpers''}"
    by blast
  then show "(\<exists>ns. res' = add_names author ns res \<and> unres' = unres \<and> set ns \<subseteq> reachable_names W sh \<and>
       (token = EVERYONE \<longrightarrow> ns = live_agents W sh) \<and> (token \<in> set ns \<or> token \<in> {EVERYONE} \<union> set ROLE_ADDRESSES)) \<or>
     (res' = res \<and> unres' = unres @ [token] \<and> token \<noteq> EVERYONE)"
  proof cases
    case all
    then show ?thesis using assms lives by (auto simp: resolve_token_def live_agents_def)
  next
    case writer
    then show ?thesis using assms found [of WRITER]
      by (auto simp: resolve_token_def split: option.splits intro!: exI [of _ "[WRITER]"])
  next
    case role
    then have "token \<in> set ROLE_ADDRESSES" by (auto simp: ROLE_ADDRESSES_def)
    then show ?thesis using assms role roles by (auto simp: resolve_token_def Let_def split: if_splits)
  next
    case seeded
    then have "token \<in> set ROLE_ADDRESSES" by (auto simp: ROLE_ADDRESSES_def INSTANCE_ROLES_def)
    then have "(res' = add_names author [token] res \<and> unres' = unres \<and> token \<in> reachable_names W sh) \<or>
        (res' = res \<and> unres' = unres @ [token])"
      using assms seeded by (auto simp: resolve_token_def reachable_names_def split: if_splits)
    then show ?thesis using seeded(1) by (auto intro!: exI [of _ "[token]"])
  next
    case name
    then have "(res' = add_names author [token] res \<and> unres' = unres \<and> token \<in> reachable_names W sh) \<or>
        (res' = res \<and> unres' = unres @ [token])"
      using assms found [of token] by (auto simp: resolve_token_def reachable_names_def split: if_splits option.splits)
    then show ?thesis using name(1) by (auto intro!: exI [of _ "[token]"])
  qed
qed

lemma resolve_token_ok:
  assumes "resolved_ok W sh author ts acc"
  shows "resolved_ok W sh author (ts @ [token]) (resolve_token W (roster_rows W sh) q author acc token)"
proof -
  obtain res unres ended where acc: "acc = (res, unres, ended)" by (metis prod_cases3)
  obtain res' unres' ended' where r: "resolve_token W (roster_rows W sh) q author acc token = (res', unres', ended')"
    by (metis prod_cases3)
  note sh = resolve_token_shape [OF r [unfolded acc]]
  have e: "\<forall>n\<in>set ended'. \<exists>a\<in>set (roster_rows W sh). ag_name a = n \<and> ag_state a = ''ended''"
    using sh(2) assms by (auto simp: resolved_ok_def acc)
  from sh(1) show ?thesis
  proof
    assume "\<exists>ns. res' = add_names author ns res \<and> unres' = unres \<and> set ns \<subseteq> reachable_names W sh \<and>
       (token = EVERYONE \<longrightarrow> ns = live_agents W sh) \<and> (token \<in> set ns \<or> token \<in> {EVERYONE} \<union> set ROLE_ADDRESSES)"
    then obtain ns where "res' = add_names author ns res" "unres' = unres" "set ns \<subseteq> reachable_names W sh"
      "token = EVERYONE \<longrightarrow> ns = live_agents W sh" "token \<in> set ns \<or> token \<in> {EVERYONE} \<union> set ROLE_ADDRESSES" by blast
    then show ?thesis using assms e unfolding acc r [unfolded acc] resolved_ok_def prod.case
      by (auto simp: add_names_set add_names_distinct)
  next
    assume "res' = res \<and> unres' = unres @ [token] \<and> token \<noteq> EVERYONE"
    then show ?thesis using assms e unfolding acc r [unfolded acc] resolved_ok_def prod.case by auto
  qed
qed

lemma resolve_for_ok: "resolved_ok W sh author (mention_tokens text) (resolve_for W sh q author text)"
proof -
  have "resolved_ok W sh author (ts @ us) (foldl (resolve_token W (roster_rows W sh) q author) acc us)"
    if "resolved_ok W sh author ts acc" for ts us acc
    using that
  proof (induction us arbitrary: ts acc)
    case (Cons u us)
    show ?case using Cons.IH [OF resolve_token_ok [OF Cons.prems, of u q]] by simp
  qed simp
  from this [of "[]" "([], [], [])" "mention_tokens text"] show ?thesis
    by (simp add: resolve_for_def resolved_ok_def)
qed



section \<open>The storm notice\<close>

lemma storm_chain_stops: "pair_notice a b n \<Longrightarrow> storm_chain a b (es @ n # fs) = storm_chain a b es"
  by (induction es) auto

lemma storm_chain_len: "length (storm_chain a b es) \<le> length es"
  by (induction es) auto

lemma storm_notice_shape:
  assumes "storm_notice W es e = Some n"
  obtains b where "en_mentions e = [b]" "STORM_RUN \<le> length (storm_chain (en_author e) b (rev es))"
    "pair_notice (en_author e) b n"
proof -
  obtain b where b: "en_mentions e = [b]" using assms by (auto simp: storm_notice_def split: list.splits)
  show ?thesis
  proof (rule that [OF b])
    show "STORM_RUN \<le> length (storm_chain (en_author e) b (rev es))"
      using assms b by (auto simp: storm_notice_def Let_def split: if_splits)
    have n: "en_author n = HARNESS" "en_kind n = ''system''" "en_mentions n = sorted_set [en_author e, b]"
      "en_text n = storm_text (en_author e) b (length (storm_chain (en_author e) b (rev es)))"
      using assms b by (auto simp: storm_notice_def Let_def split: if_splits)
    have "\<exists>x y. en_text n = x @ STORM_MARK @ y" unfolding n(4) storm_text_def
      by (rule exI [of _ "''@'' @ en_author e @ '' @'' @ b @ '' ''"]) (simp only: append_assoc, blast)
    then show "pair_notice (en_author e) b n"
      using n(1-3) by (simp add: pair_notice_def contains_iff)
  qed
qed

text \<open>C14. The storm notices to one pair are at least twenty entries apart: between a notice to two agents and the next
  one to them, whichever of the two sets it off, at least twenty more entries have been written.\<close>

theorem storm_notices_are_apart:
  assumes "storm_notice W es e = Some n" "storm_notice W' (es @ n # fs) e' = Some n'"
    and "{en_author e'} \<union> set (en_mentions e') = {en_author e} \<union> set (en_mentions e)"
  shows "20 \<le> length fs"
proof -
  from storm_notice_shape [OF assms(1)] obtain b where n: "en_mentions e = [b]" "pair_notice (en_author e) b n" by metis
  from storm_notice_shape [OF assms(2)] obtain b' where m: "en_mentions e' = [b']"
    "STORM_RUN \<le> length (storm_chain (en_author e') b' (rev (es @ n # fs)))" by metis
  have "{en_author e', b'} = {en_author e, b}" using n(1) m(1) assms(3) by auto
  then have "pair_notice (en_author e') b' n" using n(2) unfolding pair_notice_def by metis
  then have "storm_chain (en_author e') b' (rev (es @ n # fs)) = storm_chain (en_author e') b' (rev fs)"
    using storm_chain_stops [of "en_author e'" b' n "rev fs" "rev es"] by simp
  then show ?thesis using m(2) storm_chain_len [of "en_author e'" b' "rev fs"] by (simp add: STORM_RUN_def)
qed

definition talk_entry :: "nat \<Rightarrow> run_entry" where
  "talk_entry k = \<lparr>en_seq = int k, en_ts = ''t'', en_author = (if k mod 2 = 0 then ''h1'' else ''h2''), en_kind = ''post'',
     en_text = ''again'', en_mentions = [if k mod 2 = 0 then ''h2'' else ''h1''], en_role = Some ''helper'', en_episode = None,
     en_pass = None, en_reply_to = None, en_refs = [], en_acts = Some 3\<rparr>"

definition talk_before :: "run_entry list" where "talk_before = map talk_entry [0..<20]"
definition talk_after :: "run_entry list" where "talk_after = map talk_entry [20..<40]"

definition talk_notice :: run_entry where
  "talk_notice = (case storm_notice sample_world talk_before (talk_entry 19) of Some n \<Rightarrow> n | None \<Rightarrow> talk_entry 0)"

theorem storm_notices_are_apart_witness:
  "20 \<le> length talk_after \<and> en_author talk_notice = HARNESS"
proof -
  have "\<not> Option.is_none (storm_notice sample_world talk_before (talk_entry 19))" by code_simp
  then have a: "storm_notice sample_world talk_before (talk_entry 19) = Some talk_notice"
    by (cases "storm_notice sample_world talk_before (talk_entry 19)") (simp_all add: talk_notice_def)
  have "\<not> Option.is_none (storm_notice sample_world (talk_before @ talk_notice # talk_after) (talk_entry 39))" by code_simp
  then obtain n' where b: "storm_notice sample_world (talk_before @ talk_notice # talk_after) (talk_entry 39) = Some n'"
    by (cases "storm_notice sample_world (talk_before @ talk_notice # talk_after) (talk_entry 39)") simp_all
  have "20 \<le> length talk_after" by (rule storm_notices_are_apart [OF a b]) code_simp
  moreover have "en_author talk_notice = HARNESS" by code_simp
  ultimately show ?thesis by blast
qed

end
