(* ===== verification/HelperPoolRuns.thy ===== *)
theory HelperPoolRuns imports HelperPool RunRecordRoster
begin

text \<open>
  The runs of a pool of helpers: whatever its operations, in any order, and whatever the rest of the process
  and the other processes do between them, the limits hold, a helper is running only while its task is, and a
  closed pool has none.
\<close>

section \<open>What a post keeps of the participants\<close>

definition part_core :: "participant \<Rightarrow> string \<times> string option \<times> bool" where
  "part_core p = (pa_state p, pa_spawner p, pa_run_role p \<noteq> None)"

definition cores :: "process \<Rightarrow> string \<Rightarrow> (string \<times> string option \<times> bool) option" where
  "cores q n = map_option part_core (map_of (q_parts q) n)"

lemma cores_part_state: "part_state q n = map_option fst (cores q n)"
  by (simp add: part_state_def cores_def part_core_def option.map_comp comp_def)

lemma cores_same: "q_parts q' = q_parts q \<Longrightarrow> cores q' = cores q"
  by (simp add: cores_def fun_eq_iff)

lemma cores_put [simp]: "cores (put_part q n p) = (cores q)(n := Some (part_core p))"
  by (simp add: cores_def put_part_def fun_eq_iff)

lemma cores_sync [simp]: "cores (sync W sh q) = cores q"
  by (rule cores_same) (simp add: sync_def)

lemma cores_mark [simp]: "cores (mark_last_seq a n q) = cores q"
  by (auto simp: mark_last_seq_def cores_def part_core_def fun_eq_iff split: option.split)

lemma cores_write: "write_entry W e sh q = (w, sh', q') \<Longrightarrow> cores q' = cores q"
  by (auto simp: write_entry_def Let_def)

lemma cores_watch:
  assumes "write_and_watch W e un sh q = (r, sh', q')" shows "cores q' = cores q"
  using assms unfolding write_and_watch_def Let_def
  by (auto dest!: cores_write split: prod.splits option.splits)

lemma cores_accept: "accept W opts po sh q = (r, sh', q') \<Longrightarrow> cores q' = cores q"
  by (auto simp: accept_def accept_locked_def Let_def dest!: cores_watch split: sum.splits if_splits)

lemma cores_cursor: "set_cursor W n til sh q = Some (sh', q') \<Longrightarrow> cores q' = cores q"
  by (auto simp: set_cursor_def log_delivery_def Let_def cores_def put_part_def part_core_def fun_eq_iff split: option.splits)

lemma set_part_state_cores:
  assumes "set_part_state W n st sh q = (sh', q')"
  shows "cores q' = (cores q)(n := map_option (\<lambda>c. (st, snd c)) (cores q n))"
  using assms by (auto simp: set_part_state_def part_core_def split: option.splits if_splits)
    (auto simp: cores_def part_core_def fun_eq_iff)

lemma set_part_state_files:
  assumes "set_part_state W n st sh q = (sh', q')"
  shows "same_files sh sh'" "same_read q q'"
  using assms set_state_same by (fastforce simp: set_part_state_def split: option.splits if_splits sum.splits)+

section \<open>The rows of helpers that ended\<close>

definition rows_ended :: "string \<Rightarrow> shared \<Rightarrow> bool" where
  "rows_ended n sh \<longleftrightarrow> (\<forall>a\<in>set (sh_roster sh). ag_name a = n \<longrightarrow> ag_state a = ''ended'')"

lemma set_rows_ended: "\<forall>a\<in>set (set_rows W n ''ended'' fs rows). ag_name a = n \<longrightarrow> ag_state a = ''ended''"
  by (induction W n "''ended''" fs rows rule: set_rows.induct) (auto simp: state_row_def split: prod.split)

lemma set_rows_kept_ended:
  "\<forall>a\<in>set rows. ag_name a = m \<longrightarrow> ag_state a = ''ended'' \<Longrightarrow>
   \<forall>a\<in>set (set_rows W n ''ended'' fs rows). ag_name a = m \<longrightarrow> ag_state a = ''ended''"
  by (induction W n "''ended''" fs rows rule: set_rows.induct) (auto simp: state_row_def split: prod.splits)

lemma set_state_ended:
  assumes "set_state W n ''ended'' fs sh = Inr sh'"
  shows "rows_ended n sh'" "rows_ended m sh \<Longrightarrow> rows_ended m sh'"
proof -
  show "rows_ended n sh'" using assms set_rows_ended [of W n fs "sh_roster sh"]
    by (auto simp: set_state_def rows_ended_def split: if_splits)
  assume "rows_ended m sh"
  then show "rows_ended m sh'" using assms set_rows_kept_ended [of "sh_roster sh" m W n fs]
    by (auto simp: set_state_def rows_ended_def split: if_splits)
qed

lemma set_part_state_rows:
  assumes "set_part_state W n st sh q = (sh', q')" "st \<in> {''replied'', ''stopped'', ''failed''}"
  shows "rows_ended m sh \<Longrightarrow> rows_ended m sh'"
    "map_of (q_parts q) n = Some p \<Longrightarrow> pa_run_role p \<noteq> None \<Longrightarrow> pa_state p \<noteq> st \<Longrightarrow> rows_ended n sh'"
proof -
  have shown: "map_of ROSTER_STATE st = Some ''ended''" using assms(2) by (auto simp: ROSTER_STATE_def)
  have ok: "\<exists>sh2. set_state W n ''ended'' (None, None, None) sh = Inr sh2"
    by (auto simp: set_state_def RUN_STATES_def)
  then obtain sh2 where s: "set_state W n ''ended'' (None, None, None) sh = Inr sh2" by blast
  have c: "sh' = sh \<or> sh' = sh2" using assms(1) by (auto simp: set_part_state_def shown s split: option.splits if_splits)
  show "rows_ended m sh \<Longrightarrow> rows_ended m sh'" using c set_state_ended(2) [OF s] by blast
  show "map_of (q_parts q) n = Some p \<Longrightarrow> pa_run_role p \<noteq> None \<Longrightarrow> pa_state p \<noteq> st \<Longrightarrow> rows_ended n sh'"
    using assms(1) set_state_ended(1) [OF s] by (auto simp: set_part_state_def shown s)
qed

section \<open>What a pool keeps\<close>

definition helper_core :: "(string \<times> string option \<times> bool) option \<Rightarrow> bool" where
  "helper_core c \<longleftrightarrow> (\<exists>st by. c = Some (st, Some by, True) \<and> st \<in> {''running'', ''replied'', ''stopped'', ''failed''})"

definition pool_ok :: "pool_limits \<Rightarrow> process \<Rightarrow> helper_pool \<Rightarrow> bool" where
  "pool_ok L q P \<longleftrightarrow> distinct (hp_started P) \<and> set (keys_of (hp_tasks P)) \<subseteq> set (hp_started P) \<and>
     distinct (keys_of (hp_tasks P)) \<and> length (hp_started P) \<le> pl_total L \<and> length (live_helpers P q) \<le> pl_live L \<and>
     (\<forall>n\<in>set (hp_started P). valid_name n \<and> n \<notin> set RESERVED_NAMES \<and> helper_core (cores q n) \<and>
        (part_state q n = Some ''running'' \<longrightarrow> map_of (hp_tasks P) n = Some False))"

lemma live_helpers_le:
  assumes "\<And>n. n \<in> set (hp_started P) \<Longrightarrow> part_state q' n = Some ''running'' \<Longrightarrow> part_state q n = Some ''running''"
  shows "length (live_helpers P q') \<le> length (live_helpers P q)"
proof -
  have "live_helpers P q' = filter (\<lambda>n. part_state q' n = Some ''running'') (live_helpers P q)"
    unfolding live_helpers_def filter_filter by (rule filter_cong) (use assms in auto)
  then show ?thesis by simp
qed

lemma helper_core_end: "helper_core c \<Longrightarrow> st \<in> {''replied'', ''stopped'', ''failed''} \<Longrightarrow> helper_core (map_option (\<lambda>c. (st, snd c)) c)"
  by (auto simp: helper_core_def)

text \<open>A step after which every helper is as it was or has ended keeps a pool.\<close>

lemma pool_ok_ends:
  assumes "pool_ok L q P"
    and "\<And>n. n \<in> set (hp_started P) \<Longrightarrow> cores q' n = cores q n \<or>
      (\<exists>st\<in>{''replied'', ''stopped'', ''failed''}. cores q' n = map_option (\<lambda>c. (st, snd c)) (cores q n))"
  shows "pool_ok L q' P"
proof -
  have run: "part_state q n = Some ''running''" if "n \<in> set (hp_started P)" "part_state q' n = Some ''running''" for n
    using assms(2) [OF that(1)] that(2) by (auto simp: cores_part_state)
  have hc: "helper_core (cores q' n)" if "n \<in> set (hp_started P)" for n
    using assms(1) assms(2) [OF that] that helper_core_end [of "cores q n"] by (auto simp: pool_ok_def)
  then show ?thesis using assms(1) live_helpers_le [of P q' q] run by (auto simp: pool_ok_def)
qed

lemma pool_ok_same: "pool_ok L q P \<Longrightarrow> (\<And>n. n \<in> set (hp_started P) \<Longrightarrow> cores q' n = cores q n) \<Longrightarrow> pool_ok L q' P"
  by (rule pool_ok_ends) auto

lemma pool_ok_set_state:
  "pool_ok L q P \<Longrightarrow> set_part_state W n st sh q = (sh', q') \<Longrightarrow> st \<in> {''replied'', ''stopped'', ''failed''} \<Longrightarrow> pool_ok L q' P"
  by (erule pool_ok_ends) (auto simp: set_part_state_cores)

lemma pool_ok_end_task:
  assumes "pool_ok L q P" "n \<in> set (hp_started P)" "part_state q n \<noteq> Some ''running''"
  shows "pool_ok L q (end_task n P)"
  using assms by (auto simp: pool_ok_def end_task_def live_helpers_def keys_dict_put)

section \<open>Starting\<close>

lemma joined_core: "part_core (joined_participant q (helper_join q spawner n)) = (''running'', Some spawner, True)"
  by (simp add: joined_participant_def Let_def part_core_def helper_join_def)

lemma helper_joins:
  assumes "join W (helper_join q spawner n) sh q = Inr (sh', q')"
  shows "q' = put_part q n (joined_participant q (helper_join q spawner n))" "valid_name n" "n \<notin> {USER, HARNESS, EVERYONE}"
    "sh_lines sh' = sh_lines sh" "sh_torn sh' = sh_torn sh"
  using assms by (auto simp: join_def join_check_def helper_join_def put_part_def Let_def split: if_splits)

lemma next_name_new: "next_name p sh q \<notin> set (keys_of (q_parts q))"
  using name_from_free [of p "taken_names sh q" 1] by (simp add: next_name_def taken_names_def)

lemma next_name_prefix: "\<exists>k. next_name p sh q = p @ show_nat k"
proof -
  have "\<exists>j. name_from p taken k = p @ show_nat j" for p taken k
    by (induction p taken k rule: name_from.induct) (metis name_from.simps)
  then show ?thesis by (simp add: next_name_def)
qed

lemma picked_not_root: "next_name ''h'' sh q \<noteq> ''root''"
  using next_name_prefix [of "''h''" sh q] by auto

text \<open>A name that is taken is a new one; a start that fails before it leaves the process as it was.\<close>

lemma take_name_cases:
  "take_name W others spawner picked k n sh q = (r, sh', q') \<Longrightarrow> n \<notin> set (keys_of (q_parts q)) \<and> n \<noteq> ''root'' \<Longrightarrow>
   (\<exists>why. r = Inl why \<and> q' = q) \<or>
   (\<exists>m. r = Inr m \<and> q' = put_part q m (joined_participant q (helper_join q spawner m)) \<and> m \<notin> set (keys_of (q_parts q)) \<and>
      valid_name m \<and> m \<notin> set RESERVED_NAMES \<and> (\<not> picked \<longrightarrow> m = n))"
proof (induction k arbitrary: n sh)
  case (Suc k)
  let ?sh = "others k sh"
  show ?case
  proof (cases "join W (helper_join q spawner n) ?sh q")
    case (Inl why)
    show ?thesis
    proof (cases picked)
      case True
      then have "take_name W others spawner picked k (next_name ''h'' ?sh q) ?sh q = (r, sh', q')"
        using Suc.prems(1) Inl by (simp add: Let_def)
      from Suc.IH [OF this] show ?thesis using next_name_new picked_not_root True by blast
    qed (use Suc.prems Inl in \<open>auto simp: Let_def\<close>)
  next
    case (Inr x)
    obtain sh2 q2 where x: "x = (sh2, q2)" by (cases x)
    note j = helper_joins [OF Inr [unfolded x]]
    show ?thesis using Suc.prems Inr x j by (auto simp: Let_def RESERVED_NAMES_def USER_def HARNESS_def EVERYONE_def)
  qed
qed auto

text \<open>What the other processes do to the files while this one works: the record stays well formed and grows.\<close>

definition others_ok :: "(nat \<Rightarrow> shared \<Rightarrow> shared) \<Rightarrow> bool" where
  "others_ok others \<longleftrightarrow> (\<forall>k sh. grows sh (others k sh) \<and> (file_ok sh \<longrightarrow> file_ok (others k sh)))"

lemma give_request_cases:
  assumes "give_request W opts spawner n request sh q P0 = (r, sh', q', P')" "map_of (q_parts q) n = Some p"
  shows "(\<exists>why sh1 q1. r = Inl (Refused why) \<and> P' = P0\<lparr>hp_started := hp_started P0 @ [n]\<rparr> \<and>
      accept W opts (request_posting spawner n request) sh q = (Inl why, sh1, q1) \<and>
      set_part_state W n ''failed'' sh1 q1 = (sh', q')) \<or>
    (\<exists>e un storm sh1 q1. r = Inr n \<and> accept W opts (request_posting spawner n request) sh q = (Inr (e, un, storm), sh1, q1) \<and>
      set_cursor W n (en_seq e) sh1 q1 = Some (sh', q') \<and>
      P' = P0\<lparr>hp_started := hp_started P0 @ [n], hp_requests := dict_put n (en_seq e) (hp_requests P0),
        hp_tasks := dict_put n False (hp_tasks P0)\<rparr>)"
proof -
  obtain a sh1 q1 where a: "accept W opts (request_posting spawner n request) sh q = (a, sh1, q1)" by (metis prod_cases3)
  have "cores q1 n \<noteq> None" using cores_accept [OF a] assms(2) by (simp add: cores_def)
  then have c: "set_cursor W n til sh1 q1 \<noteq> None" for til by (auto simp: cores_def set_cursor_def)
  show ?thesis
  proof (cases a)
    case (Inl why)
    then show ?thesis using assms(1) a by (auto simp: give_request_def Let_def split: prod.splits)
  next
    case (Inr x)
    obtain e un storm where x: "x = (e, un, storm)" by (cases x)
    obtain sh2 q2 where "set_cursor W n (en_seq e) sh1 q1 = Some (sh2, q2)" using c by fastforce
    then show ?thesis using assms(1) a Inr x by (auto simp: give_request_def Let_def)
  qed
qed

text \<open>What a start does to the pool.\<close>

lemma spawn_cases:
  assumes "spawn W opts L others spawner request given sh q P = (r, sh', q', P')"
  shows "(\<exists>why. r = Inl why \<and> q' = q \<and> P' = P) \<or>
    (\<exists>n sh1. spawn_guard L request q P = None \<and> n \<notin> set (keys_of (q_parts q)) \<and> valid_name n \<and> n \<notin> set RESERVED_NAMES \<and>
       (\<forall>g. given = Some g \<longrightarrow> n = g) \<and>
       take_name W others spawner (given = None) NAME_TRIES (case given of Some g \<Rightarrow> g | None \<Rightarrow> next_name ''h'' sh q) sh q =
         (Inr n, sh1, put_part q n (joined_participant q (helper_join q spawner n))) \<and>
       give_request W opts spawner n request (others NAME_TRIES sh1)
         (put_part q n (joined_participant q (helper_join q spawner n))) P = (r, sh', q', P'))"
proof -
  define m where "m = (case given of Some g \<Rightarrow> g | None \<Rightarrow> next_name ''h'' sh q)"
  note s = assms [unfolded spawn_def Let_def, folded m_def]
  show ?thesis
  proof (cases "spawn_guard L request q P = None \<and> name_guard W L m request q = None")
    case False
    then show ?thesis using s by (auto split: option.splits)
  next
    case True
    then have m: "m \<notin> set (keys_of (q_parts q)) \<and> m \<noteq> ''root''"
      by (auto simp: name_guard_def Let_def RESERVED_NAMES_def split: if_splits)
    obtain t sh1 q1 where t: "take_name W others spawner (given = None) NAME_TRIES m sh q = (t, sh1, q1)" by (metis prod_cases3)
    from take_name_cases [OF t m] show ?thesis
    proof (elim disjE exE conjE)
      fix why assume "t = Inl why" "q1 = q"
      then show ?thesis using s True t by auto
    next
      fix n assume n: "t = Inr n" "q1 = put_part q n (joined_participant q (helper_join q spawner n))"
        "n \<notin> set (keys_of (q_parts q))" "valid_name n" "n \<notin> set RESERVED_NAMES" "given \<noteq> None \<longrightarrow> n = m"
      have g: "give_request W opts spawner n request (others NAME_TRIES sh1) q1 P = (r, sh', q', P')"
        using s True t n(1) by simp
      have "\<forall>g. given = Some g \<longrightarrow> n = g" using n(6) by (auto simp: m_def)
      then show ?thesis using True n g t unfolding m_def [symmetric] by blast
    qed
  qed
qed

lemma pool_ok_spawn:
  assumes ok: "pool_ok L q P" and s: "spawn W opts L others spawner request given sh q P = (r, sh', q', P')"
  shows "pool_ok L q' P'"
  using spawn_cases [OF s]
proof (elim disjE exE conjE)
  fix why assume "r = Inl why" "q' = q" "P' = P" then show ?thesis using ok by simp
next
  fix n sh1
  let ?p = "joined_participant q (helper_join q spawner n)"
  assume g: "spawn_guard L request q P = None" and n: "n \<notin> set (keys_of (q_parts q))" "valid_name n" "n \<notin> set RESERVED_NAMES"
    and q: "give_request W opts spawner n request (others NAME_TRIES sh1) (put_part q n ?p) P = (r, sh', q', P')"
  have lim: "length (live_helpers P q) < pl_live L" "length (hp_started P) < pl_total L"
    using g by (auto simp: spawn_guard_def split: if_splits)
  have sub: "set (hp_started P) \<subseteq> set (keys_of (q_parts q))"
  proof
    fix m assume "m \<in> set (hp_started P)"
    then have "helper_core (cores q m)" using ok by (simp add: pool_ok_def)
    then have "map_of (q_parts q) m \<noteq> None" by (auto simp: helper_core_def cores_def)
    then show "m \<in> set (keys_of (q_parts q))" by (simp add: map_of_eq_None_iff)
  qed
  then have new: "n \<notin> set (hp_started P)" using n by blast
  then have no_task: "n \<notin> set (keys_of (hp_tasks P))" using ok by (auto simp: pool_ok_def)
  have p: "map_of (q_parts (put_part q n ?p)) n = Some ?p" by (simp add: put_part_def)
  have old: "m \<noteq> n" if "m \<in> set (hp_started P)" for m using that new by blast
  from give_request_cases [OF q p] show ?thesis
  proof (elim disjE exE conjE)
    fix why sh2 q2
    assume P': "P' = P\<lparr>hp_started := hp_started P @ [n]\<rparr>"
      and a: "accept W opts (request_posting spawner n request) (others NAME_TRIES sh1) (put_part q n ?p) = (Inl why, sh2, q2)"
      and f: "set_part_state W n ''failed'' sh2 q2 = (sh', q')"
    have c: "cores q' = (cores q)(n := Some (''failed'', Some spawner, True))"
      using set_part_state_cores [OF f] cores_accept [OF a] by (simp add: joined_core)
    have "live_helpers P' q' = live_helpers P q"
      using old by (auto simp: live_helpers_def P' cores_part_state c intro!: filter_cong)
    then show ?thesis using ok n new lim c by (auto simp: pool_ok_def P' helper_core_def cores_part_state)
  next
    fix e un storm sh2 q2
    assume a: "accept W opts (request_posting spawner n request) (others NAME_TRIES sh1) (put_part q n ?p) = (Inr (e, un, storm), sh2, q2)"
      and cur: "set_cursor W n (en_seq e) sh2 q2 = Some (sh', q')"
      and P': "P' = P\<lparr>hp_started := hp_started P @ [n], hp_requests := dict_put n (en_seq e) (hp_requests P),
        hp_tasks := dict_put n False (hp_tasks P)\<rparr>"
    have c: "cores q' = (cores q)(n := Some (''running'', Some spawner, True))"
      using cores_cursor [OF cur] cores_accept [OF a] by (simp add: joined_core)
    have "live_helpers P' q' = live_helpers P q @ [n]"
      using old by (auto simp: live_helpers_def P' cores_part_state c intro!: filter_cong)
    then show ?thesis using ok n new no_task lim c old
      by (auto simp: pool_ok_def P' helper_core_def cores_part_state keys_dict_put)
  qed
qed

section \<open>Ending\<close>

lemma part_not_running: "set_part_state W n st sh q = (sh', q') \<Longrightarrow> st \<noteq> ''running'' \<Longrightarrow> part_state q' n \<noteq> Some ''running''"
  by (auto simp: cores_part_state set_part_state_cores)

lemma pool_ok_helper_ends:
  assumes ok: "pool_ok L q P" and n: "n \<in> set (hp_started P)" and e: "helper_ends W opts n spawner how sh q P = (sh', q', P')"
  shows "pool_ok L q' P'"
proof -
  obtain sh1 q1 where s: "set_part_state W n (case how of Cancelled \<Rightarrow> ''stopped'' | Raised w \<Rightarrow> ''failed'' | Answered t \<Rightarrow> ''replied'') sh q = (sh1, q1)"
    by (metis prod.exhaust)
  have ok1: "pool_ok L q1 P" and nr: "part_state q1 n \<noteq> Some ''running''"
    using pool_ok_set_state [OF ok s] part_not_running [OF s] by (auto split: task_end.splits)
  have end1: "pool_ok L q2 (end_task n P)" if "cores q2 = cores q1" for q2
  proof (rule pool_ok_end_task [OF _ n])
    show "pool_ok L q2 P" using ok1 that by (intro pool_ok_same [OF ok1]) simp
    show "part_state q2 n \<noteq> Some ''running''" using nr that by (simp add: cores_part_state)
  qed
  show ?thesis
  proof (cases how)
    case Cancelled
    then show ?thesis using e s end1 [of q1] pool_ok_end_task [OF ok n]
      by (auto simp: helper_ends_def split: if_splits prod.splits)
  qed (use e s end1 in \<open>auto simp: helper_ends_def dest!: cores_accept split: prod.splits\<close>)
qed

lemma stop_helper_cases:
  assumes "stop_helper W opts by n reason sh q = (r, sh', q')"
  shows "cores q' = cores q \<or>
    (\<exists>p starter a sh1 q1. map_of (q_parts q) n = Some p \<and> pa_spawner p = Some starter \<and> by \<in> {starter, USER, HARNESS} \<and>
       pa_state p = ''running'' \<and> r = Inr () \<and>
       accept W opts (harness_posting by (stop_text n reason) ''cancel'' n ''the harness log'') sh q = (Inr a, sh1, q1) \<and>
       set_part_state W n ''stopped'' sh1 q1 = (sh', q'))"
  using assms unfolding stop_helper_def
  by (auto dest: cores_accept split: option.splits if_splits prod.splits sum.splits)

lemma pool_ok_stop:
  assumes ok: "pool_ok L q P" and s: "stop_helper W opts by n reason sh q = (r, sh', q')"
  shows "pool_ok L q' P"
  using stop_helper_cases [OF s]
proof (elim disjE exE conjE)
  assume "cores q' = cores q" then show ?thesis by (intro pool_ok_same [OF ok]) simp
next
  fix p starter a sh1 q1
  assume "accept W opts (harness_posting by (stop_text n reason) ''cancel'' n ''the harness log'') sh q = (Inr a, sh1, q1)"
    and f: "set_part_state W n ''stopped'' sh1 q1 = (sh', q')"
  then have "pool_ok L q1 P" by (intro pool_ok_same [OF ok]) (simp add: cores_accept)
  from pool_ok_set_state [OF this f] show ?thesis by simp
qed

text \<open>One task of a close: nothing to do, or the helper stopped and its starter told.\<close>

lemma close_tasks_Cons:
  assumes "close_tasks W opts reason ((n, ended) # ts) sh q = (r, sh', q')"
  shows "(\<not> (\<not> ended \<and> part_state q n = Some ''running'') \<and> close_tasks W opts reason ts sh q = (r, sh', q')) \<or>
    (\<exists>sh1 q1 a sh2 q2 starter. \<not> ended \<and> part_state q n = Some ''running'' \<and> set_part_state W n ''stopped'' sh q = (sh1, q1) \<and>
       (\<forall>p s. map_of (q_parts q) n = Some p \<longrightarrow> pa_spawner p = Some s \<longrightarrow> starter = s) \<and>
       accept W opts (harness_posting HARNESS (close_text starter n reason) ''system'' starter ''the harness log'') sh1 q1 = (a, sh2, q2) \<and>
       (case a of Inl why \<Rightarrow> r = Inl (Refused why) \<and> sh' = sh2 \<and> q' = q2
        | Inr x \<Rightarrow> close_tasks W opts reason ts sh2 q2 = (r, sh', q')))"
proof (cases "ended \<or> part_state q n \<noteq> Some ''running''")
  case False
  define starter where "starter = (case map_of (q_parts q) n of Some p \<Rightarrow> (case pa_spawner p of Some s \<Rightarrow> s | None \<Rightarrow> ''None'') | None \<Rightarrow> [])"
  obtain sh1 q1 where s: "set_part_state W n ''stopped'' sh q = (sh1, q1)" by (metis prod.exhaust)
  obtain a sh2 q2 where a: "accept W opts (harness_posting HARNESS (close_text starter n reason) ''system'' starter ''the harness log'') sh1 q1 = (a, sh2, q2)"
    by (metis prod_cases3)
  have "case a of Inl why \<Rightarrow> r = Inl (Refused why) \<and> sh' = sh2 \<and> q' = q2 | Inr x \<Rightarrow> close_tasks W opts reason ts sh2 q2 = (r, sh', q')"
    using assms False s a by (cases a) (simp_all add: Let_def starter_def [symmetric])
  then show ?thesis using False s a by (fastforce simp: starter_def)
qed (use assms in simp)

lemma close_tasks_cores:
  "close_tasks W opts reason ts sh q = (r, sh', q') \<Longrightarrow>
   cores q' n = cores q n \<or> cores q' n = map_option (\<lambda>c. (''stopped'', snd c)) (cores q n)"
proof (induction ts arbitrary: sh q)
  case (Cons t ts)
  obtain m ended where t: "t = (m, ended)" by (cases t)
  from close_tasks_Cons [OF Cons.prems [unfolded t]] show ?case
  proof (elim disjE exE conjE)
    assume "close_tasks W opts reason ts sh q = (r, sh', q')" then show ?thesis by (rule Cons.IH)
  next
    fix sh1 q1 a sh2 q2 starter
    assume s: "set_part_state W m ''stopped'' sh q = (sh1, q1)"
      and a: "accept W opts (harness_posting HARNESS (close_text starter m reason) ''system'' starter ''the harness log'') sh1 q1 = (a, sh2, q2)"
      and r: "case a of Inl why \<Rightarrow> r = Inl (Refused why) \<and> sh' = sh2 \<and> q' = q2 | Inr x \<Rightarrow> close_tasks W opts reason ts sh2 q2 = (r, sh', q')"
    have c: "cores q2 n = cores q n \<or> cores q2 n = map_option (\<lambda>c. (''stopped'', snd c)) (cores q n)"
      using cores_accept [OF a] set_part_state_cores [OF s] by simp
    show ?thesis
    proof (cases a)
      case (Inl why) then show ?thesis using r c by simp
    next
      case (Inr x)
      then have "close_tasks W opts reason ts sh2 q2 = (r, sh', q')" using r by simp
      from Cons.IH [OF this] c show ?thesis by (auto simp: option.map_comp comp_def)
    qed
  qed
qed simp

lemma pool_ok_close:
  assumes ok: "pool_ok L q P" and c: "close_tasks W opts reason ts sh q = (r, sh', q')" shows "pool_ok L q' P"
  by (rule pool_ok_ends [OF ok]) (use close_tasks_cores [OF c] in blast)

lemma pool_ok_finish:
  assumes ok: "pool_ok L q P" and f: "finish_request W opts who reply reason sh q P = (r, sh', q')" shows "pool_ok L q' P"
proof -
  obtain a sh1 q1 where a: "accept W opts (harness_posting who reply ''reply'' USER (''the session'' @ [char_of (39::nat)] @ ''s result'')) sh q = (a, sh1, q1)"
    by (metis prod_cases3)
  then have "pool_ok L q1 P" by (intro pool_ok_same [OF ok]) (simp add: cores_accept)
  then show ?thesis using f a pool_ok_close by (auto simp: finish_request_def close_pool_def split: sum.splits)
qed

section \<open>Runs of a pool\<close>

text \<open>What the process and the pool are, beside the shared files.\<close>

record agent_state =
  as_shared :: shared
  as_process :: process
  as_pool :: helper_pool

inductive pool_step :: "run_options \<Rightarrow> pool_limits \<Rightarrow> agent_state \<Rightarrow> agent_state \<Rightarrow> bool" for opts L where
  spawns: "others_ok others \<Longrightarrow>
     spawn W opts L others spawner request given (as_shared s) (as_process s) (as_pool s) = (r, sh', q', P') \<Longrightarrow>
     pool_step opts L s \<lparr>as_shared = sh', as_process = q', as_pool = P'\<rparr>"
| ends: "map_of (hp_tasks (as_pool s)) n = Some False \<Longrightarrow>
     helper_ends W opts n spawner how (as_shared s) (as_process s) (as_pool s) = (sh', q', P') \<Longrightarrow>
     pool_step opts L s \<lparr>as_shared = sh', as_process = q', as_pool = P'\<rparr>"
| stops: "stop_helper W opts by n reason (as_shared s) (as_process s) = (r, sh', q') \<Longrightarrow>
     pool_step opts L s (s\<lparr>as_shared := sh', as_process := q'\<rparr>)"
| closes: "close_pool W opts reason (as_shared s) (as_process s) (as_pool s) = (r, sh', q') \<Longrightarrow>
     pool_step opts L s (s\<lparr>as_shared := sh', as_process := q'\<rparr>)"
| finishes: "finish_request W opts who reply reason (as_shared s) (as_process s) (as_pool s) = (r, sh', q') \<Longrightarrow>
     pool_step opts L s (s\<lparr>as_shared := sh', as_process := q'\<rparr>)"
| meanwhile: "op_ok (as_shared s) (as_process s) sh' q' \<Longrightarrow>
     (\<And>n. n \<in> set (hp_started (as_pool s)) \<Longrightarrow> cores q' n = cores (as_process s) n) \<Longrightarrow>
     pool_step opts L s (s\<lparr>as_shared := sh', as_process := q'\<rparr>)"

inductive pool_run :: "run_options \<Rightarrow> pool_limits \<Rightarrow> agent_state \<Rightarrow> bool" for opts L where
  starts: "file_ok sh \<Longrightarrow> proc_ok sh q \<Longrightarrow> pool_run opts L \<lparr>as_shared = sh, as_process = q, as_pool = empty_pool\<rparr>"
| goes_on: "pool_run opts L s \<Longrightarrow> pool_step opts L s t \<Longrightarrow> pool_run opts L t"

lemma pool_step_ok: "pool_step opts L s t \<Longrightarrow> pool_ok L (as_process s) (as_pool s) \<Longrightarrow> pool_ok L (as_process t) (as_pool t)"
proof (induction rule: pool_step.induct)
  case (spawns others W spawner request given s r sh' q' P')
  then show ?case using pool_ok_spawn by simp
next
  case (ends s n W spawner how sh' q' P')
  have "n \<in> set (hp_started (as_pool s))" using ends.hyps(1) ends.prems by (force simp: pool_ok_def dest: map_of_SomeD)
  then show ?case using ends pool_ok_helper_ends by simp
next
  case (stops W b n reason s r sh' q')
  then show ?case using pool_ok_stop by simp
next
  case (closes W reason s r sh' q')
  then show ?case using pool_ok_close by (simp add: close_pool_def)
next
  case (finishes W who reply reason s r sh' q')
  then show ?case using pool_ok_finish by simp
next
  case (meanwhile s sh' q')
  then show ?case using pool_ok_same [OF meanwhile.prems, of q'] by simp
qed

lemma empty_pool_ok: "pool_ok L q empty_pool"
  by (simp add: pool_ok_def empty_pool_def live_helpers_def)

lemma pool_run_ok: "pool_run opts L s \<Longrightarrow> pool_ok L (as_process s) (as_pool s)"
  by (induction rule: pool_run.induct) (simp_all add: empty_pool_ok pool_step_ok)

end
