(* ===== verification/HelperPoolEnds.thy ===== *)
theory HelperPoolEnds imports HelperPoolRuns
begin

text \<open>
  What a pool's agents can rely on: a started helper has its request in the record and its cursor past it, a
  refused start leaves nothing running, a stop is by the starter, the user or the harness, and a closed pool has
  no helper left, each starter told.
\<close>

section \<open>The entry of a post\<close>

text \<open>What a post of a posting has written: the entry of it, its text whole or cut at the record's backstop.\<close>

definition written_as :: "posting \<Rightarrow> string \<Rightarrow> run_entry \<Rightarrow> bool" where
  "written_as po clean e \<longleftrightarrow> en_author e = po_author po \<and> en_kind e = po_kind po \<and>
     (\<forall>ms. po_mentions po = Some ms \<longrightarrow> en_mentions e = dedup ms) \<and>
     (en_text e = clean \<or> (\<exists>place. po_fit po = Some place \<and> en_text e = cut_to clean CUT_TEXT_BYTES (backstop_why place)))"

lemma entry_written:
  assumes "text = clean \<or> (\<exists>place. po_fit po = Some place \<and> text = cut_to clean CUT_TEXT_BYTES (backstop_why place))"
  shows "written_as po clean (entry_of W po c text (fst (addressed_by W po clean sh q)) q' k)"
  using assms by (auto simp: written_as_def entry_of_def addressed_by_def)

lemma watch_entry: "write_and_watch W e un sh q = (Inr (e', un', n), sh', q') \<Longrightarrow> e' = e"
  by (auto simp: write_and_watch_def Let_def split: prod.splits option.splits)

lemma accept_entry:
  assumes "accept W opts po sh q = (Inr (e, un, n), sh', q')"
  shows "\<exists>clean. clean_posting W po = Inr clean \<and> written_as po clean e"
proof -
  obtain clean where c: "clean_posting W po = Inr clean"
    and a: "accept_locked W opts po clean (addressed_by W po clean sh q) sh q = (Inr (e, un, n), sh', q')"
    using assms by (auto simp: accept_def split: sum.splits)
  define q1 where "q1 = sync W (close_torn_line sh) q"
  have "\<exists>text. (text = clean \<or> (\<exists>place. po_fit po = Some place \<and> text = cut_to clean CUT_TEXT_BYTES (backstop_why place))) \<and>
      e = entry_of W po clean text (fst (addressed_by W po clean sh q)) q (last_seq (q_entries q1) + 1)"
    using a unfolding accept_locked_def Let_def q1_def [symmetric]
    by (cases "po_fit po") (auto dest!: watch_entry split: if_splits)
  then show ?thesis using c entry_written by blast
qed

lemma entries_grow: "grows sh sh' \<Longrightarrow> \<exists>rest. entries_of sh' = entries_of sh @ rest"
  using read_lines_prefix by (auto simp: grows_def entries_of_def read_lines_append)

lemma accept_in_record:
  assumes "file_ok sh" "proc_ok sh q" "accept W opts po sh q = (Inr (e, un, n), sh', q')"
  shows "e \<in> set (entries_of sh')" "q_entries q' = entries_of sh'" "last_seq (entries_of sh) < en_seq e"
proof -
  from accept_cases [OF assms] obtain new where p: "post_outcome (Inr (e, un, n)) new"
    and a: "appended (close_torn_line sh) sh' q' new" by (auto simp: post_outcome_def split: option.splits)
  then have e: "e \<in> set new" by (auto simp: post_outcome_def split: option.splits)
  then show "e \<in> set (entries_of sh')" "q_entries q' = entries_of sh'" using a by (auto simp: appended_def)
  have "numbered (entries_of sh')" using a by (auto simp: appended_def file_ok_def)
  then have n: "last_seq (entries_of (close_torn_line sh)) < en_seq e"
    using a e numbered_new [of "entries_of (close_torn_line sh)" new] by (auto simp: appended_def)
  obtain rest where r: "entries_of (close_torn_line sh) = entries_of sh @ rest" using entries_grow [OF grows_closed] by blast
  have "numbered (entries_of (close_torn_line sh))" using file_ok_closed [OF assms(1)] by (simp add: file_ok_def)
  then show "last_seq (entries_of sh) < en_seq e" using n numbered_last numbered_prefix [of "entries_of sh" rest] r by fastforce
qed

text \<open>An entry of the harness whose note about its length fits is in the record.\<close>

definition note_fits :: "world \<Rightarrow> posting \<Rightarrow> bool" where
  "note_fits W po \<longleftrightarrow> (case po_fit po of None \<Rightarrow> False
     | Some place \<Rightarrow> utf8_len (fit_note (utf8_len (w_clean W (po_text po))) place) \<le> MAX_TEXT_BYTES)"

definition kept_text :: "world \<Rightarrow> posting \<Rightarrow> string" where
  "kept_text W po = fit_text (w_clean W (po_text po)) (case po_fit po of Some place \<Rightarrow> place | None \<Rightarrow> [])"

lemma harness_accepted:
  assumes "file_ok sh" "proc_ok sh q" "po_kind po \<in> set ENTRY_KINDS" "note_fits W po"
    and a: "accept W opts po sh q = (r, sh', q')"
  shows "\<exists>e un n. r = Inr (e, un, n) \<and> written_as po (kept_text W po) e \<and> e \<in> set (entries_of sh') \<and>
    q_entries q' = entries_of sh' \<and> last_seq (entries_of sh) < en_seq e"
proof -
  obtain place where place: "po_fit po = Some place"
    "utf8_len (fit_note (utf8_len (w_clean W (po_text po))) place) \<le> MAX_TEXT_BYTES"
    using assms(4) by (auto simp: note_fits_def split: option.splits)
  have c: "clean_posting W po = Inr (kept_text W po)"
    using assms(3) place fit_text_len [OF place(2)] by (simp add: clean_posting_def Let_def kept_text_def)
  then have "accept_locked W opts po (kept_text W po) (addressed_by W po (kept_text W po) sh q) sh q = (r, sh', q')"
    using a by (simp add: accept_def)
  from accept_locked_outcome [OF assms(1,2) this] place(1) obtain e un n where r: "r = Inr (e, un, n)" by auto
  show ?thesis using accept_entry [OF a [unfolded r]] c accept_in_record [OF assms(1,2) a [unfolded r]] r by auto
qed

section \<open>The record through a run of a pool\<close>

definition record_ok :: "shared \<Rightarrow> process \<Rightarrow> bool" where
  "record_ok sh q \<longleftrightarrow> file_ok sh \<and> proc_ok sh q"

lemma record_ok_accept: "record_ok sh q \<Longrightarrow> accept W opts po sh q = (r, sh', q') \<Longrightarrow> record_ok sh' q'"
  using accept_ok [of sh q W opts po r sh' q'] by (simp add: record_ok_def)

lemma record_ok_same: "record_ok sh q \<Longrightarrow> same_files sh sh' \<Longrightarrow> same_read q q' \<Longrightarrow> record_ok sh' q'"
  using same_files_ok [of sh sh'] same_read_ok [of q q'] by (simp add: record_ok_def)

lemma record_ok_set_state: "record_ok sh q \<Longrightarrow> set_part_state W n st sh q = (sh', q') \<Longrightarrow> record_ok sh' q'"
  by (rule record_ok_same [OF _ set_part_state_files])

lemma record_ok_others: "record_ok sh q \<Longrightarrow> others_ok others \<Longrightarrow> record_ok (others k sh) q"
  using proc_ok_grows [of sh "others k sh" q] by (auto simp: record_ok_def others_ok_def)

lemma record_ok_take_name:
  "record_ok sh q \<Longrightarrow> others_ok others \<Longrightarrow> take_name W others spawner picked k n sh q = (r, sh', q') \<Longrightarrow> record_ok sh' q'"
proof (induction k arbitrary: n sh)
  case (Suc k)
  have ok: "record_ok (others k sh) q" using Suc.prems record_ok_others by blast
  show ?case
  proof (cases "join W (helper_join q spawner n) (others k sh) q")
    case (Inl why)
    then show ?thesis using Suc.IH [OF ok Suc.prems(2)] Suc.prems(3) ok by (auto simp: Let_def split: if_splits)
  next
    case (Inr x)
    then show ?thesis using Suc.prems(3) record_ok_same [OF ok] join_same by (cases x) (fastforce simp: Let_def)
  qed
qed simp

lemma take_name_grows:
  "others_ok others \<Longrightarrow> take_name W others spawner picked k n sh q = (r, sh', q') \<Longrightarrow> grows sh sh'"
proof (induction k arbitrary: n sh)
  case (Suc k)
  have g: "grows sh (others k sh)" using Suc.prems(1) by (simp add: others_ok_def)
  show ?case
  proof (cases "join W (helper_join q spawner n) (others k sh) q")
    case (Inl why)
    then show ?thesis using Suc.IH [OF Suc.prems(1)] Suc.prems(2) g grows_trans [OF g] by (auto simp: Let_def split: if_splits)
  next
    case (Inr x)
    obtain sh2 q2 where x: "x = (sh2, q2)" by (cases x)
    then have "sh' = sh2" "same_files (others k sh) sh2" using Suc.prems(2) Inr join_same by (auto simp: Let_def)
    then show ?thesis using grows_trans [OF g] same_files_ok by blast
  qed
qed simp

lemma record_ok_cursor: "record_ok sh q \<Longrightarrow> set_cursor W n til sh q = Some (sh', q') \<Longrightarrow> record_ok sh' q'"
  using set_cursor_same record_ok_same by blast

lemma record_ok_give:
  assumes "record_ok sh q" "give_request W opts spawner n request sh q P0 = (r, sh', q', P')" "map_of (q_parts q) n = Some p"
  shows "record_ok sh' q'"
  using give_request_cases [OF assms(2,3)] record_ok_accept [OF assms(1)] record_ok_set_state record_ok_cursor by metis

lemma record_ok_spawn:
  assumes "record_ok sh q" "others_ok others" "spawn W opts L others spawner request given sh q P = (r, sh', q', P')"
  shows "record_ok sh' q'"
proof (cases "spawn_guard L request q P = None \<and> name_guard W L (case given of Some g \<Rightarrow> g | None \<Rightarrow> next_name ''h'' sh q) request q = None")
  case False
  then show ?thesis using assms(1,3) by (auto simp: spawn_def Let_def split: option.splits)
next
  case True
  define m where "m = (case given of Some g \<Rightarrow> g | None \<Rightarrow> next_name ''h'' sh q)"
  obtain t sh1 q1 where t: "take_name W others spawner (given = None) NAME_TRIES m sh q = (t, sh1, q1)" by (metis prod_cases3)
  have ok: "record_ok (others NAME_TRIES sh1) q1" using record_ok_take_name [OF assms(1,2) t] record_ok_others assms(2) by blast
  have m: "m \<notin> set (keys_of (q_parts q)) \<and> m \<noteq> ''root''" using True
    by (auto simp: m_def [symmetric] name_guard_def Let_def RESERVED_NAMES_def split: if_splits)
  show ?thesis
  proof (cases t)
    case (Inl why)
    then show ?thesis using assms(3) True t ok record_ok_take_name [OF assms(1,2) t] by (simp add: spawn_def m_def [symmetric])
  next
    case (Inr n)
    then have g: "give_request W opts spawner n request (others NAME_TRIES sh1) q1 P = (r, sh', q', P')"
      using assms(3) True t by (simp add: spawn_def m_def [symmetric])
    have "q1 = put_part q n (joined_participant q (helper_join q spawner n))" using take_name_cases [OF t m] Inr by auto
    then have "map_of (q_parts q1) n = Some (joined_participant q (helper_join q spawner n))" by (simp add: put_part_def)
    from record_ok_give [OF ok g this] show ?thesis .
  qed
qed

lemma record_ok_ends:
  assumes ok: "record_ok sh q" and e: "helper_ends W opts n spawner how sh q P = (sh', q', P')" shows "record_ok sh' q'"
proof -
  obtain sh1 q1 where s: "set_part_state W n (case how of Cancelled \<Rightarrow> ''stopped'' | Raised w \<Rightarrow> ''failed'' | Answered t \<Rightarrow> ''replied'') sh q = (sh1, q1)"
    by (metis prod.exhaust)
  note ok1 = record_ok_set_state [OF ok s]
  show ?thesis
    by (cases how) (use e s ok ok1 record_ok_accept [OF ok1] in \<open>auto simp: helper_ends_def split: prod.splits if_splits\<close>)
qed

lemma record_ok_stop:
  assumes ok: "record_ok sh q" and s: "stop_helper W opts by n reason sh q = (r, sh', q')" shows "record_ok sh' q'"
proof -
  obtain a sh1 q1 where a: "accept W opts (harness_posting by (stop_text n reason) ''cancel'' n ''the harness log'') sh q = (a, sh1, q1)"
    by (metis prod_cases3)
  note ok1 = record_ok_accept [OF ok a]
  show ?thesis
    by (cases a) (use s a ok ok1 record_ok_set_state [OF ok1] in \<open>auto simp: stop_helper_def split: option.splits if_splits prod.splits\<close>)
qed

lemma record_ok_close: "record_ok sh q \<Longrightarrow> close_tasks W opts reason ts sh q = (r, sh', q') \<Longrightarrow> record_ok sh' q'"
proof (induction ts arbitrary: sh q)
  case (Cons t ts)
  obtain m ended where t: "t = (m, ended)" by (cases t)
  from close_tasks_Cons [OF Cons.prems(2) [unfolded t]] show ?case
  proof (elim disjE exE conjE)
    assume "close_tasks W opts reason ts sh q = (r, sh', q')" then show ?thesis by (rule Cons.IH [OF Cons.prems(1)])
  next
    fix sh1 q1 a sh2 q2 starter
    assume s: "set_part_state W m ''stopped'' sh q = (sh1, q1)"
      and a: "accept W opts (harness_posting HARNESS (close_text starter m reason) ''system'' starter ''the harness log'') sh1 q1 = (a, sh2, q2)"
      and r: "case a of Inl why \<Rightarrow> r = Inl (Refused why) \<and> sh' = sh2 \<and> q' = q2 | Inr x \<Rightarrow> close_tasks W opts reason ts sh2 q2 = (r, sh', q')"
    note ok2 = record_ok_accept [OF record_ok_set_state [OF Cons.prems(1) s] a]
    show ?thesis using r ok2 Cons.IH [OF ok2] by (cases a) simp_all
  qed
qed simp

lemma record_ok_finish:
  assumes ok: "record_ok sh q" and f: "finish_request W opts who reply reason sh q P = (r, sh', q')" shows "record_ok sh' q'"
proof -
  obtain a sh1 q1 where a: "accept W opts (harness_posting who reply ''reply'' USER (''the session'' @ [char_of (39::nat)] @ ''s result'')) sh q = (a, sh1, q1)"
    by (metis prod_cases3)
  note ok1 = record_ok_accept [OF ok a]
  show ?thesis by (cases a) (use f a ok1 record_ok_close [OF ok1] in \<open>simp_all add: finish_request_def close_pool_def\<close>)
qed

lemma pool_step_record: "pool_step opts L s t \<Longrightarrow> record_ok (as_shared s) (as_process s) \<Longrightarrow> record_ok (as_shared t) (as_process t)"
proof (induction rule: pool_step.induct)
  case (spawns others W spawner request given s r sh' q' P')
  then show ?case using record_ok_spawn by simp
next
  case (ends s n W spawner how sh' q' P')
  then show ?case using record_ok_ends by simp
next
  case (stops W b n reason s r sh' q')
  then show ?case using record_ok_stop by simp
next
  case (closes W reason s r sh' q')
  then show ?case using record_ok_close by (simp add: close_pool_def)
next
  case (finishes W who reply reason s r sh' q')
  then show ?case using record_ok_finish by simp
next
  case (meanwhile s sh' q')
  then show ?case by (simp add: op_ok_def record_ok_def)
qed

lemma pool_run_record: "pool_run opts L s \<Longrightarrow> record_ok (as_shared s) (as_process s)"
  by (induction rule: pool_run.induct) (simp_all add: record_ok_def pool_step_record [unfolded record_ok_def])

section \<open>Closing\<close>

definition close_posting :: "string \<Rightarrow> string \<Rightarrow> string \<Rightarrow> posting" where
  "close_posting starter n reason = harness_posting HARNESS (close_text starter n reason) ''system'' starter ''the harness log''"

text \<open>After entry \<open>k\<close>, the record tells an agent that its helper was stopped, and why.\<close>

definition told_after :: "world \<Rightarrow> int \<Rightarrow> run_entry list \<Rightarrow> string \<Rightarrow> string \<Rightarrow> string \<Rightarrow> bool" where
  "told_after W k es starter n reason \<longleftrightarrow> (\<exists>e\<in>set es. k < en_seq e \<and>
     written_as (close_posting starter n reason) (kept_text W (close_posting starter n reason)) e)"

definition ended_and_told :: "world \<Rightarrow> int \<Rightarrow> string \<Rightarrow> process \<Rightarrow> string \<Rightarrow> shared \<Rightarrow> process \<Rightarrow> bool" where
  "ended_and_told W k reason q n sh' q' \<longleftrightarrow> part_state q' n = Some ''stopped'' \<and> rows_ended n sh' \<and>
     (\<exists>p starter. map_of (q_parts q) n = Some p \<and> pa_spawner p = Some starter \<and> told_after W k (entries_of sh') starter n reason)"

lemma told_grows: "told_after W k es starter n reason \<Longrightarrow> told_after W k (es @ more_es) starter n reason"
  by (auto simp: told_after_def)

lemma last_seq_grows: "record_ok sh q \<Longrightarrow> record_ok sh' q' \<Longrightarrow> entries_of sh' = entries_of sh @ rest \<Longrightarrow>
    last_seq (entries_of sh) \<le> last_seq (entries_of sh')"
  using numbered_last [of "entries_of sh"] numbered_last [of "entries_of sh @ rest"] by (simp add: record_ok_def file_ok_def)

lemma entries_same: "same_files sh sh' \<Longrightarrow> entries_of sh' = entries_of sh"
  by (simp add: same_files_def entries_of_def)

lemma record_grows_accept:
  assumes "record_ok sh q" "accept W opts po sh q = (r, sh', q')" shows "\<exists>rest. entries_of sh' = entries_of sh @ rest"
  using accept_ok [of sh q W opts po r sh' q'] assms entries_grow by (auto simp: record_ok_def)

lemma system_kind: "''system'' \<in> set ENTRY_KINDS" "''reply'' \<in> set ENTRY_KINDS" "''cancel'' \<in> set ENTRY_KINDS"
  by (simp_all add: ENTRY_KINDS_def)

text \<open>One helper's end in a close.\<close>

lemma close_one:
  assumes ok: "record_ok sh q" and p: "map_of (q_parts q) n = Some p" "pa_spawner p = Some starter" "pa_run_role p \<noteq> None"
    "pa_state p = ''running''"
    and fits: "note_fits W (close_posting starter n reason)"
    and s: "set_part_state W n ''stopped'' sh q = (sh1, q1)"
    and a: "accept W opts (close_posting starter n reason) sh1 q1 = (a, sh2, q2)"
  shows "(\<exists>x. a = Inr x) \<and> record_ok sh2 q2 \<and> (\<exists>rest. entries_of sh2 = entries_of sh @ rest) \<and>
    told_after W (last_seq (entries_of sh)) (entries_of sh2) starter n reason \<and> rows_ended n sh2 \<and>
    (\<forall>m. rows_ended m sh \<longrightarrow> rows_ended m sh2) \<and>
    cores q2 = (cores q)(n := map_option (\<lambda>c. (''stopped'', snd c)) (cores q n))"
proof -
  note ok1 = record_ok_set_state [OF ok s]
  have es: "entries_of sh1 = entries_of sh" using entries_same set_part_state_files(1) [OF s] by blast
  have k: "po_kind (close_posting starter n reason) \<in> set ENTRY_KINDS"
    using system_kind by (simp add: close_posting_def harness_posting_def)
  have f: "file_ok sh1" "proc_ok sh1 q1" using ok1 by (simp_all add: record_ok_def)
  from harness_accepted [OF f k fits a] es
  have told: "told_after W (last_seq (entries_of sh)) (entries_of sh2) starter n reason" and r: "\<exists>x. a = Inr x"
    by (auto simp: told_after_def)
  have rows: "rows_ended m sh2 = rows_ended m sh1" for m using accept_roster [OF a] by (simp add: rows_ended_def)
  have st: "''stopped'' \<in> {''replied'', ''stopped'', ''failed''}" by simp
  have "rows_ended n sh1" using set_part_state_rows(2) [OF s st p(1,3)] p(4) by simp
  then show ?thesis
    using record_ok_accept [OF ok1 a] record_grows_accept [OF ok1 a] es told r rows set_part_state_rows(1) [OF s st]
      cores_accept [OF a] set_part_state_cores [OF s] by auto
qed

text \<open>The helpers a close has to stop, and that the note to each one's starter fits.\<close>

definition closing_fits :: "world \<Rightarrow> string \<Rightarrow> process \<Rightarrow> string list \<Rightarrow> bool" where
  "closing_fits W reason q ns \<longleftrightarrow> (\<forall>n\<in>set ns. \<forall>p starter. map_of (q_parts q) n = Some p \<longrightarrow> pa_spawner p = Some starter \<longrightarrow>
     note_fits W (close_posting starter n reason))"

lemma cores_running: "cores q n = Some (''running'', Some starter, True) \<longleftrightarrow>
    (\<exists>p. map_of (q_parts q) n = Some p \<and> pa_state p = ''running'' \<and> pa_spawner p = Some starter \<and> pa_run_role p \<noteq> None)"
  by (auto simp: cores_def part_core_def)

lemma close_tasks_ends_all:
  "record_ok sh q \<Longrightarrow> distinct (keys_of ts) \<Longrightarrow> (\<And>n. n \<in> set (keys_of ts) \<Longrightarrow> helper_core (cores q n)) \<Longrightarrow>
   (\<And>n starter. map_of ts n = Some False \<Longrightarrow> cores q n = Some (''running'', Some starter, True) \<Longrightarrow>
      note_fits W (close_posting starter n reason)) \<Longrightarrow>
   k \<le> last_seq (entries_of sh) \<Longrightarrow> close_tasks W opts reason ts sh q = (r, sh', q') \<Longrightarrow>
   r = Inr () \<and> (\<exists>rest. entries_of sh' = entries_of sh @ rest) \<and> (\<forall>m. rows_ended m sh \<longrightarrow> rows_ended m sh') \<and>
   (\<forall>n starter. map_of ts n = Some False \<longrightarrow> cores q n = Some (''running'', Some starter, True) \<longrightarrow>
      part_state q' n = Some ''stopped'' \<and> rows_ended n sh' \<and> told_after W k (entries_of sh') starter n reason)"
proof (induction ts arbitrary: sh q)
  case (Cons t ts)
  obtain m ended where t: "t = (m, ended)" by (cases t)
  have d: "distinct (keys_of ts)" "m \<notin> set (keys_of ts)" using Cons.prems(2) t by simp_all
  have noM: "map_of ts m = None" using d(2) by (simp add: map_of_eq_None_iff)
  show ?case
  proof (cases "\<not> ended \<and> part_state q m = Some ''running''")
    case False
    then have c: "close_tasks W opts reason ts sh q = (r, sh', q')" using Cons.prems(6) t by simp
    have fits: "note_fits W (close_posting starter n reason)"
      if "map_of ts n = Some False" "cores q n = Some (''running'', Some starter, True)" for n starter
      using Cons.prems(4) [of n starter] that noM t by (cases "n = m") auto
    have hc: "helper_core (cores q n)" if "n \<in> set (keys_of ts)" for n using Cons.prems(3) [of n] that t by simp
    note ih = Cons.IH [OF Cons.prems(1) d(1) hc fits Cons.prems(5) c]
    have "map_of ts n = Some False" if "map_of (t # ts) n = Some False" "cores q n = Some (''running'', Some st, True)" for n st
    proof (cases "n = m")
      case True
      then have "\<not> ended" "part_state q m = Some ''running''" using that t by (simp_all add: cores_part_state)
      then show ?thesis using False by blast
    qed (use that t in simp)
    then show ?thesis using ih by blast
  next
    case True
    obtain p starter where p: "map_of (q_parts q) m = Some p" "pa_spawner p = Some starter" "pa_run_role p \<noteq> None" "pa_state p = ''running''"
      using Cons.prems(3) [of m] True t by (auto simp: helper_core_def cores_part_state cores_def part_core_def)
    have core: "cores q m = Some (''running'', Some starter, True)" using p by (simp add: cores_running)
    obtain sh1 q1 where s: "set_part_state W m ''stopped'' sh q = (sh1, q1)" by (metis prod.exhaust)
    obtain a sh2 q2 where a: "accept W opts (close_posting starter m reason) sh1 q1 = (a, sh2, q2)" by (metis prod_cases3)
    have "note_fits W (close_posting starter m reason)" using Cons.prems(4) [of m starter] core True t by simp
    from close_one [OF Cons.prems(1) p this s a]
    obtain x rest where x: "a = Inr x" and ok2: "record_ok sh2 q2" and es2: "entries_of sh2 = entries_of sh @ rest"
      and told: "told_after W (last_seq (entries_of sh)) (entries_of sh2) starter m reason" and rm: "rows_ended m sh2"
      and keep: "\<forall>m. rows_ended m sh \<longrightarrow> rows_ended m sh2"
      and cs: "cores q2 = (cores q)(m := map_option (\<lambda>c. (''stopped'', snd c)) (cores q m))" by auto
    have c: "close_tasks W opts reason ts sh2 q2 = (r, sh', q')"
      using Cons.prems(6) t True s a x p by (simp add: Let_def close_posting_def)
    have k2: "k \<le> last_seq (entries_of sh2)" using last_seq_grows [OF Cons.prems(1) ok2 es2] Cons.prems(5) by simp
    have hc: "helper_core (cores q2 n)" if "n \<in> set (keys_of ts)" for n
      using Cons.prems(3) [of n] that d(2) t by (auto simp: cs)
    have fits: "note_fits W (close_posting st n reason)"
      if "map_of ts n = Some False" "cores q2 n = Some (''running'', Some st, True)" for n st
      using Cons.prems(4) [of n st] that noM t by (cases "n = m") (auto simp: cs)
    note ih = Cons.IH [OF ok2 d(1) hc fits k2 c]
    then obtain rest' where es': "entries_of sh' = entries_of sh2 @ rest'" by blast
    have "told_after W k (entries_of sh2) starter m reason"
      using told Cons.prems(5) by (force simp: told_after_def)
    then have "told_after W k (entries_of sh') starter m reason" unfolding es' by (rule told_grows)
    moreover have "part_state q' m = Some ''stopped''"
      using close_tasks_cores [OF c, of m] core by (auto simp: cores_part_state cs)
    moreover have "rows_ended m sh'" using ih rm by blast
    ultimately have here: "part_state q' m = Some ''stopped'' \<and> rows_ended m sh' \<and> told_after W k (entries_of sh') starter m reason"
      by blast
    have each: "part_state q' n = Some ''stopped'' \<and> rows_ended n sh' \<and> told_after W k (entries_of sh') st n reason"
      if "map_of (t # ts) n = Some False" "cores q n = Some (''running'', Some st, True)" for n st
    proof (cases "n = m")
      case True
      then show ?thesis using here that(2) core by simp
    next
      case False
      then have "map_of ts n = Some False" "cores q2 n = Some (''running'', Some st, True)" using that t by (simp_all add: cs)
      then show ?thesis using ih by blast
    qed
    have "\<exists>rest. entries_of sh' = entries_of sh @ rest" using es' es2 by simp
    moreover have "\<forall>m. rows_ended m sh \<longrightarrow> rows_ended m sh'" using keep ih by blast
    ultimately show ?thesis using ih each by blast
  qed
qed simp

section \<open>The properties\<close>

text \<open>C15. The limits hold. Whatever a pool's operations, in any order, and whatever else its process and the other
  processes do in between: it never starts more helpers than the request's limit, never has more running than the
  limit of running ones, gives no name twice, none that is not a well-formed name and none of the reserved
  names, and a helper it shows running has a task that has not ended.\<close>

theorem helpers_within_limits:
  assumes "pool_run opts L s"
  shows "length (hp_started (as_pool s)) \<le> pl_total L \<and> length (live_helpers (as_pool s) (as_process s)) \<le> pl_live L \<and>
    distinct (hp_started (as_pool s)) \<and>
    (\<forall>n\<in>set (hp_started (as_pool s)). valid_name n \<and> n \<notin> set RESERVED_NAMES \<and>
       (part_state (as_process s) n = Some ''running'' \<longrightarrow> map_of (hp_tasks (as_pool s)) n = Some False))"
  using pool_run_ok [OF assms] by (auto simp: pool_ok_def)

lemma pool_running: "pool_ok L q P \<Longrightarrow> n \<in> set (live_helpers P q) \<Longrightarrow>
    \<exists>starter. cores q n = Some (''running'', Some starter, True) \<and> map_of (hp_tasks P) n = Some False"
  by (auto simp: pool_ok_def live_helpers_def helper_core_def cores_part_state)

lemma close_pool_ends_all:
  assumes pool: "pool_ok L q P" and rec: "record_ok sh q" and fits: "closing_fits W reason q (live_helpers P q)"
    and k: "k \<le> last_seq (entries_of sh)" and close: "close_pool W opts reason sh q P = (r, sh', q')"
  shows "r = Inr () \<and> (\<exists>rest. entries_of sh' = entries_of sh @ rest) \<and> live_helpers P q' = [] \<and>
    (\<forall>n\<in>set (live_helpers P q). \<exists>starter. cores q n = Some (''running'', Some starter, True) \<and> part_state q' n = Some ''stopped'' \<and>
       rows_ended n sh' \<and> told_after W k (entries_of sh') starter n reason)"
proof -
  have d: "distinct (keys_of (hp_tasks P))" using pool by (simp add: pool_ok_def)
  have hc: "helper_core (cores q n)" if "n \<in> set (keys_of (hp_tasks P))" for n using pool that by (auto simp: pool_ok_def)
  have f: "note_fits W (close_posting starter n reason)"
    if "map_of (hp_tasks P) n = Some False" "cores q n = Some (''running'', Some starter, True)" for n starter
  proof -
    have "n \<in> set (hp_started P)" using pool map_of_SomeD [OF that(1)] by (force simp: pool_ok_def)
    then have "n \<in> set (live_helpers P q)" using that(2) by (auto simp: live_helpers_def cores_part_state)
    then show ?thesis using fits that(2) by (auto simp: closing_fits_def cores_running)
  qed
  note all = close_tasks_ends_all [OF rec d hc f k close [unfolded close_pool_def]]
  have each: "\<exists>starter. cores q n = Some (''running'', Some starter, True) \<and> part_state q' n = Some ''stopped'' \<and>
      rows_ended n sh' \<and> told_after W k (entries_of sh') starter n reason" if "n \<in> set (live_helpers P q)" for n
    using pool_running [OF pool that] all by blast
  have "part_state q' n \<noteq> Some ''running''" if n: "n \<in> set (hp_started P)" for n
  proof (cases "n \<in> set (live_helpers P q)")
    case True
    then show ?thesis using each [OF True] by auto
  next
    case False
    then have "part_state q n \<noteq> Some ''running''" using n by (simp add: live_helpers_def)
    then show ?thesis using close_tasks_cores [OF close [unfolded close_pool_def], of n] by (auto simp: cores_part_state)
  qed
  then have "live_helpers P q' = []" by (simp add: live_helpers_def filter_empty_conv)
  then show ?thesis using all each by blast
qed

definition final_posting :: "string \<Rightarrow> string \<Rightarrow> posting" where
  "final_posting who reply = harness_posting who reply ''reply'' USER (''the session'' @ [char_of (39::nat)] @ ''s result'')"


text \<open>What a start that got a name leaves.\<close>

lemma spawn_named:
  assumes rec: "record_ok sh q" and oth: "others_ok others"
    and s: "spawn W opts L others spawner request given sh q P = (r, sh', q', P')" and named: "q' \<noteq> q \<or> P' \<noteq> P \<or> (\<exists>m. r = Inr m)"
  obtains n sh1 q1 where "n \<notin> set (keys_of (q_parts q))" "\<forall>g. given = Some g \<longrightarrow> n = g" "record_ok sh1 q1" "grows sh sh1"
    "cores q1 = (cores q)(n := Some (''running'', Some spawner, True))"
    "map_of (q_parts q1) n = Some (joined_participant q (helper_join q spawner n))"
    "give_request W opts spawner n request sh1 q1 P = (r, sh', q', P')"
proof -
  from spawn_cases [OF s] named obtain n sh1 where n: "n \<notin> set (keys_of (q_parts q))" "\<forall>g. given = Some g \<longrightarrow> n = g"
    and t: "take_name W others spawner (given = None) NAME_TRIES (case given of Some g \<Rightarrow> g | None \<Rightarrow> next_name ''h'' sh q) sh q =
         (Inr n, sh1, put_part q n (joined_participant q (helper_join q spawner n)))"
    and g: "give_request W opts spawner n request (others NAME_TRIES sh1)
         (put_part q n (joined_participant q (helper_join q spawner n))) P = (r, sh', q', P')" by blast
  have g1: "grows sh sh1" by (rule take_name_grows [OF oth t])
  have g2: "grows sh1 (others NAME_TRIES sh1)" using oth by (simp add: others_ok_def)
  have c: "cores (put_part q n (joined_participant q (helper_join q spawner n))) =
      (cores q)(n := Some (''running'', Some spawner, True))" by (simp add: joined_core)
  have p: "map_of (q_parts (put_part q n (joined_participant q (helper_join q spawner n)))) n =
      Some (joined_participant q (helper_join q spawner n))" by (simp add: put_part_def)
  show ?thesis
    by (rule that [OF n record_ok_others [OF record_ok_take_name [OF rec oth t] oth] grows_trans [OF g1 g2] c p g])
qed

text \<open>C17. A started helper has its request. When a start returns a name, in any state a pool can reach and whatever
  other processes write meanwhile, the name is new to the process (and the one asked for, when one was), the helper
  is shown running with its starter, and the record holds an entry by the starter, after everything it held before, with the
  request behind the helper's address; that entry's number is the request the pool keeps for the helper and is
  where the helper's cursor stands, so its first message, which already carries it, is not delivered again.\<close>

theorem spawned_helper_has_its_request:
  assumes "pool_run opts L s" "others_ok others"
    and "spawn W opts L others spawner request given (as_shared s) (as_process s) (as_pool s) = (Inr n, sh', q', P')"
  shows "n \<notin> set (keys_of (q_parts (as_process s))) \<and> (\<forall>g. given = Some g \<longrightarrow> n = g) \<and>
    hp_started P' = hp_started (as_pool s) @ [n] \<and> map_of (hp_tasks P') n = Some False \<and>
    (\<exists>e p. e \<in> set (entries_of sh') \<and> last_seq (entries_of (as_shared s)) < en_seq e \<and> en_author e = spawner \<and>
       en_kind e = ''post'' \<and> en_text e = w_clean W (mention_text n request) \<and> map_of (hp_requests P') n = Some (en_seq e) \<and>
       map_of (q_parts q') n = Some p \<and> pa_state p = ''running'' \<and> pa_spawner p = Some spawner \<and> pa_cursor p = en_seq e)"
proof -
  note rec = pool_run_record [OF assms(1)]
  obtain m sh1 q1 where m: "m \<notin> set (keys_of (q_parts (as_process s)))" "\<forall>g. given = Some g \<longrightarrow> m = g"
    and rec1: "record_ok sh1 q1" and gr: "grows (as_shared s) sh1"
    and cs: "cores q1 = (cores (as_process s))(m := Some (''running'', Some spawner, True))"
    and p: "map_of (q_parts q1) m = Some (joined_participant (as_process s) (helper_join (as_process s) spawner m))"
    and g: "give_request W opts spawner m request sh1 q1 (as_pool s) = (Inr n, sh', q', P')"
    by (rule spawn_named [OF rec assms(2,3)]) auto
  from give_request_cases [OF g p] obtain e un storm sh2 q2 where n: "n = m"
    and a: "accept W opts (request_posting spawner m request) sh1 q1 = (Inr (e, un, storm), sh2, q2)"
    and cur: "set_cursor W m (en_seq e) sh2 q2 = Some (sh', q')"
    and P': "P' = (as_pool s)\<lparr>hp_started := hp_started (as_pool s) @ [m], hp_requests := dict_put m (en_seq e) (hp_requests (as_pool s)),
        hp_tasks := dict_put m False (hp_tasks (as_pool s))\<rparr>" by auto
  have w: "en_author e = spawner" "en_kind e = ''post''" "en_text e = w_clean W (mention_text m request)"
    using accept_entry [OF a] by (auto simp: written_as_def request_posting_def clean_posting_def Let_def split: if_splits)
  have f: "file_ok sh1" "proc_ok sh1 q1" using rec1 by (simp_all add: record_ok_def)
  note inr = accept_in_record [OF f a]
  obtain rest where r: "entries_of sh1 = entries_of (as_shared s) @ rest" using entries_grow [OF gr] by blast
  have later: "last_seq (entries_of (as_shared s)) < en_seq e" using last_seq_grows [OF rec rec1 r] inr(3) by simp
  have e: "e \<in> set (entries_of sh')" using inr(1) set_cursor_same [OF cur] entries_same by metis
  have "cores q2 m = Some (''running'', Some spawner, True)" using cs cores_accept [OF a] by simp
  then obtain p' where p': "map_of (q_parts q2) m = Some p'" "pa_state p' = ''running''" "pa_spawner p' = Some spawner"
    by (auto simp: cores_running)
  then have "map_of (q_parts q') m = Some (p'\<lparr>pa_cursor := en_seq e\<rparr>)"
    using cur by (auto simp: set_cursor_def log_delivery_def Let_def put_part_def)
  then show ?thesis using m n w later e p' P' by (intro conjI exI [of _ e] exI [of _ "p'\<lparr>pa_cursor := en_seq e\<rparr>"]) simp_all
qed

text \<open>C18. A refused start runs nothing. When a start is refused, in any state a pool can reach, the helpers running, the
  tasks and the requests of the pool are what they were; and either nothing of the pool or the process has changed, or a
  name was taken for a helper whose request was refused, and that helper is failed, its name used up.\<close>

theorem refused_start_runs_nothing:
  assumes "pool_run opts L s" "others_ok others"
    and "spawn W opts L others spawner request given (as_shared s) (as_process s) (as_pool s) = (Inl why, sh', q', P')"
  shows "live_helpers P' q' = live_helpers (as_pool s) (as_process s) \<and> hp_tasks P' = hp_tasks (as_pool s) \<and>
    hp_requests P' = hp_requests (as_pool s) \<and>
    (P' = as_pool s \<and> q' = as_process s \<or>
     (\<exists>n. hp_started P' = hp_started (as_pool s) @ [n] \<and> n \<notin> set (hp_started (as_pool s)) \<and> part_state q' n = Some ''failed''))"
proof (cases "q' = as_process s \<and> P' = as_pool s")
  case False
  note pool = pool_run_ok [OF assms(1)] and rec = pool_run_record [OF assms(1)]
  obtain m sh1 q1 where m: "m \<notin> set (keys_of (q_parts (as_process s)))"
    and cs: "cores q1 = (cores (as_process s))(m := Some (''running'', Some spawner, True))"
    and p: "map_of (q_parts q1) m = Some (joined_participant (as_process s) (helper_join (as_process s) spawner m))"
    and g: "give_request W opts spawner m request sh1 q1 (as_pool s) = (Inl why, sh', q', P')"
    by (rule spawn_named [OF rec assms(2,3)]) (use False in auto)
  from give_request_cases [OF g p] obtain w sh2 q2 where P': "P' = (as_pool s)\<lparr>hp_started := hp_started (as_pool s) @ [m]\<rparr>"
    and a: "accept W opts (request_posting spawner m request) sh1 q1 = (Inl w, sh2, q2)"
    and f: "set_part_state W m ''failed'' sh2 q2 = (sh', q')" by auto
  have c: "cores q' = (cores (as_process s))(m := Some (''failed'', Some spawner, True))"
    using set_part_state_cores [OF f] cores_accept [OF a] cs by simp
  have new: "m \<notin> set (hp_started (as_pool s))"
  proof
    assume "m \<in> set (hp_started (as_pool s))"
    then have "helper_core (cores (as_process s) m)" using pool by (simp add: pool_ok_def)
    then have "map_of (q_parts (as_process s)) m \<noteq> None" by (auto simp: helper_core_def cores_def)
    then show False using m by (simp add: map_of_eq_None_iff)
  qed
  then have "live_helpers P' q' = live_helpers (as_pool s) (as_process s)"
    by (auto simp: live_helpers_def P' cores_part_state c intro!: filter_cong)
  then show ?thesis using P' c new by (auto simp: cores_part_state)
qed simp

end
