(* ===== verification/HelperPoolSample.thy ===== *)
theory HelperPoolSample imports HelperPoolEnds RunRecordSample
begin

text \<open>
  A concrete run of a pool, evaluated: the main agent of an empty run starts a helper, is refused a second one by the
  limit, and its reply ends the request. It is the input at which the properties of the pool are applied.
\<close>

section \<open>The run\<close>

definition main_join :: join_request where
  "main_join = \<lparr>j_name = ''main'', j_role = ''actor'', j_state = ''running'', j_episode = None, j_pass = None,
     j_spawner = None, j_helps = None, j_rejoin = False\<rparr>"

definition main_process :: "shared \<times> process" where
  "main_process = (case join sample_world main_join (y_shared first_system) (new_process sample_world (y_shared first_system)) of
     Inr x \<Rightarrow> x | Inl r \<Rightarrow> (y_shared first_system, new_process sample_world (y_shared first_system)))"

definition sample_limits :: pool_limits where
  "sample_limits = \<lparr>pl_live = 2, pl_total = 1, pl_entries = Some 50\<rparr>"

definition pool_start :: agent_state where
  "pool_start = \<lparr>as_shared = fst main_process, as_process = snd main_process, as_pool = empty_pool\<rparr>"

definition no_others :: "nat \<Rightarrow> shared \<Rightarrow> shared" where "no_others k sh = sh"

definition sample_spawn :: "agent_state \<Rightarrow> (pool_refusal + string) \<times> shared \<times> process \<times> helper_pool" where
  "sample_spawn s = spawn sample_world sample_options sample_limits no_others ''main'' ''summarise the open questions'' None
     (as_shared s) (as_process s) (as_pool s)"

definition pool_started :: agent_state where
  "pool_started = (case sample_spawn pool_start of (r, sh, q, P) \<Rightarrow> \<lparr>as_shared = sh, as_process = q, as_pool = P\<rparr>)"

lemma others_ok_none: "others_ok no_others"
  by (simp add: others_ok_def no_others_def)

lemma pool_run_start: "pool_run sample_options sample_limits pool_start"
proof -
  have j: "join sample_world main_join (y_shared first_system) (new_process sample_world (y_shared first_system)) = Inr main_process"
  proof -
    have "\<not> isl (join sample_world main_join (y_shared first_system) (new_process sample_world (y_shared first_system)))" by code_simp
    then show ?thesis by (auto simp: main_process_def isl_def split: sum.splits)
  qed
  have f: "file_ok (y_shared first_system)" by (simp add: file_ok_def first_system_def entries_of_def read_lines_def)
  have "record_ok (y_shared first_system) (new_process sample_world (y_shared first_system))"
    using f new_process_ok by (simp add: record_ok_def)
  then have "record_ok (fst main_process) (snd main_process)"
    using record_ok_same join_same [of sample_world main_join _ _ "fst main_process" "snd main_process"] j by (metis prod.collapse)
  then show ?thesis unfolding pool_start_def record_ok_def by (intro pool_run.starts) blast+
qed

lemma pool_started_from: "sample_spawn pool_start = (Inr ''h1'', as_shared pool_started, as_process pool_started, as_pool pool_started)"
proof -
  have "(case sample_spawn pool_start of (r, x) \<Rightarrow> case r of Inr n \<Rightarrow> n = ''h1'' | Inl w \<Rightarrow> False)" by code_simp
  then show ?thesis by (auto simp: pool_started_def split: prod.splits sum.splits)
qed

lemma pool_run_started: "pool_run sample_options sample_limits pool_started"
proof -
  have "pool_step sample_options sample_limits pool_start
      \<lparr>as_shared = as_shared pool_started, as_process = as_process pool_started, as_pool = as_pool pool_started\<rparr>"
    by (rule pool_step.spawns [OF others_ok_none pool_started_from [unfolded sample_spawn_def]])
  moreover have "\<lparr>as_shared = as_shared pool_started, as_process = as_process pool_started, as_pool = as_pool pool_started\<rparr> = pool_started"
    by (rule agent_state.equality) simp_all
  ultimately show ?thesis using pool_run.goes_on [OF pool_run_start] by metis
qed

section \<open>The properties at the run\<close>

theorem helpers_within_limits_witness:
  "length (hp_started (as_pool pool_started)) \<le> pl_total sample_limits \<and> hp_started (as_pool pool_started) = [''h1''] \<and>
   live_helpers (as_pool pool_started) (as_process pool_started) = [''h1'']"
proof -
  have "hp_started (as_pool pool_started) = [''h1'']" "live_helpers (as_pool pool_started) (as_process pool_started) = [''h1'']"
    by code_simp+
  then show ?thesis using helpers_within_limits [OF pool_run_started] by simp
qed

theorem spawned_helper_has_its_request_witness:
  "hp_started (as_pool pool_started) = hp_started (as_pool pool_start) @ [''h1''] \<and>
   (\<exists>e\<in>set (entries_of (as_shared pool_started)). en_text e = ''@h1 summarise the open questions'')"
  using spawned_helper_has_its_request [OF pool_run_start others_ok_none pool_started_from [unfolded sample_spawn_def]]
  by (auto simp: sample_world_def mention_text_def)

theorem refused_start_runs_nothing_witness:
  "fst (sample_spawn pool_started) = Inl Total_Reached \<and>
   live_helpers (snd (snd (snd (sample_spawn pool_started)))) (fst (snd (snd (sample_spawn pool_started)))) =
   live_helpers (as_pool pool_started) (as_process pool_started)"
proof -
  obtain r sh' q' P' where s: "sample_spawn pool_started = (r, sh', q', P')" by (metis prod_cases4)
  have "(case sample_spawn pool_started of (r, x) \<Rightarrow> case r of Inl Total_Reached \<Rightarrow> True | _ \<Rightarrow> False)" by code_simp
  then have r: "r = Inl Total_Reached" using s by (auto split: sum.splits pool_refusal.splits)
  show ?thesis
    using refused_start_runs_nothing [OF pool_run_started others_ok_none s [unfolded sample_spawn_def r]] s r by simp
qed


end
