(* ===== verification/Reconcile.thy ===== *)
theory Reconcile imports RelayRuns RunEntry
begin

text \<open>
  Pricing a pass's model calls after the fact (\<open>unify/memory/reconcile.py\<close>): the calls of one lane in a
  window of its journal, each with what its rows say, and the window's summary. And the journal rows the
  relay writes (\<open>unify/lanes/relay_server.py\<close>, \<open>Relay._call\<close> and \<open>_Ending\<close>), which it reads: a
  reconciled call is priced at what the relay booked for it.

  A journal is its lines, each its length in bytes without the newline and its JSON value, if it is one; the
  bytes of a window are offsets in it. The times of rows and their other fields are left out.
\<close>

section \<open>The window's calls\<close>

definition UNKNOWN :: string where "UNKNOWN = ''unknown''"

text \<open>\<open>format(d, "f")\<close> of an amount that is not negative.\<close>

definition plain_text :: "decimal \<Rightarrow> string" where
  "plain_text d = (case d of Dec c e \<Rightarrow>
     if c = 0 then (if 0 \<le> e then ''0'' else ''0.'' @ replicate (nat (- e)) (CHR ''0'')) else money d)"

definition money_of :: "json \<Rightarrow> string" where
  "money_of v = (case charge_of v of None \<Rightarrow> UNKNOWN | Some d \<Rightarrow> plain_text d)"

definition TERMINAL :: "string list" where
  "TERMINAL = [''completed'', ''failed'', ''cancelled'', ''error'', ''ok'']"

record lane_call =
  lc_status :: string
  lc_usd :: string
  lc_generation :: "string option"
  lc_tokens :: "jrow option"

definition new_call :: lane_call where
  "new_call = \<lparr>lc_status = ''started'', lc_usd = UNKNOWN, lc_generation = None, lc_tokens = None\<rparr>"

definition is_terminal :: "lane_call \<Rightarrow> bool" where
  "is_terminal c \<longleftrightarrow> lc_status c \<in> set TERMINAL"

type_synonym journal = "(int \<times> json option) list"

text \<open>The rows of a journal from the offset of its first line.\<close>

fun rows_from :: "int \<Rightarrow> journal \<Rightarrow> (int \<times> jrow) list" where
  "rows_from pos [] = []"
| "rows_from pos ((n, v) # ls) =
    (case v of Some (JObj row) \<Rightarrow> [(pos, row)] | _ \<Rightarrow> []) @ rows_from (pos + n + 1) ls"

text \<open>\<open>fh.seek(start)\<close>: a window's edge is the journal's size when it was taken, so the start of a line.\<close>

fun seek_line :: "int \<Rightarrow> int \<Rightarrow> journal \<Rightarrow> int \<times> journal" where
  "seek_line start pos [] = (pos, [])"
| "seek_line start pos (l # ls) = (if start \<le> pos then (pos, l # ls) else seek_line start (pos + fst l + 1) ls)"

definition window_rows :: "int \<Rightarrow> journal \<Rightarrow> (int \<times> jrow) list" where
  "window_rows start ls = (case seek_line start 0 ls of (pos, rest) \<Rightarrow> rows_from pos rest)"

definition call_id :: "jrow \<Rightarrow> string option" where
  "call_id row =
    (case (if falsy (jget row ''request_attempt_id'') then jget row ''call_id'' else jget row ''request_attempt_id'') of
       JStr s \<Rightarrow> if s = [] then None else Some s | _ \<Rightarrow> None)"

definition on_lane :: "jrow \<Rightarrow> string list \<Rightarrow> bool" where
  "on_lane row models \<longleftrightarrow> list_ex (\<lambda>k. text_or_empty (jget row k) \<in> set (filter (\<lambda>m. m \<noteq> []) models))
     [''requested_model'', ''model'']"

definition any_value :: "jrow \<Rightarrow> bool" where
  "any_value ps \<longleftrightarrow> list_ex (\<lambda>p. snd p \<noteq> JNull) ps"

definition row_call :: "jrow \<Rightarrow> lane_call \<Rightarrow> lane_call" where
  "row_call row c = \<lparr>
     lc_status = (if falsy (jget row ''status'') then lc_status c else str_of (jget row ''status'')),
     lc_usd = (if money_of (jget row ''account_charge'') \<noteq> UNKNOWN then money_of (jget row ''account_charge'') else lc_usd c),
     lc_generation = (case jget row ''generation_id'' of JStr g \<Rightarrow> if g \<noteq> [] then Some g else lc_generation c | _ \<Rightarrow> lc_generation c),
     lc_tokens = (case jget row ''tokens'' of JObj ts \<Rightarrow> if any_value ts then Some ts else lc_tokens c | _ \<Rightarrow> lc_tokens c)\<rparr>"

type_synonym calls = "(string \<times> lane_call) list"

definition lane_step :: "int \<Rightarrow> int \<Rightarrow> string list \<Rightarrow> calls \<Rightarrow> int \<times> jrow \<Rightarrow> calls" where
  "lane_step start til models calls ar = (case ar of (pos, row) \<Rightarrow>
     (case call_id row of
        None \<Rightarrow> calls
      | Some rid \<Rightarrow>
          (case map_of calls rid of
             Some c \<Rightarrow> dict_put rid (row_call row c) calls
           | None \<Rightarrow>
               if start \<le> pos \<and> pos < til \<and> jget row ''origin'' = JStr ''request_started'' \<and> on_lane row models
               then dict_put rid (row_call row new_call) calls else calls)))"

definition lane_calls :: "journal \<Rightarrow> int \<Rightarrow> int \<Rightarrow> string list \<Rightarrow> calls" where
  "lane_calls ls start til models = foldl (lane_step start til models) [] (window_rows start ls)"

section \<open>Estimates and the summary\<close>

text \<open>Pinned prices: input, output and perhaps cache_write, per million tokens.\<close>

record prices =
  pr_input :: decimal
  pr_output :: decimal
  pr_cache_write :: "decimal option"

definition token_count :: "jrow \<Rightarrow> string \<Rightarrow> int option" where
  "token_count ts k = (if falsy (jget ts k) then Some 0 else int_value (jget ts k))"

definition estimate_tokens :: "jrow option \<Rightarrow> prices option \<Rightarrow> decimal option" where
  "estimate_tokens tokens prices = (case (tokens, prices) of
     (Some ts, Some p) \<Rightarrow>
       if jget ts ''input'' = JNull \<and> jget ts ''output'' = JNull then None
       else (case (token_count ts ''input'', token_count ts ''output'', token_count ts ''cache_write'') of
          (Some i, Some u, Some w) \<Rightarrow>
            if i < 0 \<or> u < 0 \<or> w < 0 then None
            else (let usd = dec_add (dec_times (pr_input p) i) (dec_times (pr_output p) u);
                      usd = (case pr_cache_write p of None \<Rightarrow> usd | Some q \<Rightarrow> dec_add usd (dec_times q w))
                  in Some (dec_millionth usd))
        | _ \<Rightarrow> None)
   | _ \<Rightarrow> None)"

definition dec_sum :: "decimal list \<Rightarrow> decimal" where
  "dec_sum ds = foldl dec_add dec_zero ds"

record window_summary =
  ws_read :: bool
  ws_calls :: nat
  ws_priced :: nat
  ws_estimated :: nat
  ws_unknown :: nat
  ws_estimated_usd :: decimal
  ws_usd :: decimal
  ws_booked :: "decimal option"

definition unavailable :: window_summary where
  "unavailable = \<lparr>ws_read = False, ws_calls = 0, ws_priced = 0, ws_estimated = 0, ws_unknown = 0,
     ws_estimated_usd = dec_zero, ws_usd = dec_zero, ws_booked = None\<rparr>"

text \<open>What one call is priced at: its charge, its tokens at the prices, or nothing.\<close>

definition charged :: "lane_call \<Rightarrow> decimal option" where
  "charged c = (if lc_usd c = UNKNOWN then None else dec_of_text (lc_usd c))"

definition estimated :: "prices option \<Rightarrow> lane_call \<Rightarrow> decimal option" where
  "estimated prices c = (if lc_usd c = UNKNOWN then estimate_tokens (lc_tokens c) prices else None)"

definition summarize :: "calls \<Rightarrow> prices option \<Rightarrow> decimal \<Rightarrow> window_summary" where
  "summarize calls prices worst =
    (let cs = map snd calls; priced = List.map_filter charged cs; estimates = List.map_filter (estimated prices) cs;
         unpriced = length cs - length priced - length estimates;
         est = dec_sum estimates; usd = dec_add (dec_sum priced) est
     in \<lparr>ws_read = True, ws_calls = length cs, ws_priced = length priced, ws_estimated = length estimates,
         ws_unknown = unpriced, ws_estimated_usd = est, ws_usd = usd,
         ws_booked = Some (dec_add usd (dec_times worst (int unpriced)))\<rparr>)"

text \<open>The reading loop: each look is the journal as it was then (\<open>None\<close>: unreadable) and whether the time
  was up; a look after the last one given is the one that ends it.\<close>

fun reconcile_loop :: "(journal option \<times> bool) list \<Rightarrow> int \<Rightarrow> int \<Rightarrow> string list \<Rightarrow> calls option" where
  "reconcile_loop [] start til models = None"
| "reconcile_loop ((j, over) # looks) start til models = (case j of
     None \<Rightarrow> None
   | Some ls \<Rightarrow>
       (let calls = lane_calls ls start til models in
        if list_all (\<lambda>c. is_terminal (snd c)) calls \<or> over then Some calls
        else reconcile_loop looks start til models))"

definition reconcile_window :: "(journal option \<times> bool) list \<Rightarrow> (int \<times> int) option \<Rightarrow> string list \<Rightarrow> prices option \<Rightarrow>
    decimal \<Rightarrow> window_summary" where
  "reconcile_window looks window models prices worst = (case window of
     None \<Rightarrow> unavailable
   | Some (start, til) \<Rightarrow>
       if til < start then unavailable
       else (case reconcile_loop looks start til models of
          None \<Rightarrow> unavailable | Some calls \<Rightarrow> summarize calls prices worst))"

section \<open>The rows the relay writes\<close>

definition jnat :: "nat option \<Rightarrow> json" where
  "jnat n = (case n of None \<Rightarrow> JNull | Some k \<Rightarrow> JInt (int k))"

definition tokens_json :: "tokens \<Rightarrow> json" where
  "tokens_json t = JObj [(''input'', jnat (k_input t)), (''output'', jnat (k_output t)), (''cache_read'', jnat (k_cache_read t)),
     (''cache_write'', jnat (k_cache_write t)), (''reasoning'', jnat (k_reasoning t))]"

definition base_row :: "string \<Rightarrow> string \<Rightarrow> string \<Rightarrow> jrow" where
  "base_row rid lane model = [(''request_attempt_id'', JStr rid), (''call_id'', JStr rid), (''lane'', JStr lane),
     (''requested_model'', JStr model), (''model'', JStr model)]"

fun event_row :: "event \<Rightarrow> jrow" where
  "event_row (Started rid lane model) = base_row rid lane model @
     [(''origin'', JStr ''request_started''), (''status'', JStr ''started''), (''account_charge'', JNull),
      (''measurement'', JStr ''unknown''), (''tokens'', tokens_json no_tokens)]"
| "event_row (Ended t) = base_row (t_rid t) (t_lane t) (t_model t) @
     [(''origin'', JStr ''response''), (''status'', JStr (t_status t)), (''status_code'', jint_opt (t_code t)),
      (''error_type'', jopt (t_error t)), (''account_charge'', jopt (t_charge t)), (''measurement'', JStr (t_measurement t)),
      (''tokens'', tokens_json (t_tokens t)), (''generation_id'', jopt (t_generation t)),
      (''finish_reason'', jopt (t_finish t)), (''booked_usd'', JStr (t_booked t)), (''charge_class'', JStr (t_class t))]"

fun event_lane :: "event \<Rightarrow> string" where
  "event_lane (Started rid lane model) = lane"
| "event_lane (Ended t) = t_lane t"

fun event_rid :: "event \<Rightarrow> string" where
  "event_rid (Started rid lane model) = rid"
| "event_rid (Ended t) = t_rid t"

text \<open>A journal file of one lane that holds these events, each line of any length.\<close>

definition lane_journal :: "string \<Rightarrow> event list \<Rightarrow> journal \<Rightarrow> bool" where
  "lane_journal lane rows ls \<longleftrightarrow> list_all (\<lambda>l. 0 < fst l) ls \<and>
     map snd ls = map (\<lambda>e. Some (JObj (event_row e))) (filter (\<lambda>e. event_lane e = lane) rows)"

section \<open>One call of a window\<close>

lemma charge_text:
  assumes "charge_of v = Some d"
  shows "money_of v \<noteq> UNKNOWN \<and> (\<exists>d'. dec_of_text (money_of v) = Some d' \<and> dec_val d' = dec_val d)"
proof -
  obtain c e where d: "d = Dec c e" by (cases d)
  have c: "0 \<le> c" using charge_of_nonneg [OF assms] d by simp
  have m: "money_of v = plain_text d" using assms by (simp add: money_of_def)
  have "\<exists>d'. dec_of_text (plain_text d) = Some d' \<and> dec_val d' = dec_val d"
  proof (cases "c = 0 \<and> e < 0")
    case True
    have z: "list_all is_digit ''0''" "list_all is_digit (replicate (nat (- e)) (CHR ''0''))"
      using zero_digit by (auto simp: list_all_iff)
    have "dec_of_text (''0'' @ CHR ''.'' # replicate (nat (- e)) (CHR ''0'')) =
        dec_unsigned (''0'' @ CHR ''.'' # replicate (nat (- e)) (CHR ''0''))"
      using zero_digit by (intro dec_of_text_digits) (auto simp: list_all_iff)
    also have "\<dots> = Some (Dec (int (digits_val (''0'' @ replicate (nat (- e)) (CHR ''0'')))) (- int (nat (- e))))"
      using z by (subst dec_unsigned_point) simp_all
    also have "digits_val (''0'' @ replicate (nat (- e)) (CHR ''0'')) = 0"
      using digits_val_pad [of "''0''" "nat (- e)"] by (simp add: digits_val_def digit_val_def)
    finally show ?thesis using True by (auto simp: d plain_text_def dec_val_Dec)
  next
    case False
    then have "plain_text d = money d" by (auto simp: d plain_text_def)
    then show ?thesis using money_reads_back [OF c, of e] d by simp
  qed
  moreover have "dec_of_text UNKNOWN = None" by code_simp
  ultimately show ?thesis unfolding m by auto
qed

lemma no_charge_text: "charge_of v = None \<Longrightarrow> money_of v = UNKNOWN"
  by (simp add: money_of_def)

text \<open>What the rows of one id make of its call.\<close>

fun rid_step :: "int \<Rightarrow> int \<Rightarrow> string list \<Rightarrow> string \<Rightarrow> lane_call option \<Rightarrow> int \<times> jrow \<Rightarrow> lane_call option" where
  "rid_step start til models rid (Some c) (pos, row) = Some (if call_id row = Some rid then row_call row c else c)"
| "rid_step start til models rid None (pos, row) =
    (if call_id row = Some rid \<and> start \<le> pos \<and> pos < til \<and> jget row ''origin'' = JStr ''request_started'' \<and> on_lane row models
     then Some (row_call row new_call) else None)"

lemma lane_step_rid:
  "map_of (lane_step start til models calls ar) rid = rid_step start til models rid (map_of calls rid) ar"
  by (cases ar; cases "map_of calls rid") (auto simp: lane_step_def split: option.split)

lemma lane_steps_rid:
  "map_of (foldl (lane_step start til models) calls rows) rid = foldl (rid_step start til models rid) (map_of calls rid) rows"
  by (induction rows arbitrary: calls) (simp_all add: lane_step_rid)

lemma rid_steps_filter:
  "foldl (rid_step start til models rid) o0 rows =
   foldl (rid_step start til models rid) o0 (filter (\<lambda>p. call_id (snd p) = Some rid) rows)"
proof (induction rows arbitrary: o0)
  case (Cons p rows)
  have "call_id (snd p) \<noteq> Some rid \<Longrightarrow> rid_step start til models rid o0 p = o0" by (cases p; cases o0) auto
  then show ?case using Cons by simp
qed simp

lemma lane_step_distinct: "distinct (keys_of calls) \<Longrightarrow> distinct (keys_of (lane_step start til models calls ar))"
  by (auto simp: lane_step_def split: prod.split option.split)

interpretation window_calls: event_log "lane_step start til models" "[]" "\<lambda>calls. distinct (keys_of calls)" for start til models
  by unfold_locales (simp, rule lane_step_distinct)

lemma lane_calls_member:
  "(rid, call) \<in> set (lane_calls ls start til models) \<Longrightarrow>
   foldl (rid_step start til models rid) None (filter (\<lambda>p. call_id (snd p) = Some rid) (window_rows start ls)) = Some call"
proof -
  assume a: "(rid, call) \<in> set (lane_calls ls start til models)"
  have "distinct (keys_of (lane_calls ls start til models))"
    unfolding lane_calls_def by (rule window_calls.inv_log)
  then have "map_of (lane_calls ls start til models) rid = Some call" using a by (simp add: map_of_eq_Some_iff)
  then show ?thesis using rid_steps_filter [of start til models rid None "window_rows start ls"]
    unfolding lane_calls_def lane_steps_rid by simp
qed

section \<open>The rows of one call of the relay\<close>

lemma call_id_event: "event_rid e \<noteq> [] \<Longrightarrow> call_id (event_row e) = Some (event_rid e)"
  by (cases e) (simp_all add: call_id_def jget_def base_row_def)

lemma rows_from_objects:
  "map snd ls = map (\<lambda>e. Some (JObj (event_row e))) es \<Longrightarrow> map snd (rows_from pos ls) = map event_row es"
  by (induction ls arbitrary: pos es) (auto simp: map_eq_Cons_conv)

lemma seek_suffix: "\<exists>pos' n. seek_line start pos ls = (pos', drop n ls)"
proof (induction ls arbitrary: pos)
  case (Cons l ls)
  show ?case
  proof (cases "start \<le> pos")
    case False
    obtain pos' n where "seek_line start (pos + fst l + 1) ls = (pos', drop n ls)" using Cons by blast
    then show ?thesis using False by (intro exI [of _ pos'] exI [of _ "Suc n"]) simp
  qed (intro exI [of _ pos] exI [of _ 0], simp)
qed simp

lemma window_suffix:
  assumes "map snd ls = map (\<lambda>e. Some (JObj (event_row e))) es"
  shows "\<exists>n. map snd (window_rows start ls) = map event_row (drop n es)"
proof -
  obtain pos n where s: "seek_line start 0 ls = (pos, drop n ls)" using seek_suffix by blast
  have "map snd (drop n ls) = map (\<lambda>e. Some (JObj (event_row e))) (drop n es)"
    using assms by (metis drop_map)
  then show ?thesis using rows_from_objects by (intro exI [of _ n]) (simp add: window_rows_def s)
qed

text \<open>The rows of one id, in a run of the relay: its start, then its terminal row and copies of it.\<close>

definition core :: "terminal \<Rightarrow> string option \<times> tokens \<times> string" where
  "core t = (t_charge t, t_tokens t, t_booked t)"

definition priced_row :: "config \<Rightarrow> terminal \<Rightarrow> bool" where
  "priced_row c t \<longleftrightarrow> (\<exists>amount kind. price c (t_model t) (charge_of (jopt (t_charge t))) (t_tokens t) = Some (amount, kind) \<and>
     row_value t = dec_val amount)"

definition call_rows :: "config \<Rightarrow> string \<Rightarrow> string \<Rightarrow> string \<Rightarrow> terminal list \<Rightarrow> event list \<Rightarrow> bool" where
  "call_rows c rid lane model ts es \<longleftrightarrow> es = Started rid lane model # map Ended ts \<and>
     (\<forall>t\<in>set ts. t_rid t = rid \<and> t_lane t = lane \<and> t_model t = model \<and> priced_row c t) \<and>
     (\<exists>x. \<forall>t\<in>set ts. core t = x)"

definition evs :: "string \<Rightarrow> event list \<Rightarrow> event list" where
  "evs rid rows = filter (\<lambda>e. event_rid e = rid) rows"

definition rows_inv :: "config \<Rightarrow> relay \<Rightarrow> bool" where
  "rows_inv c Y \<longleftrightarrow>
     (\<forall>rid. evs rid (y_rows Y) = [] \<or> (\<exists>lane model ts. call_rows c rid lane model ts (evs rid (y_rows Y)))) \<and>
     (\<forall>rid. rid \<notin> fst ` set (books c (y_rows Y)) \<longrightarrow> evs rid (y_rows Y) = []) \<and>
     (\<forall>rid k. map_of (y_open Y) rid = Some k \<longrightarrow>
        (\<exists>ts. call_rows c rid (o_lane k) (o_model k) ts (evs rid (y_rows Y)) \<and>
          (case o_row k of None \<Rightarrow> ts = [] | Some t \<Rightarrow> t \<in> set ts)))"

lemma evs_snoc [simp]: "evs rid (rows @ [e]) = evs rid rows @ (if event_rid e = rid then [e] else [])"
  by (simp add: evs_def)

lemma rows_inv_new: "rows_inv c new_relay"
  by (simp add: rows_inv_def new_relay_def evs_def)

lemma end_row_priced:
  assumes "config_ok c" "end_row c rid lane model e i = Some (t, amount)"
  shows "t_lane t = lane \<and> priced_row c t"
proof -
  obtain kind where "price c model (charge_of (jopt (account_charge e i)))
      (case i_tokens i of None \<Rightarrow> no_tokens | Some t \<Rightarrow> t) = Some (amount, kind)"
    "t_lane t = lane" "t_model t = model" "t_charge t = account_charge e i"
    "t_tokens t = (case i_tokens i of None \<Rightarrow> no_tokens | Some t \<Rightarrow> t)"
    using assms(2) by (auto simp: end_row_def Let_def split: option.splits)
  then show ?thesis using end_row_Some [OF assms] by (auto simp: priced_row_def)
qed

lemma rows_inv_start:
  assumes "rows_inv c Y" "rid \<notin> fst ` set (books c (y_rows Y))"
  shows "rows_inv c (start_call rid lane model L Y)"
proof -
  define Z where "Z = start_call rid lane model L Y"
  have "evs rid (y_rows Y) = []" using assms by (simp add: rows_inv_def)
  then have "call_rows c rid lane model [] (evs rid (y_rows Y) @ [Started rid lane model])"
    by (simp add: call_rows_def)
  then have new: "call_rows c rid lane model [] (evs rid (y_rows Z))" by (simp add: Z_def start_call_def)
  have other: "evs r (y_rows Z) = evs r (y_rows Y)" if "r \<noteq> rid" for r using that by (simp add: Z_def start_call_def)
  have a: "evs r (y_rows Z) = [] \<or> (\<exists>lane model ts. call_rows c r lane model ts (evs r (y_rows Z)))" for r
    using assms(1) new other [of r] unfolding rows_inv_def by (cases "r = rid") auto
  have b: "evs r (y_rows Z) = []" if "r \<notin> fst ` set (books c (y_rows Z))" for r
  proof -
    have "r \<notin> fst ` set (books c (y_rows Y))" "r \<noteq> rid" using that by (auto simp: Z_def start_call_def)
    then show ?thesis using assms(1) other unfolding rows_inv_def by simp
  qed
  have d: "\<exists>ts. call_rows c r (o_lane k) (o_model k) ts (evs r (y_rows Z)) \<and>
      (case o_row k of None \<Rightarrow> ts = [] | Some t \<Rightarrow> t \<in> set ts)" if m: "map_of (y_open Z) r = Some k" for r k
  proof (cases "r = rid")
    case True
    then have "k = \<lparr>o_lane = lane, o_model = model, o_row = None\<rparr>" using m by (simp add: Z_def start_call_def)
    then show ?thesis using new True by auto
  next
    case False
    then have "map_of (y_open Y) r = Some k" using m by (simp add: Z_def start_call_def)
    then show ?thesis using assms(1) other [OF False] unfolding rows_inv_def by simp
  qed
  show ?thesis unfolding Z_def [symmetric] rows_inv_def using a b d by blast
qed

lemma call_rows_core: "call_rows c rid lane model ts es \<Longrightarrow> t \<in> set ts \<Longrightarrow> u \<in> set ts \<Longrightarrow> core t = core u"
  unfolding call_rows_def by metis

lemma call_rows_snoc:
  assumes "call_rows c rid lane model ts es" "t_rid t = rid" "t_lane t = lane" "t_model t = model" "priced_row c t"
    "ts = [] \<or> (\<exists>u\<in>set ts. core t = core u)"
  shows "call_rows c rid lane model (ts @ [t]) (es @ [Ended t])"
proof -
  obtain x where x: "\<forall>u\<in>set ts. core u = x" using assms(1) unfolding call_rows_def by blast
  have "\<exists>y. \<forall>u\<in>set (ts @ [t]). core u = y"
    using x assms(6) by (intro exI [of _ "core t"]) auto
  then show ?thesis using assms(1-5) unfolding call_rows_def by auto
qed

lemma rows_inv_ended:
  assumes inv: "rows_inv c Y" and k: "map_of (y_open Y) rid = Some k"
    and t: "t_rid t = rid" "t_lane t = o_lane k" "t_model t = o_model k" "priced_row c t"
    and same: "\<And>u. o_row k = Some u \<Longrightarrow> core t = core u"
    and rows: "y_rows Z = y_rows Y @ [Ended t]"
    and opens: "\<And>r k'. map_of (y_open Z) r = Some k' \<Longrightarrow> (if r = rid then o_lane k' = o_lane k \<and> o_model k' = o_model k \<and>
       (o_row k' = Some t \<or> (o_row k' \<noteq> None \<and> o_row k' = o_row k)) else map_of (y_open Y) r = Some k')"
  shows "rows_inv c Z"
proof -
  obtain ts where ts: "call_rows c rid (o_lane k) (o_model k) ts (evs rid (y_rows Y))"
    "case o_row k of None \<Rightarrow> ts = [] | Some u \<Rightarrow> u \<in> set ts" using inv k unfolding rows_inv_def by blast
  have cores: "ts = [] \<or> (\<exists>u\<in>set ts. core t = core u)"
    using ts(2) same by (cases "o_row k") auto
  have new: "call_rows c rid (o_lane k) (o_model k) (ts @ [t]) (evs rid (y_rows Z))"
    using call_rows_snoc [OF ts(1) t cores] t(1) by (simp add: rows)
  have other: "evs r (y_rows Z) = evs r (y_rows Y)" if "r \<noteq> rid" for r using that t(1) by (simp add: rows)
  have a: "evs r (y_rows Z) = [] \<or> (\<exists>lane model ts. call_rows c r lane model ts (evs r (y_rows Z)))" for r
    using inv new other [of r] unfolding rows_inv_def by (cases "r = rid") auto
  have b: "evs r (y_rows Z) = []" if "r \<notin> fst ` set (books c (y_rows Z))" for r
  proof -
    have "r \<notin> fst ` set (books c (y_rows Y))" "r \<noteq> rid" using that t(1) by (auto simp: rows)
    then show ?thesis using inv other unfolding rows_inv_def by simp
  qed
  have d: "\<exists>ts. call_rows c r (o_lane k') (o_model k') ts (evs r (y_rows Z)) \<and>
      (case o_row k' of None \<Rightarrow> ts = [] | Some t \<Rightarrow> t \<in> set ts)" if m: "map_of (y_open Z) r = Some k'" for r k'
  proof (cases "r = rid")
    case True
    then show ?thesis using opens [OF m] new ts(2) by (intro exI [of _ "ts @ [t]"]) (auto split: option.splits)
  next
    case False
    then show ?thesis using opens [OF m] inv other [OF False] unfolding rows_inv_def by simp
  qed
  show ?thesis unfolding rows_inv_def using a b d by blast
qed

lemma rows_inv_end_call:
  assumes "config_ok c" "rows_inv c Y" shows "rows_inv c (end_call c rid ei Y)"
proof (cases rule: end_call_cases [of c rid ei Y])
  case (ends k t amount)
  note t = end_row_Some [OF assms(1) ends(3)] end_row_priced [OF assms(1) ends(3)]
  have "map_of (y_open (end_call c rid ei Y)) r = map_of (dict_put rid (k\<lparr>o_row := Some t\<rparr>) (y_open Y)) r" for r
    by (simp add: ends(4) put_open_def)
  then show ?thesis
    using ends(2) t by (intro rows_inv_ended [OF assms(2) ends(1), where t = t]) (auto simp: ends(4) put_open_def split: if_splits)
qed (use assms in simp)

lemma rows_inv_undelivered:
  assumes "config_ok c" "rows_inv c Y" shows "rows_inv c (undelivered rid Y)"
proof (cases "undelivered rid Y = Y")
  case False
  then obtain k t where k: "map_of (y_open Y) rid = Some k" "o_row k = Some t"
    and u: "undelivered rid Y = Y\<lparr>y_rows := y_rows Y @
        [Ended (t\<lparr>t_status := ''cancelled'', t_error := Some ''client_gone''\<rparr>)]\<rparr>"
    by (auto simp: undelivered_def split: option.splits)
  obtain ts where "call_rows c rid (o_lane k) (o_model k) ts (evs rid (y_rows Y))" "t \<in> set ts"
    using assms(2) k unfolding rows_inv_def by fastforce
  then have t: "t_rid t = rid" "t_lane t = o_lane k" "t_model t = o_model k" "priced_row c t"
    by (auto simp: call_rows_def)
  show ?thesis
    by (rule rows_inv_ended [OF assms(2) k(1), where t = "t\<lparr>t_status := ''cancelled'', t_error := Some ''client_gone''\<rparr>"])
      (use t k in \<open>auto simp: u core_def priced_row_def\<close>)
qed (use assms in simp)

lemma rows_inv_fewer:
  "rows_inv c Y \<Longrightarrow> y_rows Z = y_rows Y \<Longrightarrow> (\<And>r k. map_of (y_open Z) r = Some k \<Longrightarrow> map_of (y_open Y) r = Some k) \<Longrightarrow> rows_inv c Z"
  unfolding rows_inv_def by simp

lemma rows_inv_release:
  assumes "config_ok c" "rows_inv c Y" shows "rows_inv c (release c rid Y)"
  by (rule rows_inv_fewer [OF rows_inv_end_call [OF assms, of rid "(ending_at ''error'' ''relay_error'', no_info)"]])
    (auto simp: release_def Let_def AList.delete_conv' split: if_splits)

lemma rows_inv_serve:
  assumes "config_ok c" "relay_inv c Y" "rows_inv c Y" "rid \<notin> set (keys_of (l_booked (y_ledger Y)))"
  shows "rows_inv c (serve loads c port rid q Y)"
proof -
  have "rid \<notin> fst ` set (books c (y_rows Y))"
    using assms(2,4) keys_ledger_books [of "y_ledger Y"] by (simp add: relay_inv_def)
  note s = rows_inv_start [OF assms(3) this]
  have r: "rows_inv c (refuse f Y)" for f
    by (rule rows_inv_fewer [OF assms(3)]) (simp_all add: refuse_def)
  show ?thesis using s r assms(3) by (simp add: serve_def split: verdict.split option.split bool.split)
qed

lemma rows_inv_step:
  assumes "relay_step loads c port Y Z" "config_ok c" "relay_inv c Y" "rows_inv c Y" shows "rows_inv c Z"
  using assms
proof cases
  case step_stop
  then show ?thesis using assms(4) by (intro rows_inv_fewer [OF assms(4)]) (simp_all add: stop_def)
qed (simp_all add: rows_inv_serve rows_inv_end_call rows_inv_undelivered rows_inv_release)

lemma run_rows_inv: "relay_run loads c port Y \<Longrightarrow> config_ok c \<Longrightarrow> rows_inv c Y"
proof (induction rule: relay_run.induct)
  case (run_step Y Z)
  then show ?case using rows_inv_step [OF run_step.hyps(2)] run_inv [OF run_step.hyps(1)] by blast
qed (rule rows_inv_new)

section \<open>A reconciled call is priced as the relay booked it\<close>

definition call_price :: "prices option \<Rightarrow> decimal \<Rightarrow> lane_call \<Rightarrow> rat" where
  "call_price prices worst c = (case charged c of Some d \<Rightarrow> dec_val d
     | None \<Rightarrow> (case estimated prices c of Some d \<Rightarrow> dec_val d | None \<Rightarrow> dec_val worst))"

text \<open>The relay's pinned prices of a model, as a pass is given them.\<close>

definition model_prices :: "config \<Rightarrow> string \<Rightarrow> prices option" where
  "model_prices c model = (let table = dict_get (c_prices c) model [] in
     case (map_of table ''input'', map_of table ''output'') of
       (Some i, Some u) \<Rightarrow> Some \<lparr>pr_input = i, pr_output = u, pr_cache_write = map_of table ''cache_write''\<rparr>
     | _ \<Rightarrow> None)"

lemma token_count_jnat: "jget ts k = jnat n \<Longrightarrow> token_count ts k = Some (or_0 n)"
  by (cases n) (simp_all add: token_count_def jnat_def or_0_def)

definition tokens_row :: "tokens \<Rightarrow> jrow" where
  "tokens_row t = [(''input'', jnat (k_input t)), (''output'', jnat (k_output t)), (''cache_read'', jnat (k_cache_read t)),
     (''cache_write'', jnat (k_cache_write t)), (''reasoning'', jnat (k_reasoning t))]"

lemma tokens_json_row: "tokens_json t = JObj (tokens_row t)"
  by (simp add: tokens_json_def tokens_row_def)

lemma tokens_row_get:
  "jget (tokens_row t) ''input'' = jnat (k_input t)" "jget (tokens_row t) ''output'' = jnat (k_output t)"
  "jget (tokens_row t) ''cache_write'' = jnat (k_cache_write t)"
  by (simp_all add: tokens_row_def jget_def)

lemma jnat_null [simp]: "jnat n = JNull \<longleftrightarrow> n = None"
  by (cases n) (simp_all add: jnat_def)

lemma or_0_not_neg [simp]: "\<not> or_0 n < 0"
  by (simp add: or_0_def split: option.split)

text \<open>The two estimates are one.\<close>

lemma estimates_agree:
  "estimate_tokens (Some (tokens_row t)) (model_prices c model) = estimate c model t"
proof -
  have n: "token_count (tokens_row t) ''input'' = Some (or_0 (k_input t))"
    "token_count (tokens_row t) ''output'' = Some (or_0 (k_output t))"
    "token_count (tokens_row t) ''cache_write'' = Some (or_0 (k_cache_write t))"
    by (rule token_count_jnat, rule tokens_row_get)+
  show ?thesis
    by (cases "map_of (dict_get (c_prices c) model []) ''input''"; cases "map_of (dict_get (c_prices c) model []) ''output''")
      (auto simp: estimate_tokens_def estimate_def estimate_usd_def model_prices_def Let_def n tokens_row_get split: option.split)
qed

lemma no_counts_no_estimate: "\<not> any_value (tokens_row t) \<Longrightarrow> estimate c model t = None"
  by (simp add: any_value_def tokens_row_def estimate_def Let_def)

text \<open>What a call is priced at after its start row and terminal rows that agree.\<close>

lemma start_row_call: "row_call (event_row (Started rid lane model)) new_call = new_call"
  by (simp add: row_call_def new_call_def base_row_def jget_def tokens_json_def money_of_def charge_of_def any_value_def
      no_tokens_def jnat_def str_of_def)

definition priced_call :: "lane_call \<Rightarrow> terminal \<Rightarrow> bool" where
  "priced_call k t \<longleftrightarrow> lc_usd k = money_of (jopt (t_charge t)) \<and>
     lc_tokens k = (if any_value (tokens_row (t_tokens t)) then Some (tokens_row (t_tokens t)) else None)"

lemma end_row_call:
  assumes "k = new_call \<or> priced_call k t"
  shows "priced_call (row_call (event_row (Ended t)) k) t"
  using assms unfolding priced_call_def
  by (auto simp: row_call_def new_call_def base_row_def jget_def tokens_json_row)

lemma priced_call_core: "core t = core u \<Longrightarrow> priced_call k t = priced_call k u"
  by (simp add: core_def priced_call_def)

lemma end_rows_call:
  assumes "\<forall>t\<in>set (u # ts). core t = x" "k = new_call \<or> priced_call k u"
  shows "priced_call (foldl (\<lambda>c t. row_call (event_row (Ended t)) c) k (u # ts)) (last (u # ts))"
  using assms
proof (induction ts arbitrary: u k)
  case Nil
  then show ?case using end_row_call by simp
next
  case (Cons t ts)
  have "priced_call (row_call (event_row (Ended u)) k) u" using end_row_call Cons.prems(2) by blast
  then have "priced_call (row_call (event_row (Ended u)) k) t" using priced_call_core Cons.prems(1) by auto
  then show ?case using Cons.IH [of t "row_call (event_row (Ended u)) k"] Cons.prems(1) by simp
qed

lemma priced_call_price:
  assumes "priced_call k t" "priced_row c t" "map_of (c_worst c) (t_model t) = Some worst"
  shows "call_price (model_prices c (t_model t)) worst k = row_value t"
proof -
  obtain amount kind where p: "price c (t_model t) (charge_of (jopt (t_charge t))) (t_tokens t) = Some (amount, kind)"
    and v: "row_value t = dec_val amount" using assms(2) by (auto simp: priced_row_def)
  show ?thesis
  proof (cases "charge_of (jopt (t_charge t))")
    case (Some d)
    then obtain d' where "money_of (jopt (t_charge t)) \<noteq> UNKNOWN" "dec_of_text (money_of (jopt (t_charge t))) = Some d'"
      "dec_val d' = dec_val d" using charge_text by blast
    then show ?thesis using Some p v assms(1) by (simp add: call_price_def charged_def priced_call_def price_def)
  next
    case None
    then have u: "lc_usd k = UNKNOWN" using assms(1) no_charge_text by (simp add: priced_call_def)
    have "estimated (model_prices c (t_model t)) k = estimate c (t_model t) (t_tokens t)"
      using assms(1) estimates_agree no_counts_no_estimate
      by (auto simp: estimated_def u priced_call_def estimate_tokens_def)
    then show ?thesis using None p v assms(3)
      by (auto simp: call_price_def charged_def u price_def split: option.splits)
  qed
qed

lemma books_rid: "map_of (books c rows) rid = map_of (books c (evs rid rows)) rid"
proof (induction rows rule: rev_induct)
  case (snoc e rows)
  then show ?case by (cases e) simp_all
qed (simp add: evs_def)

lemma books_call:
  assumes "call_rows c rid lane model ts es"
  shows "map_of (books c es) rid = Some (if ts = [] then worst_value c model else row_value (last ts))"
proof -
  have t: "\<forall>t\<in>set ts. t_rid t = rid" and es: "es = Started rid lane model # map Ended ts"
    using assms by (simp_all add: call_rows_def)
  have "map_of (books c (Started rid lane model # map Ended ts)) rid =
      Some (if ts = [] then worst_value c model else row_value (last ts))"
    using t
  proof (induction ts rule: rev_induct)
    case (snoc t ts)
    have "books c (Started rid lane model # map Ended (ts @ [t])) = books c ((Started rid lane model # map Ended ts) @ [Ended t])"
      by simp
    then show ?case using snoc.prems by (simp only: books_snoc) simp
  qed (simp add: books_def)
  then show ?thesis by (simp add: es)
qed

lemma rid_steps_ended:
  "\<forall>p\<in>set ps. \<exists>t. snd p = event_row (Ended t) \<Longrightarrow> foldl (rid_step start til models rid) None ps = None"
proof (induction ps)
  case (Cons p ps)
  obtain pos row where p: "p = (pos, row)" by (cases p)
  then obtain t where "row = event_row (Ended t)" using Cons.prems by auto
  then have "jget row ''origin'' \<noteq> JStr ''request_started''" by (simp add: base_row_def jget_def)
  then show ?case using Cons p by simp
qed simp

lemma rid_steps_some:
  assumes "map snd ps = map event_row (map Ended ts)" "\<forall>p\<in>set ps. call_id (snd p) = Some rid"
  shows "foldl (rid_step start til models rid) (Some k) ps = Some (foldl (\<lambda>c t. row_call (event_row (Ended t)) c) k ts)"
  using assms
proof (induction ps arbitrary: k ts)
  case (Cons p ps)
  obtain pos row where p: "p = (pos, row)" by (cases p)
  obtain t us where ts: "ts = t # us" "row = event_row (Ended t)" "map snd ps = map event_row (map Ended us)"
    using Cons.prems(1) p by (cases ts) auto
  have "call_id (event_row (Ended t)) = Some rid" using Cons.prems(2) p ts(2) by simp
  then show ?case using Cons.IH [OF ts(3), of "row_call (event_row (Ended t)) k"] Cons.prems(2) p ts(1,2) by simp
qed simp

lemma all_ended:
  assumes "map snd ps = map event_row es" "\<forall>e\<in>set es. \<exists>t. e = Ended t"
  shows "\<forall>p\<in>set ps. \<exists>t. snd p = event_row (Ended t)"
proof
  fix p assume "p \<in> set ps"
  then have "snd p \<in> set (map snd ps)" by simp
  then obtain e where e: "e \<in> set es" "snd p = event_row e" unfolding assms(1) set_map by blast
  then obtain t where "e = Ended t" using assms(2) by blast
  then show "\<exists>t. snd p = event_row (Ended t)" using e(2) by (intro exI [of _ t]) (simp only:)
qed

text \<open>The rows of one id among the lane's rows from the window's start: none, all of them, or terminal rows only.\<close>

lemma window_rid_rows:
  fixes start :: int and rid :: string
  assumes inv: "rows_inv c Y" and j: "lane_journal lane (y_rows Y) ls" and ids: "[] \<notin> event_rid ` set (y_rows Y)"
  defines "ps \<equiv> filter (\<lambda>p. call_id (snd p) = Some rid) (window_rows start ls)"
  shows "(\<forall>p\<in>set ps. \<exists>t. snd p = event_row (Ended t)) \<or>
    (\<exists>model ts. call_rows c rid lane model ts (evs rid (y_rows Y)) \<and> map snd ps = map event_row (Started rid lane model # map Ended ts))"
proof -
  define L where "L = filter (\<lambda>e. event_lane e = lane) (y_rows Y)"
  obtain n where n: "map snd (window_rows start ls) = map event_row (drop n L)"
    using window_suffix [of ls L start] j by (auto simp: lane_journal_def L_def)
  have rid: "call_id (event_row e) = Some rid \<longleftrightarrow> event_rid e = rid" if "e \<in> set L" for e
  proof -
    have "event_rid e \<noteq> []" using ids that unfolding L_def by force
    then show ?thesis using call_id_event [of e] by auto
  qed
  have "map snd ps = filter (\<lambda>row. call_id row = Some rid) (map snd (window_rows start ls))"
    by (simp add: ps_def filter_map comp_def)
  also have "\<dots> = map event_row (filter (\<lambda>e. call_id (event_row e) = Some rid) (drop n L))"
    by (simp add: n filter_map comp_def)
  also have "filter (\<lambda>e. call_id (event_row e) = Some rid) (drop n L) = evs rid (drop n L)"
    unfolding evs_def by (rule filter_cong) (use rid in \<open>auto dest: in_set_dropD\<close>)
  finally have ps: "map snd ps = map event_row (evs rid (drop n L))" .
  have split: "evs rid L = evs rid (take n L) @ evs rid (drop n L)"
    unfolding evs_def filter_append [symmetric] by simp
  have L: "evs rid L = filter (\<lambda>e. event_lane e = lane) (evs rid (y_rows Y))"
    by (simp add: evs_def L_def conj_commute)
  have ended: ?thesis if "\<forall>e\<in>set (evs rid (drop n L)). \<exists>t. e = Ended t"
    using all_ended [OF ps that] by blast
  consider (none) "evs rid (y_rows Y) = []" | (some) l m ts where "call_rows c rid l m ts (evs rid (y_rows Y))"
    using inv unfolding rows_inv_def by blast
  then show ?thesis
  proof cases
    case none
    then show ?thesis using ended split L by simp
  next
    case (some l m ts)
    then have es: "evs rid (y_rows Y) = Started rid l m # map Ended ts" "\<forall>t\<in>set ts. t_lane t = l"
      by (simp_all add: call_rows_def)
    show ?thesis
    proof (cases "l = lane")
      case False
      then have "evs rid L = []" using es by (auto simp: L filter_empty_conv)
      then show ?thesis using ended split by simp
    next
      case True
      then have all: "evs rid L = Started rid l m # map Ended ts" using es by (auto simp: L filter_id_conv)
      show ?thesis
      proof (cases "evs rid (take n L)")
        case Nil
        then have "evs rid (drop n L) = Started rid l m # map Ended ts" using split all by simp
        then have "map snd ps = map event_row (Started rid lane m # map Ended ts)" using ps True by (simp only:)
        then show ?thesis using some True by blast
      next
        case (Cons e es')
        then have "map Ended ts = es' @ evs rid (drop n L)" using split all by simp
        then have "set (evs rid (drop n L)) \<subseteq> Ended ` set ts" by (metis Un_iff set_append set_map subsetI)
        then show ?thesis using ended by blast
      qed
    qed
  qed
qed

text \<open>The rows a reconciled call was read from, and what the relay has booked for it.\<close>

lemma reconciled_call:
  assumes "config_of M doc = Inr c" "relay_run loads c port Y" "lane_journal lane (y_rows Y) ls"
    and "[] \<notin> event_rid ` set (y_rows Y)" and "(rid, call) \<in> set (lane_calls ls start til [model])"
  obtains ts where "call_rows c rid lane model ts (evs rid (y_rows Y))"
    "call = foldl (\<lambda>c t. row_call (event_row (Ended t)) c) new_call ts"
    "map_of (ledger_books (y_ledger Y)) rid = Some (if ts = [] then worst_value c model else row_value (last ts))"
proof -
  have ok: "config_ok c" by (rule config_of_ok [OF assms(1)])
  have inv: "rows_inv c Y" by (rule run_rows_inv [OF assms(2) ok])
  have led: "ledger_books (y_ledger Y) = books c (y_rows Y)" using run_inv [OF assms(2) ok] by (simp add: relay_inv_def)
  define ps where "ps = filter (\<lambda>p. call_id (snd p) = Some rid) (window_rows start ls)"
  have call: "foldl (rid_step start til [model] rid) None ps = Some call"
    unfolding ps_def by (rule lane_calls_member [OF assms(5)])
  have "\<not> (\<forall>p\<in>set ps. \<exists>t. snd p = event_row (Ended t))" using call rid_steps_ended [of ps] by (metis option.distinct(1))
  with window_rid_rows [OF inv assms(3,4), of rid start, folded ps_def] obtain m ts where
    ts: "call_rows c rid lane m ts (evs rid (y_rows Y))" "map snd ps = map event_row (Started rid lane m # map Ended ts)" by blast
  obtain pos qs where ps: "ps = (pos, event_row (Started rid lane m)) # qs" "map snd qs = map event_row (map Ended ts)"
    using ts(2) by (cases ps) auto
  have qs: "\<forall>p\<in>set qs. call_id (snd p) = Some rid" 
  proof -
    have "set qs \<subseteq> set ps" using ps(1) by auto
    then show ?thesis unfolding ps_def by auto
  qed
  define k0 where "k0 = rid_step start til [model] rid None (pos, event_row (Started rid lane m))"
  have k0: "foldl (rid_step start til [model] rid) k0 qs = Some call" using call ps(1) by (simp add: k0_def)
  have "k0 \<noteq> None"
  proof
    assume "k0 = None"
    moreover have "\<forall>p\<in>set qs. \<exists>t. snd p = event_row (Ended t)" by (rule all_ended [OF ps(2)]) auto
    ultimately show False using k0 rid_steps_ended by simp
  qed
  then have "on_lane (event_row (Started rid lane m)) [model]" and k: "k0 = Some new_call"
    using start_row_call by (auto simp: k0_def split: if_splits)
  then have m: "m = model"
    by (auto simp: on_lane_def base_row_def jget_def split: if_splits)
  have c: "call = foldl (\<lambda>c t. row_call (event_row (Ended t)) c) new_call ts"
    using rid_steps_some [OF ps(2) qs] k0 k by simp
  have b: "map_of (ledger_books (y_ledger Y)) rid = Some (if ts = [] then worst_value c model else row_value (last ts))"
    using books_call [OF ts(1)] books_rid [of c "y_rows Y" rid] led m by simp
  show ?thesis using that ts(1) c b by (simp add: m)
qed


end
