(* ===== verification/ReconcileSample.thy ===== *)
theory ReconcileSample imports Reconcile RelaySample
begin

text \<open>
  The reconciliation at a concrete input: the writer lane's journal of the relay's sample run, in a window that
  holds its call.
\<close>

definition sample_journal :: journal where
  "sample_journal = map (\<lambda>e. (20, Some (JObj (event_row e)))) (filter (\<lambda>e. event_lane e = ''writer'') (y_rows sample_relay))"

lemma sample_lane_journal: "lane_journal ''writer'' (y_rows sample_relay) sample_journal"
  by (simp add: lane_journal_def sample_journal_def list_all_iff)

lemma sample_ids: "map event_rid (y_rows sample_relay) = [''r1'', ''r1'']"
  unfolding sample_relay_def sample_served by code_simp

lemma sample_calls: "map (\<lambda>p. (fst p, lc_usd (snd p))) (lane_calls sample_journal 0 21 [''m'']) = [(''r1'', ''0.25'')]"
  unfolding sample_journal_def sample_relay_def sample_served by code_simp


end
