(* ===== verification/Metering.thy ===== *)
theory Metering imports Reconcile
begin

text \<open>
  Metering and attribution (\<open>unify/memory/metering.py\<close>): the exact split of a pass's money over the entries
  it read, the per-entry and per-item views and their totals, one lane's spend from its journal, the fork lane's
  spend per episode and the whole run's headline. Money is decimals and their texts; a decimal operation the
  code's context refuses is \<open>None\<close>.

  The rows of files are JSON objects. The lists a row of the ledger or of a pass carries are the lists the
  program writes (of strings). What the evidence store's query returns for an item is an argument.
\<close>

section \<open>Dividing money\<close>

text \<open>\<open>d / n\<close> for an amount that is not negative and a positive count: 28 digits, a sticky last digit
  before the rounding, and no zeros past the exponent of \<open>d\<close> when the division is exact.\<close>

definition dec_div :: "decimal \<Rightarrow> nat \<Rightarrow> decimal" where
  "dec_div d n = (case d of Dec c e \<Rightarrow>
     if c = 0 then Dec 0 e
     else (let shift = int (ndigits n) - int (ndigits (nat c)) + int PREC + 1;
               a = nat c * 10 ^ nat shift; b = n * 10 ^ nat (- shift); q = a div b in
           if a mod b = 0 then dec_round (drop_zeros (nat shift) (int q) (e - shift))
           else dec_round (Dec (int (if q mod 5 = 0 then q + 1 else q)) (e - shift))))"

definition QUANTUM_EXP :: int where "QUANTUM_EXP = - 12"

text \<open>\<open>quantize(QUANTUM, ROUND_DOWN)\<close>, which refuses a result of more than 28 digits.\<close>

definition quantize_down :: "decimal \<Rightarrow> decimal option" where
  "quantize_down d = (case d of Dec c e \<Rightarrow>
     (let q = (if QUANTUM_EXP \<le> e then c * 10 ^ nat (e - QUANTUM_EXP) else c div 10 ^ nat (QUANTUM_EXP - e)) in
      if PREC < ndigits (nat \<bar>q\<bar>) then None else Some (Dec q QUANTUM_EXP)))"

definition split_equal :: "decimal \<Rightarrow> nat \<Rightarrow> decimal list option" where
  "split_equal amount n =
    (if n = 0 then Some []
     else (case quantize_down (dec_div amount n) of
        None \<Rightarrow> None
      | Some base \<Rightarrow> Some (replicate (n - 1) base @ [dec_sub amount (dec_times base (int (n - 1)))])))"

definition rstrip_char :: "char \<Rightarrow> string \<Rightarrow> string" where
  "rstrip_char c s = rev (dropWhile (\<lambda>x. x = c) (rev s))"

definition usd :: "decimal \<Rightarrow> string" where
  "usd d = (let s = plain_text d in
     if CHR ''.'' \<in> set s
     then (let t = rstrip_char (CHR ''.'') (rstrip_char (CHR ''0'') s) in if t = [] then ''0'' else t)
     else s)"

section \<open>The per-pass row\<close>

record pass_entries =
  px_handed :: "string list"
  px_taken :: "string list"
  px_read :: "string list"
  px_closed :: "string list"
  px_returned :: "string list"

definition pass_rows :: "jrow list \<Rightarrow> string \<Rightarrow> (string \<times> jrow) list" where
  "pass_rows rows pid = List.map_filter (\<lambda>r. case jget r ''entry'' of
     JStr e \<Rightarrow> if jget r ''pass_id'' = JStr pid then Some (e, r) else None | _ \<Rightarrow> None) rows"

definition with_op :: "(jrow \<Rightarrow> bool) \<Rightarrow> (string \<times> jrow) list \<Rightarrow> string list" where
  "with_op P es = map fst (filter (\<lambda>p. P (snd p)) es)"

definition pass_entries_of :: "jrow list \<Rightarrow> string \<Rightarrow> string list \<Rightarrow> string list \<Rightarrow> pass_entries" where
  "pass_entries_of rows pid read back =
    (let es = pass_rows rows pid; op = (\<lambda>r k. jget r ''op'' = JStr k) in
     \<lparr>px_handed = dedup (with_op (\<lambda>r. op r ''hand'' \<and> jget r ''by'' \<noteq> JStr ''take'') es),
      px_taken = dedup (with_op (\<lambda>r. op r ''hand'' \<and> jget r ''by'' = JStr ''take'') es),
      px_read = dedup (with_op (\<lambda>r. op r ''read'') es @ read),
      px_closed = dedup (with_op (\<lambda>r. op r ''close'') es),
      px_returned = dedup (with_op (\<lambda>r. op r ''return'' \<or> op r ''unreadable'') es @ back)\<rparr>)"

record pass_items =
  pi_landed :: "string list"
  pi_changed :: "string list"
  pi_retired :: "string list"
  pi_superseded :: "string list"

definition set_default :: "string \<Rightarrow> 'v \<Rightarrow> (string \<times> 'v) list \<Rightarrow> (string \<times> 'v) list" where
  "set_default k v d = (if map_of d k = None then d @ [(k, v)] else d)"

definition decided_items :: "jrow list \<Rightarrow> string \<Rightarrow> (string \<times> string) list" where
  "decided_items rows pid = foldl (\<lambda>d r. if jget r ''pass_id'' = JStr pid \<and> jget r ''op'' = JStr ''close''
     then foldl (\<lambda>d i. set_default i (str_of (jget r ''decision'')) d) d (str_items (jget r ''items'')) else d) [] rows"

definition pool_superseded :: "json \<Rightarrow> string list" where
  "pool_superseded pool = (case pool of
     JObj p \<Rightarrow> (case jget p ''changed'' of
        JArr cs \<Rightarrow> List.map_filter (\<lambda>c. case c of
           JObj r \<Rightarrow> if jget r ''status'' = JStr ''superseded'' then as_str (jget r ''id'') else None | _ \<Rightarrow> None) cs
      | _ \<Rightarrow> [])
   | _ \<Rightarrow> [])"

definition pass_items_of :: "jrow list \<Rightarrow> string \<Rightarrow> string list \<Rightarrow> json \<Rightarrow> pass_items" where
  "pass_items_of rows pid merged pool =
    (let d = decided_items rows pid in
     \<lparr>pi_landed = sorted_set (filter (\<lambda>i. map_of d i \<in> {None, Some ''new_item''}) merged),
      pi_changed = sorted_set (filter (\<lambda>i. map_of d i \<in> {Some ''changed_item'', Some ''merged_into''}) merged),
      pi_retired = sorted_set (map fst (filter (\<lambda>p. snd p = ''retire'') d)),
      pi_superseded = sorted_set (pool_superseded pool)\<rparr>)"

text \<open>The messages a pass's agents sent, and the entries of the run record they were given, from the rows of the
  record and of its delivery log.\<close>

record pass_messages =
  pm_sent :: nat
  pm_received :: nat

definition pass_messages_of :: "jrow list \<Rightarrow> jrow list \<Rightarrow> string \<Rightarrow> pass_messages" where
  "pass_messages_of entries deliveries pid =
    \<lparr>pm_sent = length (filter (\<lambda>e. jget e ''pass_id'' = JStr pid \<and>
        jget e ''kind'' \<in> {JStr ''post'', JStr ''reply''} \<and> jget e ''role'' \<in> {JStr ''writer'', JStr ''helper''}) entries),
     pm_received = sum_list (map (\<lambda>d. case jget d ''seqs'' of JArr ss \<Rightarrow> length ss | _ \<Rightarrow> 0)
        (filter (\<lambda>d. jget d ''pass_id'' = JStr pid) deliveries))\<rparr>"

section \<open>The per-entry view\<close>

record entry_share =
  es_entry :: "string option"
  es_pass :: json
  es_share :: string
  es_basis :: string

definition as_row :: "json \<Rightarrow> jrow" where
  "as_row v = (case v of JObj r \<Rightarrow> r | _ \<Rightarrow> [])"

definition metered :: "jrow \<Rightarrow> bool" where
  "metered r \<longleftrightarrow> (case (jget r ''entries'', jget r ''usd'') of (JObj a, JObj b) \<Rightarrow> True | _ \<Rightarrow> False)"

definition known_usd :: "jrow \<Rightarrow> decimal option" where
  "known_usd p = charge_of (jget (as_row (jget p ''usd'')) ''known'')"

definition read_entries_of :: "jrow \<Rightarrow> string list" where
  "read_entries_of p = str_items (jget (as_row (jget p ''entries'')) ''read'')"

definition owed_entries :: "jrow \<Rightarrow> string list" where
  "owed_entries p = (let ent = as_row (jget p ''entries'') in
     dedup (str_items (jget ent ''handed'') @ str_items (jget ent ''taken'')))"

definition READ_SPLIT :: string where "READ_SPLIT = ''read_equal_split''"
definition NOT_READ :: string where "NOT_READ = ''handed_not_read''"

definition pass_view :: "jrow \<Rightarrow> entry_share list option" where
  "pass_view p =
    (let pid = jget p ''pass_id''; read = read_entries_of p; paid = known_usd p;
         unread = filter (\<lambda>e. e \<notin> set read) (owed_entries p)
     in case (case paid of None \<Rightarrow> Some (replicate (length read) UNKNOWN)
              | Some t \<Rightarrow> map_option (map usd) (split_equal t (length read))) of
          None \<Rightarrow> None
        | Some shares \<Rightarrow> Some (
            map (\<lambda>(e, s). \<lparr>es_entry = Some e, es_pass = pid, es_share = s, es_basis = READ_SPLIT\<rparr>) (zip read shares) @
            map (\<lambda>e. \<lparr>es_entry = Some e, es_pass = pid, es_share = ''0'', es_basis = NOT_READ\<rparr>) unread @
            (if read = [] then [\<lparr>es_entry = None, es_pass = pid,
               es_share = (case paid of Some t \<Rightarrow> usd t | None \<Rightarrow> UNKNOWN), es_basis = NOT_READ\<rparr>] else [])))"

fun concat_all :: "'a list option list \<Rightarrow> 'a list option" where
  "concat_all [] = Some []"
| "concat_all (x # xs) = (case x of None \<Rightarrow> None | Some a \<Rightarrow> map_option (\<lambda>b. a @ b) (concat_all xs))"

definition entries_view :: "jrow list \<Rightarrow> entry_share list option" where
  "entries_view passes = concat_all (map pass_view passes)"

section \<open>The per-item view\<close>

definition closures :: "jrow list \<Rightarrow> (string \<times> string list) list" where
  "closures rows = foldl (\<lambda>d r. case jget r ''entry'' of
     JStr e \<Rightarrow> if jget r ''op'' = JStr ''close'' then dict_put e (str_items (jget r ''items'')) d else d | _ \<Rightarrow> d) [] rows"

text \<open>The shares of the items and the items with an unknown share.\<close>

type_synonym item_shares = "(string \<times> decimal) list \<times> string list"

definition add_part :: "(string \<times> decimal) list \<Rightarrow> string \<times> decimal \<Rightarrow> (string \<times> decimal) list" where
  "add_part d p = dict_put (fst p) (dec_add (dict_get d (fst p) dec_zero) (snd p)) d"

definition share_step :: "(string \<times> string list) list \<Rightarrow> item_shares option \<Rightarrow> entry_share \<Rightarrow> item_shares option" where
  "share_step closes acc row = (case acc of None \<Rightarrow> None
     | Some (shares, lost) \<Rightarrow>
         (case es_entry row of None \<Rightarrow> Some (shares, lost)
          | Some e \<Rightarrow>
              (let named = dict_get closes e [] in
               if es_basis row \<noteq> READ_SPLIT \<or> named = [] then Some (shares, lost)
               else (case charge_of (JStr (es_share row)) of
                  None \<Rightarrow> Some (shares, lost @ named)
                | Some s \<Rightarrow> (case split_equal s (length named) of
                     None \<Rightarrow> None
                   | Some parts \<Rightarrow> Some (foldl add_part shares (zip named parts), lost))))))"

definition shares_of :: "(string \<times> string list) list \<Rightarrow> entry_share list \<Rightarrow> item_shares option" where
  "shares_of closes entries = foldl (share_step closes) (Some ([], [])) entries"

definition first_seqs :: "(string \<times> string list) list \<Rightarrow> jrow list \<Rightarrow> (string \<times> json) list" where
  "first_seqs closes passes = foldl (\<lambda>d p.
     foldl (\<lambda>d e. foldl (\<lambda>d i. set_default i (jget p ''episodes_seq_at_end'') d) d (dict_get closes e []))
       d (str_items (jget (as_row (jget p ''entries'')) ''closed''))) [] passes"

record item_row =
  im_item :: string
  im_usd :: string
  im_calls :: "(int \<times> int) option"
  im_solves :: "int option"
  im_per_solve :: "string option"

definition item_row_of :: "item_shares \<Rightarrow> (string \<times> json) list \<Rightarrow> (string \<Rightarrow> json \<Rightarrow> (int \<times> int) option) \<Rightarrow>
    (string \<times> int) list option \<Rightarrow> string \<Rightarrow> item_row" where
  "item_row_of sh seqs later solves i = (case sh of (shares, lost) \<Rightarrow>
     (let spent = (if i \<in> set lost then None else Some (dict_get shares i dec_zero));
          solved = map_option (\<lambda>s. dict_get s i 0) solves
      in \<lparr>im_item = i, im_usd = (case spent of Some s \<Rightarrow> usd s | None \<Rightarrow> UNKNOWN),
          im_calls = (case dict_get seqs i JNull of JNull \<Rightarrow> None | s \<Rightarrow> later i s), im_solves = solved,
          im_per_solve = (case solved of None \<Rightarrow> None
            | Some k \<Rightarrow> Some (if k = 0 then ''no solve''
                else (case spent of Some s \<Rightarrow> usd (dec_div s (nat k)) | None \<Rightarrow> UNKNOWN)))\<rparr>))"

definition items_view :: "jrow list \<Rightarrow> (string \<Rightarrow> json \<Rightarrow> (int \<times> int) option) \<Rightarrow> (string \<times> int) list option \<Rightarrow>
    jrow list \<Rightarrow> entry_share list \<Rightarrow> item_row list option" where
  "items_view ledger later solves passes entries =
    (let closes = closures ledger in
     case shares_of closes entries of None \<Rightarrow> None
     | Some sh \<Rightarrow> Some (map (item_row_of sh (first_seqs closes passes) later solves)
         (sorted_set (map fst (fst sh) @ snd sh))))"

section \<open>The totals\<close>

definition amount_or_0 :: "json \<Rightarrow> decimal" where
  "amount_or_0 v = (case charge_of v of None \<Rightarrow> dec_zero | Some d \<Rightarrow> if dec_val d = 0 then dec_zero else d)"

definition dec_max0 :: "decimal \<Rightarrow> decimal" where
  "dec_max0 d = (if dec_le d dec_zero then dec_zero else d)"

definition count_or_0 :: "json \<Rightarrow> int option" where
  "count_or_0 v = (if falsy v then Some 0 else int_value v)"

fun sum_counts :: "int option list \<Rightarrow> int option" where
  "sum_counts [] = Some 0"
| "sum_counts (x # xs) = (case (x, sum_counts xs) of (Some a, Some b) \<Rightarrow> Some (a + b) | _ \<Rightarrow> None)"

record totals =
  to_passes :: nat
  to_unknown_passes :: nat
  to_known :: decimal
  to_entries :: decimal
  to_items :: decimal
  to_no_yield :: decimal
  to_not_read :: nat
  to_not_read_usd :: decimal
  to_unknown_calls :: int
  to_booked :: decimal
  to_killed :: int

definition summary :: "jrow list \<Rightarrow> entry_share list \<Rightarrow> item_row list \<Rightarrow> totals option" where
  "summary passes entries listed =
    (let known = map known_usd passes; paid = dec_sum (List.map_filter id known);
         waste = filter (\<lambda>r. es_basis r = NOT_READ) entries;
         ent = dec_sum (map (\<lambda>r. amount_or_0 (JStr (es_share r))) (filter (\<lambda>r. es_share r \<noteq> UNKNOWN) entries));
         it = dec_sum (map (\<lambda>r. amount_or_0 (JStr (im_usd r))) (filter (\<lambda>r. im_usd r \<noteq> UNKNOWN) listed));
         field = (\<lambda>p k. jget (as_row (jget p ''usd'')) k)
     in case (sum_counts (map (\<lambda>p. count_or_0 (field p ''unknown_calls'')) passes),
              sum_counts (map (\<lambda>p. count_or_0 (field p ''killed_turns'')) passes)) of
          (Some u, Some k) \<Rightarrow> Some
            \<lparr>to_passes = length passes, to_unknown_passes = length (filter (\<lambda>x. x = None) known), to_known = paid,
             to_entries = ent, to_items = it, to_no_yield = dec_max0 (dec_sub paid it),
             to_not_read = length (filter (\<lambda>r. es_entry r \<notin> {None, Some []}) waste),
             to_not_read_usd = dec_sum (map (\<lambda>r. amount_or_0 (JStr (es_share r))) waste),
             to_unknown_calls = u,
             to_booked = dec_sum (map (\<lambda>p. amount_or_0 (field p ''worst_case_booked'')) passes), to_killed = k\<rparr>
        | _ \<Rightarrow> None)"

section \<open>A lane's spend and the headline\<close>

definition charge_step :: "(string \<times> decimal option) list \<Rightarrow> jrow \<Rightarrow> (string \<times> decimal option) list" where
  "charge_step last_of row = (case call_id row of None \<Rightarrow> last_of
     | Some rid \<Rightarrow>
         (let d = set_default rid None last_of in
          case charge_of (jget row ''account_charge'') of None \<Rightarrow> d | Some c \<Rightarrow> dict_put rid (Some c) d))"

definition last_charges :: "jrow list \<Rightarrow> (string \<times> decimal option) list" where
  "last_charges rows = foldl charge_step [] rows"

record lane_total =
  lt_lane :: string
  lt_requests :: nat
  lt_known :: decimal
  lt_unknown :: nat
  lt_worst :: decimal

definition booked_usd :: "lane_total \<Rightarrow> decimal" where
  "booked_usd t = dec_add (lt_known t) (dec_times (lt_worst t) (int (lt_unknown t)))"

definition lane_total_of :: "string \<Rightarrow> jrow list \<Rightarrow> decimal \<Rightarrow> lane_total" where
  "lane_total_of lane rows worst =
    (let d = map snd (last_charges rows) in
     \<lparr>lt_lane = lane, lt_requests = length d, lt_known = dec_sum (List.map_filter id d),
      lt_unknown = length (filter (\<lambda>x. x = None) d), lt_worst = worst\<rparr>)"

definition fork_episode :: "jrow \<Rightarrow> string option" where
  "fork_episode row = (let meta = as_row (jget row ''unify_meta'') in
     case jget meta ''episode'' of
       JStr (c # s) \<Rightarrow> Some (c # s)
     | _ \<Rightarrow> (case jget meta ''session'' of
          JStr s \<Rightarrow> (if starts_with ''fork.'' s \<and> drop 5 s \<noteq> [] then Some (drop 5 s) else None) | _ \<Rightarrow> None))"

definition fork_owners :: "jrow list \<Rightarrow> (string \<times> string) list" where
  "fork_owners rows = foldl (\<lambda>d row. case (call_id row, fork_episode row) of
     (Some rid, Some ep) \<Rightarrow> set_default rid ep d | _ \<Rightarrow> d) [] rows"

record episode_spend =
  ep_requests :: nat
  ep_known :: decimal
  ep_unknown :: nat

definition fork_step :: "(string \<times> string) list \<Rightarrow> (string \<times> episode_spend) list \<Rightarrow> string \<times> decimal option \<Rightarrow>
    (string \<times> episode_spend) list" where
  "fork_step owners d rc = (case rc of (rid, charge) \<Rightarrow>
     (let ep = dict_get owners rid UNKNOWN;
          cur = dict_get d ep \<lparr>ep_requests = 0, ep_known = dec_zero, ep_unknown = 0\<rparr>
      in dict_put ep \<lparr>ep_requests = ep_requests cur + 1,
           ep_known = (case charge of Some c \<Rightarrow> dec_add (ep_known cur) c | None \<Rightarrow> ep_known cur),
           ep_unknown = (case charge of Some c \<Rightarrow> ep_unknown cur | None \<Rightarrow> ep_unknown cur + 1)\<rparr> d))"

definition fork_by_episode :: "jrow list \<Rightarrow> (string \<times> episode_spend) list" where
  "fork_by_episode rows = foldl (fork_step (fork_owners rows)) [] (last_charges rows)"

text \<open>The writer's spend after the last instance: its passes that started later, and their known USD.\<close>

definition post_step :: "(json \<Rightarrow> string option) \<Rightarrow> string \<Rightarrow> decimal \<times> nat \<Rightarrow> jrow \<Rightarrow> decimal \<times> nat" where
  "post_step started ended acc p = (case (acc, started (jget p ''pass_id'')) of
       ((post, n), Some s) \<Rightarrow>
         (if jget p ''kind'' = JStr ''attention'' \<and> ended < s
          then (dec_add post (amount_or_0 (jget (as_row (jget p ''usd'')) ''known'')), n + 1) else (post, n))
     | (_, None) \<Rightarrow> acc)"

definition post_stream :: "(json \<Rightarrow> string option) \<Rightarrow> string option \<Rightarrow> jrow list \<Rightarrow> decimal \<times> nat" where
  "post_stream started ended rows = (case ended of
     Some (c # s) \<Rightarrow> foldl (post_step started (c # s)) (dec_zero, 0) rows | _ \<Rightarrow> (dec_zero, 0))"

definition METER_LANES :: "string list" where
  "METER_LANES = [''actor'', ''writer'', ''fork'', ''helper'', ''embed'', ''user_simulator'']"

datatype report_error = Bad_Instances | No_Worst_Case "string list" | Unknown_Lane string

record headline =
  hd_usd :: decimal
  hd_lower_bound :: bool
  hd_known :: decimal
  hd_unknown :: nat
  hd_per_instance :: decimal
  hd_lanes :: "lane_total list"

definition run_headline :: "(string \<times> jrow list) list \<Rightarrow> int \<Rightarrow> (string \<times> decimal) list \<Rightarrow> report_error + headline" where
  "run_headline journals instances worst =
    (let missing = sorted_set (filter (\<lambda>l. map_of worst l = None) (keys_of journals)) in
     if instances \<le> 0 then Inl Bad_Instances
     else if missing \<noteq> [] then Inl (No_Worst_Case missing)
     else (case find (\<lambda>l. l \<notin> set METER_LANES) (keys_of journals) of
        Some l \<Rightarrow> Inl (Unknown_Lane l)
      | None \<Rightarrow>
          (let lanes = map (\<lambda>(l, rows). lane_total_of l rows (dict_get worst l dec_zero)) journals;
               booked = dec_sum (map booked_usd lanes); n = sum_list (map lt_unknown lanes)
           in Inr \<lparr>hd_usd = booked, hd_lower_bound = (n \<noteq> 0), hd_known = dec_sum (map lt_known lanes), hd_unknown = n,
                hd_per_instance = dec_div booked (nat instances), hd_lanes = lanes\<rparr>)))"

end
