(* ===== verification/MeteringMoney.thy ===== *)
theory MeteringMoney imports Metering
begin

text \<open>
  The arithmetic of the books: over amounts of fewer than 27 digits on a grid of powers of ten
  (\<open>amount_ok\<close>) a sum, a difference and a multiple round nothing; a quotient is off by one part in
  \<open>10 ^ 27\<close> at most (\<open>dec_div_near\<close>); an equal split loses nothing (\<open>split_parts\<close>); the text of an
  amount reads back as the amount (\<open>usd_reads_back\<close>).
\<close>

section \<open>Sums that round nothing\<close>

lemma dec_val_sign: "0 \<le> dec_val (Dec c e) \<longleftrightarrow> 0 \<le> c"
  using nonneg_val [of "Dec c e"] by (simp add: nonneg_def)

lemma on_grid_finer: "u \<le> v \<Longrightarrow> on_grid v x \<Longrightarrow> on_grid u x"
  unfolding on_grid_def using powi_split [of u v]
  by (metis (no_types, opaque_lifting) mult.assoc of_int_mult of_int_numeral of_int_power)

text \<open>An amount of money on the grid \<open>10 powi u\<close>: not negative, and fewer than \<open>10 ^ 27\<close> units.\<close>

definition amount_ok :: "int \<Rightarrow> rat \<Rightarrow> bool" where
  "amount_ok u x \<longleftrightarrow> 0 \<le> x \<and> on_grid u x \<and> x < 10 ^ 27 * 10 powi u"

lemma amount_ok_0 [simp]: "amount_ok u 0"
  by (simp add: amount_ok_def)

lemma amount_ok_range: "amount_ok u x \<Longrightarrow> in_range u x"
proof -
  assume a: "amount_ok u x"
  have "(10::rat) ^ 27 * 10 powi u \<le> 10 ^ 28 * 10 powi u" by (intro mult_right_mono) simp_all
  then show ?thesis using a by (simp add: amount_ok_def in_range_def PREC_def)
qed

lemma amount_ok_less: "amount_ok u x \<Longrightarrow> 0 \<le> y \<Longrightarrow> y \<le> x \<Longrightarrow> on_grid u y \<Longrightarrow> amount_ok u y"
  by (simp add: amount_ok_def)

lemma dec_add_amount:
  "amount_ok u (dec_val a + dec_val b) \<Longrightarrow> dec_val (dec_add a b) = dec_val a + dec_val b"
  using amount_ok_range by (intro dec_val_add) (auto simp: amount_ok_def)

lemma dec_sub_amount:
  "amount_ok u (dec_val a - dec_val b) \<Longrightarrow> dec_val (dec_sub a b) = dec_val a - dec_val b"
  using amount_ok_range by (intro dec_val_sub) (auto simp: amount_ok_def)

lemma dec_times_amount:
  assumes "amount_ok u (dec_val d * of_int n)"
  shows "dec_val (dec_times d n) = dec_val d * of_int n"
proof -
  obtain c e where d: "d = Dec c e" by (cases d)
  have v: "dec_val (Dec (c * n) e) = dec_val d * of_int n" by (simp add: d dec_val_Dec)
  then have "dec_val (dec_round (Dec (c * n) e)) = dec_val (Dec (c * n) e)"
    using assms amount_ok_range [OF assms] by (intro dec_round_exact) (simp_all add: amount_ok_def)
  then show ?thesis using v d by simp
qed

lemma dec_sum_from:
  assumes "amount_ok u (dec_val s + sum_list (map dec_val ds))" "on_grid u (dec_val s)" "0 \<le> dec_val s"
    "\<forall>d\<in>set ds. 0 \<le> dec_val d \<and> on_grid u (dec_val d)"
  shows "dec_val (foldl dec_add s ds) = dec_val s + sum_list (map dec_val ds)"
  using assms
proof (induction ds arbitrary: s)
  case (Cons d ds)
  have n: "0 \<le> sum_list (map dec_val ds)" using Cons.prems(4) by (intro sum_list_nonneg) auto
  have "amount_ok u (dec_val s + dec_val d)"
    using Cons.prems n by (intro amount_ok_less [OF Cons.prems(1)]) (auto intro: on_grid_add)
  then have a: "dec_val (dec_add s d) = dec_val s + dec_val d" by (rule dec_add_amount)
  show ?case using Cons.IH [of "dec_add s d"] Cons.prems a on_grid_add by (simp add: add.assoc)
qed simp

lemma dec_sum_exact:
  "amount_ok u (sum_list (map dec_val ds)) \<Longrightarrow> \<forall>d\<in>set ds. 0 \<le> dec_val d \<and> on_grid u (dec_val d) \<Longrightarrow>
   dec_val (dec_sum ds) = sum_list (map dec_val ds)"
  unfolding dec_sum_def using dec_sum_from [of u dec_zero ds] by simp

section \<open>Division\<close>

lemma ndigits_lower: "0 < n \<Longrightarrow> 10 ^ (ndigits n - 1) \<le> n"
proof (induction n rule: ndigits.induct)
  case (1 n)
  show ?case
  proof (cases "n < 10")
    case False
    then have "10 ^ (ndigits (n div 10) - 1) \<le> n div 10" using 1 by simp
    then have "10 ^ (ndigits (n div 10) - 1) * 10 \<le> n div 10 * 10" by simp
    also have "\<dots> \<le> n" by simp
    finally have "(10::nat) ^ Suc (ndigits (n div 10) - 1) \<le> n" by (simp add: mult.commute)
    moreover have "0 < ndigits (n div 10)" by (subst ndigits.simps) simp
    ultimately show ?thesis using False by (simp add: ndigits.simps [of n])
  qed (use 1 in \<open>simp add: ndigits.simps [of n]\<close>)
qed

lemma ndigits_pos [simp]: "0 < ndigits n"
  by (subst ndigits.simps) simp

lemma ndigits_upper: "n < 10 ^ ndigits n"
proof (induction n rule: ndigits.induct)
  case (1 n)
  show ?case
  proof (cases "n < 10")
    case False
    then have "n div 10 < 10 ^ ndigits (n div 10)" using 1 by simp
    then have "n div 10 + 1 \<le> 10 ^ ndigits (n div 10)" by simp
    then have "(n div 10 + 1) * 10 \<le> 10 ^ ndigits (n div 10) * 10" by simp
    then show ?thesis using False by (simp add: ndigits.simps [of n])
  qed (simp add: ndigits.simps [of n])
qed

lemma half_even_upper: "2 * (half_even n k * 10 ^ k) \<le> 2 * n + 10 ^ k"
proof -
  define q r p where "q = n div 10 ^ k" "r = n mod 10 ^ k" "p = (10::nat) ^ k"
  have n: "n = q * p + r" unfolding q_r_p_def by (rule div_mult_mod_eq [symmetric])
  have r: "r < p" by (simp add: q_r_p_def)
  have "half_even n k = (if 2 * r < p then q else if 2 * r > p then Suc q else if even q then q else Suc q)"
    by (simp add: half_even_def q_r_p_def Let_def)
  then have "half_even n k = q \<or> (p \<le> 2 * r \<and> half_even n k = Suc q)" by (simp split: if_splits)
  then have "2 * (half_even n k * p) \<le> 2 * n + p" using n by (elim disjE) simp_all
  then show ?thesis by (simp only: q_r_p_def(3))
qed

lemma half_even_lower: "2 * n \<le> 2 * (half_even n k * 10 ^ k) + 10 ^ k"
proof -
  define q r p where "q = n div 10 ^ k" "r = n mod 10 ^ k" "p = (10::nat) ^ k"
  have n: "n = q * p + r" unfolding q_r_p_def by (rule div_mult_mod_eq [symmetric])
  have r: "r < p" by (simp add: q_r_p_def)
  have "half_even n k = (if 2 * r < p then q else if 2 * r > p then Suc q else if even q then q else Suc q)"
    by (simp add: half_even_def q_r_p_def Let_def)
  then have "(half_even n k = q \<and> 2 * r \<le> p) \<or> half_even n k = Suc q" by (simp split: if_splits)
  then have "2 * n \<le> 2 * (half_even n k * p) + p" using n r by (elim disjE) simp_all
  then show ?thesis by (simp only: q_r_p_def(3))
qed

lemma nat_near:
  assumes "2 * x \<le> 2 * y + p" "2 * y \<le> 2 * x + (p :: nat)"
  shows "\<bar>of_nat x - of_nat y\<bar> \<le> (of_nat p / 2 :: rat)"
proof -
  have "of_nat (2 * x) \<le> (of_nat (2 * y + p) :: rat)" "of_nat (2 * y) \<le> (of_nat (2 * x + p) :: rat)"
    using assms by (simp_all only: of_nat_le_iff)
  then have "2 * of_nat x \<le> 2 * of_nat y + (of_nat p :: rat)" "2 * of_nat y \<le> 2 * of_nat x + (of_nat p :: rat)"
    by (simp_all only: of_nat_add of_nat_mult of_nat_numeral)
  then show ?thesis by linarith
qed

lemma half_part: "10 ^ 27 * p \<le> (x :: rat) \<Longrightarrow> p / 2 \<le> x / (2 * 10 ^ 27)"
  by simp

lemma near_scaled:
  assumes "\<bar>x - y\<bar> \<le> z" "0 < (w :: rat)" shows "\<bar>x * w - y * w\<bar> \<le> z * w"
proof -
  have "\<bar>x - y\<bar> * w \<le> z * w" using assms by (intro mult_right_mono) simp_all
  then show ?thesis using assms(2) by (simp only: left_diff_distrib [symmetric] abs_mult abs_of_pos)
qed

text \<open>Rounding to 28 digits moves a value by at most one part in \<open>2 * 10 ^ 27\<close>.\<close>

lemma dec_round_near:
  assumes "0 \<le> c"
  shows "\<bar>dec_val (dec_round (Dec c e)) - dec_val (Dec c e)\<bar> \<le> dec_val (Dec c e) / (2 * 10 ^ 27)"
proof -
  define n where "n = nat c"
  define k where "k = ndigits n - PREC"
  define h where "h = half_even n k"
  have c: "c = int n" using assms by (simp add: n_def)
  have v0: "0 \<le> dec_val (Dec c e)" by (simp add: dec_val_Dec c)
  show ?thesis
  proof (cases "k = 0")
    case True
    then have "dec_round (Dec c e) = Dec c e" by (simp add: dec_round_def k_def c)
    then show ?thesis using v0 by simp
  next
    case False
    then have nd: "ndigits n - 1 = 27 + k" and long: "\<not> ndigits n \<le> PREC" by (simp_all add: k_def PREC_def)
    have "n \<noteq> 0" using False by (cases "n = 0") (simp_all add: k_def PREC_def ndigits.simps [of 0])
    then have "10 ^ (ndigits n - 1) \<le> n" by (intro ndigits_lower) simp
    then have "10 ^ (27 + k) \<le> n" unfolding nd .
    then have low: "10 ^ 27 * 10 ^ k \<le> n" by (simp only: power_add)
    have val: "dec_val (dec_round (Dec c e)) = of_nat (h * 10 ^ k) * 10 powi e"
    proof (cases "h = 10 ^ PREC")
      case True
      then have h: "h = h div 10 * 10" by (simp add: PREC_def)
      have "dec_round (Dec c e) = Dec (int (h div 10)) (e + int k + 1)"
        using long False True \<open>n \<noteq> 0\<close> by (simp add: dec_round_def Let_def k_def [symmetric] h_def [symmetric] c)
      then have "dec_val (dec_round (Dec c e)) = of_nat (h div 10 * 10) * 10 ^ k * 10 powi e"
        by (simp add: dec_val_Dec power_int_add)
      then show ?thesis using h by simp
    next
      case hne: False
      have "dec_round (Dec c e) = Dec (int h) (e + int k)"
        using long False hne \<open>n \<noteq> 0\<close> by (simp add: dec_round_def Let_def k_def [symmetric] h_def [symmetric] c)
      then show ?thesis by (simp add: dec_val_Dec power_int_add)
    qed
    have "2 * (h * 10 ^ k) \<le> 2 * n + 10 ^ k" "2 * n \<le> 2 * (h * 10 ^ k) + 10 ^ k"
      unfolding h_def by (rule half_even_upper, rule half_even_lower)
    then have "\<bar>of_nat (h * 10 ^ k) - of_nat n\<bar> \<le> (of_nat (10 ^ k) / 2 :: rat)" by (rule nat_near)
    then have near: "\<bar>of_nat (h * 10 ^ k) - of_nat n\<bar> \<le> (10 ^ k / 2 :: rat)" by (simp only: of_nat_power of_nat_numeral)
    have "of_nat (10 ^ 27 * 10 ^ k) \<le> (of_nat n :: rat)" using low by (simp only: of_nat_le_iff)
    then have "10 ^ 27 * 10 ^ k \<le> (of_nat n :: rat)" by (simp only: of_nat_mult of_nat_power of_nat_numeral)
    then have "10 ^ k / 2 \<le> (of_nat n / (2 * 10 ^ 27) :: rat)" by (rule half_part)
    with near have "\<bar>of_nat (h * 10 ^ k) - of_nat n\<bar> \<le> (of_nat n / (2 * 10 ^ 27) :: rat)" by (rule order_trans)
    then have "\<bar>of_nat (h * 10 ^ k) - of_nat n\<bar> * 10 powi e \<le> of_nat n / (2 * 10 ^ 27) * (10 powi e :: rat)"
      by (rule mult_right_mono) simp
    moreover have "dec_val (Dec c e) = of_nat n * 10 powi e" by (simp add: dec_val_Dec c)
    moreover have "\<bar>of_nat (h * 10 ^ k) * 10 powi e - of_nat n * 10 powi e\<bar> = \<bar>of_nat (h * 10 ^ k) - of_nat n\<bar> * (10 powi e :: rat)"
      by (simp only: left_diff_distrib [symmetric] abs_mult abs_of_pos [OF powi_pos])
    ultimately show ?thesis unfolding val by simp
  qed
qed

lemma dec_round_near_val:
  assumes "0 \<le> dec_val d"
  shows "\<bar>dec_val (dec_round d) - dec_val d\<bar> \<le> dec_val d / (2 * 10 ^ 27)"
proof -
  obtain c e where d: "d = Dec c e" by (cases d)
  then have "0 \<le> c" using assms by (simp add: dec_val_sign)
  then show ?thesis unfolding d by (rule dec_round_near)
qed

lemma sticky_near: "\<bar>of_nat (if a mod b = 0 then a div b else if a div b mod 5 = 0 then a div b + 1 else a div b) -
    of_nat a / of_nat b\<bar> \<le> (1::rat)"
proof (cases "b = 0")
  case False
  have ab: "of_nat a = of_nat (a div b) * of_nat b + (of_nat (a mod b) :: rat)"
    by (metis div_mult_mod_eq of_nat_add of_nat_mult)
  have "of_nat a / of_nat b = of_nat (a div b) + (of_nat (a mod b) / of_nat b :: rat)"
    using False by (simp add: ab field_simps)
  moreover have "0 \<le> (of_nat (a mod b) / of_nat b :: rat)" by simp
  moreover have "(of_nat (a mod b) / of_nat b :: rat) \<le> 1"
    using False by (simp add: divide_le_eq_1 less_imp_le)
  moreover define r where "r = (of_nat (a mod b) / of_nat b :: rat)"
  ultimately have "of_nat a / of_nat b = of_nat (a div b) + r" "0 \<le> r" "r \<le> 1" by simp_all
  moreover have "a mod b = 0 \<Longrightarrow> r = 0" by (simp add: r_def)
  ultimately show ?thesis by auto
qed simp

lemma shift_lengths: "0 < m \<Longrightarrow>
  28 + (n + nat (- (int n - int m + int 28 + 1))) = m - 1 + nat (int n - int m + int 28 + 1)"
  by arith

lemma near_sum:
  assumes "\<bar>v - y\<bar> \<le> y / (2 * 10 ^ 27)" "\<bar>y - x\<bar> \<le> w" "10 ^ 28 * w \<le> (x :: rat)"
  shows "\<bar>v - x\<bar> \<le> x / 10 ^ 27"
proof -
  have "w \<le> x / 10 ^ 28" using assms(3) by simp
  moreover have "y / (2 * 10 ^ 27) \<le> x / (2 * 10 ^ 27) + w / (2 * 10 ^ 27)" using assms(2) by simp
  moreover have "v - y \<le> y / (2 * 10 ^ 27)" "- (v - y) \<le> y / (2 * 10 ^ 27)" "y - x \<le> w" "- (y - x) \<le> w"
    using assms(1,2) by (simp_all only: abs_le_iff)
  ultimately show ?thesis by (intro abs_leI) simp_all
qed

text \<open>A quotient is off by at most one part in \<open>10 ^ 27\<close>.\<close>

lemma dec_div_near:
  assumes "0 \<le> dec_val d" "0 < n"
  shows "\<bar>dec_val (dec_div d n) - dec_val d / of_nat n\<bar> \<le> dec_val d / of_nat n / 10 ^ 27"
proof -
  obtain c e where d: "d = Dec c e" by (cases d)
  show ?thesis
  proof (cases "c = 0")
    case True
    then show ?thesis by (simp add: d dec_div_def dec_val_Dec)
  next
    case False
    define m where "m = nat c"
    have c: "c = int m" "0 < m" using False assms(1) by (auto simp: d dec_val_sign m_def)
    define shift where "shift = int (ndigits n) - int (ndigits m) + int PREC + 1"
    define a where "a = m * 10 ^ nat shift"
    define b where "b = n * 10 ^ nat (- shift)"
    define q where "q = (if a mod b = 0 then a div b else if a div b mod 5 = 0 then a div b + 1 else a div b)"
    define w where "w = (10::rat) powi (e - shift)"
    define x where "x = dec_val d / of_nat n"
    have w0: "0 < w" by (simp add: w_def)
    have b0: "0 < b" using assms(2) by (simp add: b_def)
    have x0: "0 \<le> x" using assms by (simp add: x_def)
    have sh: "(10::rat) ^ nat shift / 10 ^ nat (- shift) = 10 powi shift"
      by (cases "0 \<le> shift") (simp_all add: power_int_def field_simps)
    have quot: "of_nat a / of_nat b * w = x"
    proof -
      have "of_nat a / of_nat b * w = of_nat m / of_nat n * (10 ^ nat shift / 10 ^ nat (- shift)) * w"
        by (simp add: a_def b_def)
      also have "\<dots> = of_nat m / of_nat n * 10 powi e" unfolding sh w_def by (simp add: power_int_diff)
      finally show ?thesis by (simp add: x_def d c dec_val_Dec)
    qed
    have big: "10 ^ 28 * b \<le> a"
    proof -
      have "10 ^ (ndigits m - 1) \<le> m" "n < 10 ^ ndigits n" by (rule ndigits_lower [OF c(2)], rule ndigits_upper)
      then have a: "10 ^ (ndigits m - 1) * 10 ^ nat shift \<le> a" and b: "b \<le> 10 ^ ndigits n * 10 ^ nat (- shift)"
        unfolding a_def b_def by simp_all
      have eq: "(10::nat) ^ 28 * (10 ^ ndigits n * 10 ^ nat (- shift)) = 10 ^ (ndigits m - 1) * 10 ^ nat shift"
        unfolding power_add [symmetric] shift_def PREC_def
        by (intro arg_cong [where f = "(^) 10"] shift_lengths ndigits_pos)
      from b have "10 ^ 28 * b \<le> 10 ^ 28 * (10 ^ ndigits n * 10 ^ nat (- shift))" by (rule mult_le_mono2)
      then show ?thesis unfolding eq using a by (rule le_trans)
    qed
    have val: "dec_div d n = dec_round (if a mod b = 0 then drop_zeros (nat shift) (int q) (e - shift) else Dec (int q) (e - shift))"
      using False by (simp add: d dec_div_def Let_def q_def a_def b_def m_def shift_def)
    let ?r = "if a mod b = 0 then drop_zeros (nat shift) (int q) (e - shift) else Dec (int q) (e - shift)"
    have r: "dec_val ?r = of_nat q * w" by (simp add: dec_val_Dec w_def)
    have "\<bar>of_nat q - of_nat a / of_nat b\<bar> \<le> (1 :: rat)" unfolding q_def by (rule sticky_near)
    from near_scaled [OF this w0] have near: "\<bar>of_nat q * w - x\<bar> \<le> w" unfolding quot by simp
    have "of_nat (10 ^ 28 * b) \<le> (of_nat a :: rat)" using big by (simp only: of_nat_le_iff)
    then have "10 ^ 28 * of_nat b \<le> (of_nat a :: rat)" by (simp only: of_nat_mult of_nat_power of_nat_numeral)
    then have "10 ^ 28 \<le> of_nat a / (of_nat b :: rat)" using b0 by (simp add: field_simps)
    then have "10 ^ 28 * w \<le> of_nat a / of_nat b * w" using w0 by (intro mult_right_mono) simp_all
    then have xw: "10 ^ 28 * w \<le> x" unfolding quot .
    have "\<bar>dec_val (dec_div d n) - of_nat q * w\<bar> \<le> of_nat q * w / (2 * 10 ^ 27)"
      unfolding val r [symmetric] using w0 by (intro dec_round_near_val) (simp add: r)
    then show ?thesis unfolding x_def [symmetric] using near xw by (rule near_sum)
  qed
qed

section \<open>An equal split\<close>

definition quantum :: rat where "quantum = 10 powi QUANTUM_EXP"

definition quanta :: "int \<Rightarrow> int \<Rightarrow> int" where
  "quanta c e = (if QUANTUM_EXP \<le> e then c * 10 ^ nat (e - QUANTUM_EXP) else c div 10 ^ nat (QUANTUM_EXP - e))"

lemma quantum_pos [simp]: "0 < quantum"
  by (simp add: quantum_def)

lemma quanta_floor:
  assumes "0 \<le> c"
  shows "0 \<le> quanta c e \<and> of_int (quanta c e) * quantum \<le> dec_val (Dec c e) \<and>
    dec_val (Dec c e) < of_int (quanta c e) * quantum + quantum"
proof (cases "QUANTUM_EXP \<le> e")
  case True
  then have q: "quanta c e = c * 10 ^ nat (e - QUANTUM_EXP)" by (simp add: quanta_def)
  have "dec_val (Dec c e) = of_int (quanta c e) * quantum"
    unfolding dec_val_shift [OF True] q quantum_def by (rule dec_val_Dec)
  then show ?thesis using assms by (simp add: q)
next
  case False
  define k where "k = nat (QUANTUM_EXP - e)"
  define p where "p = (10::int) ^ k"
  have q: "quanta c e = c div p" using False by (simp add: quanta_def k_def p_def)
  have p0: "0 < p" by (simp add: p_def)
  have u: "quantum = of_int p * 10 powi e"
    using powi_split [of e QUANTUM_EXP] False by (simp add: quantum_def k_def p_def)
  have dm: "c = c div p * p + c mod p" by simp
  have "c div p * p \<le> c" "c < c div p * p + p"
    using dm pos_mod_sign [OF p0, of c] pos_mod_bound [OF p0, of c] by linarith+
  then have "of_int (c div p * p) \<le> (of_int c :: rat)" "of_int c < (of_int (c div p * p + p) :: rat)"
    by (simp_all only: of_int_le_iff of_int_less_iff)
  then have "of_int (c div p * p) * 10 powi e \<le> (of_int c * 10 powi e :: rat)"
    "of_int c * 10 powi e < (of_int (c div p * p + p) * 10 powi e :: rat)"
    by (auto intro: mult_right_mono mult_strict_right_mono)
  then show ?thesis using p0 assms
    by (simp add: q u dec_val_Dec pos_imp_zdiv_nonneg_iff distrib_right mult.assoc)
qed

lemma quantize_down_quanta: "quantize_down (Dec c e) =
    (if PREC < ndigits (nat \<bar>quanta c e\<bar>) then None else Some (Dec (quanta c e) QUANTUM_EXP))"
  by (simp add: quantize_down_def quanta_def Let_def)

lemma dec_val_quanta: "dec_val (Dec k QUANTUM_EXP) = of_int k * quantum"
  by (simp add: dec_val_Dec quantum_def)

text \<open>Rounding down to the quantum, for every amount below ten quadrillion dollars.\<close>

lemma quantize_down_floor:
  assumes "0 \<le> dec_val d" "dec_val d < 10 ^ 16"
  shows "\<exists>b. quantize_down d = Some b \<and> 0 \<le> dec_val b \<and> on_grid QUANTUM_EXP (dec_val b) \<and>
    dec_val b \<le> dec_val d \<and> dec_val d < dec_val b + quantum"
proof -
  obtain c e where d: "d = Dec c e" by (cases d)
  have c: "0 \<le> c" using assms(1) by (simp add: d dec_val_sign)
  note fl = quanta_floor [OF c, of e]
  have e: "10 ^ 28 * quantum = 10 ^ 16" by (simp add: quantum_def QUANTUM_EXP_def power_int_def power_divide)
  have "of_int (quanta c e) * quantum < 10 ^ 16" using fl assms(2) by (simp add: d)
  then have "of_int (quanta c e) * quantum < 10 ^ 28 * quantum" unfolding e .
  then have "of_int (quanta c e) < (10 ^ 28 :: rat)" by (simp only: mult_less_cancel_right_pos quantum_pos)
  then have "of_int (quanta c e) < (of_int (10 ^ 28) :: rat)" by simp
  then have "quanta c e < 10 ^ 28" by (simp only: of_int_less_iff)
  then have "nat \<bar>quanta c e\<bar> < 10 ^ 28" using fl by (simp add: nat_less_iff)
  then have "ndigits (nat \<bar>quanta c e\<bar>) \<le> PREC" unfolding PREC_def by (rule ndigits_le) simp
  then have s: "quantize_down d = Some (Dec (quanta c e) QUANTUM_EXP)" by (simp add: d quantize_down_quanta)
  have g: "on_grid QUANTUM_EXP (of_int (quanta c e) * quantum)" unfolding on_grid_def quantum_def by blast
  have "0 \<le> of_int (quanta c e) * quantum" using fl by (simp add: less_imp_le)
  then show ?thesis using fl g s by (simp add: dec_val_quanta d)
qed

lemma quantum_value: "quantum = 1 / 10 ^ 12"
  by (simp add: quantum_def QUANTUM_EXP_def power_int_def power_divide)

lemma amount_below:
  assumes "amount_ok u x" "u \<le> QUANTUM_EXP" shows "x < 10 ^ 15"
proof -
  have "x < 10 ^ 27 * 10 powi u" using assms(1) by (simp add: amount_ok_def)
  also have "\<dots> \<le> 10 ^ 27 * quantum" unfolding quantum_def
    using assms(2) by (intro mult_left_mono power_int_increasing) simp_all
  finally show ?thesis by (simp add: quantum_value)
qed

text \<open>What a base share is, for a share \<open>v\<close> off the \<open>n\<close>th part by at most one part in \<open>10 ^ 27\<close>.\<close>

lemma base_bounds:
  assumes "0 \<le> (x :: rat)" "x < 10 ^ 15" "\<bar>v - x\<bar> \<le> x / 10 ^ 27" "b \<le> v" "v < b + quantum" "m \<le> 10 ^ 27" "0 \<le> m"
  shows "\<bar>b - x\<bar> < 2 * quantum" "m * b \<le> m * x + x"
proof -
  have v: "v - x \<le> x / 10 ^ 27" "- (v - x) \<le> x / 10 ^ 27" using assms(3) by (simp_all only: abs_le_iff)
  have q: "x / 10 ^ 27 < quantum" using assms(2) by (simp add: quantum_value)
  show "\<bar>b - x\<bar> < 2 * quantum" unfolding abs_less_iff using v q assms(4,5) by (intro conjI) linarith+
  have "m * (x / 10 ^ 27) \<le> 10 ^ 27 * (x / 10 ^ 27)" using assms(1,6) by (intro mult_right_mono) simp_all
  then have "m * (x / 10 ^ 27) \<le> x" by simp
  moreover have "m * b \<le> m * (x + x / 10 ^ 27)" using v(1) assms(4,7) by (intro mult_left_mono) simp_all
  ultimately show "m * b \<le> m * x + x" by (simp add: distrib_left)
qed

text \<open>A split is into a base given to every reader but the last, who takes the rest: the parts are not
  negative, they sum to the amount, and each is the \<open>n\<close>th part to \<open>2 * n\<close> quanta.\<close>

lemma split_parts:
  assumes u: "u \<le> QUANTUM_EXP" and d: "amount_ok u (dec_val d)" and n: "0 < n" "n \<le> 10 ^ 27"
  shows "\<exists>b r. split_equal d n = Some (replicate (n - 1) b @ [r]) \<and>
    sum_list (map dec_val (replicate (n - 1) b @ [r])) = dec_val d \<and>
    (\<forall>p\<in>set (replicate (n - 1) b @ [r]). amount_ok u (dec_val p) \<and>
      \<bar>dec_val p - dec_val d / of_nat n\<bar> < 2 * of_nat n * quantum)"
proof -
  define T x m where "T = dec_val d" and "x = T / of_nat n" and "m = (of_nat (n - 1) :: rat)"
  have T: "0 \<le> T" "T < 10 ^ 15" "on_grid u T" using d amount_below [OF d u] by (simp_all add: T_def amount_ok_def)
  have n1: "(1 :: rat) \<le> of_nat n" using n by simp
  have x: "0 \<le> x" "x \<le> T" using T n1 by (simp_all add: x_def divide_le_eq mult_le_cancel_left1)
  have mx: "m * x + x = T" using n by (simp add: m_def x_def of_nat_diff field_simps)
  have "of_nat (n - 1) \<le> (of_nat (10 ^ 27) :: rat)" using n by (simp only: of_nat_le_iff)
  then have m: "0 \<le> m" "m \<le> 10 ^ 27" by (simp_all add: m_def)
  have v: "\<bar>dec_val (dec_div d n) - x\<bar> \<le> x / 10 ^ 27"
    using dec_div_near [of d n] T(1) n(1) by (simp add: x_def T_def)
  have "x / 10 ^ 27 \<le> x" using x(1) by simp
  with v have "\<bar>dec_val (dec_div d n) - x\<bar> \<le> x" by (rule order_trans)
  then have v16: "0 \<le> dec_val (dec_div d n)" "dec_val (dec_div d n) < 10 ^ 16" using x T(2) by simp_all
  then obtain b where b: "quantize_down (dec_div d n) = Some b" "0 \<le> dec_val b" "on_grid QUANTUM_EXP (dec_val b)"
    "dec_val b \<le> dec_val (dec_div d n)" "dec_val (dec_div d n) < dec_val b + quantum"
    using quantize_down_floor by blast
  have x15: "x < 10 ^ 15" using x(2) T(2) by simp
  note bounds = base_bounds [OF x(1) x15 v b(4,5) m(2,1)]
  have bu: "on_grid u (dec_val b)" using u b(3) by (rule on_grid_finer)
  then obtain k where k: "dec_val b = of_int k * 10 powi u" by (auto simp: on_grid_def)
  have "dec_val b * of_int (int (n - 1)) = of_int (k * int (n - 1)) * 10 powi u" by (simp add: k)
  then have gu: "on_grid u (dec_val b * of_int (int (n - 1)))" unfolding on_grid_def by blast
  have le: "dec_val b * of_int (int (n - 1)) \<le> T" using bounds(2) mx by (simp add: m_def mult.commute)
  have "amount_ok u (dec_val b * of_int (int (n - 1)))"
    using b(2) le gu by (intro amount_ok_less [OF d]) (simp_all add: T_def)
  then have t: "dec_val (dec_times b (int (n - 1))) = dec_val b * of_int (int (n - 1))" by (rule dec_times_amount)
  define r where "r = dec_sub d (dec_times b (int (n - 1)))"
  have "amount_ok u (dec_val d - dec_val (dec_times b (int (n - 1))))"
    using t le gu d b(2) by (intro amount_ok_less [OF d]) (auto simp: T_def intro: on_grid_diff amount_ok_def [THEN iffD1, THEN conjunct2, THEN conjunct1])
  then have r: "dec_val r = dec_val d - dec_val b * of_int (int (n - 1))" "amount_ok u (dec_val r)"
    unfolding r_def t [symmetric] by (simp_all add: dec_sub_amount)
  have one: "amount_ok u (dec_val b) \<and> \<bar>dec_val r - x\<bar> < 2 * of_nat n * quantum \<and> \<bar>dec_val b - x\<bar> < 2 * of_nat n * quantum"
    if "n \<noteq> 1"
  proof -
    have n2: "(2 :: rat) \<le> of_nat n" "1 \<le> m" using that n by (simp_all add: m_def)
    then have "1 * dec_val b \<le> m * dec_val b" using b(2) by (intro mult_right_mono)
    then have "dec_val b \<le> T" using le by (simp add: m_def mult.commute)
    then have "amount_ok u (dec_val b)" using b(2) bu by (intro amount_ok_less [OF d]) (simp_all add: T_def)
    have "dec_val r - x = m * (x - dec_val b)"
      using mx r(1) by (simp add: m_def T_def [symmetric] right_diff_distrib mult.commute left_diff_distrib)
    then have "\<bar>dec_val r - x\<bar> = m * \<bar>dec_val b - x\<bar>" using m(1) by (simp add: abs_mult abs_minus_commute)
    also have "\<dots> \<le> of_nat n * \<bar>dec_val b - x\<bar>" by (intro mult_right_mono) (simp_all add: m_def)
    also have "\<dots> < of_nat n * (2 * quantum)" using bounds(1) n2 by (intro mult_strict_left_mono) simp_all
    finally have "\<bar>dec_val r - x\<bar> < 2 * of_nat n * quantum" by simp
    moreover have "2 * quantum \<le> 2 * of_nat n * quantum" using mult_right_mono [OF n1, of "2 * quantum"] by (simp add: less_imp_le)
    ultimately show ?thesis using bounds(1) \<open>amount_ok u (dec_val b)\<close> less_le_trans by blast
  qed
  have "split_equal d n = Some (replicate (n - 1) b @ [r])" using n b(1) by (simp add: split_equal_def r_def)
  moreover have "\<forall>p\<in>set (replicate (n - 1) b @ [r]). amount_ok u (dec_val p) \<and> \<bar>dec_val p - x\<bar> < 2 * of_nat n * quantum"
  proof (cases "n = 1")
    case True
    then have "dec_val r = x" using r(1) by (simp add: x_def T_def)
    then show ?thesis using True r(2) by simp
  qed (use one r(2) in auto)
  moreover have "sum_list (map dec_val (replicate (n - 1) b @ [r])) = dec_val d"
    using r(1) by (simp add: sum_list_replicate mult.commute)
  ultimately show ?thesis unfolding x_def T_def by blast
qed

text \<open>
  C26. A split loses nothing and is fair. An amount of fewer than 27 digits on a grid at least as fine as the
  quantum, split over any number of readers up to \<open>10 ^ 27\<close>, is split into that many amounts: all but the
  last the same, none negative, each on the grid and the exact part to less than \<open>2 * n\<close> quanta, summing to the
  amount exactly; the decimal operations never refuse.
\<close>

theorem split_equal_conserves:
  assumes "u \<le> QUANTUM_EXP" "amount_ok u (dec_val d)" "0 < n" "n \<le> 10 ^ 27"
  shows "\<exists>b r. split_equal d n = Some (replicate (n - 1) b @ [r]) \<and>
    sum_list (map dec_val (replicate (n - 1) b @ [r])) = dec_val d \<and>
    (\<forall>p\<in>set (replicate (n - 1) b @ [r]). 0 \<le> dec_val p \<and> on_grid u (dec_val p) \<and>
      \<bar>dec_val p - dec_val d / of_nat n\<bar> < 2 * of_nat n * quantum)"
proof -
  obtain b r where "split_equal d n = Some (replicate (n - 1) b @ [r])"
    "sum_list (map dec_val (replicate (n - 1) b @ [r])) = dec_val d"
    "\<forall>p\<in>set (replicate (n - 1) b @ [r]). amount_ok u (dec_val p) \<and> \<bar>dec_val p - dec_val d / of_nat n\<bar> < 2 * of_nat n * quantum"
    using split_parts [OF assms] by blast
  then show ?thesis unfolding amount_ok_def by blast
qed

section \<open>The text of an amount\<close>

lemma rstrip_char_eq:
  obtains k where "s = rstrip_char c s @ replicate k c"
proof -
  have "rev s = takeWhile (\<lambda>x. x = c) (rev s) @ dropWhile (\<lambda>x. x = c) (rev s)" by simp
  moreover have "takeWhile (\<lambda>x. x = c) (rev s) = replicate (length (takeWhile (\<lambda>x. x = c) (rev s))) c"
    by (rule replicate_eqI) (auto dest: set_takeWhileD)
  ultimately have "rev s = replicate (length (takeWhile (\<lambda>x. x = c) (rev s))) c @ dropWhile (\<lambda>x. x = c) (rev s)" by metis
  then have "s = rstrip_char c s @ replicate (length (takeWhile (\<lambda>x. x = c) (rev s))) c"
    unfolding rstrip_char_def by (metis rev_append rev_replicate rev_rev_ident)
  then show thesis by (rule that)
qed

lemma rstrip_char_last: "s \<noteq> [] \<Longrightarrow> last s \<noteq> c \<Longrightarrow> rstrip_char c s = s"
  by (cases s rule: rev_cases) (simp_all add: rstrip_char_def)

lemma rstrip_char_after:
  assumes "d \<noteq> c" shows "rstrip_char c (a @ d # b) = a @ d # rstrip_char c b"
proof (cases "dropWhile (\<lambda>x. x = c) (rev b) = []")
  case True
  then show ?thesis using assms by (simp add: rstrip_char_def dropWhile_append)
next
  case False
  then show ?thesis using assms by (simp add: rstrip_char_def dropWhile_append)
qed

lemma plain_text_form:
  assumes "0 \<le> c"
  shows "(list_all is_digit (plain_text (Dec c e)) \<and> plain_text (Dec c e) \<noteq> [] \<and>
      of_nat (digits_val (plain_text (Dec c e))) = dec_val (Dec c e)) \<or>
    (\<exists>a b. point_form (plain_text (Dec c e)) (nat c) (nat (- e)) a b \<and> e < 0)"
proof (cases "c = 0")
  case True
  have z: "digits_val ''0'' = 0" "list_all is_digit ''0''" by (simp_all add: digits_val_def digit_val_def zero_digit)
  have "point_form (''0.'' @ replicate (nat (- e)) (CHR ''0'')) 0 (nat (- e)) ''0'' (replicate (nat (- e)) (CHR ''0''))"
    using z digits_val_pad [of "''0''"] by (simp add: point_form_def list_all_iff zero_digit)
  then show ?thesis using True z by (cases "0 \<le> e") (auto simp: plain_text_def dec_val_Dec)
next
  case False
  then have c: "0 < c" "plain_text (Dec c e) = money (Dec c e)" using assms by (auto simp: plain_text_def)
  show ?thesis
  proof (cases "0 \<le> e")
    case True
    note w = money_whole [OF c(1) True]
    have "of_nat (digits_val (money (Dec c e))) = (of_int (int (digits_val (money (Dec c e)))) :: rat)" by simp
    also have "\<dots> = dec_val (Dec c e)" using w True by (simp add: dec_val_Dec power_int_def)
    finally show ?thesis using w c by simp
  next
    case neg: False
    then show ?thesis using money_point [OF c(1), of e] c by auto
  qed
qed

text \<open>The trailing zeros of the decimals, and a point after which nothing is left, change no value.\<close>

lemma stripped_point:
  assumes "point_form s c k a b"
  shows "\<exists>d. dec_of_text (rstrip_char (CHR ''.'') (rstrip_char (CHR ''0'') s)) = Some d \<and>
     dec_val d = dec_val (Dec (int c) (- int k)) \<and> rstrip_char (CHR ''.'') (rstrip_char (CHR ''0'') s) \<noteq> []"
proof -
  have s: "s = a @ CHR ''.'' # b" and da: "list_all is_digit a" "a \<noteq> []" and db: "list_all is_digit b"
    and v: "digits_val (a @ b) = c" "length b = k" using assms by (simp_all add: point_form_def)
  obtain j where j: "b = rstrip_char (CHR ''0'') b @ replicate j (CHR ''0'')" by (rule rstrip_char_eq)
  define b' where "b' = rstrip_char (CHR ''0'') b"
  have b: "b = b' @ replicate j (CHR ''0'')" using j by (simp only: b'_def)
  have db': "list_all is_digit b'" using db b by simp
  have "a @ b = (a @ b') @ replicate j (CHR ''0'')" using b by simp
  then have c: "c = digits_val (a @ b') * 10 ^ j" using v(1) digits_val_pad by metis
  have k: "k = length b' + j" using v(2) b by simp
  have val: "dec_val (Dec (int c) (- int k)) = dec_val (Dec (int (digits_val (a @ b'))) (- int (length b')))"
    using dec_val_shift [of "- int k" "- int (length b')" "int (digits_val (a @ b'))"] by (simp add: c k)
  have r0: "rstrip_char (CHR ''0'') s = a @ CHR ''.'' # b'" unfolding s b'_def by (rule rstrip_char_after) simp
  have nd: "last x \<noteq> CHR ''.''" if "list_all is_digit x" "x \<noteq> []" for x
    using that digit_facts [of "last x"] by (auto simp: list_all_iff)
  show ?thesis
  proof (cases "b' = []")
    case True
    have "rstrip_char (CHR ''.'') (a @ ''.'') = rstrip_char (CHR ''.'') a" by (simp add: rstrip_char_def)
    then have "rstrip_char (CHR ''.'') (rstrip_char (CHR ''0'') s) = a"
      using r0 True rstrip_char_last [OF da(2) nd [OF da]] by simp
    then show ?thesis using whole_text [OF da] val True da by (simp add: dec_val_Dec)
  next
    case False
    have "last (a @ CHR ''.'' # b') \<noteq> CHR ''.''" using False nd [OF db' False] by simp
    then have r: "rstrip_char (CHR ''.'') (rstrip_char (CHR ''0'') s) = a @ CHR ''.'' # b'"
      unfolding r0 by (intro rstrip_char_last) simp_all
    have "point_form (a @ CHR ''.'' # b') (digits_val (a @ b')) (length b') a b'"
      using da db' by (simp add: point_form_def)
    from point_text [OF this] show ?thesis unfolding r using val by simp
  qed
qed

text \<open>An amount's text is no unknown and reads back as the amount.\<close>

lemma usd_reads_back:
  assumes "0 \<le> dec_val d"
  shows "\<exists>d'. charge_of (JStr (usd d)) = Some d' \<and> dec_val d' = dec_val d"
proof -
  obtain c e where d: "d = Dec c e" by (cases d)
  have c: "0 \<le> c" using assms by (simp add: d dec_val_sign)
  have "\<exists>d'. dec_of_text (usd d) = Some d' \<and> dec_val d' = dec_val d"
    using plain_text_form [OF c, of e]
  proof (elim disjE conjE exE)
    assume p: "list_all is_digit (plain_text (Dec c e))" "plain_text (Dec c e) \<noteq> []"
      "of_nat (digits_val (plain_text (Dec c e))) = dec_val (Dec c e)"
    then have "CHR ''.'' \<notin> set (plain_text (Dec c e))" using digit_facts by (auto simp: list_all_iff)
    then show ?thesis using p whole_text [OF p(1,2)] by (simp add: usd_def d Let_def dec_val_Dec)
  next
    fix a b assume p: "point_form (plain_text (Dec c e)) (nat c) (nat (- e)) a b" "e < 0"
    then have "CHR ''.'' \<in> set (plain_text (Dec c e))" by (simp add: point_form_def)
    then show ?thesis using stripped_point [OF p(1)] c p(2) by (auto simp: usd_def d Let_def)
  qed
  then show ?thesis using assms by (auto simp: charge_of_def dec_le_val)
qed

lemma unknown_no_charge: "charge_of (JStr UNKNOWN) = None"
  by code_simp

lemma usd_known: "0 \<le> dec_val d \<Longrightarrow> usd d \<noteq> UNKNOWN"
  using usd_reads_back unknown_no_charge by force

end
