(* ===== verification/MeteringViews.thy ===== *)
theory MeteringViews imports MeteringMoney
begin

text \<open>
  The views of a run's passes: the entries' shares sum to what the passes cost, the items' to what their
  entries were split into, and what the items do not take is the remainder, exactly.
\<close>

section \<open>The entries' shares\<close>

definition pass_known :: "jrow \<Rightarrow> rat" where
  "pass_known p = (case known_usd p of Some t \<Rightarrow> dec_val t | None \<Rightarrow> 0)"

definition share_val :: "entry_share \<Rightarrow> rat" where
  "share_val r = dec_val (amount_or_0 (JStr (es_share r)))"

text \<open>A share on the grid: unknown, or the text of an amount.\<close>

definition text_ok :: "int \<Rightarrow> string \<Rightarrow> bool" where
  "text_ok u s \<longleftrightarrow> s = UNKNOWN \<or> (\<exists>d. charge_of (JStr s) = Some d \<and> amount_ok u (dec_val d))"

lemma amount_or_0_some [simp]: "charge_of v = Some d \<Longrightarrow> dec_val (amount_or_0 v) = dec_val d"
  by (simp add: amount_or_0_def)

lemma amount_or_0_none [simp]: "charge_of v = None \<Longrightarrow> amount_or_0 v = dec_zero"
  by (simp add: amount_or_0_def)

lemma unknown_val [simp]: "amount_or_0 (JStr UNKNOWN) = dec_zero"
  by (simp add: unknown_no_charge)

lemma usd_val [simp]: "0 \<le> dec_val d \<Longrightarrow> dec_val (amount_or_0 (JStr (usd d))) = dec_val d"
  using usd_reads_back [of d] by auto

lemma zero_text: "charge_of (JStr ''0'') = Some (Dec 0 0)"
  by code_simp

lemma text_ok_intros [simp]: "text_ok u UNKNOWN" "text_ok u ''0''" "amount_ok u (dec_val d) \<Longrightarrow> text_ok u (usd d)"
  using usd_reads_back [of d] zero_text by (auto simp: text_ok_def amount_ok_def dec_val_Dec)

lemma text_ok_val: "text_ok u s \<Longrightarrow> amount_ok u (dec_val (amount_or_0 (JStr s)))"
  by (auto simp: text_ok_def)

lemma amount_nonneg: "amount_ok u x \<Longrightarrow> 0 \<le> x"
  by (simp add: amount_ok_def)

text \<open>What a pass's view says of its money: nothing is lost.\<close>

lemma pass_view_sum:
  assumes u: "u \<le> QUANTUM_EXP" and t: "\<And>t. known_usd p = Some t \<Longrightarrow> amount_ok u (dec_val t)"
    and len: "length (read_entries_of p) \<le> 10 ^ 27"
  shows "\<exists>es. pass_view p = Some es \<and> sum_list (map share_val es) = pass_known p \<and> (\<forall>r\<in>set es. text_ok u (es_share r))"
proof -
  define read where "read = read_entries_of p"
  define pid where "pid = jget p ''pass_id''"
  let ?row = "\<lambda>(e, s). \<lparr>es_entry = Some e, es_pass = pid, es_share = s, es_basis = READ_SPLIT\<rparr>"
  let ?unread = "map (\<lambda>e. \<lparr>es_entry = Some e, es_pass = pid, es_share = ''0'', es_basis = NOT_READ\<rparr>)
    (filter (\<lambda>e. e \<notin> set read) (owed_entries p))"
  have un: "sum_list (map share_val ?unread) = 0" "\<forall>r\<in>set ?unread. text_ok u (es_share r)"
    by (simp_all add: comp_def share_val_def amount_or_0_some [OF zero_text] dec_val_Dec)
  have rows: "map share_val (map ?row (zip read shares)) = map (\<lambda>s. dec_val (amount_or_0 (JStr s))) shares"
    if "length shares = length read" for shares
    using that by (induction read shares rule: list_induct2') (auto simp: share_val_def)
  have texts: "(\<forall>r\<in>set (map ?row (zip read shares)). text_ok u (es_share r)) \<longleftrightarrow> (\<forall>s\<in>set shares. text_ok u s)"
    if "length shares = length read" for shares
    using that by (induction read shares rule: list_induct2') auto
  show ?thesis
  proof (cases "known_usd p")
    case None
    have "pass_view p = Some (map ?row (zip read (replicate (length read) UNKNOWN)) @ ?unread @
      (if read = [] then [\<lparr>es_entry = None, es_pass = pid, es_share = UNKNOWN, es_basis = NOT_READ\<rparr>] else []))"
      by (simp add: pass_view_def None Let_def read_def pid_def)
    then show ?thesis using un rows [of "replicate (length read) UNKNOWN"] texts [of "replicate (length read) UNKNOWN"] None
      by (auto simp: pass_known_def share_val_def sum_list_replicate simp del: map_map)
  next
    case (Some t)
    note ok = assms(2) [OF Some]
    obtain parts where p: "split_equal t (length read) = Some parts" "length parts = length read"
      "\<forall>x\<in>set parts. amount_ok u (dec_val x)" "read \<noteq> [] \<longrightarrow> sum_list (map dec_val parts) = dec_val t"
    proof (cases "read = []")
      case True
      then show thesis using that [of "[]"] by (simp add: split_equal_def)
    next
      case False
      then show thesis using split_parts [OF u ok, of "length read"] len that unfolding read_def by fastforce
    qed
    have view: "pass_view p = Some (map ?row (zip read (map usd parts)) @ ?unread @
      (if read = [] then [\<lparr>es_entry = None, es_pass = pid, es_share = usd t, es_basis = NOT_READ\<rparr>] else []))"
      using p(1) by (simp add: pass_view_def Some Let_def read_def pid_def)
    have "sum_list (map share_val (map ?row (zip read (map usd parts)))) = sum_list (map dec_val parts)"
      using p(2) p(3) [THEN bspec, THEN amount_nonneg] rows [of "map usd parts"]
      by (simp add: comp_def) (intro arg_cong [where f = sum_list] map_cong refl, simp)
    then show ?thesis using view p(2,3,4) un texts [of "map usd parts"] Some ok amount_nonneg [OF ok]
      by (cases "read = []") (auto simp: pass_known_def share_val_def simp del: map_map)
  qed
qed

lemma entries_view_sum:
  assumes "u \<le> QUANTUM_EXP" "\<forall>p\<in>set passes. (\<forall>t. known_usd p = Some t \<longrightarrow> amount_ok u (dec_val t)) \<and>
    length (read_entries_of p) \<le> 10 ^ 27"
  shows "\<exists>es. entries_view passes = Some es \<and> sum_list (map share_val es) = sum_list (map pass_known passes) \<and>
    (\<forall>r\<in>set es. text_ok u (es_share r))"
  using assms(2)
proof (induction passes)
  case (Cons p passes)
  obtain a where "pass_view p = Some a" "sum_list (map share_val a) = pass_known p" "\<forall>r\<in>set a. text_ok u (es_share r)"
    using pass_view_sum [OF assms(1), of p] Cons.prems by auto
  moreover obtain b where "entries_view passes = Some b" "sum_list (map share_val b) = sum_list (map pass_known passes)"
    "\<forall>r\<in>set b. text_ok u (es_share r)" using Cons by auto
  ultimately show ?case by (auto simp: entries_view_def)
qed (simp add: entries_view_def)

section \<open>The items' shares\<close>

definition dict_sum :: "(string \<times> decimal) list \<Rightarrow> rat" where
  "dict_sum d = sum_list (map (\<lambda>p. dec_val (snd p)) d)"

lemma dict_sum_put: "dict_sum (dict_put k v d) + dec_val (dict_get d k dec_zero) = dict_sum d + dec_val v"
  by (induction d) (auto simp: dict_sum_def dict_get_def)

lemma dict_sum_keys: "distinct (keys_of d) \<Longrightarrow> dict_sum d = (\<Sum>k\<in>set (keys_of d). dec_val (dict_get d k dec_zero))"
proof (induction d)
  case (Cons p d)
  have "dict_get (p # d) k dec_zero = dict_get d k dec_zero" if "k \<in> set (keys_of d)" for k
  proof -
    have "fst p \<notin> set (keys_of d)" using Cons.prems by simp
    with that have "k \<noteq> fst p" by blast
    then show ?thesis by (simp add: dict_get_def)
  qed
  then have "(\<Sum>k\<in>set (keys_of d). dec_val (dict_get (p # d) k dec_zero)) = (\<Sum>k\<in>set (keys_of d). dec_val (dict_get d k dec_zero))"
    by (intro sum.cong refl) simp
  then show ?case using Cons by (simp add: dict_sum_def dict_get_def)
qed (simp add: dict_sum_def)

definition shares_ok :: "int \<Rightarrow> (string \<times> decimal) list \<Rightarrow> bool" where
  "shares_ok u d \<longleftrightarrow> distinct (keys_of d) \<and> (\<forall>k. 0 \<le> dec_val (dict_get d k dec_zero) \<and> on_grid u (dec_val (dict_get d k dec_zero)))"

lemma shares_get_le:
  assumes "shares_ok u d" shows "dec_val (dict_get d k dec_zero) \<le> dict_sum d"
proof (cases "k \<in> set (keys_of d)")
  case True
  then show ?thesis using assms unfolding shares_ok_def
    by (subst dict_sum_keys) (auto intro: member_le_sum)
next
  case False
  then have "map_of d k = None" by (simp add: map_of_eq_None_iff)
  then show ?thesis using assms dict_sum_keys [of d] by (auto simp: shares_ok_def dict_get_def intro: sum_nonneg)
qed

lemma add_part_ok:
  assumes "shares_ok u d" "amount_ok u (dict_sum d + dec_val v)" "0 \<le> dec_val v" "on_grid u (dec_val v)"
  shows "shares_ok u (add_part d (k, v)) \<and> dict_sum (add_part d (k, v)) = dict_sum d + dec_val v"
proof -
  let ?o = "dict_get d k dec_zero"
  have o: "0 \<le> dec_val ?o" "on_grid u (dec_val ?o)" using assms(1) by (auto simp: shares_ok_def)
  have "amount_ok u (dec_val ?o + dec_val v)"
    using shares_get_le [OF assms(1), of k] o assms(3,4) by (intro amount_ok_less [OF assms(2)]) (auto intro: on_grid_add)
  then have a: "dec_val (dec_add ?o v) = dec_val ?o + dec_val v" by (rule dec_add_amount)
  then have "shares_ok u (add_part d (k, v))"
    using assms(1,3,4) o by (auto simp: shares_ok_def add_part_def intro: on_grid_add)
  moreover have "dict_sum (add_part d (k, v)) = dict_sum d + dec_val v"
    using dict_sum_put [of k "dec_add ?o v" d] a by (simp add: add_part_def)
  ultimately show ?thesis by simp
qed

lemma add_parts_ok:
  assumes "shares_ok u d" "amount_ok u (dict_sum d + sum_list (map (\<lambda>p. dec_val (snd p)) ps))"
    "\<forall>p\<in>set ps. 0 \<le> dec_val (snd p) \<and> on_grid u (dec_val (snd p))" "0 \<le> dict_sum d" "on_grid u (dict_sum d)"
  shows "shares_ok u (foldl add_part d ps) \<and>
    dict_sum (foldl add_part d ps) = dict_sum d + sum_list (map (\<lambda>p. dec_val (snd p)) ps) \<and>
    set (keys_of (foldl add_part d ps)) = set (keys_of d) \<union> fst ` set ps"
  using assms
proof (induction ps arbitrary: d)
  case (Cons p ps)
  obtain k v where p: "p = (k, v)" by (cases p)
  have n: "0 \<le> sum_list (map (\<lambda>p. dec_val (snd p)) ps)" using Cons.prems(3) by (intro sum_list_nonneg) auto
  have "amount_ok u (dict_sum d + dec_val v)"
    using Cons.prems n by (intro amount_ok_less [OF Cons.prems(2)]) (auto simp: p intro: on_grid_add)
  then have a: "shares_ok u (add_part d p)" "dict_sum (add_part d p) = dict_sum d + dec_val v"
    using add_part_ok [OF Cons.prems(1)] Cons.prems(3) by (simp_all add: p)
  have k: "set (keys_of (add_part d p)) = insert k (set (keys_of d))" by (simp add: add_part_def p)
  show ?case using Cons.IH [OF a(1)] Cons.prems a k by (simp add: p add.assoc on_grid_add image_Un del: set_map)
qed simp

text \<open>What of an entry's share goes to the items its capture was closed on.\<close>

definition yield_val :: "(string \<times> string list) list \<Rightarrow> entry_share \<Rightarrow> rat" where
  "yield_val closes r = (case es_entry r of None \<Rightarrow> 0
     | Some e \<Rightarrow> if es_basis r = READ_SPLIT \<and> dict_get closes e [] \<noteq> [] then share_val r else 0)"

lemma yield_val_bounds: "text_ok u (es_share r) \<Longrightarrow>
  0 \<le> yield_val closes r \<and> yield_val closes r \<le> share_val r \<and> on_grid u (yield_val closes r)"
  using text_ok_val [of u "es_share r"] by (simp add: yield_val_def share_val_def amount_ok_def split: option.split)

definition items_ok :: "int \<Rightarrow> item_shares \<Rightarrow> rat \<Rightarrow> bool" where
  "items_ok u sh x \<longleftrightarrow> shares_ok u (fst sh) \<and> dict_sum (fst sh) = x"

lemma share_step_ok:
  assumes u: "u \<le> QUANTUM_EXP" and sh: "items_ok u (shares, lost) x" "0 \<le> x" "on_grid u x"
    and t: "text_ok u (es_share r)" "amount_ok u (x + yield_val closes r)"
    and len: "\<forall>e. length (dict_get closes e []) \<le> 10 ^ 27"
  shows "\<exists>s l. share_step closes (Some (shares, lost)) r = Some (s, l) \<and> items_ok u (s, l) (x + yield_val closes r) \<and>
    (lost = [] \<and> es_share r \<noteq> UNKNOWN \<longrightarrow> l = [])"
proof (cases "\<exists>e. es_entry r = Some e \<and> es_basis r = READ_SPLIT \<and> dict_get closes e [] \<noteq> []")
  case False
  then show ?thesis using sh(1) by (auto simp: share_step_def yield_val_def Let_def split: option.splits)
next
  case True
  then obtain e where e: "es_entry r = Some e" "es_basis r = READ_SPLIT" and named: "dict_get closes e [] \<noteq> []" by blast
  define ns where "ns = dict_get closes e []"
  have y: "yield_val closes r = share_val r" using e named by (simp add: yield_val_def)
  show ?thesis
  proof (cases "charge_of (JStr (es_share r))")
    case None
    then have "es_share r = UNKNOWN" using t(1) by (auto simp: text_ok_def)
    then show ?thesis using e named None sh(1) y by (simp add: share_step_def Let_def share_val_def items_ok_def)
  next
    case (Some d)
    then have sv: "share_val r = dec_val d" by (simp add: share_val_def)
    have d: "amount_ok u (dec_val d)"
      using t(1) Some unknown_no_charge by (auto simp: text_ok_def)
    obtain parts where p: "split_equal d (length ns) = Some parts" "length parts = length ns"
      "\<forall>x\<in>set parts. amount_ok u (dec_val x)" "sum_list (map dec_val parts) = dec_val d"
      using split_parts [OF u d, of "length ns"] len named unfolding ns_def by fastforce
    have ps: "sum_list (map (\<lambda>q. dec_val (snd q)) (zip ns parts)) = dec_val d"
      using p(2,4) by (simp add: comp_def flip: map_map [of dec_val snd, unfolded comp_def])
    have zs: "\<forall>q\<in>set (zip ns parts). 0 \<le> dec_val (snd q) \<and> on_grid u (dec_val (snd q))"
      using p(3) unfolding amount_ok_def by (auto dest: set_zip_rightD)
    have "shares_ok u (foldl add_part shares (zip ns parts)) \<and> dict_sum (foldl add_part shares (zip ns parts)) = x + dec_val d"
      using add_parts_ok [of u shares "zip ns parts", OF _ _ zs] sh t(2) ps y sv by (auto simp: items_ok_def)
    moreover have "share_step closes (Some (shares, lost)) r = Some (foldl add_part shares (zip ns parts), lost)"
      using e named Some p(1) by (simp add: share_step_def Let_def ns_def)
    ultimately show ?thesis by (simp add: items_ok_def y sv)
  qed
qed

lemma shares_of_from:
  assumes u: "u \<le> QUANTUM_EXP" and len: "\<forall>e. length (dict_get closes e []) \<le> 10 ^ 27"
    and "items_ok u sh x" "0 \<le> x" "on_grid u x" "\<forall>r\<in>set rs. text_ok u (es_share r)"
      "amount_ok u (x + sum_list (map (yield_val closes) rs))"
  shows "\<exists>s l. foldl (share_step closes) (Some sh) rs = Some (s, l) \<and>
    items_ok u (s, l) (x + sum_list (map (yield_val closes) rs)) \<and>
    (snd sh = [] \<and> (\<forall>r\<in>set rs. es_share r \<noteq> UNKNOWN) \<longrightarrow> l = [])"
  using assms(3-)
proof (induction rs arbitrary: sh x)
  case Nil
  then show ?case by (cases sh) simp
next
  case (Cons r rs)
  obtain shares lost where s0: "sh = (shares, lost)" by (cases sh)
  have y: "0 \<le> yield_val closes r" "on_grid u (yield_val closes r)"
    using yield_val_bounds [of u r closes] Cons.prems(4) by auto
  have ys: "0 \<le> sum_list (map (yield_val closes) rs)"
    using yield_val_bounds [of u] Cons.prems(4) by (intro sum_list_nonneg) auto
  have "amount_ok u (x + yield_val closes r)"
    using Cons.prems y ys by (intro amount_ok_less [OF Cons.prems(5)]) (auto intro: on_grid_add)
  then obtain s l where sl: "share_step closes (Some sh) r = Some (s, l)" "items_ok u (s, l) (x + yield_val closes r)"
    "lost = [] \<and> es_share r \<noteq> UNKNOWN \<longrightarrow> l = []"
    using share_step_ok [OF u, of shares lost x r closes] Cons.prems len unfolding s0 by auto
  show ?case using Cons.IH [OF sl(2)] sl Cons.prems y by (auto simp: s0 on_grid_add add.assoc)
qed

section \<open>The items' rows\<close>

definition item_val :: "item_row \<Rightarrow> rat" where
  "item_val r = dec_val (amount_or_0 (JStr (im_usd r)))"

text \<open>The rows of the items sum to the shares, or less where an item's share is unknown.\<close>

lemma item_rows_sum:
  fixes seqs :: "(string \<times> json) list" and later :: "string \<Rightarrow> json \<Rightarrow> (int \<times> int) option"
    and solves :: "(string \<times> int) list option"
  assumes "items_ok u (s, l) x" "amount_ok u x"
  defines "rows \<equiv> map (item_row_of (s, l) seqs later solves) (sorted_set (map fst s @ l))"
  shows "sum_list (map item_val rows) \<le> x" "l = [] \<Longrightarrow> sum_list (map item_val rows) = x"
    "\<forall>r\<in>set rows. text_ok u (im_usd r)"
proof -
  let ?f = "\<lambda>i. dec_val (dict_get s i dec_zero)"
  have s: "shares_ok u s" "dict_sum s = x" using assms(1) by (simp_all add: items_ok_def)
  have f: "0 \<le> ?f i" "amount_ok u (?f i)" for i
    using s(1) shares_get_le [OF s(1), of i] s(2) amount_ok_less [OF assms(2), of "?f i"] by (auto simp: shares_ok_def)
  have iv: "item_val (item_row_of (s, l) seqs later solves i) = (if i \<in> set l then 0 else ?f i)" for i
    using f by (simp add: item_val_def item_row_of_def Let_def)
  have "sum_list (map item_val rows) = (\<Sum>i\<leftarrow>sorted_set (keys_of s @ l). if i \<in> set l then 0 else ?f i)"
    by (simp add: rows_def iv comp_def)
  also have "\<dots> = (\<Sum>i\<in>set (sorted_set (keys_of s @ l)). if i \<in> set l then 0 else ?f i)"
    by (rule sum_list_distinct_conv_sum_set) simp
  also have "\<dots> = (\<Sum>i\<in>set (keys_of s) \<union> set l. if i \<in> set l then 0 else ?f i)" by simp
  also have "\<dots> = (\<Sum>i\<in>set (keys_of s) - set l. ?f i)"
    by (rule sum.mono_neutral_cong_right) auto
  finally have sum: "sum_list (map item_val rows) = (\<Sum>i\<in>set (keys_of s) - set l. ?f i)" .
  have all: "x = (\<Sum>i\<in>set (keys_of s). ?f i)" using s dict_sum_keys by (auto simp: shares_ok_def)
  show "sum_list (map item_val rows) \<le> x" unfolding sum all using f by (intro sum_mono2) auto
  show "l = [] \<Longrightarrow> sum_list (map item_val rows) = x" unfolding sum by (simp add: all)
  show "\<forall>r\<in>set rows. text_ok u (im_usd r)" using f(2) by (auto simp: rows_def item_row_of_def Let_def)
qed

section \<open>The totals\<close>

lemma known_texts_sum:
  assumes "\<forall>r\<in>set rs. text_ok u (f r)" "amount_ok u (sum_list (map (\<lambda>r. dec_val (amount_or_0 (JStr (f r)))) rs))"
  shows "dec_val (dec_sum (map (\<lambda>r. amount_or_0 (JStr (f r))) (filter (\<lambda>r. f r \<noteq> UNKNOWN) rs))) =
    sum_list (map (\<lambda>r. dec_val (amount_or_0 (JStr (f r)))) rs)"
proof -
  have e: "sum_list (map (\<lambda>r. dec_val (amount_or_0 (JStr (f r)))) (filter (\<lambda>r. f r \<noteq> UNKNOWN) rs)) =
      sum_list (map (\<lambda>r. dec_val (amount_or_0 (JStr (f r)))) rs)"
    by (induction rs) auto
  show ?thesis unfolding e [symmetric] using assms text_ok_val [of u] e
    by (subst dec_sum_exact [where u = u]) (auto simp: comp_def amount_ok_def)
qed

lemma known_sum:
  assumes "\<forall>p\<in>set passes. \<forall>t. known_usd p = Some t \<longrightarrow> 0 \<le> dec_val t \<and> on_grid u (dec_val t)"
    "amount_ok u (sum_list (map pass_known passes))"
  shows "dec_val (dec_sum (List.map_filter id (map known_usd passes))) = sum_list (map pass_known passes)"
proof -
  have e: "sum_list (map dec_val (List.map_filter id (map known_usd passes))) = sum_list (map pass_known passes)"
    by (induction passes) (simp_all add: pass_known_def map_filter_simps split: option.split)
  have m: "set (List.map_filter id (map known_usd passes)) = {t. \<exists>p\<in>set passes. known_usd p = Some t}"
    by (force simp: map_filter_def)
  show ?thesis unfolding e [symmetric] using assms e m by (subst dec_sum_exact [where u = u]) auto
qed

lemma dec_max0_val: "0 \<le> dec_val d \<Longrightarrow> dec_val (dec_max0 d) = dec_val d"
  by (simp add: dec_max0_def dec_le_val)

text \<open>The passes of one set of books: every known amount on the grid, their sum and the lists of a size.\<close>

definition books_ok :: "int \<Rightarrow> jrow list \<Rightarrow> jrow list \<Rightarrow> bool" where
  "books_ok u ledger passes \<longleftrightarrow> u \<le> QUANTUM_EXP \<and> amount_ok u (sum_list (map pass_known passes)) \<and>
     (\<forall>p\<in>set passes. length (read_entries_of p) \<le> 10 ^ 27 \<and> (\<forall>t\<in>set_option (known_usd p). on_grid u (dec_val t))) \<and>
     (\<forall>c\<in>snd ` set (closures ledger). length c \<le> 10 ^ 27)"

lemma known_nonneg: "known_usd p = Some t \<Longrightarrow> 0 \<le> dec_val t"
  unfolding known_usd_def using charge_of_nonneg nonneg_val by blast

lemma books_amounts:
  assumes "books_ok u ledger passes" "p \<in> set passes" "known_usd p = Some t"
  shows "amount_ok u (dec_val t)"
proof -
  have pos: "0 \<le> sum_list (map pass_known ps)" for ps
    by (rule sum_list_nonneg) (auto simp: pass_known_def known_nonneg split: option.split)
  obtain a b where "passes = a @ p # b" using assms(2) by (auto dest: split_list)
  then have "pass_known p \<le> sum_list (map pass_known passes)" using pos [of a] pos [of b] by simp
  moreover have "pass_known p = dec_val t" by (simp add: pass_known_def assms(3))
  moreover have g: "on_grid u (dec_val t)" and s: "amount_ok u (sum_list (map pass_known passes))"
    using assms unfolding books_ok_def by (metis option.set_intros)+
  ultimately show ?thesis using known_nonneg [OF assms(3)] by (intro amount_ok_less [OF s]) simp_all
qed

text \<open>The views of the books: what the entries and the items of them are worth.\<close>

lemma books_views:
  fixes solves :: "(string \<times> int) list option"
  assumes b: "books_ok u ledger passes"
  obtains es its where "entries_view passes = Some es" "items_view ledger later solves passes es = Some its"
    "sum_list (map share_val es) = sum_list (map pass_known passes)" "\<forall>r\<in>set es. text_ok u (es_share r)"
    "\<forall>r\<in>set its. text_ok u (im_usd r)" "amount_ok u (sum_list (map item_val its))"
    "amount_ok u (sum_list (map pass_known passes) - sum_list (map item_val its))"
    "(\<forall>r\<in>set es. es_share r \<noteq> UNKNOWN) \<longrightarrow> sum_list (map item_val its) = sum_list (map (yield_val (closures ledger)) es)"
proof -
  let ?K = "sum_list (map pass_known passes)" and ?cl = "closures ledger"
  have u: "u \<le> QUANTUM_EXP" and K: "amount_ok u ?K" using b by (simp_all add: books_ok_def)
  have "\<forall>p\<in>set passes. (\<forall>t. known_usd p = Some t \<longrightarrow> amount_ok u (dec_val t)) \<and> length (read_entries_of p) \<le> 10 ^ 27"
    using b books_amounts [OF b] by (auto simp: books_ok_def)
  then obtain es where es: "entries_view passes = Some es" "sum_list (map share_val es) = ?K" "\<forall>r\<in>set es. text_ok u (es_share r)"
    using entries_view_sum [OF u] by blast
  have len: "length (dict_get ?cl e []) \<le> 10 ^ 27" for e
  proof (cases "map_of ?cl e")
    case (Some c)
    then have "(e, c) \<in> set ?cl" by (rule map_of_SomeD)
    then show ?thesis using b Some by (fastforce simp: books_ok_def dict_get_def)
  qed (simp add: dict_get_def)
  define y where "y = sum_list (map (yield_val ?cl) es)"
  have yb: "0 \<le> yield_val ?cl r" "yield_val ?cl r \<le> share_val r" "on_grid u (yield_val ?cl r)" if "r \<in> set es" for r
    using yield_val_bounds es(3) that by blast+
  have "0 \<le> y" "y \<le> ?K" "on_grid u y" unfolding y_def es(2) [symmetric]
    using yb by (auto intro!: sum_list_nonneg sum_list_mono on_grid_sum_list)
  then have y: "amount_ok u y" by (intro amount_ok_less [OF K])
  have "items_ok u ([], []) 0" by (simp add: items_ok_def shares_ok_def dict_sum_def)
  then obtain s l where sl: "shares_of ?cl es = Some (s, l)" "items_ok u (s, l) y" "(\<forall>r\<in>set es. es_share r \<noteq> UNKNOWN) \<longrightarrow> l = []"
    using shares_of_from [OF u, of ?cl "([], [])" 0 es] len es(3) y by (auto simp: shares_of_def y_def)
  define its where "its = map (item_row_of (s, l) (first_seqs ?cl passes) later solves) (sorted_set (map fst s @ l))"
  have iv: "items_view ledger later solves passes es = Some its" by (simp add: items_view_def Let_def sl(1) its_def)
  note rows = item_rows_sum [OF sl(2) y, of "first_seqs ?cl passes" later solves, folded its_def]
  have "0 \<le> sum_list (map item_val its)" "on_grid u (sum_list (map item_val its))"
    using rows(3) text_ok_val [of u] by (auto simp: item_val_def amount_ok_def intro!: sum_list_nonneg on_grid_sum_list)
  moreover from rows(1) have le: "sum_list (map item_val its) \<le> ?K" using \<open>y \<le> ?K\<close> by simp
  ultimately have I: "amount_ok u (sum_list (map item_val its))" "amount_ok u (?K - sum_list (map item_val its))"
    using K by (auto intro!: amount_ok_less [OF K] on_grid_diff simp: amount_ok_def)
  show ?thesis by (rule that [OF es(1) iv es(2,3) rows(3) I]) (use sl(3) rows(2) in \<open>auto simp: y_def\<close>)
qed

text \<open>The totals of views worth that.\<close>

lemma summary_balances:
  assumes b: "books_ok u ledger passes" and t: "summary passes es its = Some t"
    and es: "sum_list (map share_val es) = sum_list (map pass_known passes)" "\<forall>r\<in>set es. text_ok u (es_share r)"
    and its: "\<forall>r\<in>set its. text_ok u (im_usd r)" and I: "amount_ok u (sum_list (map item_val its))"
      "amount_ok u (sum_list (map pass_known passes) - sum_list (map item_val its))"
  shows "dec_val (to_known t) = sum_list (map pass_known passes)" "dec_val (to_entries t) = dec_val (to_known t)"
    "dec_val (to_items t) = sum_list (map item_val its)" "dec_val (to_no_yield t) = dec_val (to_known t) - dec_val (to_items t)"
proof -
  let ?K = "sum_list (map pass_known passes)"
  have K: "amount_ok u ?K" using b by (simp add: books_ok_def)
  show kn: "dec_val (to_known t) = ?K"
    using t known_sum [of passes u] K books_amounts [OF b] by (auto simp: summary_def Let_def amount_ok_def split: option.splits)
  show "dec_val (to_entries t) = dec_val (to_known t)" unfolding kn
    using t known_texts_sum [of es u es_share, folded share_val_def] es K
    by (auto simp: summary_def Let_def split: option.splits)
  show it: "dec_val (to_items t) = sum_list (map item_val its)"
    using t known_texts_sum [of its u im_usd, folded item_val_def] its I(1)
    by (auto simp: summary_def Let_def split: option.splits)
  have "to_no_yield t = dec_max0 (dec_sub (to_known t) (to_items t))" using t by (auto simp: summary_def Let_def split: option.splits)
  moreover have "dec_val (dec_sub (to_known t) (to_items t)) = ?K - sum_list (map item_val its)"
    using I(2) by (subst dec_sub_amount) (simp_all add: kn it)
  moreover have "0 \<le> ?K - sum_list (map item_val its)" using I(2) by (simp add: amount_ok_def)
  ultimately show "dec_val (to_no_yield t) = dec_val (to_known t) - dec_val (to_items t)" by (simp add: dec_max0_val kn it)
qed

text \<open>
  C25. The books of a run balance. For the metered rows of any passes (known amounts of fewer than 27 digits in all
  on one grid): the per-entry and the per-item views exist, the entries' shares sum to what the passes cost, what
  the items take and what is left without yield sum to the same, and, where no share is unknown, the items take
  exactly the shares of the entries whose captures were closed on an item.
\<close>

theorem books_balance:
  fixes solves :: "(string \<times> int) list option"
  assumes b: "books_ok u ledger passes"
  shows "\<exists>es its. entries_view passes = Some es \<and> items_view ledger later solves passes es = Some its \<and>
    (\<forall>t. summary passes es its = Some t \<longrightarrow>
       dec_val (to_known t) = sum_list (map pass_known passes) \<and> dec_val (to_entries t) = dec_val (to_known t) \<and>
       dec_val (to_items t) + dec_val (to_no_yield t) = dec_val (to_known t) \<and> 0 \<le> dec_val (to_no_yield t) \<and>
       ((\<forall>r\<in>set es. es_share r \<noteq> UNKNOWN) \<longrightarrow>
          dec_val (to_items t) = sum_list (map (yield_val (closures ledger)) es)))"
proof -
  obtain es its where v: "entries_view passes = Some es" "items_view ledger later solves passes es = Some its"
    and w: "sum_list (map share_val es) = sum_list (map pass_known passes)" "\<forall>r\<in>set es. text_ok u (es_share r)"
      "\<forall>r\<in>set its. text_ok u (im_usd r)" "amount_ok u (sum_list (map item_val its))"
      "amount_ok u (sum_list (map pass_known passes) - sum_list (map item_val its))"
    and y: "(\<forall>r\<in>set es. es_share r \<noteq> UNKNOWN) \<longrightarrow> sum_list (map item_val its) = sum_list (map (yield_val (closures ledger)) es)"
    by (rule books_views [OF b])
  show ?thesis
  proof (intro exI conjI allI impI)
    fix t assume "summary passes es its = Some t"
    note s = summary_balances [OF b this w]
    show "dec_val (to_known t) = sum_list (map pass_known passes)" by (rule s(1))
    show "dec_val (to_entries t) = dec_val (to_known t)" by (rule s(2))
    show "dec_val (to_items t) + dec_val (to_no_yield t) = dec_val (to_known t)" by (simp add: s(4))
    show "0 \<le> dec_val (to_no_yield t)" using w(5) by (simp add: s amount_ok_def)
    show "dec_val (to_items t) = sum_list (map (yield_val (closures ledger)) es)" if "\<forall>r\<in>set es. es_share r \<noteq> UNKNOWN"
      using that y by (simp add: s(3))
  qed (rule v(1), rule v(2))
qed

end
