(* ===== verification/MeteringLanes.thy ===== *)
theory MeteringLanes imports MeteringMoney
begin

text \<open>
  The lanes of a run: the fork lane's spend per episode is its spend by request, and the headline is
  every request of every lane at its charge or at the lane's worst case.
\<close>

section \<open>The lanes and the headline\<close>

lemma sum_put: "f z = 0 \<Longrightarrow> sum_list (map (\<lambda>p. f (snd p)) (dict_put k v d)) + f (dict_get d k z) =
    sum_list (map (\<lambda>p. f (snd p)) d) + (f v :: rat)"
  by (induction d) (auto simp: dict_get_def)

definition charge_val :: "decimal option \<Rightarrow> rat" where
  "charge_val c = (case c of Some d \<Rightarrow> dec_val d | None \<Rightarrow> 0)"

definition charges_ok :: "int \<Rightarrow> (string \<times> decimal option) list \<Rightarrow> bool" where
  "charges_ok u cs \<longleftrightarrow> amount_ok u (sum_list (map (\<lambda>p. charge_val (snd p)) cs)) \<and>
     (\<forall>p\<in>set cs. 0 \<le> charge_val (snd p) \<and> on_grid u (charge_val (snd p)))"

lemma lane_total_known:
  assumes "charges_ok u (last_charges rows)"
  shows "dec_val (lt_known (lane_total_of lane rows worst)) = sum_list (map (\<lambda>p. charge_val (snd p)) (last_charges rows))"
proof -
  let ?ds = "List.map_filter id (map snd (last_charges rows))"
  have e: "sum_list (map dec_val (List.map_filter id (map snd cs))) = sum_list (map (\<lambda>p. charge_val (snd p)) cs)"
    for cs :: "(string \<times> decimal option) list"
    by (induction cs) (auto simp: map_filter_simps charge_val_def split: option.split)
  have "0 \<le> dec_val d \<and> on_grid u (dec_val d)" if "d \<in> set ?ds" for d
    using that assms by (force simp: charges_ok_def map_filter_def charge_val_def)
  then show ?thesis using assms dec_sum_exact [of u ?ds] e [of "last_charges rows"]
    by (simp add: lane_total_of_def charges_ok_def)
qed

text \<open>The episodes of the fork lane.\<close>

abbreviation ep_sum :: "(episode_spend \<Rightarrow> rat) \<Rightarrow> (string \<times> episode_spend) list \<Rightarrow> rat" where
  "ep_sum f d \<equiv> sum_list (map (\<lambda>p. f (snd p)) d)"

definition spend_ok :: "int \<Rightarrow> (string \<times> episode_spend) list \<Rightarrow> bool" where
  "spend_ok u d \<longleftrightarrow> (\<forall>p\<in>set d. 0 \<le> dec_val (ep_known (snd p)) \<and> on_grid u (dec_val (ep_known (snd p))))"

lemma spend_get:
  fixes k :: string
  assumes "spend_ok u d"
  defines "cur \<equiv> dict_get d k \<lparr>ep_requests = 0, ep_known = dec_zero, ep_unknown = 0\<rparr>"
  shows "0 \<le> dec_val (ep_known cur)" "on_grid u (dec_val (ep_known cur))"
    "dec_val (ep_known cur) \<le> ep_sum (\<lambda>s. dec_val (ep_known s)) d"
proof -
  have pos: "0 \<le> ep_sum (\<lambda>s. dec_val (ep_known s)) e" if "set e \<subseteq> set d" for e
    using assms(1) that by (intro sum_list_nonneg) (auto simp: spend_ok_def)
  consider "map_of d k = None" | s where "map_of d k = Some s" "(k, s) \<in> set d" by (cases "map_of d k") (auto dest: map_of_SomeD)
  then have "0 \<le> dec_val (ep_known cur) \<and> on_grid u (dec_val (ep_known cur)) \<and>
      dec_val (ep_known cur) \<le> ep_sum (\<lambda>s. dec_val (ep_known s)) d"
  proof cases
    case 1
    then show ?thesis using pos [of d] by (simp add: cur_def dict_get_def)
  next
    case 2
    obtain a b where d: "d = a @ (k, s) # b" using 2(2) by (auto dest: split_list)
    have "0 \<le> ep_sum (\<lambda>s. dec_val (ep_known s)) a" "0 \<le> ep_sum (\<lambda>s. dec_val (ep_known s)) b"
      by (rule pos, auto simp: d)+
    moreover have "0 \<le> dec_val (ep_known s) \<and> on_grid u (dec_val (ep_known s))" using assms(1) 2(2) by (auto simp: spend_ok_def)
    ultimately show ?thesis using 2(1) by (simp add: cur_def dict_get_def) (simp add: d)
  qed
  then show "0 \<le> dec_val (ep_known cur)" "on_grid u (dec_val (ep_known cur))"
    "dec_val (ep_known cur) \<le> ep_sum (\<lambda>s. dec_val (ep_known s)) d" by simp_all
qed

lemma fork_step_sums:
  fixes owners :: "(string \<times> string) list" and rid :: string
  assumes "spend_ok u d" "0 \<le> charge_val c" "on_grid u (charge_val c)"
    "amount_ok u (ep_sum (\<lambda>s. dec_val (ep_known s)) d + charge_val c)"
  defines "e \<equiv> fork_step owners d (rid, c)"
  shows "spend_ok u e \<and> ep_sum (\<lambda>s. dec_val (ep_known s)) e = ep_sum (\<lambda>s. dec_val (ep_known s)) d + charge_val c \<and>
    ep_sum (\<lambda>s. of_nat (ep_requests s)) e = ep_sum (\<lambda>s. of_nat (ep_requests s)) d + 1 \<and>
    ep_sum (\<lambda>s. of_nat (ep_unknown s)) e = ep_sum (\<lambda>s. of_nat (ep_unknown s)) d + (if c = None then 1 else 0)"
proof -
  let ?z = "\<lparr>ep_requests = 0, ep_known = dec_zero, ep_unknown = 0\<rparr>"
  define k where "k = dict_get owners rid UNKNOWN"
  define cur where "cur = dict_get d k ?z"
  define new where "new = \<lparr>ep_requests = ep_requests cur + 1,
    ep_known = (case c of Some x \<Rightarrow> dec_add (ep_known cur) x | None \<Rightarrow> ep_known cur),
    ep_unknown = (case c of Some x \<Rightarrow> ep_unknown cur | None \<Rightarrow> ep_unknown cur + 1)\<rparr>"
  have e: "e = dict_put k new d" by (cases c) (simp_all add: e_def fork_step_def Let_def k_def cur_def new_def)
  note g = spend_get [OF assms(1), of k, folded cur_def]
  have "amount_ok u (dec_val (ep_known cur) + charge_val c)"
    using g assms(2,3) by (intro amount_ok_less [OF assms(4)]) (simp_all add: on_grid_add)
  then have v: "dec_val (ep_known new) = dec_val (ep_known cur) + charge_val c"
    by (auto simp: new_def charge_val_def dec_add_amount split: option.split)
  have "set e \<subseteq> insert (k, new) (set d)" unfolding e by (induction d) auto
  then have "spend_ok u e" using assms(1-3) g v by (fastforce simp: spend_ok_def intro: on_grid_add)
  moreover have "ep_sum (\<lambda>s. dec_val (ep_known s)) e = ep_sum (\<lambda>s. dec_val (ep_known s)) d + charge_val c"
    using sum_put [of "\<lambda>s. dec_val (ep_known s)" ?z k new d] v by (simp add: e cur_def)
  moreover have "ep_sum (\<lambda>s. of_nat (ep_requests s)) e = ep_sum (\<lambda>s. of_nat (ep_requests s)) d + 1"
    using sum_put [of "\<lambda>s. of_nat (ep_requests s)" ?z k new d] by (simp add: e cur_def [symmetric] new_def)
  moreover have "ep_sum (\<lambda>s. of_nat (ep_unknown s)) e = ep_sum (\<lambda>s. of_nat (ep_unknown s)) d + (if c = None then 1 else 0)"
    using sum_put [of "\<lambda>s. of_nat (ep_unknown s)" ?z k new d]
    by (cases c) (simp_all add: e cur_def [symmetric] new_def)
  ultimately show ?thesis by blast
qed

lemma fork_steps_sums:
  assumes "spend_ok u d" "\<forall>p\<in>set cs. 0 \<le> charge_val (snd p) \<and> on_grid u (charge_val (snd p))"
    "amount_ok u (ep_sum (\<lambda>s. dec_val (ep_known s)) d + sum_list (map (\<lambda>p. charge_val (snd p)) cs))"
    "on_grid u (ep_sum (\<lambda>s. dec_val (ep_known s)) d)" "0 \<le> ep_sum (\<lambda>s. dec_val (ep_known s)) d"
  shows "ep_sum (\<lambda>s. dec_val (ep_known s)) (foldl (fork_step owners) d cs) =
      ep_sum (\<lambda>s. dec_val (ep_known s)) d + sum_list (map (\<lambda>p. charge_val (snd p)) cs) \<and>
    ep_sum (\<lambda>s. of_nat (ep_requests s)) (foldl (fork_step owners) d cs) = ep_sum (\<lambda>s. of_nat (ep_requests s)) d + of_nat (length cs) \<and>
    ep_sum (\<lambda>s. of_nat (ep_unknown s)) (foldl (fork_step owners) d cs) =
      ep_sum (\<lambda>s. of_nat (ep_unknown s)) d + of_nat (length (filter (\<lambda>p. snd p = None) cs))"
  using assms
proof (induction cs arbitrary: d)
  case (Cons p cs)
  obtain rid c where p: "p = (rid, c)" by (cases p)
  have n: "0 \<le> sum_list (map (\<lambda>p. charge_val (snd p)) cs)" using Cons.prems(2) by (intro sum_list_nonneg) auto
  have c: "0 \<le> charge_val c" "on_grid u (charge_val c)" using Cons.prems(2) by (simp_all add: p)
  have "amount_ok u (ep_sum (\<lambda>s. dec_val (ep_known s)) d + charge_val c)"
    using Cons.prems n c by (intro amount_ok_less [OF Cons.prems(3)]) (simp_all add: p on_grid_add)
  note s = fork_step_sums [OF Cons.prems(1) c this, of owners rid]
  show ?case using Cons.IH [of "fork_step owners d p"] Cons.prems s c by (simp add: p add.assoc on_grid_add)
qed simp

text \<open>
  C28. The fork lane's spend per episode is the lane's spend, split over the episodes: the known amounts, the
  requests and the unpriced requests of the episodes sum to the lane's own known amount, requests and unpriced
  requests, exactly, for charges of fewer than 27 digits in all on one grid.
\<close>

theorem fork_episodes_are_the_lane:
  assumes "charges_ok u (last_charges rows)"
  shows "ep_sum (\<lambda>s. dec_val (ep_known s)) (fork_by_episode rows) = dec_val (lt_known (lane_total_of lane rows worst)) \<and>
    ep_sum (\<lambda>s. of_nat (ep_requests s)) (fork_by_episode rows) = of_nat (lt_requests (lane_total_of lane rows worst)) \<and>
    ep_sum (\<lambda>s. of_nat (ep_unknown s)) (fork_by_episode rows) = of_nat (lt_unknown (lane_total_of lane rows worst))"
proof -
  have "length (filter (\<lambda>x. x = None) (map snd (last_charges rows))) = length (filter (\<lambda>p. snd p = None) (last_charges rows))"
    by (simp add: filter_map comp_def)
  then show ?thesis
    using fork_steps_sums [of u "[]" "last_charges rows" "fork_owners rows"] assms lane_total_known [OF assms, of lane worst]
    by (simp add: fork_by_episode_def charges_ok_def spend_ok_def lane_total_of_def)
qed

section \<open>The headline\<close>

text \<open>A request at its charge, or at the lane's worst case.\<close>

definition booked_val :: "decimal \<Rightarrow> decimal option \<Rightarrow> rat" where
  "booked_val worst c = (case c of Some d \<Rightarrow> dec_val d | None \<Rightarrow> dec_val worst)"

definition lane_val :: "jrow list \<Rightarrow> decimal \<Rightarrow> rat" where
  "lane_val rows worst = sum_list (map (\<lambda>p. booked_val worst (snd p)) (last_charges rows))"

definition lane_ok :: "int \<Rightarrow> jrow list \<Rightarrow> decimal \<Rightarrow> bool" where
  "lane_ok u rows worst \<longleftrightarrow> amount_ok u (lane_val rows worst) \<and> 0 \<le> dec_val worst \<and> on_grid u (dec_val worst) \<and>
     (\<forall>p\<in>set (last_charges rows). 0 \<le> charge_val (snd p) \<and> on_grid u (charge_val (snd p)))"

lemma lane_val_split:
  "sum_list (map (\<lambda>p. booked_val worst (snd p)) cs) =
   sum_list (map (\<lambda>p. charge_val (snd p)) cs) + dec_val worst * of_nat (length (filter (\<lambda>p. snd p = None) cs))"
  for cs :: "(string \<times> decimal option) list"
  by (induction cs) (auto simp: booked_val_def charge_val_def algebra_simps split: option.split)

lemma on_grid_times: "on_grid u x \<Longrightarrow> on_grid u (x * of_int n)"
  unfolding on_grid_def by (metis mult.commute mult.left_commute of_int_mult)

lemma lane_booked:
  assumes "lane_ok u rows worst"
  shows "dec_val (booked_usd (lane_total_of lane rows worst)) = lane_val rows worst"
proof -
  let ?cs = "last_charges rows" and ?t = "lane_total_of lane rows worst"
  let ?n = "length (filter (\<lambda>p. snd p = None) ?cs)"
  have n: "lt_unknown ?t = ?n" "lt_worst ?t = worst" by (simp_all add: lane_total_of_def filter_map comp_def)
  have ok: "amount_ok u (sum_list (map (\<lambda>p. charge_val (snd p)) ?cs) + dec_val worst * of_int (int ?n))"
    using assms lane_val_split [of worst ?cs] by (simp add: lane_ok_def lane_val_def)
  have s: "0 \<le> sum_list (map (\<lambda>p. charge_val (snd p)) ?cs)" "on_grid u (sum_list (map (\<lambda>p. charge_val (snd p)) ?cs))"
    using assms by (auto simp: lane_ok_def intro!: sum_list_nonneg on_grid_sum_list)
  have w: "0 \<le> dec_val worst * of_int (int ?n)" "on_grid u (dec_val worst * of_int (int ?n))"
    using assms by (simp_all only: lane_ok_def on_grid_times) simp
  have "charges_ok u ?cs"
    using assms s w by (auto simp: charges_ok_def lane_ok_def intro!: amount_ok_less [OF ok])
  then have k: "dec_val (lt_known ?t) = sum_list (map (\<lambda>p. charge_val (snd p)) ?cs)" by (rule lane_total_known)
  have t: "dec_val (dec_times worst (int ?n)) = dec_val worst * of_int (int ?n)"
    using s w by (intro dec_times_amount [where u = u] amount_ok_less [OF ok]) simp_all
  have "dec_val (booked_usd ?t) = dec_val (lt_known ?t) + dec_val (dec_times worst (int ?n))"
    unfolding booked_usd_def n using ok by (intro dec_add_amount [where u = u]) (simp only: k t)
  then show ?thesis unfolding k t lane_val_def lane_val_split by simp
qed

definition headline_ok :: "int \<Rightarrow> (string \<times> jrow list) list \<Rightarrow> (string \<times> decimal) list \<Rightarrow> bool" where
  "headline_ok u journals worst \<longleftrightarrow> (\<forall>(l, rows)\<in>set journals. lane_ok u rows (dict_get worst l dec_zero)) \<and>
     amount_ok u (sum_list (map (\<lambda>(l, rows). lane_val rows (dict_get worst l dec_zero)) journals))"

lemma lane_val_nonneg: "lane_ok u rows worst \<Longrightarrow> 0 \<le> lane_val rows worst \<and> on_grid u (lane_val rows worst)"
  by (simp add: lane_ok_def amount_ok_def)

text \<open>
  C27. The headline books every call of every lane. A run is reported only for a positive number of instances, over
  known lanes, each with a worst case; then its USD is the sum over all requests of every lane of the request's last
  charge or, where it has none, of the lane's worst case (never nothing), it is marked a lower bound exactly when
  some request has no charge, and no rounding moves it (amounts of fewer than 27 digits on one grid).
\<close>

theorem headline_books_every_call:
  assumes "run_headline journals instances worst = Inr h" "headline_ok u journals worst"
  shows "0 < instances \<and> (\<forall>l\<in>set (keys_of journals). l \<in> set METER_LANES \<and> map_of worst l \<noteq> None) \<and>
    dec_val (hd_usd h) = sum_list (map (\<lambda>(l, rows). lane_val rows (dict_get worst l dec_zero)) journals) \<and>
    (hd_lower_bound h \<longleftrightarrow> (\<exists>(l, rows)\<in>set journals. \<exists>p\<in>set (last_charges rows). snd p = None))"
proof -
  let ?ts = "map (\<lambda>(l, rows). lane_total_of l rows (dict_get worst l dec_zero)) journals"
  have h: "0 < instances" "sorted_set (filter (\<lambda>l. map_of worst l = None) (keys_of journals)) = []"
    "find (\<lambda>l. l \<notin> set METER_LANES) (keys_of journals) = None"
    "hd_usd h = dec_sum (map booked_usd ?ts)" "hd_lower_bound h \<longleftrightarrow> sum_list (map lt_unknown ?ts) \<noteq> 0"
    using assms(1) by (simp_all add: run_headline_def Let_def split: if_splits option.splits del: sum_list_eq_0_iff)
       (auto simp del: sum_list_eq_0_iff)
  have ok: "lane_ok u rows (dict_get worst l dec_zero)" if "(l, rows) \<in> set journals" for l rows
    using assms(2) that by (auto simp: headline_ok_def)
  have b: "map dec_val (map booked_usd ?ts) = map (\<lambda>(l, rows). lane_val rows (dict_get worst l dec_zero)) journals"
    using lane_booked [OF ok] by (auto simp: comp_def)
  have "\<forall>d\<in>set (map booked_usd ?ts). 0 \<le> dec_val d \<and> on_grid u (dec_val d)"
    using lane_booked [OF ok] lane_val_nonneg [OF ok] by auto
  then have "dec_val (dec_sum (map booked_usd ?ts)) = sum_list (map (\<lambda>(l, rows). lane_val rows (dict_get worst l dec_zero)) journals)"
    using assms(2) dec_sum_exact [of u "map booked_usd ?ts"] unfolding b headline_ok_def by blast
  note sum = this
  have un: "(\<exists>t\<in>set ?ts. lt_unknown t \<noteq> 0) \<longleftrightarrow> (\<exists>(l, rows)\<in>set journals. \<exists>p\<in>set (last_charges rows). snd p = None)"
    by (force simp: lane_total_of_def filter_empty_conv)
  have pos: "sum_list (map lt_unknown ?ts) \<noteq> 0 \<longleftrightarrow> (\<exists>t\<in>set ?ts. lt_unknown t \<noteq> 0)" by (simp add: sum_list_eq_0_iff)
  have "\<forall>l\<in>set (keys_of journals). l \<in> set METER_LANES \<and> map_of worst l \<noteq> None"
    using h(2,3) by (auto simp: find_None_iff filter_empty_conv)
  then show ?thesis unfolding h(4,5) sum pos un by (intro conjI h(1) refl)
qed

end
