(* ===== verification/MeteringSample.thy ===== *)
theory MeteringSample imports MeteringViews MeteringLanes
begin

text \<open>The books of a small run: a pass that read three entries and was handed a fourth, and two lanes' journals.\<close>

section \<open>The books of a pass\<close>

theorem split_equal_conserves_witness:
  "\<exists>b r. split_equal (Dec 1 (-1)) 3 = Some [b, b, r] \<and> dec_val b + (dec_val b + dec_val r) = 1 / 10"
proof -
  have "on_grid QUANTUM_EXP (1 / 10)" unfolding on_grid_def QUANTUM_EXP_def
    by (intro exI [of _ "10 ^ 11"]) (simp add: power_int_def power_divide)
  then have "amount_ok QUANTUM_EXP (dec_val (Dec 1 (-1)))"
    by (simp add: amount_ok_def dec_val_Dec QUANTUM_EXP_def power_int_def power_divide)
  from split_equal_conserves [OF order_refl this, of 3] show ?thesis
    by (auto simp: numeral_3_eq_3 dec_val_Dec power_int_def)
qed

definition sample_pass :: jrow where
  "sample_pass = [(''pass_id'', JStr ''p1''),
     (''entries'', JObj [(''handed'', JArr [JStr ''e1'', JStr ''e2'', JStr ''e3'', JStr ''e4'']), (''taken'', JArr []),
        (''read'', JArr [JStr ''e1'', JStr ''e2'', JStr ''e3'']), (''closed'', JArr [JStr ''e1'', JStr ''e2''])]),
     (''usd'', JObj [(''known'', JStr ''0.1''), (''unknown_calls'', JInt 0), (''worst_case_booked'', JStr ''0''),
        (''killed_turns'', JInt 0)]),
     (''episodes_seq_at_end'', JInt 4)]"

definition sample_closes :: "jrow list" where
  "sample_closes =
    [[(''op'', JStr ''close''), (''entry'', JStr ''e1''), (''items'', JArr [JStr ''a'', JStr ''b''])],
     [(''op'', JStr ''close''), (''entry'', JStr ''e2''), (''items'', JArr [JStr ''a''])]]"

lemma sample_known: "known_usd sample_pass = Some (Dec 1 (-1))"
  by code_simp

lemma sample_read: "read_entries_of sample_pass = [''e1'', ''e2'', ''e3'']"
  by code_simp

lemma sample_closures: "closures sample_closes = [(''e1'', [''a'', ''b'']), (''e2'', [''a''])]"
  by code_simp

lemma sample_grid: "on_grid QUANTUM_EXP (1 / 10)" "dec_val (Dec 1 (-1)) = 1 / 10"
proof -
  show "on_grid QUANTUM_EXP (1 / 10)" unfolding on_grid_def QUANTUM_EXP_def
    by (intro exI [of _ "10 ^ 11"]) (simp add: power_int_def power_divide)
qed (simp add: dec_val_Dec power_int_def)

lemma sample_books: "books_ok QUANTUM_EXP sample_closes [sample_pass]"
  by (simp add: sample_grid books_ok_def pass_known_def sample_known sample_read sample_closures amount_ok_def)
     (simp add: QUANTUM_EXP_def power_int_def power_divide)

theorem books_balance_witness:
  "\<exists>es its. entries_view [sample_pass] = Some es \<and>
    items_view sample_closes (\<lambda>i s. None) None [sample_pass] es = Some its \<and>
    (\<forall>t. summary [sample_pass] es its = Some t \<longrightarrow> dec_val (to_entries t) = 1 / 10 \<and>
       dec_val (to_items t) + dec_val (to_no_yield t) = 1 / 10)"
proof -
  have k: "sum_list (map pass_known [sample_pass]) = 1 / 10" using sample_grid(2) by (simp add: pass_known_def sample_known)
  show ?thesis using books_balance [OF sample_books, of "\<lambda>i s. None" None] unfolding k by (elim exE conjE) (intro exI conjI, assumption+, auto)
qed

section \<open>The lanes of a run\<close>

definition sample_rows :: "jrow list" where
  "sample_rows =
    [[(''request_attempt_id'', JStr ''r1''), (''unify_meta'', JObj [(''session'', JStr ''fork.ep1'')])],
     [(''request_attempt_id'', JStr ''r2'')],
     [(''request_attempt_id'', JStr ''r1''), (''account_charge'', JStr ''0.25'')]]"

lemma sample_charges: "last_charges sample_rows = [(''r1'', Some (Dec 25 (-2))), (''r2'', None)]"
  by code_simp

lemma quarter_grid: "on_grid QUANTUM_EXP (1 / 4)" "on_grid QUANTUM_EXP (3 / 4)" "on_grid QUANTUM_EXP (1 / 2)"
  "dec_val (Dec 25 (-2)) = 1 / 4" "dec_val (Dec 5 (-1)) = 1 / 2"
proof -
  show "on_grid QUANTUM_EXP (1 / 4)" unfolding on_grid_def QUANTUM_EXP_def
    by (intro exI [of _ "25 * 10 ^ 10"]) (simp add: power_int_def power_divide)
  show "on_grid QUANTUM_EXP (3 / 4)" unfolding on_grid_def QUANTUM_EXP_def
    by (intro exI [of _ "75 * 10 ^ 10"]) (simp add: power_int_def power_divide)
  show "on_grid QUANTUM_EXP (1 / 2)" unfolding on_grid_def QUANTUM_EXP_def
    by (intro exI [of _ "5 * 10 ^ 11"]) (simp add: power_int_def power_divide)
qed (simp_all add: dec_val_Dec power_int_def power_divide)

theorem fork_episodes_are_the_lane_witness:
  "ep_sum (\<lambda>s. dec_val (ep_known s)) (fork_by_episode sample_rows) = 1 / 4 \<and>
   ep_sum (\<lambda>s. of_nat (ep_requests s)) (fork_by_episode sample_rows) = 2 \<and>
   ep_sum (\<lambda>s. of_nat (ep_unknown s)) (fork_by_episode sample_rows) = 1"
proof -
  have ok: "charges_ok QUANTUM_EXP (last_charges sample_rows)"
    by (simp add: quarter_grid charges_ok_def sample_charges charge_val_def amount_ok_def)
      (simp add: QUANTUM_EXP_def power_int_def power_divide)
  note p = fork_episodes_are_the_lane [OF ok, of "''fork''" "Dec 5 (-1)"]
  have "dec_val (lt_known (lane_total_of ''fork'' sample_rows (Dec 5 (-1)))) = 1 / 4"
    using lane_total_known [OF ok] quarter_grid(4) by (simp add: sample_charges charge_val_def)
  then show ?thesis using p by (simp add: lane_total_of_def sample_charges)
qed

theorem headline_books_every_call_witness:
  "\<exists>h. run_headline [(''fork'', sample_rows)] 2 [(''fork'', Dec 5 (-1))] = Inr h \<and> dec_val (hd_usd h) = 3 / 4 \<and> hd_lower_bound h"
proof -
  have l: "map_of [(''fork'', Dec 5 (-1))] ''fork'' = Some (Dec 5 (-1))" "''fork'' \<in> set METER_LANES" by (simp, code_simp)
  obtain h where h: "run_headline [(''fork'', sample_rows)] 2 [(''fork'', Dec 5 (-1))] = Inr h"
    using l by (simp add: run_headline_def Let_def)
  have "headline_ok QUANTUM_EXP [(''fork'', sample_rows)] [(''fork'', Dec 5 (-1))]"
    by (simp add: quarter_grid headline_ok_def lane_ok_def lane_val_def sample_charges booked_val_def charge_val_def dict_get_def amount_ok_def)
      (simp add: QUANTUM_EXP_def power_int_def power_divide)
  from headline_books_every_call [OF h this] show ?thesis
    using h quarter_grid by (auto simp: lane_val_def sample_charges booked_val_def dict_get_def)
qed

end
