(* ===== verification/CandidatePool.thy ===== *)
theory CandidatePool imports Manifest RunEntry
begin

text \<open>
  The candidate pool (\<open>unify/memory/pool.py\<close>): the proposals of all passes, kept until the writer settles them.
  Here are an entry and its evidence (\<open>Entry\<close>), the pool's reading and writing as a tree of files (\<open>load\<close>,
  \<open>save\<close>), its lists, the links to closed entries (\<open>related_closed\<close>), and what feeds it (\<open>upsert\<close>,
  \<open>add_evidence\<close>, \<open>set_status\<close>, \<open>enter_staging\<close>, \<open>enter_captures\<close>, \<open>from_staging\<close>, \<open>from_capture\<close>,
  \<open>deferred\<close>, \<open>draft\<close>).

  The keys of an entry's \<open>data\<close> the pool itself changes are fields of their own: \<open>instances\<close>, \<open>new_evidence\<close>
  and \<open>evidence\<close>, absent when empty. \<open>pool_world\<close> holds what the code computes with the standard library over
  text: the digest of a content key, JSON texts, the title read from a payload's syntax tree, and the normalised code
  units of a payload file. The blob of an \<open>entry.json\<close> is what it parses to.
\<close>

section \<open>Entries\<close>

definition POOL_KINDS :: "string list" where
  "POOL_KINDS = [''candidate'', ''lesson'', ''draft'', ''deferred'', ''capture'', ''failure'']"

definition POOL_ORDER :: "string list" where
  "POOL_ORDER = [''candidate'', ''capture'', ''lesson'', ''failure'', ''deferred'', ''draft'']"

definition POOL_STATUSES :: "string list" where
  "POOL_STATUSES = [''open'', ''merged'', ''superseded'', ''retired'']"

definition BLOCK_KEYS :: "string list" where
  "BLOCK_KEYS = [''merged'', ''superseded'', ''retired'', ''reopened'']"

record provenance =
  pv_episodes :: "string list"
  pv_passes :: "string list"
  pv_sources :: "string list"

record pool_entry =
  ce_id :: string
  ce_kind :: string
  ce_title :: string
  ce_status :: string
  ce_detail :: jrow
  ce_prov :: provenance
  ce_opened :: string
  ce_changed :: string
  ce_data :: jrow
  ce_instances :: "json list"
  ce_news :: "(string \<times> string list) list"
  ce_evidence :: "(string \<times> string \<times> string) list"
  ce_files :: "(string \<times> string) list"
  ce_refs :: "string list"

record pool_world =
  pw_hash :: "string \<Rightarrow> string"
  pw_json :: "json \<Rightarrow> string"
  pw_pretty :: "json \<Rightarrow> string"
  pw_title :: "pool_entry \<Rightarrow> string"
  pw_units :: "string \<Rightarrow> string \<Rightarrow> string list"

definition new_entry :: "string \<Rightarrow> string \<Rightarrow> string \<Rightarrow> pool_entry" where
  "new_entry eid kind title = \<lparr>ce_id = eid, ce_kind = kind, ce_title = title, ce_status = ''open'', ce_detail = [],
     ce_prov = \<lparr>pv_episodes = [], pv_passes = [], pv_sources = []\<rparr>, ce_opened = [], ce_changed = [], ce_data = [],
     ce_instances = [], ce_news = [], ce_evidence = [], ce_files = [], ce_refs = []\<rparr>"

definition entry_id :: "pool_world \<Rightarrow> string \<Rightarrow> string \<Rightarrow> string" where
  "entry_id W kind key = pw_hash W (kind @ CHR 0x00 # key)"

definition safe_rel :: "string \<Rightarrow> bool" where
  "safe_rel rel \<longleftrightarrow> rel \<noteq> [] \<and> \<not> starts_with ''/'' rel \<and> CHR 0x5C \<notin> set rel \<and> CHR 0x00 \<notin> set rel \<and>
     list_all (\<lambda>part. part \<notin> {[], ''.'', ''..''}) (split_on (CHR ''/'') rel)"

text \<open>Values added to a list that are not in it, in order, each once.\<close>

fun add_new :: "'a list \<Rightarrow> 'a list \<Rightarrow> 'a list" where
  "add_new have [] = have"
| "add_new have (v # vs) = (if v \<in> set have then add_new have vs else add_new (have @ [v]) vs)"

definition add_prov :: "string list \<Rightarrow> string list \<Rightarrow> string list \<Rightarrow> pool_entry \<Rightarrow> pool_entry" where
  "add_prov eps passes srcs e = e\<lparr>ce_prov := \<lparr>pv_episodes = add_new (pv_episodes (ce_prov e)) eps,
     pv_passes = add_new (pv_passes (ce_prov e)) passes, pv_sources = add_new (pv_sources (ce_prov e)) srcs\<rparr>\<rparr>"

text \<open>What \<open>add_provenance\<close> returns: the episodes new to the entry.\<close>

definition new_episodes :: "string list \<Rightarrow> pool_entry \<Rightarrow> string list" where
  "new_episodes eps e = drop (length (pv_episodes (ce_prov e))) (add_new (pv_episodes (ce_prov e)) eps)"

fun note_row :: "(string \<times> string list) list \<Rightarrow> string \<Rightarrow> string list \<Rightarrow> (string \<times> string list) list" where
  "note_row [] pid eps = [(pid, eps)]"
| "note_row ((p, es) # rows) pid eps =
    (if p = pid then (p, es @ filter (\<lambda>e. e \<notin> set es) eps) # rows else (p, es) # note_row rows pid eps)"

definition note_new_evidence :: "string list \<Rightarrow> string \<Rightarrow> pool_entry \<Rightarrow> pool_entry" where
  "note_new_evidence eps pid e =
    (if ce_status e = ''open'' \<or> eps = [] then e else e\<lparr>ce_news := note_row (ce_news e) pid eps\<rparr>)"

definition new_evidence_episodes :: "pool_entry \<Rightarrow> string list" where
  "new_evidence_episodes e = dedup (concat (map snd (ce_news e)))"

section \<open>The pool\<close>

record pool =
  cp_entries :: "(string \<times> pool_entry) list"
  cp_staged :: "(string \<times> string) list"
  cp_captures :: "(string \<times> string) list"

definition kind_rank :: "string \<Rightarrow> nat" where
  "kind_rank k = (if k \<in> set POOL_ORDER then length (takeWhile (\<lambda>x. x \<noteq> k) POOL_ORDER) else 99)"

definition order_key :: "pool_entry \<Rightarrow> nat \<times> string \<times> string" where
  "order_key e = (kind_rank (ce_kind e), ce_opened e, ce_id e)"

definition open_entries :: "pool \<Rightarrow> pool_entry list" where
  "open_entries p = sort_key order_key (filter (\<lambda>e. ce_status e = ''open'') (map snd (cp_entries p)))"

definition closed_entries :: "pool \<Rightarrow> pool_entry list" where
  "closed_entries p = sort_key order_key (filter (\<lambda>e. ce_status e \<noteq> ''open'') (map snd (cp_entries p)))"

definition closed_with_new_evidence :: "pool \<Rightarrow> pool_entry list" where
  "closed_with_new_evidence p = sort_key order_key
     (filter (\<lambda>e. ce_status e \<noteq> ''open'' \<and> new_evidence_episodes e \<noteq> []) (map snd (cp_entries p)))"

definition put_entry :: "pool_entry \<Rightarrow> pool \<Rightarrow> pool" where
  "put_entry e p = p\<lparr>cp_entries := dict_put (ce_id e) e (cp_entries p)\<rparr>"

section \<open>Reading and writing\<close>

datatype blob = Doc "pool_entry option" | Plain string

record tree_row =
  tr_mode :: string
  tr_type :: string
  tr_path :: string
  tr_blob :: blob

datatype skipped = Outside string | Bad_Kind_Or_Id string | Not_Plain string | Bad_Entry string string

record scan =
  sc_dirs :: "((string \<times> string) \<times> (string \<times> blob) list) list"
  sc_bad :: "(string \<times> string) list"
  sc_skipped :: "skipped list"

definition scan_row :: "scan \<Rightarrow> tree_row \<Rightarrow> scan" where
  "scan_row s r =
    (case split_on (CHR ''/'') (tr_path r) of
       base # kind # eid # rel_head # rel_tail \<Rightarrow>
         (if base \<noteq> ''pool'' then s\<lparr>sc_skipped := sc_skipped s @ [Outside (take 120 (tr_path r))]\<rparr>
          else let rel = join_str ''/'' (rel_head # rel_tail) in
            if kind \<notin> set POOL_KINDS \<or> \<not> is_hex16 eid then s\<lparr>sc_skipped := sc_skipped s @ [Bad_Kind_Or_Id (take 120 (tr_path r))]\<rparr>
            else if tr_mode r \<noteq> ''100644'' \<or> tr_type r \<noteq> ''blob'' \<or> \<not> safe_rel rel
            then s\<lparr>sc_skipped := sc_skipped s @ [Not_Plain (take 120 (tr_path r))], sc_bad := sc_bad s @ [(kind, eid)]\<rparr>
            else s\<lparr>sc_dirs := dict_put (kind, eid) (dict_get (sc_dirs s) (kind, eid) [] @ [(rel, tr_blob r)]) (sc_dirs s)\<rparr>)
     | _ \<Rightarrow> s\<lparr>sc_skipped := sc_skipped s @ [Outside (take 120 (tr_path r))]\<rparr>)"

definition payload :: "(string \<times> blob) list \<Rightarrow> (string \<times> string) list" where
  "payload rels = List.map_filter (\<lambda>(rel, b). if rel = ''entry.json'' then None
     else case b of Plain t \<Rightarrow> Some (rel, t) | Doc d \<Rightarrow> Some (rel, [])) rels"

definition entry_of_dir :: "pool_world \<Rightarrow> string \<Rightarrow> string \<Rightarrow> (string \<times> blob) list \<Rightarrow> pool_entry option" where
  "entry_of_dir W kind eid rels =
    (case map_of rels ''entry.json'' of
       Some (Doc (Some m)) \<Rightarrow>
         if ce_id m \<noteq> eid \<or> ce_kind m \<noteq> kind then None
         else let e = m\<lparr>ce_status := (if ce_status m \<in> set POOL_STATUSES then ce_status m else ''open''),
                        ce_files := payload rels, ce_refs := []\<rparr>
              in Some (e\<lparr>ce_title := pw_title W e\<rparr>)
     | _ \<Rightarrow> None)"

definition load_dir :: "pool_world \<Rightarrow> scan \<Rightarrow> (string \<times> pool_entry) list \<times> skipped list \<Rightarrow>
    (string \<times> string) \<times> (string \<times> blob) list \<Rightarrow> (string \<times> pool_entry) list \<times> skipped list" where
  "load_dir W s acc d = (case d of ((kind, eid), rels) \<Rightarrow>
     (case (if (kind, eid) \<in> set (sc_bad s) then None else entry_of_dir W kind eid rels) of
        None \<Rightarrow> (fst acc, snd acc @ [Bad_Entry kind eid])
      | Some e \<Rightarrow> (dict_put eid e (fst acc), snd acc)))"

definition load_pool :: "pool_world \<Rightarrow> tree_row list \<Rightarrow> pool \<times> skipped list" where
  "load_pool W rows =
    (let s = foldl scan_row \<lparr>sc_dirs = [], sc_bad = [], sc_skipped = []\<rparr> rows;
         (es, sk) = foldl (load_dir W s) ([], sc_skipped s) (sort_key fst (sc_dirs s))
     in (\<lparr>cp_entries = es, cp_staged = [], cp_captures = []\<rparr>, sk))"

definition entry_path :: "pool_entry \<Rightarrow> string \<Rightarrow> string" where
  "entry_path e rel = ''pool/'' @ ce_kind e @ ''/'' @ ce_id e @ ''/'' @ rel"

definition blob_row :: "pool_entry \<Rightarrow> string \<Rightarrow> blob \<Rightarrow> tree_row" where
  "blob_row e rel b = \<lparr>tr_mode = ''100644'', tr_type = ''blob'', tr_path = entry_path e rel, tr_blob = b\<rparr>"

text \<open>\<open>meta\<close>: what \<open>entry.json\<close> says, which is all but the payload and the staging refs.\<close>

definition meta :: "pool_entry \<Rightarrow> pool_entry" where
  "meta e = e\<lparr>ce_files := [], ce_refs := []\<rparr>"

definition entry_rows :: "pool_entry \<Rightarrow> tree_row list" where
  "entry_rows e = blob_row e ''entry.json'' (Doc (Some (meta e))) # map (\<lambda>(rel, t). blob_row e rel (Plain t)) (ce_files e)"

definition save_tree :: "pool \<Rightarrow> tree_row list" where
  "save_tree p = concat (map entry_rows (map snd (cp_entries p)))"

section \<open>Links to closed entries\<close>

text \<open>The code of an entry: its Python files and the Python lines a diff adds, as units by payload file.\<close>

definition entry_units :: "pool_world \<Rightarrow> pool_entry \<Rightarrow> (string \<times> string list) list" where
  "entry_units W e = filter (\<lambda>(rel, us). us \<noteq> [])
     (map (\<lambda>(rel, t). (rel, sorted_set (pw_units W rel t)))
       (filter (\<lambda>(rel, t). ends_with ''.py'' rel \<or> ends_with ''.diff'' rel) (sort_key fst (ce_files e))))"

record closing =
  cl_id :: string
  cl_kind :: string
  cl_title :: string
  cl_status :: string
  cl_reason :: string
  cl_closed_in :: string
  cl_episodes :: "string list"

definition closing_reason :: "pool_entry \<Rightarrow> string" where
  "closing_reason e = (let d = ce_detail e in
     if ce_status e = ''merged'' then ''merged into '' @ str_of (jget d ''item'') @
       (if jget d ''via'' = JStr ''adopts'' then '' (adopted)'' else [])
     else if ce_status e = ''superseded'' \<and> \<not> falsy (jget d ''by'') then ''superseded by '' @ str_of (jget d ''by'')
     else text_or_empty (jget d ''reason''))"

definition closing_of :: "pool_entry \<Rightarrow> closing" where
  "closing_of e = \<lparr>cl_id = ce_id e, cl_kind = ce_kind e, cl_title = ce_title e, cl_status = ce_status e,
     cl_reason = closing_reason e,
     cl_closed_in = (if falsy (jget (ce_detail e) ''pass'') then ce_changed e else text_or_empty (jget (ce_detail e) ''pass'')),
     cl_episodes = pv_episodes (ce_prov e)\<rparr>"

text \<open>\<open>_closed_index\<close>: the units of each closed entry, and the closed entries of each episode. It is kept with a signature
  of the closed entries and rebuilt when that has changed.\<close>

type_synonym closed_index = "(string \<times> string list) list \<times> (string \<times> string list) list"
type_synonym index_sig = "(string \<times> string \<times> string list \<times> string list) list"

definition index_sig :: "pool_entry list \<Rightarrow> index_sig" where
  "index_sig closed = map (\<lambda>e. (ce_id e, ce_status e, sort (map fst (ce_files e)), pv_episodes (ce_prov e))) closed"

definition cite :: "string \<Rightarrow> (string \<times> string list) list \<Rightarrow> string \<Rightarrow> (string \<times> string list) list" where
  "cite eid by_ep ep = dict_put ep (sorted_set (eid # dict_get by_ep ep [])) by_ep"

definition fresh_index :: "pool_world \<Rightarrow> pool_entry list \<Rightarrow> closed_index" where
  "fresh_index W closed =
    (map (\<lambda>e. (ce_id e, sorted_set (concat (map snd (entry_units W e))))) closed,
     foldl (\<lambda>d e. foldl (cite (ce_id e)) d (pv_episodes (ce_prov e))) [] closed)"

definition closed_index :: "pool_world \<Rightarrow> (index_sig \<times> closed_index) option \<Rightarrow> pool \<Rightarrow> index_sig \<times> closed_index" where
  "closed_index W kept p =
    (let closed = closed_entries p; sg = index_sig closed in
     case kept of
       Some (s, ix) \<Rightarrow> if s = sg then (s, ix) else (sg, fresh_index W closed)
     | None \<Rightarrow> (sg, fresh_index W closed))"

type_synonym hit = "(string \<times> nat) list \<times> string list"

definition share_code :: "string list \<Rightarrow> closed_index \<Rightarrow> (string \<times> hit) list \<Rightarrow> string \<times> string list \<Rightarrow> (string \<times> hit) list" where
  "share_code skip ix hits lk = (case lk of (label, keys) \<Rightarrow>
     foldl (\<lambda>h (cid, theirs). let n = length (filter (\<lambda>k. k \<in> set theirs) (dedup keys)) in
         if cid \<in> set skip \<or> n = 0 then h
         else case dict_get h cid ([], []) of (code, eps) \<Rightarrow> dict_put cid (dict_put label n code, eps) h) hits (fst ix))"

definition share_episode :: "string list \<Rightarrow> closed_index \<Rightarrow> (string \<times> hit) list \<Rightarrow> string \<Rightarrow> (string \<times> hit) list" where
  "share_episode skip ix hits ep =
    foldl (\<lambda>h cid. if cid \<in> set skip then h
        else case dict_get h cid ([], []) of (code, eps) \<Rightarrow>
          dict_put cid (code, if ep \<in> set eps then eps else eps @ [ep]) h)
      hits (sort (dict_get (snd ix) ep []))"

definition related_closed :: "closed_index \<Rightarrow> pool \<Rightarrow> (string \<times> string list) list \<Rightarrow> string list \<Rightarrow> string list \<Rightarrow>
    (closing \<times> hit) list" where
  "related_closed ix p code episodes exclude =
    (let hits = foldl (share_episode exclude ix) (foldl (share_code exclude ix) [] (sort_key fst code)) episodes
     in map (\<lambda>e. (closing_of e, dict_get hits (ce_id e) ([], [])))
          (sort_key order_key (List.map_filter (\<lambda>cid. map_of (cp_entries p) cid) (keys_of hits))))"

definition related_to_entry :: "pool_world \<Rightarrow> closed_index \<Rightarrow> pool \<Rightarrow> pool_entry \<Rightarrow> (closing \<times> hit) list" where
  "related_to_entry W ix p e = related_closed ix p (entry_units W e) (pv_episodes (ce_prov e)) [ce_id e]"

section \<open>Changes\<close>

text \<open>The payload files and data keys an entry of a kind takes from its newest version.\<close>

definition REFRESHED :: "string \<Rightarrow> string list" where
  "REFRESHED kind = (if kind = ''capture'' \<or> kind = ''failure'' then [''record.json'', ''broke.md''] else [])"

definition REFRESHED_DATA :: "string \<Rightarrow> string list" where
  "REFRESHED_DATA kind = (if kind = ''capture'' \<or> kind = ''failure'' then [''outcome''] else [])"

definition take_file :: "string \<Rightarrow> (string \<times> string) list \<Rightarrow> string \<times> string \<Rightarrow> (string \<times> string) list" where
  "take_file kind fs f = (if fst f \<in> set (REFRESHED kind) \<or> fst f \<notin> set (keys_of fs) then dict_put (fst f) (snd f) fs else fs)"

definition take_data :: "jrow \<Rightarrow> jrow \<Rightarrow> string \<Rightarrow> jrow" where
  "take_data new have key = (case map_of new key of Some v \<Rightarrow> dict_put key v have | None \<Rightarrow> have)"

text \<open>An entry with the id of one the pool holds: its evidence, instances, files and refs join that one.\<close>

definition joined_entry :: "pool_entry \<Rightarrow> string \<Rightarrow> pool_entry \<Rightarrow> pool_entry" where
  "joined_entry e pid have =
    (let h1 = note_new_evidence (new_episodes (pv_episodes (ce_prov e)) have) pid
                (add_prov (pv_episodes (ce_prov e)) (pv_passes (ce_prov e)) (pv_sources (ce_prov e)) have);
         h2 = h1\<lparr>ce_instances := ce_instances h1 @ filter (\<lambda>i. i \<notin> set (ce_instances h1)) (ce_instances e),
                 ce_files := foldl (take_file (ce_kind have)) (ce_files h1) (ce_files e),
                 ce_data := foldl (take_data (ce_data e)) (ce_data h1) (REFRESHED_DATA (ce_kind have)),
                 ce_refs := add_new (ce_refs h1) (ce_refs e)\<rparr>
     in if h2\<lparr>ce_refs := []\<rparr> = have\<lparr>ce_refs := []\<rparr> then h2 else h2\<lparr>ce_changed := pid\<rparr>)"

definition added_entry :: "pool_world \<Rightarrow> pool_entry \<Rightarrow> string \<Rightarrow> pool_entry" where
  "added_entry W e pid = (let e1 = e\<lparr>ce_opened := (if ce_opened e = [] then pid else ce_opened e), ce_changed := pid\<rparr>
     in e1\<lparr>ce_title := pw_title W e1\<rparr>)"

definition upsert :: "pool_world \<Rightarrow> pool_entry \<Rightarrow> string \<Rightarrow> pool \<Rightarrow> pool" where
  "upsert W e pid p = (case map_of (cp_entries p) (ce_id e) of
     None \<Rightarrow> put_entry (added_entry W e pid) p
   | Some have \<Rightarrow> p\<lparr>cp_entries := dict_put (ce_id e) (joined_entry e pid have) (cp_entries p)\<rparr>)"

definition evidence_entry :: "string \<Rightarrow> string \<Rightarrow> string \<Rightarrow> pool_entry \<Rightarrow> pool_entry" where
  "evidence_entry episode reason pid e =
    (let e1 = note_new_evidence (new_episodes [episode] e) pid (add_prov [episode] [pid] [''writer''] e);
         row = (episode, reason, pid)
     in e1\<lparr>ce_evidence := (if row \<in> set (ce_evidence e1) then ce_evidence e1 else ce_evidence e1 @ [row]), ce_changed := pid\<rparr>)"

definition add_evidence :: "string \<Rightarrow> string \<Rightarrow> string \<Rightarrow> string \<Rightarrow> pool \<Rightarrow> bool \<times> pool" where
  "add_evidence eid episode reason pid p = (case map_of (cp_entries p) eid of
     None \<Rightarrow> (False, p)
   | Some e \<Rightarrow> (True, p\<lparr>cp_entries := dict_put eid (evidence_entry episode reason pid e) (cp_entries p)\<rparr>))"

definition status_entry :: "string \<Rightarrow> jrow \<Rightarrow> string \<Rightarrow> pool_entry \<Rightarrow> pool_entry" where
  "status_entry status detail pid e = e\<lparr>ce_status := status, ce_detail := dict_put ''pass'' (JStr pid) detail, ce_changed := pid,
     ce_news := (if status = ''open'' then [] else ce_news e)\<rparr>"

text \<open>The code raises for an id the pool does not hold; every caller has looked it up.\<close>

definition set_status :: "string \<Rightarrow> string \<Rightarrow> jrow \<Rightarrow> string \<Rightarrow> pool \<Rightarrow> pool" where
  "set_status eid status detail pid p = (case map_of (cp_entries p) eid of
     None \<Rightarrow> p
   | Some e \<Rightarrow> p\<lparr>cp_entries := dict_put eid (status_entry status detail pid e) (cp_entries p)\<rparr>)"

section \<open>What feeds the pool\<close>

definition is_line_break :: "char \<Rightarrow> bool" where
  "is_line_break c \<longleftrightarrow> (let n = (of_char c :: nat) in (10 \<le> n \<and> n \<le> 13) \<or> (28 \<le> n \<and> n \<le> 30) \<or> n = 133)"

fun text_lines :: "string \<Rightarrow> string list" where
  "text_lines [] = [[]]"
| "text_lines (c # s) =
    (if is_line_break c then [] # text_lines s else case text_lines s of l # ls \<Rightarrow> (c # l) # ls | [] \<Rightarrow> [[c]])"

definition strip_chars :: "char list \<Rightarrow> string \<Rightarrow> string" where
  "strip_chars cs s = rev (dropWhile (\<lambda>c. c \<in> set cs) (rev (dropWhile (\<lambda>c. c \<in> set cs) s)))"

text \<open>The lines that say something broke; empty lines fall away, so a break of two characters is as good as one.\<close>

definition broke_lines :: "string \<Rightarrow> string list" where
  "broke_lines t = filter (\<lambda>ln. ln \<noteq> [] \<and> lower (strip_chars ''-* '' ln) \<notin> {''none'', ''none.''}) (map strip (text_lines t))"

definition titled :: "pool_world \<Rightarrow> pool_entry \<Rightarrow> pool_entry" where
  "titled W e = e\<lparr>ce_title := pw_title W e\<rparr>"

record staging_view =
  sv_source :: string
  sv_files :: "(string \<times> string) list"

definition staging_ref :: "string \<Rightarrow> string \<Rightarrow> string" where
  "staging_ref eid rel = ''staging:'' @ eid @ ''/'' @ rel"

definition candidate_name :: "string \<Rightarrow> string option" where
  "candidate_name rel = (case strip_prefix ''candidates/'' rel of None \<Rightarrow> None | Some r \<Rightarrow> strip_suffix ''.py'' r)"

definition candidate_entry :: "pool_world \<Rightarrow> string \<Rightarrow> staging_view \<Rightarrow> string \<Rightarrow> string \<Rightarrow> string \<Rightarrow> pool_entry" where
  "candidate_entry W eid view rel name t =
    (let case_rel = ''cases/'' @ name @ ''.json'';
         files = (''candidate.py'', t) # (case map_of (sv_files view) case_rel of Some c \<Rightarrow> [(''cases.json'', c)] | None \<Rightarrow> []);
         refs = staging_ref eid rel # (case map_of (sv_files view) case_rel of Some c \<Rightarrow> [staging_ref eid case_rel] | None \<Rightarrow> []);
         key = pw_json W (JObj (map (\<lambda>(k, v). (k, JStr v)) files))
     in add_prov [eid] [] [sv_source view] (titled W ((new_entry (entry_id W ''candidate'' key) ''candidate'' [])
          \<lparr>ce_data := [(''name'', JStr name)], ce_files := files, ce_refs := refs\<rparr>)))"

definition lesson_entry :: "pool_world \<Rightarrow> string \<Rightarrow> staging_view \<Rightarrow> string \<Rightarrow> pool_entry" where
  "lesson_entry W eid view t = add_prov [eid] [] [sv_source view] (titled W ((new_entry (entry_id W ''lesson'' t) ''lesson'' [])
     \<lparr>ce_files := [(''notes.md'', t)], ce_refs := [staging_ref eid ''notes.md'']\<rparr>))"

definition failure_from_staging :: "pool_world \<Rightarrow> string \<Rightarrow> staging_view \<Rightarrow> pool_entry option" where
  "failure_from_staging W eid view =
    (case map_of (sv_files view) ''broke.md'' of
       None \<Rightarrow> None
     | Some b \<Rightarrow> if map_of (sv_files view) ''procedure.py'' \<noteq> None \<or> broke_lines b = [] then None
         else Some (add_prov [eid] [] [sv_source view] (titled W ((new_entry (entry_id W ''failure'' b) ''failure'' [])
           \<lparr>ce_files := [(''broke.md'', b)], ce_refs := [staging_ref eid ''broke.md'']\<rparr>))))"

definition from_staging :: "pool_world \<Rightarrow> string \<Rightarrow> staging_view \<Rightarrow> pool_entry list" where
  "from_staging W eid view =
    List.map_filter (\<lambda>(rel, t). map_option (\<lambda>name. candidate_entry W eid view rel name t) (candidate_name rel))
      (sort_key fst (sv_files view)) @
    (case map_of (sv_files view) ''notes.md'' of
       Some t \<Rightarrow> if strip t \<noteq> [] then [lesson_entry W eid view t] else [] | None \<Rightarrow> []) @
    (case failure_from_staging W eid view of Some e \<Rightarrow> [e] | None \<Rightarrow> [])"

record capture_doc =
  cd_record :: jrow
  cd_signature :: "jrow option"
  cd_procedure :: "string option"
  cd_broke :: "string option"

definition negative :: "jrow \<Rightarrow> bool" where
  "negative r \<longleftrightarrow> jget r ''outcome'' \<in> {JStr ''failed'', JStr ''contrary''}"

definition from_capture :: "pool_world \<Rightarrow> string \<Rightarrow> capture_doc \<Rightarrow> pool_entry" where
  "from_capture W cid doc =
    (let files = [(''record.json'', pw_pretty W (JObj (cd_record doc)))] @
           (case cd_signature doc of Some s \<Rightarrow> [(''signature.json'', pw_pretty W (JObj s))] | None \<Rightarrow> []) @
           (case cd_procedure doc of Some t \<Rightarrow> [(''procedure.py'', t)] | None \<Rightarrow> []) @
           (case cd_broke doc of Some b \<Rightarrow> (if broke_lines b \<noteq> [] then [(''broke.md'', b)] else []) | None \<Rightarrow> []);
         goal = (case cd_signature doc of Some s \<Rightarrow> jget s ''goal'' | None \<Rightarrow> JNull)
     in add_prov (str_items (jget (cd_record doc) ''episodes'')) [] [''capture'']
          ((new_entry (entry_id W ''capture'' cid) (if negative (cd_record doc) then ''failure'' else ''capture'') (''capture '' @ cid))
            \<lparr>ce_data := [(''id'', JStr cid), (''capture_id'', JStr cid), (''goal'', if falsy goal then JStr [] else goal),
                         (''outcome'', jget (cd_record doc) ''outcome'')],
             ce_files := files\<rparr>))"

definition deferred :: "pool_world \<Rightarrow> string \<Rightarrow> string \<Rightarrow> pool_entry" where
  "deferred W eid reason = add_prov [eid] [] [''writer''] (titled W ((new_entry (entry_id W ''deferred'' eid) ''deferred'' [])
     \<lparr>ce_data := [(''reason'', JStr reason)]\<rparr>))"

definition draft :: "pool_world \<Rightarrow> string \<Rightarrow> string \<Rightarrow> string \<Rightarrow> string list \<Rightarrow> pool_entry" where
  "draft W pid patch result refused = add_prov [] [pid] [''gate''] (titled W ((new_entry (entry_id W ''draft'' pid) ''draft''
      (''draft of pass '' @ pid @ '': '' @ (if refused = [] then ''no items'' else join_str '', '' (take 4 refused))))
     \<lparr>ce_data := [(''items'', jstrs refused)], ce_files := [(''patch.diff'', patch), (''gate.md'', result)]\<rparr>))"

text \<open>The entry of a batch episode the writer never opened (\<open>_unread_entry\<close> of the writer's pass).\<close>

definition unread_entry :: "pool_world \<Rightarrow> string \<Rightarrow> pool_entry" where
  "unread_entry W eid = add_prov [eid] [] [''writer'']
     (new_entry (entry_id W ''unread'' eid) ''unread'' (''episode '' @ eid @ '' was not opened by the writer''))"

section \<open>A pass's start\<close>

definition enter_one :: "pool_world \<Rightarrow> string \<Rightarrow> pool_entry \<Rightarrow> pool \<Rightarrow> pool" where
  "enter_one W pid e0 p = (let e = add_prov [] [pid] [] e0; q = upsert W e pid p
     in q\<lparr>cp_staged := foldl (\<lambda>d r. dict_put r (ce_id e) d) (cp_staged q) (ce_refs e)\<rparr>)"

definition enter_staging :: "pool_world \<Rightarrow> (string \<times> staging_view) list \<Rightarrow> string \<Rightarrow> pool \<Rightarrow> pool" where
  "enter_staging W views pid p =
    foldl (\<lambda>p (eid, view). foldl (\<lambda>p e. enter_one W pid e p) p (from_staging W eid view)) p (sort_key fst views)"

text \<open>A capture whose attempt was later found to fail becomes a failure entry.\<close>

definition enter_capture :: "pool_world \<Rightarrow> string \<Rightarrow> string \<times> capture_doc \<Rightarrow> pool \<Rightarrow> pool" where
  "enter_capture W pid cd p =
    (let e = add_prov [] [pid] [] (from_capture W (fst cd) (snd cd));
         p1 = (case map_of (cp_entries p) (ce_id e) of
                 Some have \<Rightarrow> if ce_kind have \<noteq> ce_kind e \<and> ce_status have = ''open''
                   then p\<lparr>cp_entries := dict_put (ce_id e) (have\<lparr>ce_kind := ce_kind e\<rparr>) (cp_entries p)\<rparr> else p
               | None \<Rightarrow> p)
     in upsert W e pid p1)"

definition enter_captures :: "pool_world \<Rightarrow> (string \<times> capture_doc) list \<Rightarrow> string \<Rightarrow> pool \<Rightarrow> pool" where
  "enter_captures W docs pid p = foldl (\<lambda>p cd. enter_capture W pid cd p) p (sort_key fst docs)"

end
