(* ===== verification/CandidatePoolBlock.thy ===== *)
theory CandidatePoolBlock imports CandidatePool
begin

text \<open>
  The writer's status changes of the candidate pool (\<open>adopted_entries\<close>, \<open>_adopts_of\<close>, \<open>block_problems\<close>,
  \<open>apply_block\<close>, \<open>close_captures\<close> of \<open>unify/memory/pool.py\<close>), what a pass does to the pool when it ends
  (\<open>_pool_update\<close> of \<open>unify/memory/writer_pass.py\<close>, \<open>defer_rows\<close> and \<open>without_defer\<close> of \<open>writer_tools.py\<close>), and what
  is offered in the place of a capture the writer withdrew (\<open>withdrawn_captures\<close>).

  A manifest is a JSON value of any shape. One whose \<open>items\<close> is a number raises in the code before anything of the
  pool changes; here it lists no items.
\<close>

section \<open>What a manifest says of the pool\<close>

definition list_items :: "json \<Rightarrow> json list" where
  "list_items v = (case v of JArr xs \<Rightarrow> xs | _ \<Rightarrow> [])"

definition as_obj :: "json \<Rightarrow> jrow option" where
  "as_obj v = (case v of JObj r \<Rightarrow> Some r | _ \<Rightarrow> None)"

definition adopted_entry :: "pool \<Rightarrow> string \<Rightarrow> string option" where
  "adopted_entry p ref =
    (case (case strip_prefix ''pool:'' ref of Some eid \<Rightarrow> Some eid | None \<Rightarrow> map_of (cp_staged p) ref) of
       None \<Rightarrow> None
     | Some eid \<Rightarrow> if eid \<noteq> [] \<and> map_of (cp_entries p) eid \<noteq> None then Some eid else None)"

definition adopted_entries :: "pool \<Rightarrow> string list \<Rightarrow> string list" where
  "adopted_entries p rs = dedup (List.map_filter (adopted_entry p) rs)"

definition manifest_adopts :: "jrow \<Rightarrow> (string \<times> string list) list" where
  "manifest_adopts m = foldl (\<lambda>d it. case it of
       JObj r \<Rightarrow> (case jget r ''adopts'' of
           JArr xs \<Rightarrow> dict_put (str_of (jget r ''item'')) (map (\<lambda>x. case x of JObj a \<Rightarrow> str_of (jget a ''ref'') | _ \<Rightarrow> str_of x) xs) d
         | _ \<Rightarrow> d)
     | _ \<Rightarrow> d) [] (list_items (jget m ''items''))"

definition manifest_items :: "jrow \<Rightarrow> json list" where
  "manifest_items m = List.map_filter (\<lambda>it. map_option (\<lambda>r. jget r ''item'') (as_obj it)) (list_items (jget m ''items''))"

datatype pool_problem =
    Not_Adoptable string string | Block_Not_Object | Unknown_Block_Key string | Key_Not_Object string
  | Not_Closed string | Needs_Reason string string | Not_Open string string | Must_Name_Item string | Unresolved_Target string string
  | Adopted_By string string string | Named_Twice string string string | Supersedes_Itself string | Replacement_Closed string string

text \<open>The refs the items adopt: those that name nothing, and the entries adopted with the first item that does.\<close>

definition adopt_check :: "pool \<Rightarrow> string \<Rightarrow> pool_problem list \<times> (string \<times> string) list \<Rightarrow> string \<Rightarrow>
    pool_problem list \<times> (string \<times> string) list" where
  "adopt_check p item acc raw =
    (case adopt_ref (JStr raw) of
       Inl e \<Rightarrow> acc
     | Inr ref \<Rightarrow>
         if starts_with ''helper:'' ref then acc
         else let eids = adopted_entries p [ref] in
           (if eids = [] then fst acc @ [Not_Adoptable item (take 120 ref)] else fst acc,
            foldl (\<lambda>d eid. if eid \<in> set (keys_of d) then d else dict_put eid item d) (snd acc) eids))"

definition adopts_problems :: "pool \<Rightarrow> jrow \<Rightarrow> pool_problem list \<times> (string \<times> string) list" where
  "adopts_problems p m = foldl (\<lambda>acc (item, rs). foldl (adopt_check p item) acc rs) ([], []) (manifest_adopts m)"

definition blank_text :: "json \<Rightarrow> bool" where
  "blank_text v \<longleftrightarrow> (case v of JStr s \<Rightarrow> strip s = [] | _ \<Rightarrow> True)"

definition decision_problem :: "pool \<Rightarrow> bool \<Rightarrow> string list option \<Rightarrow> json list \<Rightarrow> (string \<times> string) list \<Rightarrow> string \<Rightarrow> string \<times> json \<Rightarrow>
    pool_problem option" where
  "decision_problem p curate library ms adopted key d =
    (let eid = fst d; v = snd d; status = map_option ce_status (map_of (cp_entries p) eid) in
     if key = ''reopened'' then
       (if status = None \<or> status = Some ''open'' then Some (Not_Closed (take 20 eid))
        else if blank_text v then Some (Needs_Reason key eid) else None)
     else if status \<noteq> Some ''open'' then Some (Not_Open key (take 20 eid))
     else if key = ''merged'' \<and> (curate \<or> v \<notin> set ms) then Some (Must_Name_Item eid)
     else if key = ''superseded'' \<and> (case (v, library) of
         (JStr s, Some lib) \<Rightarrow> s \<noteq> [] \<and> v \<notin> set ms \<and> map_of (cp_entries p) s = None \<and> s \<notin> set lib | _ \<Rightarrow> False)
     then Some (Unresolved_Target eid (case v of JStr s \<Rightarrow> take 80 s | _ \<Rightarrow> []))
     else if blank_text v then Some (Needs_Reason key eid)
     else if key \<in> {''superseded'', ''retired''} \<and> eid \<in> set (keys_of adopted)
     then Some (Adopted_By key eid (dict_get adopted eid []))
     else None)"

text \<open>\<open>block.get(key) or {}\<close>, where it is an object.\<close>

definition block_part :: "jrow \<Rightarrow> string \<Rightarrow> jrow option" where
  "block_part block key = (if falsy (jget block key) then Some [] else as_obj (jget block key))"

definition key_problems :: "pool \<Rightarrow> bool \<Rightarrow> string list option \<Rightarrow> json list \<Rightarrow> (string \<times> string) list \<Rightarrow> jrow \<Rightarrow> string \<Rightarrow>
    pool_problem list" where
  "key_problems p curate library ms adopted block key =
    (case block_part block key of
       None \<Rightarrow> [Key_Not_Object key]
     | Some val \<Rightarrow> List.map_filter (decision_problem p curate library ms adopted key) val)"

definition name_step :: "string \<Rightarrow> pool_problem list \<times> (string \<times> string) list \<Rightarrow> string \<Rightarrow> pool_problem list \<times> (string \<times> string) list" where
  "name_step key acc eid =
    (case map_of (snd acc) eid of
       Some first \<Rightarrow> (fst acc @ [Named_Twice (take 20 eid) first key], snd acc)
     | None \<Rightarrow> (fst acc, dict_put eid key (snd acc)))"

definition object_part :: "jrow \<Rightarrow> string \<Rightarrow> jrow" where
  "object_part block key = (case as_obj (jget block key) of Some val \<Rightarrow> val | None \<Rightarrow> [])"

definition named_in :: "jrow \<Rightarrow> pool_problem list \<times> (string \<times> string) list" where
  "named_in block = foldl (\<lambda>acc key. foldl (name_step key) acc (keys_of (object_part block key))) ([], []) BLOCK_KEYS"

definition replacement_problem :: "(string \<times> string) list \<Rightarrow> string \<times> json \<Rightarrow> pool_problem option" where
  "replacement_problem named d = (if snd d = JStr (fst d) then Some (Supersedes_Itself (fst d))
     else case snd d of JStr s \<Rightarrow> if s \<in> set (keys_of named) then Some (Replacement_Closed (fst d) s) else None | _ \<Rightarrow> None)"

definition block_problems :: "json \<Rightarrow> pool \<Rightarrow> bool \<Rightarrow> string list option \<Rightarrow> pool_problem list" where
  "block_problems manifest p curate library =
    (case manifest of
       JObj m \<Rightarrow>
         (let (out, adopted) = adopts_problems p m in
          case map_of m ''pool'' of
            None \<Rightarrow> out
          | Some (JObj block) \<Rightarrow>
              out @ map Unknown_Block_Key (filter (\<lambda>k. k \<notin> set BLOCK_KEYS) (keys_of block)) @
              concat (map (key_problems p curate library (manifest_items m) adopted block) BLOCK_KEYS) @
              fst (named_in block) @
              List.map_filter (replacement_problem (snd (named_in block))) (object_part block ''superseded'')
          | Some v \<Rightarrow> out @ [Block_Not_Object])
     | _ \<Rightarrow> [])"

section \<open>Applying it\<close>

datatype unapplied = Merge_Not_Landed string json | Supersede_Not_Landed string json bool

type_synonym applying = "pool \<times> string list \<times> unapplied list"

definition change :: "string \<Rightarrow> string \<Rightarrow> jrow \<Rightarrow> string \<Rightarrow> applying \<Rightarrow> applying" where
  "change eid status detail pid a = (case a of (p, changed, notes) \<Rightarrow> (set_status eid status detail pid p, changed @ [eid], notes))"

definition note_why :: "unapplied \<Rightarrow> applying \<Rightarrow> applying" where
  "note_why n a = (case a of (p, changed, notes) \<Rightarrow> (p, changed, notes @ [n]))"

definition text_in :: "json \<Rightarrow> string list \<Rightarrow> bool" where
  "text_in v xs \<longleftrightarrow> (case v of JStr s \<Rightarrow> s \<in> set xs | _ \<Rightarrow> False)"

definition merge_one :: "string list \<Rightarrow> string \<Rightarrow> applying \<Rightarrow> string \<times> json \<Rightarrow> applying" where
  "merge_one landed pid a d = (if text_in (snd d) landed then change (fst d) ''merged'' [(''item'', snd d)] pid a
     else note_why (Merge_Not_Landed (fst d) (snd d)) a)"

definition supersede_one :: "string list \<Rightarrow> bool \<Rightarrow> string list \<Rightarrow> string \<Rightarrow> applying \<Rightarrow> string \<times> json \<Rightarrow> applying" where
  "supersede_one landed finished known pid a d =
    (if text_in (snd d) landed \<or> (finished \<and> snd d \<noteq> JStr (fst d) \<and>
         (text_in (snd d) (keys_of (cp_entries (fst a))) \<or> text_in (snd d) known))
     then change (fst d) ''superseded'' [(''by'', snd d)] pid a
     else note_why (Supersede_Not_Landed (fst d) (snd d) finished) a)"

definition retire_one :: "string \<Rightarrow> applying \<Rightarrow> string \<times> json \<Rightarrow> applying" where
  "retire_one pid a d = change (fst d) ''retired'' [(''reason'', snd d)] pid a"

definition reopen_one :: "string \<Rightarrow> applying \<Rightarrow> string \<times> json \<Rightarrow> applying" where
  "reopen_one pid a d = change (fst d) ''open'' [(''reopened'', snd d)] pid a"

definition is_open :: "pool \<Rightarrow> string \<Rightarrow> bool" where
  "is_open p eid \<longleftrightarrow> map_option ce_status (map_of (cp_entries p) eid) = Some ''open''"

definition adopt_one :: "string \<Rightarrow> string \<Rightarrow> applying \<Rightarrow> string \<Rightarrow> applying" where
  "adopt_one item pid a eid = (if is_open (fst a) eid
     then change eid ''merged'' [(''item'', JStr item), (''via'', JStr ''adopts'')] pid a else a)"

definition adopt_row :: "string list \<Rightarrow> string \<Rightarrow> applying \<Rightarrow> string \<times> string list \<Rightarrow> applying" where
  "adopt_row landed pid a row = (if fst row \<in> set landed
     then foldl (adopt_one (fst row) pid) a (adopted_entries (fst a) (snd row)) else a)"

definition apply_decisions :: "jrow \<Rightarrow> string \<Rightarrow> string list \<Rightarrow> bool \<Rightarrow> string list \<Rightarrow> applying \<Rightarrow> applying" where
  "apply_decisions block pid landed finished known a0 =
    (let a1 = foldl (merge_one landed pid) a0 (object_part block ''merged'');
         a2 = foldl (supersede_one landed finished known pid) a1 (object_part block ''superseded'')
     in if finished then foldl (reopen_one pid) (foldl (retire_one pid) a2 (object_part block ''retired'')) (object_part block ''reopened'')
        else a2)"

definition apply_block :: "json \<Rightarrow> string \<Rightarrow> string list \<Rightarrow> bool \<Rightarrow> (string \<times> string list) list \<Rightarrow> string list \<Rightarrow> pool \<Rightarrow> applying" where
  "apply_block manifest pid landed finished provenance known p =
    (let a0 = (p, [], []);
         a = (case manifest of
                JObj m \<Rightarrow> (case jget m ''pool'' of
                    JObj block \<Rightarrow> if block_problems manifest p False None = []
                      then apply_decisions block pid landed finished known a0 else a0
                  | _ \<Rightarrow> a0)
              | _ \<Rightarrow> a0)
     in foldl (adopt_row landed pid) a provenance)"

section \<open>Captures\<close>

text \<open>The episode of an adopt ref to a draft: a staged candidate or its case, not the episode's notes.\<close>

definition staged_draft_episode :: "string \<Rightarrow> string option" where
  "staged_draft_episode ref = (case strip_prefix ''staging:'' ref of None \<Rightarrow> None
     | Some r \<Rightarrow> let ep = before (CHR ''/'') r; rest = drop (length ep) r in
         if ep \<noteq> [] \<and> (starts_with ''/candidates/'' rest \<or> starts_with ''/cases/'' rest) then Some ep else None)"

record landing =
  ln_item :: "string option"
  ln_pass :: "string option"

type_synonym closing_state = "pool \<times> string list"

definition land_one :: "pool_world \<Rightarrow> string list \<Rightarrow> string \<Rightarrow> closing_state \<Rightarrow> string \<times> landing \<Rightarrow> closing_state" where
  "land_one W landed pid a l = (case a of (p, changed) \<Rightarrow>
     let eid = entry_id W ''capture'' (fst l) in
     case ln_item (snd l) of
       Some item \<Rightarrow> if item \<in> set landed \<and> ln_pass (snd l) = Some pid \<and> is_open p eid
         then (set_status eid ''merged'' [(''item'', JStr item), (''via'', JStr ''land_capture'')] pid p, changed @ [eid]) else a
     | None \<Rightarrow> a)"

definition draft_refs :: "pool \<Rightarrow> string \<Rightarrow> string list" where
  "draft_refs p ref = (case strip_prefix ''pool:'' ref of
     Some eid \<Rightarrow> (case map_of (cp_entries p) eid of Some e \<Rightarrow> ce_refs e | None \<Rightarrow> [ref])
   | None \<Rightarrow> [ref])"

definition adopt_draft_of :: "string \<Rightarrow> string \<Rightarrow> closing_state \<Rightarrow> string \<Rightarrow> closing_state" where
  "adopt_draft_of item pid a d = (case a of (p, changed) \<Rightarrow>
     (case staged_draft_episode d of
        None \<Rightarrow> a
      | Some ep \<Rightarrow> let eid = dict_get (cp_captures p) ep [] in
          if is_open p eid then (set_status eid ''superseded'' [(''item'', JStr item), (''via'', JStr ''candidate'')] pid p, changed @ [eid])
          else a))"

definition adopt_capture_row :: "string list \<Rightarrow> string \<Rightarrow> closing_state \<Rightarrow> string \<times> string list \<Rightarrow> closing_state" where
  "adopt_capture_row landed pid a row = (if fst row \<in> set landed
     then foldl (\<lambda>a ref. foldl (adopt_draft_of (fst row) pid) a (draft_refs (fst a) ref)) a (snd row) else a)"

definition close_captures :: "pool_world \<Rightarrow> string \<Rightarrow> string list \<Rightarrow> (string \<times> landing) list \<Rightarrow> (string \<times> string list) list \<Rightarrow> pool \<Rightarrow>
    closing_state" where
  "close_captures W pid landed landings provenance p =
    foldl (adopt_capture_row landed pid) (foldl (land_one W landed pid) (p, []) (sort_key fst landings)) provenance"

section \<open>A pass's end\<close>

record defer_row =
  df_id :: string
  df_episodes :: "string list"
  df_reason :: string

definition defer_of :: "json \<Rightarrow> defer_row option" where
  "defer_of v = (case v of
     JObj r \<Rightarrow>
       (case (jget r ''id'', jget r ''reason'', jget_or r ''episodes'' (JArr [])) of
          (JStr i, JStr why, JArr eps) \<Rightarrow>
            if strip why \<noteq> [] \<and> list_all (\<lambda>e. as_str e \<noteq> None) eps
            then Some \<lparr>df_id = i, df_episodes = List.map_filter as_str eps, df_reason = strip why\<rparr> else None
        | _ \<Rightarrow> None)
   | _ \<Rightarrow> None)"

definition pool_block :: "json \<Rightarrow> jrow option" where
  "pool_block manifest = (case manifest of JObj m \<Rightarrow> as_obj (jget m ''pool'') | _ \<Rightarrow> None)"

definition defer_rows :: "json \<Rightarrow> defer_row list" where
  "defer_rows manifest = (case pool_block manifest of
     Some block \<Rightarrow> List.map_filter defer_of (list_items (jget block ''defer'')) | None \<Rightarrow> [])"

definition without_key :: "string \<Rightarrow> jrow \<Rightarrow> jrow" where
  "without_key k r = filter (\<lambda>kv. fst kv \<noteq> k) r"

definition without_defer :: "json \<Rightarrow> json" where
  "without_defer manifest = (case pool_block manifest of
     None \<Rightarrow> manifest
   | Some block \<Rightarrow> (case manifest of
       JObj m \<Rightarrow> let rest = without_key ''defer'' block in
         JObj (if rest \<noteq> [] then dict_put ''pool'' (JObj rest) m else without_key ''pool'' m)
     | _ \<Rightarrow> manifest))"

text \<open>One episode of a deferral: a new deferred entry, or evidence for the entry it names.\<close>

definition defer_episode :: "pool_world \<Rightarrow> string \<Rightarrow> defer_row \<Rightarrow> pool \<times> pool_entry list \<Rightarrow> string \<Rightarrow> pool \<times> pool_entry list" where
  "defer_episode W pid r a ep = (if df_id r = ''new'' then (fst a, snd a @ [deferred W ep (df_reason r)])
     else (snd (add_evidence (df_id r) ep (df_reason r) pid (fst a)), snd a))"

definition pool_update :: "pool_world \<Rightarrow> json \<Rightarrow> string \<Rightarrow> string list \<Rightarrow> bool \<Rightarrow> (string \<times> string list) list \<Rightarrow> string list \<Rightarrow>
    (string \<times> landing) list \<Rightarrow> string list \<Rightarrow> string list \<Rightarrow> pool_entry list \<Rightarrow> pool \<Rightarrow> pool \<times> string list \<times> unapplied list" where
  "pool_update W manifest pid landed finished provenance known landings batch opened drafts p0 =
    (let (p1, changed, notes) = apply_block (without_defer manifest) pid landed finished provenance known p0;
         (p2, changed2) = close_captures W pid landed landings provenance p1;
         rows = defer_rows manifest;
         (p3, new) = foldl (\<lambda>a r. foldl (defer_episode W pid r) a (df_episodes r)) (p2, []) rows;
         unread = map (unread_entry W)
           (filter (\<lambda>e. e \<notin> set opened \<and> e \<notin> set (concat (map df_episodes rows))) batch);
         p4 = foldl (\<lambda>p e. upsert W (add_prov [] [pid] [] e) pid p) p3 (new @ unread @ drafts)
     in (p4, changed @ changed2, notes))"

section \<open>What is offered for a withdrawn capture\<close>

text \<open>The entries by id with their kind, and what each \<open>entry.json\<close> holds where it can be read.\<close>

record pool_metas =
  pm_where :: "(string \<times> string) list"
  pm_docs :: "(string \<times> jrow) list"

definition meta_of :: "pool_metas \<Rightarrow> string \<Rightarrow> jrow option" where
  "meta_of M eid = (case (map_of (pm_where M) eid, map_of (pm_docs M) eid) of
     (Some kind, Some m) \<Rightarrow> if jget m ''id'' = JStr eid \<and> jget m ''kind'' = JStr kind then Some m else None
   | _ \<Rightarrow> None)"

definition detail_of :: "jrow \<Rightarrow> jrow" where
  "detail_of m = (case jget m ''status_detail'' of JObj d \<Rightarrow> d | _ \<Rightarrow> [])"

definition target_of :: "jrow \<Rightarrow> json" where
  "target_of m = (let d = detail_of m in if falsy (jget d ''item'') then jget d ''by'' else jget d ''item'')"

definition capture_of :: "jrow \<Rightarrow> string option" where
  "capture_of m = (case jget m ''data'' of
     JObj d \<Rightarrow> (case jget d ''capture_id'' of JStr c \<Rightarrow> if is_hex16 c then Some c else None | _ \<Rightarrow> None)
   | _ \<Rightarrow> None)"

definition target_ref :: "string \<Rightarrow> string" where
  "target_ref t = (case strip_prefix ''pool:'' t of Some r \<Rightarrow> r | None \<Rightarrow> t)"

definition offered_capture :: "jrow \<Rightarrow> string option" where
  "offered_capture m = (if jget m ''kind'' = JStr ''capture'' then map_option (\<lambda>c. ''capture:'' @ c) (capture_of m) else None)"

definition next_target :: "jrow \<Rightarrow> json option" where
  "next_target m = (if jget m ''status'' = JStr ''merged'' then Some (jget (detail_of m) ''item'')
     else if jget m ''status'' = JStr ''superseded'' then Some (target_of m) else None)"

lemma fewer_left: "(t, k) \<in> set ws \<Longrightarrow> t \<notin> set seen \<Longrightarrow> card (fst ` set ws - insert t (set seen)) < card (fst ` set ws - set seen)"
  by (rule psubset_card_mono) (auto simp: rev_image_eqI)

function chase :: "pool_metas \<Rightarrow> string list \<Rightarrow> json \<Rightarrow> string option" where
  "chase M seen target =
    (case target of
       JStr t \<Rightarrow>
         if t = [] then None
         else if target_ref t \<notin> set (keys_of (pm_where M)) then Some t
         else if target_ref t \<in> set seen then None
         else (case meta_of M (target_ref t) of
                 None \<Rightarrow> None
               | Some m \<Rightarrow>
                   if jget m ''status'' = JStr ''open'' then offered_capture m
                   else (case next_target m of None \<Rightarrow> None | Some v \<Rightarrow> chase M (target_ref t # seen) v))
     | _ \<Rightarrow> None)"
  by pat_completeness auto
termination
  by (relation "measure (\<lambda>(M, seen, target). card (set (keys_of (pm_where M)) - set seen))") (auto intro: fewer_left simp del: card_Diff_insert)

declare chase.simps [simp del]

definition replacement :: "pool_metas \<Rightarrow> string \<Rightarrow> jrow \<Rightarrow> string option" where
  "replacement M eid m = (if jget m ''status'' = JStr ''superseded'' then chase M [eid] (target_of m) else None)"

definition WITHDRAWN_STATUSES :: "string list" where
  "WITHDRAWN_STATUSES = [''superseded'', ''retired'']"

record withdrawal =
  wd_status :: string
  wd_by :: "string option"
  wd_reason :: string

definition withdrawal_reason :: "jrow \<Rightarrow> string" where
  "withdrawal_reason m = (let d = detail_of m; given = jget d ''reason'' in
     if jget m ''status'' = JStr ''superseded'' then
       (if falsy (target_of m) then (if falsy given then ''superseded'' else str_of given) else ''superseded by '' @ str_of (target_of m))
     else (if falsy given then ''retired'' else str_of given))"

definition withdraw_one :: "pool_metas \<Rightarrow> (string \<times> withdrawal) list \<Rightarrow> string \<times> string \<Rightarrow> (string \<times> withdrawal) list" where
  "withdraw_one M out ek = (case ek of (eid, kind) \<Rightarrow>
     if kind \<noteq> ''capture'' \<and> kind \<noteq> ''failure'' then out
     else (case meta_of M eid of
         None \<Rightarrow> out
       | Some m \<Rightarrow>
           (case (jget m ''status'', capture_of m) of
              (JStr st, Some cid) \<Rightarrow>
                if st \<in> set WITHDRAWN_STATUSES
                then dict_put cid \<lparr>wd_status = st, wd_by = replacement M eid m, wd_reason = take 160 (withdrawal_reason m)\<rparr> out else out
            | _ \<Rightarrow> out)))"

definition withdrawn_captures :: "pool_metas \<Rightarrow> (string \<times> withdrawal) list" where
  "withdrawn_captures M = foldl (withdraw_one M) [] (sort_key fst (pm_where M))"

end
