(* ===== verification/CandidatePoolRuns.thy ===== *)
theory CandidatePoolRuns imports CandidatePoolBlock
begin

text \<open>
  What the candidate pool keeps: nothing that feeds it changes a status or loses evidence, and evidence for a closed
  entry is listed as new; only the writer's accepted decisions, the items the gate landed and the captures that were
  landed or replaced settle an entry; and what is offered for a withdrawn capture is an item or an open capture.
\<close>

section \<open>Lists and entries\<close>

lemma foldl_keeps: "(\<And>a x. x \<in> set xs \<Longrightarrow> J a \<Longrightarrow> J (f a x)) \<Longrightarrow> J a \<Longrightarrow> J (foldl f a xs)"
  by (induction xs arbitrary: a) simp_all

lemma add_new_set [simp]: "set (add_new hs vs) = set hs \<union> set vs"
  by (induction hs vs rule: add_new.induct) auto

lemma add_new_append: "\<exists>new. add_new hs vs = hs @ new"
proof (induction hs vs rule: add_new.induct)
  case (2 hs v vs)
  then show ?case by (cases "v \<in> set hs") auto
qed simp

lemma new_episodes_set: "set eps - set (pv_episodes (ce_prov e)) \<subseteq> set (new_episodes eps e)"
proof -
  obtain new where new: "add_new (pv_episodes (ce_prov e)) eps = pv_episodes (ce_prov e) @ new" using add_new_append by blast
  then have "set (pv_episodes (ce_prov e)) \<union> set eps = set (pv_episodes (ce_prov e)) \<union> set new"
    using add_new_set [of "pv_episodes (ce_prov e)" eps] by simp
  then show ?thesis using new by (auto simp: new_episodes_def)
qed

lemma note_row_set: "set (concat (map snd (note_row rows pid eps))) = set (concat (map snd rows)) \<union> set eps"
  by (induction rows pid eps rule: note_row.induct) auto

lemma note_new_simps [simp]:
  "ce_id (note_new_evidence eps pid e) = ce_id e" "ce_prov (note_new_evidence eps pid e) = ce_prov e"
  "ce_status (note_new_evidence eps pid e) = ce_status e" "ce_detail (note_new_evidence eps pid e) = ce_detail e"
  "ce_files (note_new_evidence eps pid e) = ce_files e" "ce_evidence (note_new_evidence eps pid e) = ce_evidence e"
  "ce_kind (note_new_evidence eps pid e) = ce_kind e"
  by (simp_all add: note_new_evidence_def)

lemma note_new_episodes:
  "ce_status e \<noteq> ''open'' \<Longrightarrow>
   set (new_evidence_episodes (note_new_evidence eps pid e)) = set (new_evidence_episodes e) \<union> set eps"
  using note_row_set by (simp add: note_new_evidence_def new_evidence_episodes_def)

definition files_kept :: "(string \<times> string) list \<Rightarrow> (string \<times> string) list \<Rightarrow> bool" where
  "files_kept fs fs' \<longleftrightarrow> (\<forall>rel t. map_of fs rel = Some t \<longrightarrow>
     (\<exists>t'. map_of fs' rel = Some t' \<and> (rel \<notin> {''record.json'', ''broke.md''} \<longrightarrow> t' = t)))"

lemma files_kept_refl [simp]: "files_kept fs fs"
  by (simp add: files_kept_def)

lemma files_kept_trans: "files_kept a b \<Longrightarrow> files_kept b c \<Longrightarrow> files_kept a c"
  unfolding files_kept_def by metis

definition evidence_kept :: "pool_entry \<Rightarrow> pool_entry \<Rightarrow> bool" where
  "evidence_kept e e' \<longleftrightarrow> ce_id e' = ce_id e \<and>
     set (pv_episodes (ce_prov e)) \<subseteq> set (pv_episodes (ce_prov e')) \<and> set (pv_passes (ce_prov e)) \<subseteq> set (pv_passes (ce_prov e')) \<and>
     set (pv_sources (ce_prov e)) \<subseteq> set (pv_sources (ce_prov e')) \<and> set (ce_evidence e) \<subseteq> set (ce_evidence e') \<and>
     files_kept (ce_files e) (ce_files e')"

text \<open>An entry after something fed it: its status is the writer's still, and what is new to a closed one is listed.\<close>

definition fed :: "pool_entry \<Rightarrow> pool_entry \<Rightarrow> bool" where
  "fed e e' \<longleftrightarrow> evidence_kept e e' \<and> ce_status e' = ce_status e \<and> ce_detail e' = ce_detail e \<and>
     (ce_status e \<noteq> ''open'' \<longrightarrow> set (new_evidence_episodes e) \<subseteq> set (new_evidence_episodes e') \<and>
        set (pv_episodes (ce_prov e')) - set (pv_episodes (ce_prov e)) \<subseteq> set (new_evidence_episodes e'))"

lemma evidence_kept_refl [simp]: "evidence_kept e e"
  by (simp add: evidence_kept_def)

lemma evidence_kept_trans: "evidence_kept a b \<Longrightarrow> evidence_kept b c \<Longrightarrow> evidence_kept a c"
  unfolding evidence_kept_def using files_kept_trans by (elim conjE, intro conjI) (simp | erule subset_trans; assumption | blast)+

lemma fed_refl [simp]: "fed e e"
  by (simp add: fed_def)

lemma fed_trans:
  assumes "fed a b" "fed b c" shows "fed a c"
proof -
  have "evidence_kept a c" using assms unfolding fed_def by (meson evidence_kept_trans)
  then show ?thesis using assms by (simp add: fed_def) blast
qed

lemma take_file_kept: "files_kept fs (take_file kind fs f)"
  by (auto simp: files_kept_def take_file_def REFRESHED_def dest: map_of_Some_in_keys split: if_splits)

lemma take_files_kept: "files_kept fs (foldl (take_file kind) fs new)"
  by (rule foldl_keeps [where J = "files_kept fs"]) (use files_kept_trans take_file_kept in blast, simp)

lemma fed_joined: "fed have (joined_entry e pid have)"
proof -
  define h1 where "h1 = note_new_evidence (new_episodes (pv_episodes (ce_prov e)) have) pid
    (add_prov (pv_episodes (ce_prov e)) (pv_passes (ce_prov e)) (pv_sources (ce_prov e)) have)"
  define h2 where "h2 = h1\<lparr>ce_instances := ce_instances h1 @ filter (\<lambda>i. i \<notin> set (ce_instances h1)) (ce_instances e),
                 ce_files := foldl (take_file (ce_kind have)) (ce_files h1) (ce_files e),
                 ce_data := foldl (take_data (ce_data e)) (ce_data h1) (REFRESHED_DATA (ce_kind have)),
                 ce_refs := add_new (ce_refs h1) (ce_refs e)\<rparr>"
  have j: "joined_entry e pid have = h2 \<or> joined_entry e pid have = h2\<lparr>ce_changed := pid\<rparr>"
    unfolding joined_entry_def Let_def h1_def [symmetric] h2_def [symmetric] by auto
  have a: "ce_id h2 = ce_id have" "ce_status h2 = ce_status have" "ce_detail h2 = ce_detail have"
    "ce_evidence h2 = ce_evidence have" "ce_prov h2 = ce_prov (add_prov (pv_episodes (ce_prov e)) (pv_passes (ce_prov e)) (pv_sources (ce_prov e)) have)"
    "ce_news h2 = ce_news h1" "ce_files h2 = foldl (take_file (ce_kind have)) (ce_files have) (ce_files e)"
    by (simp_all add: h2_def h1_def add_prov_def)
  have n: "new_evidence_episodes h2 = new_evidence_episodes h1" by (simp add: new_evidence_episodes_def a(6))
  have h: "set (new_evidence_episodes h1) = set (new_evidence_episodes have) \<union> set (new_episodes (pv_episodes (ce_prov e)) have)"
    if "ce_status have \<noteq> ''open''"
    using that note_new_episodes [of "add_prov (pv_episodes (ce_prov e)) (pv_passes (ce_prov e)) (pv_sources (ce_prov e)) have"]
    by (simp add: h1_def add_prov_def new_evidence_episodes_def)
  have kept: "evidence_kept have h2"
    using take_files_kept by (auto simp: evidence_kept_def a add_prov_def)
  have "fed have h2"
    using kept h new_episodes_set [of "pv_episodes (ce_prov e)" "have"]
    by (auto simp: fed_def a n add_prov_def)
  moreover have "fed have (h2\<lparr>ce_changed := pid\<rparr>) = fed have h2"
    by (simp add: fed_def evidence_kept_def new_evidence_episodes_def)
  ultimately show ?thesis using j by auto
qed

lemma fed_evidence: "fed e (evidence_entry episode reason pid e)"
proof -
  have n: "set (new_evidence_episodes (evidence_entry episode reason pid e)) =
      set (new_evidence_episodes e) \<union> set (new_episodes [episode] e)" if "ce_status e \<noteq> ''open''"
    using that note_new_episodes [of "add_prov [episode] [pid] [''writer''] e" "new_episodes [episode] e" pid]
    by (simp add: evidence_entry_def Let_def add_prov_def new_evidence_episodes_def)
  have k: "evidence_kept e (evidence_entry episode reason pid e)"
    by (auto simp: evidence_kept_def evidence_entry_def Let_def add_prov_def)
  have s: "ce_status (evidence_entry episode reason pid e) = ce_status e" "ce_detail (evidence_entry episode reason pid e) = ce_detail e"
    "set (pv_episodes (ce_prov (evidence_entry episode reason pid e))) = insert episode (set (pv_episodes (ce_prov e)))"
    by (auto simp: evidence_entry_def Let_def add_prov_def)
  show ?thesis using n k s new_episodes_set [of "[episode]" e] by (auto simp: fed_def)
qed

section \<open>Pools\<close>

definition all_entries :: "(pool_entry \<Rightarrow> pool_entry \<Rightarrow> bool) \<Rightarrow> pool \<Rightarrow> pool \<Rightarrow> bool" where
  "all_entries R p p' \<longleftrightarrow> (\<forall>eid e. map_of (cp_entries p) eid = Some e \<longrightarrow> (\<exists>e'. map_of (cp_entries p') eid = Some e' \<and> R e e'))"

lemma all_entries_refl: "(\<And>e. R e e) \<Longrightarrow> all_entries R p p"
  by (simp add: all_entries_def)

lemma all_entries_trans: "(\<And>a b c. R a b \<Longrightarrow> R b c \<Longrightarrow> R a c) \<Longrightarrow> all_entries R p q \<Longrightarrow> all_entries R q r \<Longrightarrow> all_entries R p r"
  unfolding all_entries_def by metis

lemma all_entries_put:
  "(\<And>e. R e e) \<Longrightarrow> (\<And>e. map_of (cp_entries p) eid = Some e \<Longrightarrow> R e e') \<Longrightarrow>
   cp_entries p' = dict_put eid e' (cp_entries p) \<Longrightarrow> all_entries R p p'"
  by (auto simp: all_entries_def)

lemma all_fed_refl: "all_entries fed p p" by (rule all_entries_refl) simp
lemma all_fed_trans: "all_entries fed p q \<Longrightarrow> all_entries fed q r \<Longrightarrow> all_entries fed p r"
  by (rule all_entries_trans [of fed]) (rule fed_trans)

text \<open>A pool's entries are under their ids.\<close>

definition pool_ids :: "pool \<Rightarrow> bool" where
  "pool_ids p \<longleftrightarrow> distinct (keys_of (cp_entries p)) \<and> (\<forall>eid e. map_of (cp_entries p) eid = Some e \<longrightarrow> ce_id e = eid)"

lemma pool_ids_put: "pool_ids p \<Longrightarrow> ce_id e' = eid \<Longrightarrow> cp_entries p' = dict_put eid e' (cp_entries p) \<Longrightarrow> pool_ids p'"
  by (simp add: pool_ids_def)

lemma added_simps [simp]: "ce_id (added_entry W e pid) = ce_id e" "ce_status (added_entry W e pid) = ce_status e"
  by (simp_all add: added_entry_def Let_def)

lemma joined_id [simp]: "ce_id (joined_entry e pid h) = ce_id h"
  using fed_joined [of h e pid] by (simp add: fed_def evidence_kept_def)

lemma upsert_fed: "all_entries fed p (upsert W e pid p)"
proof (cases "map_of (cp_entries p) (ce_id e)")
  case None
  then show ?thesis by (intro all_entries_put [of fed p "ce_id e" "added_entry W e pid"]) (simp_all add: upsert_def put_entry_def)
next
  case (Some h)
  then show ?thesis by (intro all_entries_put [of fed p "ce_id e" "joined_entry e pid h"]) (simp_all add: upsert_def fed_joined)
qed

lemma upsert_ids:
  assumes "pool_ids p" shows "pool_ids (upsert W e pid p)"
proof (cases "map_of (cp_entries p) (ce_id e)")
  case None
  then show ?thesis by (intro pool_ids_put [OF assms, of "added_entry W e pid" "ce_id e"]) (simp_all add: upsert_def put_entry_def)
next
  case (Some h)
  then have "ce_id h = ce_id e" using assms by (simp add: pool_ids_def)
  then show ?thesis using Some by (intro pool_ids_put [OF assms, of "joined_entry e pid h" "ce_id e"]) (simp_all add: upsert_def)
qed

lemma add_evidence_fed: "all_entries fed p (snd (add_evidence eid episode reason pid p))"
proof (cases "map_of (cp_entries p) eid")
  case (Some e)
  then show ?thesis
    by (intro all_entries_put [of fed p eid "evidence_entry episode reason pid e"]) (simp_all add: add_evidence_def fed_evidence)
qed (simp add: add_evidence_def all_fed_refl)

lemma all_entries_same: "cp_entries q = cp_entries p' \<Longrightarrow> all_entries R p p' \<Longrightarrow> all_entries R p q"
  by (simp add: all_entries_def)

lemma enter_one_entries: "cp_entries (enter_one W pid e p) = cp_entries (upsert W (add_prov [] [pid] [] e) pid p)"
  by (simp add: enter_one_def Let_def)

lemma enter_one_fed: "all_entries fed p (enter_one W pid e p)"
  by (rule all_entries_same [OF enter_one_entries upsert_fed])

lemma enter_staging_fed: "all_entries fed p (enter_staging W views pid p)"
proof -
  have one: "all_entries fed p (foldl (\<lambda>p e. enter_one W pid e p) q es)" if "all_entries fed p q" for q es
    by (rule foldl_keeps [where J = "all_entries fed p"]) (use enter_one_fed all_fed_trans that in blast)+
  show ?thesis unfolding enter_staging_def
    by (rule foldl_keeps [where J = "all_entries fed p"]) (use one all_fed_refl in \<open>auto split: prod.split\<close>)
qed

lemma enter_capture_fed: "all_entries fed p (enter_capture W pid cd p)"
proof -
  define e where "e = add_prov [] [pid] [] (from_capture W (fst cd) (snd cd))"
  define p1 where "p1 = (case map_of (cp_entries p) (ce_id e) of
      Some h \<Rightarrow> if ce_kind h \<noteq> ce_kind e \<and> ce_status h = ''open''
        then p\<lparr>cp_entries := dict_put (ce_id e) (h\<lparr>ce_kind := ce_kind e\<rparr>) (cp_entries p)\<rparr> else p
    | None \<Rightarrow> p)"
  have "fed h (h\<lparr>ce_kind := k\<rparr>)" for h k by (simp add: fed_def evidence_kept_def new_evidence_episodes_def)
  then have "all_entries fed p p1" by (auto simp: p1_def all_entries_def split: option.split)
  moreover have "enter_capture W pid cd p = upsert W e pid p1" unfolding enter_capture_def Let_def e_def [symmetric] by (simp add: p1_def)
  ultimately show ?thesis using upsert_fed all_fed_trans by metis
qed

lemma enter_captures_fed: "all_entries fed p (enter_captures W docs pid p)"
  unfolding enter_captures_def
  by (rule foldl_keeps [where J = "all_entries fed p"]) (use enter_capture_fed all_fed_trans all_fed_refl in blast)+

section \<open>Feeding\<close>

text \<open>What comes into the pool beside the writer's decisions.\<close>

datatype feed =
    Staging "(string \<times> staging_view) list" string
  | Captures "(string \<times> capture_doc) list" string
  | Evidence string string string string
  | Proposal pool_entry string

fun feed_pool :: "pool_world \<Rightarrow> pool \<Rightarrow> feed \<Rightarrow> pool" where
  "feed_pool W p (Staging views pid) = enter_staging W views pid p"
| "feed_pool W p (Captures docs pid) = enter_captures W docs pid p"
| "feed_pool W p (Evidence eid episode reason pid) = snd (add_evidence eid episode reason pid p)"
| "feed_pool W p (Proposal e pid) = upsert W e pid p"

lemma feed_fed: "all_entries fed p (feed_pool W p f)"
  by (cases f) (simp_all add: enter_staging_fed enter_captures_fed add_evidence_fed upsert_fed)

interpretation pool_feeds: monotone_log "feed_pool W" "all_entries fed" for W
  by unfold_locales (auto intro: all_fed_refl all_fed_trans feed_fed)

section \<open>Settling\<close>

text \<open>An entry a pass settled: by an item the gate landed, or by a decision of a finish that was accepted.\<close>

definition settled :: "string list \<Rightarrow> bool \<Rightarrow> string \<Rightarrow> pool_entry \<Rightarrow> pool_entry \<Rightarrow> bool" where
  "settled landed finished pid e e' \<longleftrightarrow> jget (ce_detail e') ''pass'' = JStr pid \<and> (ce_status e \<noteq> ''open'' \<longrightarrow> finished) \<and>
     (ce_status e' = ''merged'' \<and> text_in (jget (ce_detail e') ''item'') landed \<or>
      ce_status e' = ''superseded'' \<and>
        (text_in (jget (ce_detail e') ''item'') landed \<or> text_in (jget (ce_detail e') ''by'') landed \<or> finished) \<or>
      ce_status e' = ''retired'' \<and> finished \<or>
      ce_status e' = ''open'' \<and> finished \<and> ce_status e \<noteq> ''open'')"

definition settling :: "string list \<Rightarrow> bool \<Rightarrow> string \<Rightarrow> pool \<Rightarrow> pool \<times> string list \<Rightarrow> bool" where
  "settling landed finished pid p0 a \<longleftrightarrow> (\<forall>eid e. map_of (cp_entries p0) eid = Some e \<longrightarrow>
     (\<exists>e'. map_of (cp_entries (fst a)) eid = Some e' \<and> evidence_kept e e' \<and>
        (ce_status e' = ce_status e \<and> ce_detail e' = ce_detail e \<or> eid \<in> set (snd a) \<and> settled landed finished pid e e')))"

lemma jget_dict_put [simp]: "jget (dict_put k v r) k' = (if k' = k then v else jget r k')"
  by (simp add: jget_def)

lemma settling_start: "settling landed finished pid p0 (p0, ch)"
  by (simp add: settling_def)

lemma settling_longer: "settling landed finished pid p0 (p, ch) \<Longrightarrow> settling landed finished pid p0 (p, ch1 @ ch @ ch2)"
  unfolding settling_def by simp blast

lemma settling_fed:
  assumes "settling landed finished pid p0 (p, ch)" "all_entries fed p p'" shows "settling landed finished pid p0 (p', ch)"
  unfolding settling_def fst_conv snd_conv
proof (intro allI impI)
  fix eid e assume "map_of (cp_entries p0) eid = Some e"
  then obtain c where c: "map_of (cp_entries p) eid = Some c" "evidence_kept e c"
    "ce_status c = ce_status e \<and> ce_detail c = ce_detail e \<or> eid \<in> set ch \<and> settled landed finished pid e c"
    using assms(1) by (fastforce simp: settling_def)
  then obtain c' where "map_of (cp_entries p') eid = Some c'" "fed c c'" using assms(2) by (auto simp: all_entries_def)
  then show "\<exists>e'. map_of (cp_entries p') eid = Some e' \<and> evidence_kept e e' \<and>
      (ce_status e' = ce_status e \<and> ce_detail e' = ce_detail e \<or> eid \<in> set ch \<and> settled landed finished pid e e')"
    using c evidence_kept_trans by (auto simp: fed_def settled_def)
qed

lemma status_kept: "evidence_kept e (status_entry st d pid e)"
  by (simp add: evidence_kept_def status_entry_def)

lemma settling_change:
  assumes s: "settling landed finished pid p0 (p, ch)"
    and to: "\<And>e c. map_of (cp_entries p0) eid = Some e \<Longrightarrow> map_of (cp_entries p) eid = Some c \<Longrightarrow>
      settled landed finished pid e (status_entry st d pid c)"
  shows "settling landed finished pid p0 (set_status eid st d pid p, ch @ [eid])"
  unfolding settling_def fst_conv snd_conv
proof (intro allI impI)
  fix x e assume x: "map_of (cp_entries p0) x = Some e"
  then obtain c where c: "map_of (cp_entries p) x = Some c" "evidence_kept e c"
    "ce_status c = ce_status e \<and> ce_detail c = ce_detail e \<or> x \<in> set ch \<and> settled landed finished pid e c"
    using s by (fastforce simp: settling_def)
  show "\<exists>e'. map_of (cp_entries (set_status eid st d pid p)) x = Some e' \<and> evidence_kept e e' \<and>
      (ce_status e' = ce_status e \<and> ce_detail e' = ce_detail e \<or> x \<in> set (ch @ [eid]) \<and> settled landed finished pid e e')"
  proof (cases "x = eid")
    case True
    then have "settled landed finished pid e (status_entry st d pid c)" using to x c(1) by blast
    moreover have "evidence_kept e (status_entry st d pid c)" by (rule evidence_kept_trans [OF c(2) status_kept])
    ultimately show ?thesis using c(1) True by (simp add: set_status_def)
  next
    case False
    then have "map_of (cp_entries (set_status eid st d pid p)) x = Some c" using c(1) by (simp add: set_status_def split: option.split)
    then show ?thesis using c by auto
  qed
qed

text \<open>An open entry was open when the pass began, or was reopened by a finish that was accepted.\<close>

lemma settling_open:
  assumes "settling landed finished pid p0 (p, ch)" "is_open p eid" "map_of (cp_entries p0) eid = Some e"
  shows "ce_status e \<noteq> ''open'' \<longrightarrow> finished"
  using assms by (fastforce simp: settling_def settled_def is_open_def)

lemma status_simps [simp]:
  "ce_status (status_entry st d pid e) = st" "ce_detail (status_entry st d pid e) = dict_put ''pass'' (JStr pid) d"
  by (simp_all add: status_entry_def)

section \<open>A block without problems\<close>

lemma object_part_of: "block_part block key = Some val \<Longrightarrow> object_part block key = val"
  by (cases "jget block key") (auto simp: block_part_def object_part_def as_obj_def split: if_splits)

lemma map_filter_none: "List.map_filter f xs = [] \<Longrightarrow> x \<in> set xs \<Longrightarrow> f x = None"
  by (induction xs) (auto simp: List.map_filter_simps split: option.splits)

lemma block_decisions:
  assumes "block_problems (JObj m) p curate library = []" "jget m ''pool'' = JObj block" "key \<in> set BLOCK_KEYS"
    "d \<in> set (object_part block key)"
  shows "\<exists>adopted. decision_problem p curate library (manifest_items m) adopted key d = None"
proof -
  have pool: "map_of m ''pool'' = Some (JObj block)" using assms(2) by (auto simp: jget_def split: option.splits)
  obtain out adopted where a: "adopts_problems p m = (out, adopted)" by (metis prod.exhaust)
  have "key_problems p curate library (manifest_items m) adopted block key = []"
    using assms(1,3) pool a by (auto simp: block_problems_def)
  then obtain val where val: "block_part block key = Some val"
    and none: "List.map_filter (decision_problem p curate library (manifest_items m) adopted key) val = []"
    by (auto simp: key_problems_def split: option.splits)
  have "d \<in> set val" using assms(4) object_part_of [OF val] by simp
  from map_filter_none [OF none this] show ?thesis by blast
qed

lemma block_keys: "''merged'' \<in> set BLOCK_KEYS" "''superseded'' \<in> set BLOCK_KEYS" "''retired'' \<in> set BLOCK_KEYS" "''reopened'' \<in> set BLOCK_KEYS"
  by (simp_all add: BLOCK_KEYS_def)

text \<open>What its decisions are about: open entries, and for a reopening a closed one.\<close>

lemma decided_open:
  assumes "decision_problem p curate library ms adopted key (eid, v) = None" "key \<noteq> ''reopened''"
  shows "map_option ce_status (map_of (cp_entries p) eid) = Some ''open''"
  using assms by (auto simp: decision_problem_def Let_def split: if_splits)

lemma decided_closed:
  assumes "decision_problem p curate library ms adopted ''reopened'' (eid, v) = None"
  shows "\<exists>e. map_of (cp_entries p) eid = Some e \<and> ce_status e \<noteq> ''open''"
  using assms by (cases "map_of (cp_entries p) eid") (auto simp: decision_problem_def Let_def split: if_splits)

section \<open>The decisions of a pass\<close>

abbreviation applied :: "string list \<Rightarrow> bool \<Rightarrow> string \<Rightarrow> pool \<Rightarrow> applying \<Rightarrow> bool" where
  "applied landed finished pid p0 a \<equiv> settling landed finished pid p0 (fst a, fst (snd a))"

lemma change_simps [simp]:
  "fst (change eid st d pid a) = set_status eid st d pid (fst a)" "fst (snd (change eid st d pid a)) = fst (snd a) @ [eid]"
  "fst (note_why n a) = fst a" "fst (snd (note_why n a)) = fst (snd a)"
  by (simp_all add: change_def note_why_def split: prod.split)

lemma applied_change:
  assumes "applied landed finished pid p0 a"
    and "\<And>e c. map_of (cp_entries p0) eid = Some e \<Longrightarrow> settled landed finished pid e (status_entry st d pid c)"
  shows "applied landed finished pid p0 (change eid st d pid a)"
  using settling_change [OF assms(1) assms(2)] by simp

lemma opened_in: "map_option ce_status (map_of (cp_entries p0) eid) = Some ''open'' \<Longrightarrow>
    map_of (cp_entries p0) eid = Some e \<Longrightarrow> ce_status e = ''open''"
  by simp

lemma merge_applied:
  assumes a: "applied landed finished pid p0 a" and o: "map_option ce_status (map_of (cp_entries p0) (fst d)) = Some ''open''"
  shows "applied landed finished pid p0 (merge_one landed pid a d)"
proof (cases "text_in (snd d) landed")
  case True
  have "settled landed finished pid e (status_entry ''merged'' [(''item'', snd d)] pid c)"
    if "map_of (cp_entries p0) (fst d) = Some e" for e c
    using opened_in [OF o that] True by (simp add: settled_def)
  from applied_change [OF a this] show ?thesis using True unfolding merge_one_def by (simp only: if_True)
qed (use a in \<open>simp add: merge_one_def\<close>)

lemma supersede_applied:
  assumes a: "applied landed finished pid p0 a" and o: "map_option ce_status (map_of (cp_entries p0) (fst d)) = Some ''open''"
  shows "applied landed finished pid p0 (supersede_one landed finished known pid a d)"
proof (cases "text_in (snd d) landed \<or> (finished \<and> snd d \<noteq> JStr (fst d) \<and>
         (text_in (snd d) (keys_of (cp_entries (fst a))) \<or> text_in (snd d) known))")
  case True
  have "settled landed finished pid e (status_entry ''superseded'' [(''by'', snd d)] pid c)"
    if "map_of (cp_entries p0) (fst d) = Some e" for e c
    using opened_in [OF o that] True by (auto simp: settled_def)
  from applied_change [OF a this] show ?thesis using True unfolding supersede_one_def by (simp only: if_True)
next
  case False
  show ?thesis unfolding supersede_one_def if_not_P [OF False] using a by simp
qed

lemma retire_applied:
  assumes a: "applied landed True pid p0 a" and o: "map_option ce_status (map_of (cp_entries p0) (fst d)) = Some ''open''"
  shows "applied landed True pid p0 (retire_one pid a d)"
proof -
  have "settled landed True pid e (status_entry ''retired'' [(''reason'', snd d)] pid c)"
    if "map_of (cp_entries p0) (fst d) = Some e" for e c
    using opened_in [OF o that] by (simp add: settled_def)
  from applied_change [OF a this] show ?thesis unfolding retire_one_def .
qed

lemma reopen_applied:
  assumes a: "applied landed True pid p0 a" and o: "\<exists>e. map_of (cp_entries p0) (fst d) = Some e \<and> ce_status e \<noteq> ''open''"
  shows "applied landed True pid p0 (reopen_one pid a d)"
proof -
  have "settled landed True pid e (status_entry ''open'' [(''reopened'', snd d)] pid c)"
    if "map_of (cp_entries p0) (fst d) = Some e" for e c
    using o that by (auto simp: settled_def)
  from applied_change [OF a this] show ?thesis unfolding reopen_one_def .
qed

lemma adopt_applied:
  assumes a: "applied landed finished pid p0 a" and i: "item \<in> set landed"
  shows "applied landed finished pid p0 (adopt_one item pid a eid)"
proof (cases "is_open (fst a) eid")
  case True
  have "settled landed finished pid e (status_entry ''merged'' [(''item'', JStr item), (''via'', JStr ''adopts'')] pid c)"
    if "map_of (cp_entries p0) eid = Some e" for e c
    using settling_open [OF a True that] i by (simp add: settled_def text_in_def)
  then show ?thesis using True applied_change [OF a] by (simp add: adopt_one_def)
qed (use a in \<open>simp add: adopt_one_def\<close>)

lemma adopt_row_applied:
  assumes "applied landed finished pid p0 a" shows "applied landed finished pid p0 (adopt_row landed pid a row)"
proof (cases "fst row \<in> set landed")
  case True
  have "applied landed finished pid p0 (foldl (adopt_one (fst row) pid) a (adopted_entries (fst a) (snd row)))"
    by (rule foldl_keeps [where J = "applied landed finished pid p0"]) (use adopt_applied True assms in blast)+
  then show ?thesis using True by (simp add: adopt_row_def)
qed (use assms in \<open>simp add: adopt_row_def\<close>)

lemma applied_foldl:
  "applied landed finished pid p0 a \<Longrightarrow>
   (\<And>a x. x \<in> set xs \<Longrightarrow> applied landed finished pid p0 a \<Longrightarrow> applied landed finished pid p0 (f a x)) \<Longrightarrow>
   applied landed finished pid p0 (foldl f a xs)"
  by (rule foldl_keeps [where J = "applied landed finished pid p0"])

lemma decisions_applied:
  assumes valid: "block_problems (JObj m) p0 False None = []" "jget m ''pool'' = JObj block"
  shows "applied landed finished pid p0 (apply_decisions block pid landed finished known (p0, [], []))"
proof -
  have op: "map_option ce_status (map_of (cp_entries p0) (fst d)) = Some ''open''"
    if "key \<in> {''merged'', ''superseded'', ''retired''}" "d \<in> set (object_part block key)" for key d
  proof -
    have "key \<in> set BLOCK_KEYS" "key \<noteq> ''reopened''" using that(1) block_keys by auto
    then show ?thesis using block_decisions [OF valid _ that(2)] decided_open by (metis prod.collapse)
  qed
  have cl: "\<exists>e. map_of (cp_entries p0) (fst d) = Some e \<and> ce_status e \<noteq> ''open''" if "d \<in> set (object_part block ''reopened'')" for d
    using block_decisions [OF valid block_keys(4) that] decided_closed by (metis prod.collapse)
  define a1 where "a1 = foldl (merge_one landed pid) (p0, [], []) (object_part block ''merged'')"
  define a2 where "a2 = foldl (supersede_one landed finished known pid) a1 (object_part block ''superseded'')"
  have 1: "applied landed finished pid p0 a1" unfolding a1_def
    by (rule applied_foldl, simp add: settling_start, rule merge_applied, assumption, rule op [of "''merged''"]) simp_all
  have 2: "applied landed finished pid p0 a2" unfolding a2_def
    by (rule applied_foldl [OF 1], rule supersede_applied, assumption, rule op [of "''superseded''"]) simp_all
  show ?thesis
  proof (cases finished)
    case True
    then have f: "applied landed True pid p0 a2" using 2 by simp
    have 3: "applied landed True pid p0 (foldl (retire_one pid) a2 (object_part block ''retired''))"
      by (rule applied_foldl [OF f], rule retire_applied, assumption, rule op [of "''retired''"]) simp_all
    have "applied landed True pid p0 (foldl (reopen_one pid) (foldl (retire_one pid) a2 (object_part block ''retired'')) (object_part block ''reopened''))"
      by (rule applied_foldl [OF 3], rule reopen_applied, assumption, rule cl)
    then show ?thesis using True unfolding apply_decisions_def Let_def a1_def [symmetric] a2_def [symmetric]
      by (simp only: if_True)
  next
    case False
    show ?thesis unfolding apply_decisions_def Let_def a1_def [symmetric] a2_def [symmetric] if_not_P [OF False] by (rule 2)
  qed
qed

lemma block_applied: "applied landed finished pid p0 (apply_block manifest pid landed finished provenance known p0)"
proof -
  define a where "a = (case manifest of
      JObj m \<Rightarrow> (case jget m ''pool'' of
          JObj block \<Rightarrow> if block_problems manifest p0 False None = []
            then apply_decisions block pid landed finished known (p0, [], []) else (p0, [], [])
        | _ \<Rightarrow> (p0, [], []))
    | _ \<Rightarrow> (p0, [], []))"
  have "applied landed finished pid p0 a"
    unfolding a_def using decisions_applied by (auto simp: settling_start split: json.split)
  then have "applied landed finished pid p0 (foldl (adopt_row landed pid) a provenance)"
    by (intro foldl_keeps [where J = "applied landed finished pid p0"] adopt_row_applied) simp_all
  then show ?thesis by (simp add: apply_block_def Let_def a_def)
qed

section \<open>Captures and the end of a pass\<close>

lemma set_status_captures [simp]: "cp_captures (set_status eid st d pid p) = cp_captures p"
  by (simp add: set_status_def split: option.split)

lemma land_settling:
  assumes a: "settling landed finished pid p0 a" shows "settling landed finished pid p0 (land_one W landed pid a l)"
proof -
  obtain p ch where p: "a = (p, ch)" by (cases a)
  define eid where "eid = entry_id W ''capture'' (fst l)"
  show ?thesis
  proof (cases "\<exists>item. ln_item (snd l) = Some item \<and> item \<in> set landed \<and> ln_pass (snd l) = Some pid \<and> is_open p eid")
    case True
    then obtain item where i: "ln_item (snd l) = Some item" "item \<in> set landed" "ln_pass (snd l) = Some pid" "is_open p eid" by blast
    have to: "settled landed finished pid e (status_entry ''merged'' [(''item'', JStr item), (''via'', JStr ''land_capture'')] pid c)"
      if "map_of (cp_entries p0) eid = Some e" for e c
      using settling_open [OF a [unfolded p] i(4) that] i(2) by (simp add: settled_def text_in_def)
    from settling_change [OF a [unfolded p] to] show ?thesis using i by (simp add: land_one_def Let_def p eid_def)
  next
    case False
    then have "land_one W landed pid a l = a" by (auto simp: land_one_def Let_def p eid_def split: option.split)
    then show ?thesis using a by simp
  qed
qed

lemma adopt_draft_settling:
  assumes a: "settling landed finished pid p0 a" and item: "item \<in> set landed"
  shows "settling landed finished pid p0 (adopt_draft_of item pid a d)"
proof -
  obtain p ch where p: "a = (p, ch)" by (cases a)
  show ?thesis
  proof (cases "\<exists>ep. staged_draft_episode d = Some ep \<and> is_open p (dict_get (cp_captures p) ep [])")
    case True
    then obtain ep where ep: "staged_draft_episode d = Some ep" "is_open p (dict_get (cp_captures p) ep [])" by blast
    have to: "settled landed finished pid e (status_entry ''superseded'' [(''item'', JStr item), (''via'', JStr ''candidate'')] pid c)"
      if "map_of (cp_entries p0) (dict_get (cp_captures p) ep []) = Some e" for e c
      using settling_open [OF a [unfolded p] ep(2) that] item by (simp add: settled_def text_in_def)
    from settling_change [OF a [unfolded p] to] show ?thesis using ep by (simp add: adopt_draft_of_def Let_def p)
  next
    case False
    then have "adopt_draft_of item pid a d = a" by (auto simp: adopt_draft_of_def Let_def p split: option.split)
    then show ?thesis using a by simp
  qed
qed

lemma captures_settling:
  assumes a: "settling landed finished pid p0 (p, ch)"
  shows "settling landed finished pid p0 (foldl (adopt_capture_row landed pid) (foldl (land_one W landed pid) (p, ch) ls) provenance)"
proof -
  have 1: "settling landed finished pid p0 (foldl (land_one W landed pid) (p, ch) ls)"
    by (rule foldl_keeps [where J = "settling landed finished pid p0"]) (rule land_settling, assumption, rule a)
  have 2: "settling landed finished pid p0 (adopt_capture_row landed pid b row)" if b: "settling landed finished pid p0 b" for b row
  proof (cases "fst row \<in> set landed")
    case True
    have in1: "settling landed finished pid p0 (foldl (adopt_draft_of (fst row) pid) c ds)" if "settling landed finished pid p0 c" for c ds
      by (rule foldl_keeps [where J = "settling landed finished pid p0"]) (rule adopt_draft_settling, assumption, rule True, rule that)
    have "settling landed finished pid p0 (foldl (\<lambda>a ref. foldl (adopt_draft_of (fst row) pid) a (draft_refs (fst a) ref)) b (snd row))"
      by (rule foldl_keeps [where J = "settling landed finished pid p0"]) (rule in1, assumption, rule b)
    then show ?thesis using True by (simp add: adopt_capture_row_def)
  qed (use b in \<open>simp add: adopt_capture_row_def\<close>)
  show ?thesis by (rule foldl_keeps [where J = "settling landed finished pid p0"]) (rule 2, assumption, rule 1)
qed

text \<open>What was changed before goes along.\<close>

definition before_that :: "string list \<Rightarrow> closing_state \<Rightarrow> closing_state" where
  "before_that ch a = (fst a, ch @ snd a)"

lemma foldl_before: "(\<And>a x. f (before_that ch a) x = before_that ch (f a x)) \<Longrightarrow> foldl f (before_that ch a) xs = before_that ch (foldl f a xs)"
  by (induction xs arbitrary: a) simp_all

lemma land_before: "land_one W landed pid (before_that ch a) l = before_that ch (land_one W landed pid a l)"
  by (cases a) (auto simp: land_one_def before_that_def Let_def split: option.split)

lemma draft_before: "adopt_draft_of item pid (before_that ch a) d = before_that ch (adopt_draft_of item pid a d)"
  by (cases a) (auto simp: adopt_draft_of_def before_that_def Let_def split: option.split)

lemma row_before: "adopt_capture_row landed pid (before_that ch a) row = before_that ch (adopt_capture_row landed pid a row)"
proof -
  have "foldl (adopt_draft_of item pid) (before_that ch b) ds = before_that ch (foldl (adopt_draft_of item pid) b ds)" for b ds item
    by (rule foldl_before) (rule draft_before)
  then have "foldl (\<lambda>a ref. foldl (adopt_draft_of (fst row) pid) a (draft_refs (fst a) ref)) (before_that ch a) rs =
      before_that ch (foldl (\<lambda>a ref. foldl (adopt_draft_of (fst row) pid) a (draft_refs (fst a) ref)) a rs)" for rs
    by (intro foldl_before) (simp add: before_that_def)
  then show ?thesis by (simp add: adopt_capture_row_def)
qed

lemma captures_after:
  assumes s: "settling landed finished pid p0 (p, ch)" and c: "close_captures W pid landed ls provenance p = (p', ch')"
  shows "settling landed finished pid p0 (p', ch @ ch')"
proof -
  let ?go = "\<lambda>a. foldl (adopt_capture_row landed pid) (foldl (land_one W landed pid) a (sort_key fst ls)) provenance"
  have "?go (before_that ch (p, [])) = before_that ch (?go (p, []))"
    using foldl_before [where f = "land_one W landed pid", OF land_before]
      foldl_before [where f = "adopt_capture_row landed pid", OF row_before] by simp
  also have "\<dots> = (p', ch @ ch')" using c by (simp add: close_captures_def before_that_def)
  finally show ?thesis using captures_settling [OF s, of W "sort_key fst ls" provenance] by (simp add: before_that_def)
qed

text \<open>The deferrals, the episodes never opened and the draft feed the pool.\<close>

lemma defers_fed: "all_entries fed p (fst (foldl (\<lambda>a r. foldl (defer_episode W pid r) a (df_episodes r)) (p, new) rows))"
proof -
  have one: "all_entries fed p (fst (defer_episode W pid r a ep))" if a: "all_entries fed p (fst a)" for r a ep
  proof (cases "df_id r = ''new''")
    case False
    then have "fst (defer_episode W pid r a ep) = snd (add_evidence (df_id r) ep (df_reason r) pid (fst a))" by (simp add: defer_episode_def)
    then show ?thesis using all_fed_trans [OF a add_evidence_fed] by simp
  qed (use a in \<open>simp add: defer_episode_def\<close>)
  have each: "all_entries fed p (fst (foldl (defer_episode W pid r) a eps))" if a: "all_entries fed p (fst a)" for r a eps
    by (rule foldl_keeps [where J = "\<lambda>a. all_entries fed p (fst a)", OF one a])
  have start: "all_entries fed p (fst (p, new))" by (simp add: all_fed_refl)
  show ?thesis by (rule foldl_keeps [where J = "\<lambda>a. all_entries fed p (fst a)", OF each start])
qed

lemma upserts_fed: "all_entries fed p (foldl (\<lambda>p e. upsert W (add_prov [] [pid] [] e) pid p) p es)"
  by (rule foldl_keeps [where J = "all_entries fed p"]) (rule all_fed_trans, assumption, rule upsert_fed, rule all_fed_refl)

lemma update_settling:
  assumes "pool_update W manifest pid landed finished provenance known landings batch opened drafts p0 = (p', changed, notes)"
  shows "settling landed finished pid p0 (p', changed)"
proof -
  obtain p1 ch1 n1 where b: "apply_block (without_defer manifest) pid landed finished provenance known p0 = (p1, ch1, n1)" by (metis prod_cases3)
  obtain p2 ch2 where c: "close_captures W pid landed landings provenance p1 = (p2, ch2)" using prod.exhaust by blast
  obtain p3 new where d: "foldl (\<lambda>a r. foldl (defer_episode W pid r) a (df_episodes r)) (p2, []) (defer_rows manifest) = (p3, new)"
    using prod.exhaust by blast
  have 1: "settling landed finished pid p0 (p1, ch1)"
    using block_applied [of landed finished pid p0 "without_defer manifest" provenance known] b by simp
  have 2: "settling landed finished pid p0 (p2, ch1 @ ch2)" by (rule captures_after [OF 1 c])
  have 3: "all_entries fed p2 p3" using defers_fed [where W = W and pid = pid and p = p2 and new = "[]" and rows = "defer_rows manifest"] d by simp
  have "changed = ch1 @ ch2" and "\<exists>es. p' = foldl (\<lambda>p e. upsert W (add_prov [] [pid] [] e) pid p) p3 es"
    using assms by (auto simp: pool_update_def b c d simp del: foldl_append)
  then show ?thesis using settling_fed [OF settling_fed [OF 2 3] upserts_fed] by fastforce
qed


text \<open>C20. What feeds the pool settles nothing and hides nothing. Whatever staging, captures, deferrals and proposals of any passes
  come in, in any order: every entry the pool held is still there with its evidence and files, its status and the
  reason of it are as they were, and an episode that is new to a closed entry is listed as its new evidence, with
  every one listed before.\<close>

theorem feeding_settles_nothing:
  shows "all_entries fed p (foldl (feed_pool W) p feeds)"
  by (rule pool_feeds.rel_rows)

section \<open>Withdrawn captures\<close>

text \<open>What may be offered: something the pool has no entry of, which is an item of the library, or an open capture.\<close>

definition offered_now :: "pool_metas \<Rightarrow> string \<Rightarrow> bool" where
  "offered_now M t \<longleftrightarrow> target_ref t \<notin> set (keys_of (pm_where M)) \<or>
     (\<exists>eid m c. meta_of M eid = Some m \<and> jget m ''status'' = JStr ''open'' \<and> jget m ''kind'' = JStr ''capture'' \<and>
        capture_of m = Some c \<and> t = ''capture:'' @ c)"

lemma chase_offered: "chase M seen target = Some t \<Longrightarrow> offered_now M t"
proof (induction M seen target rule: chase.induct)
  case (1 M seen target)
  obtain x where x: "target = JStr x" using "1.prems" by (cases target) (simp_all add: chase.simps)
  show ?case
  proof (cases "target_ref x \<in> set (keys_of (pm_where M))")
    case False
    then have "t = x" using "1.prems" x by (simp add: chase.simps split: if_splits)
    then show ?thesis using False by (simp add: offered_now_def)
  next
    case True
    then obtain m where m: "x \<noteq> []" "target_ref x \<notin> set seen" "meta_of M (target_ref x) = Some m"
      using "1.prems" x by (auto simp: chase.simps split: if_splits option.splits)
    show ?thesis
    proof (cases "jget m ''status'' = JStr ''open''")
      case open_now: True
      then have "offered_capture m = Some t" using "1.prems" x True m by (simp add: chase.simps)
      then show ?thesis using open_now m by (auto simp: offered_now_def offered_capture_def split: if_splits)
    next
      case closed: False
      then obtain v where v: "next_target m = Some v" "chase M (target_ref x # seen) v = Some t"
        using "1.prems" x True m by (auto simp: chase.simps [of M seen] split: option.splits)
      show ?thesis using "1.IH" [OF x m(1) _ m(2,3) closed v(1) v(2)] True by blast
    qed
  qed
qed

text \<open>The withdrawn captures an entry stands for.\<close>

definition withdraws :: "pool_metas \<Rightarrow> string \<times> string \<Rightarrow> string \<Rightarrow> bool" where
  "withdraws M ek cid \<longleftrightarrow> snd ek \<in> {''capture'', ''failure''} \<and>
     (\<exists>m. meta_of M (fst ek) = Some m \<and> jget m ''status'' \<in> {JStr ''superseded'', JStr ''retired''} \<and> capture_of m = Some cid)"

lemma withdraw_one_keys: "cid \<in> set (keys_of (withdraw_one M out ek)) \<longleftrightarrow> cid \<in> set (keys_of out) \<or> withdraws M ek cid"
  by (cases ek) (auto simp: withdraw_one_def withdraws_def WITHDRAWN_STATUSES_def split: option.splits json.splits)

lemma withdraws_keys: "cid \<in> set (keys_of (foldl (withdraw_one M) out eks)) \<longleftrightarrow> cid \<in> set (keys_of out) \<or> (\<exists>ek\<in>set eks. withdraws M ek cid)"
  by (induction eks arbitrary: out) (auto simp del: set_map simp: withdraw_one_keys)

lemma withdraw_one_offered:
  assumes "\<forall>cid w t. map_of out cid = Some w \<longrightarrow> wd_by w = Some t \<longrightarrow> offered_now M t"
  shows "\<forall>cid w t. map_of (withdraw_one M out ek) cid = Some w \<longrightarrow> wd_by w = Some t \<longrightarrow> offered_now M t"
  using assms chase_offered
  by (cases ek) (auto simp: withdraw_one_def replacement_def split: option.splits json.splits if_splits)

text \<open>C21. What is offered for a withdrawn capture is offered. The captures listed as withdrawn are exactly those whose
  entry the writer superseded or retired; and what is named in the place of one, however long the chain of mergers
  and supersessions it is followed through, is not an entry of the pool at all (an item of the library) or the
  capture of an open capture entry: never another withdrawn one, a failure, or a candidate.\<close>

theorem offered_for_a_withdrawn_capture:
  shows "(cid \<in> set (keys_of (withdrawn_captures M)) \<longleftrightarrow> (\<exists>ek\<in>set (pm_where M). withdraws M ek cid)) \<and>
    (\<forall>w t. map_of (withdrawn_captures M) cid = Some w \<longrightarrow> wd_by w = Some t \<longrightarrow> offered_now M t)"
proof -
  have "\<forall>cid w t. map_of (withdrawn_captures M) cid = Some w \<longrightarrow> wd_by w = Some t \<longrightarrow> offered_now M t"
    unfolding withdrawn_captures_def
    by (rule foldl_keeps [where J = "\<lambda>out. \<forall>cid w t. map_of out cid = Some w \<longrightarrow> wd_by w = Some t \<longrightarrow> offered_now M t"])
      (rule withdraw_one_offered, assumption, simp)
  then show ?thesis using withdraws_keys [of cid M "[]"] by (simp add: withdrawn_captures_def)
qed

end
