(* ===== verification/CandidatePoolStore.thy ===== *)
theory CandidatePoolStore imports CandidatePoolRuns
begin

text \<open>
  The candidate pool read back from the tree it was saved as (\<open>Pool.save\<close>, \<open>Pool.load\<close>), and the index of the closed
  entries, kept between looks (\<open>Pool._closed_index\<close>).
\<close>

section \<open>A saved pool\<close>

text \<open>What a tree of files can hold: no payload path twice, none that is a directory of another.\<close>

definition storable_entry :: "pool_entry \<Rightarrow> bool" where
  "storable_entry e \<longleftrightarrow> CHR ''/'' \<notin> set (ce_kind e) \<and> CHR ''/'' \<notin> set (ce_id e) \<and> ce_status e \<in> set POOL_STATUSES \<and>
     distinct (map fst (ce_files e)) \<and>
     (\<forall>rel\<in>fst ` set (ce_files e). safe_rel rel \<and> rel \<noteq> ''entry.json'' \<and> \<not> starts_with ''entry.json/'' rel \<and>
       (\<forall>rel2\<in>fst ` set (ce_files e). \<not> starts_with (rel @ ''/'') rel2))"

definition storable :: "pool \<Rightarrow> bool" where
  "storable p \<longleftrightarrow> pool_ids p \<and> (\<forall>e\<in>set (map snd (cp_entries p)). storable_entry e)"

definition loadable :: "pool_entry \<Rightarrow> bool" where
  "loadable e \<longleftrightarrow> ce_kind e \<in> set POOL_KINDS \<and> is_hex16 (ce_id e)"

text \<open>An entry as it is read back: without the refs, which are never saved, and with its title read anew.\<close>

definition reloaded :: "pool_world \<Rightarrow> pool_entry \<Rightarrow> pool_entry" where
  "reloaded W e = titled W (e\<lparr>ce_refs := []\<rparr>)"

definition dir_of :: "pool_entry \<Rightarrow> (string \<times> blob) list" where
  "dir_of e = (''entry.json'', Doc (Some (meta e))) # map (\<lambda>(rel, t). (rel, Plain t)) (ce_files e)"

definition dir_key :: "pool_entry \<Rightarrow> string \<times> string" where
  "dir_key e = (ce_kind e, ce_id e)"

lemma rows_of_dir: "entry_rows e = map (\<lambda>(rel, b). blob_row e rel b) (dir_of e)"
  by (simp add: entry_rows_def dir_of_def comp_def case_prod_beta)

lemma path_parts: "storable_entry e \<Longrightarrow> split_on (CHR ''/'') (entry_path e rel) = ''pool'' # ce_kind e # ce_id e # split_on (CHR ''/'') rel"
proof -
  assume e: "storable_entry e"
  have "entry_path e rel = ''pool'' @ CHR ''/'' # ce_kind e @ CHR ''/'' # ce_id e @ CHR ''/'' # rel" by (simp add: entry_path_def)
  then show ?thesis using e by (simp add: storable_entry_def del: append_Cons)
qed

lemma scan_one:
  assumes "storable_entry e"
  shows "loadable e \<Longrightarrow> safe_rel rel \<Longrightarrow> scan_row s (blob_row e rel b) =
      s\<lparr>sc_dirs := dict_put (dir_key e) (dict_get (sc_dirs s) (dir_key e) [] @ [(rel, b)]) (sc_dirs s)\<rparr>"
    "\<not> loadable e \<Longrightarrow> \<exists>sk. scan_row s (blob_row e rel b) = s\<lparr>sc_skipped := sk\<rparr>"
proof -
  obtain rh rt where r: "split_on (CHR ''/'') rel = rh # rt" by (cases "split_on (CHR ''/'') rel") simp_all
  have j: "join_str ''/'' (rh # rt) = rel" using join_split [of "CHR ''/''" rel] r by simp
  have parts: "split_on (CHR ''/'') (tr_path (blob_row e rel b)) = ''pool'' # ce_kind e # ce_id e # rh # rt"
    using path_parts [OF assms, of rel] r by (simp add: blob_row_def)
  show "loadable e \<Longrightarrow> safe_rel rel \<Longrightarrow> scan_row s (blob_row e rel b) =
      s\<lparr>sc_dirs := dict_put (dir_key e) (dict_get (sc_dirs s) (dir_key e) [] @ [(rel, b)]) (sc_dirs s)\<rparr>"
    by (simp add: scan_row_def parts j Let_def loadable_def dir_key_def del: join_str.simps) (simp add: blob_row_def)
  show "\<not> loadable e \<Longrightarrow> \<exists>sk. scan_row s (blob_row e rel b) = s\<lparr>sc_skipped := sk\<rparr>"
    by (auto simp: scan_row_def parts Let_def loadable_def)
qed

lemma scan_dir:
  assumes e: "storable_entry e" "loadable e" and "\<forall>rb\<in>set rbs. safe_rel (fst rb)" "rbs \<noteq> []"
  shows "foldl scan_row s (map (\<lambda>(rel, b). blob_row e rel b) rbs) =
    s\<lparr>sc_dirs := dict_put (dir_key e) (dict_get (sc_dirs s) (dir_key e) [] @ rbs) (sc_dirs s)\<rparr>"
  using assms(3,4)
proof (induction rbs arbitrary: s)
  case (Cons rb rbs)
  obtain rel b where rb: "rb = (rel, b)" by (cases rb)
  show ?case
  proof (cases "rbs = []")
    case True
    then show ?thesis using Cons.prems rb scan_one(1) [OF e] by simp
  next
    case False
    then show ?thesis using Cons rb scan_one(1) [OF e] by simp
  qed
qed simp

lemma scan_none:
  assumes "storable_entry e" "\<not> loadable e"
  shows "\<exists>sk. foldl scan_row s (map (\<lambda>(rel, b). blob_row e rel b) rbs) = s\<lparr>sc_skipped := sk\<rparr>"
proof (induction rbs arbitrary: s)
  case Nil
  show ?case by (intro exI [of _ "sc_skipped s"]) simp
next
  case (Cons rb rbs)
  obtain rel b where rb: "rb = (rel, b)" by (cases rb)
  obtain sk where "scan_row s (blob_row e rel b) = s\<lparr>sc_skipped := sk\<rparr>" using scan_one(2) [OF assms] by blast
  then show ?case using Cons.IH [of "s\<lparr>sc_skipped := sk\<rparr>"] rb by auto
qed

lemma safe_entry_json: "safe_rel ''entry.json''"
  by code_simp

lemma dict_put_fresh: "k \<notin> set (keys_of d) \<Longrightarrow> dict_put k v d = d @ [(k, v)]"
  by (induction d) auto

lemma image_apart: "k \<notin> f ` A \<Longrightarrow> x \<in> A \<Longrightarrow> f x \<noteq> k"
  by blast

lemma scan_entries:
  assumes "\<forall>e\<in>set es. storable_entry e" "distinct (map dir_key es)" "\<forall>e\<in>set es. dir_key e \<notin> set (keys_of (sc_dirs s))"
  shows "\<exists>sk. foldl scan_row s (concat (map entry_rows es)) =
    s\<lparr>sc_dirs := sc_dirs s @ map (\<lambda>e. (dir_key e, dir_of e)) (filter loadable es), sc_skipped := sk\<rparr>"
  using assms
proof (induction es arbitrary: s)
  case Nil
  show ?case by (intro exI [of _ "sc_skipped s"]) simp
next
  case (Cons e es)
  have e: "storable_entry e" using Cons.prems(1) by simp
  show ?case
  proof (cases "loadable e")
    case True
    have safe: "\<forall>rb\<in>set (dir_of e). safe_rel (fst rb)" "dir_of e \<noteq> []"
      using e safe_entry_json by (auto simp: dir_of_def storable_entry_def)
    have fresh: "dir_key e \<notin> set (keys_of (sc_dirs s))" using Cons.prems(3) by simp
    then have "dict_get (sc_dirs s) (dir_key e) [] = []" by (simp add: dict_get_def map_of_eq_None_iff [THEN iffD2])
    then have one: "foldl scan_row s (entry_rows e) = s\<lparr>sc_dirs := sc_dirs s @ [(dir_key e, dir_of e)]\<rparr>"
      unfolding rows_of_dir scan_dir [OF e True safe] using dict_put_fresh [OF fresh] by simp
    have "\<exists>sk. foldl scan_row (s\<lparr>sc_dirs := sc_dirs s @ [(dir_key e, dir_of e)]\<rparr>) (concat (map entry_rows es)) =
        (s\<lparr>sc_dirs := sc_dirs s @ [(dir_key e, dir_of e)]\<rparr>)\<lparr>sc_dirs := sc_dirs (s\<lparr>sc_dirs := sc_dirs s @ [(dir_key e, dir_of e)]\<rparr>) @
          map (\<lambda>e. (dir_key e, dir_of e)) (filter loadable es), sc_skipped := sk\<rparr>"
    proof (rule Cons.IH)
      show "\<forall>x\<in>set es. dir_key x \<notin> set (keys_of (sc_dirs (s\<lparr>sc_dirs := sc_dirs s @ [(dir_key e, dir_of e)]\<rparr>)))"
      proof
        fix x assume x: "x \<in> set es"
        then have "dir_key x \<noteq> dir_key e" using image_apart [of "dir_key e" dir_key "set es" x] Cons.prems(2) by simp
        then show "dir_key x \<notin> set (keys_of (sc_dirs (s\<lparr>sc_dirs := sc_dirs s @ [(dir_key e, dir_of e)]\<rparr>)))"
          using Cons.prems(3) x by simp
      qed
    qed (use Cons.prems in auto)
    then show ?thesis using one True by simp
  next
    case False
    obtain sk where one: "foldl scan_row s (entry_rows e) = s\<lparr>sc_skipped := sk\<rparr>"
      using scan_none [OF e False, of s "dir_of e"] rows_of_dir [of e] by auto
    have "\<exists>sk'. foldl scan_row (s\<lparr>sc_skipped := sk\<rparr>) (concat (map entry_rows es)) =
        (s\<lparr>sc_skipped := sk\<rparr>)\<lparr>sc_dirs := sc_dirs (s\<lparr>sc_skipped := sk\<rparr>) @ map (\<lambda>e. (dir_key e, dir_of e)) (filter loadable es), sc_skipped := sk'\<rparr>"
      by (rule Cons.IH) (use Cons.prems in auto)
    then show ?thesis using one False by simp
  qed
qed

section \<open>Read back\<close>

lemma insort_key_of_map: "insort_key k (f x) (map f xs) = map f (insort_key (\<lambda>y. k (f y)) x xs)"
  by (induction xs) auto

lemma sort_key_of_map: "sort_key k (map f xs) = map f (sort_key (\<lambda>y. k (f y)) xs)"
  by (induction xs) (simp_all add: insort_key_of_map)

lemma payload_dir: "storable_entry e \<Longrightarrow> payload (dir_of e) = ce_files e"
proof -
  have "\<forall>rel\<in>fst ` set fs. rel \<noteq> ''entry.json'' \<Longrightarrow>
    List.map_filter (\<lambda>(rel, b). if rel = ''entry.json'' then None
     else case b of Plain t \<Rightarrow> Some (rel, t) | Doc d \<Rightarrow> Some (rel, [])) (map (\<lambda>(rel, t). (rel, Plain t)) fs) = fs" for fs :: "(string \<times> string) list"
    by (induction fs) (auto simp: List.map_filter_simps)
  then show "storable_entry e \<Longrightarrow> payload (dir_of e) = ce_files e"
    by (simp add: payload_def dir_of_def List.map_filter_simps storable_entry_def)
qed

lemma dir_reloaded:
  assumes "storable_entry e" shows "entry_of_dir W (ce_kind e) (ce_id e) (dir_of e) = Some (reloaded W e)"
proof -
  have "map_of (dir_of e) ''entry.json'' = Some (Doc (Some (meta e)))" by (simp add: dir_of_def)
  then show ?thesis using assms payload_dir [OF assms]
    by (simp add: entry_of_dir_def meta_def reloaded_def titled_def Let_def storable_entry_def)
qed

lemma load_dirs:
  assumes "\<forall>e\<in>set es. storable_entry e" "sc_bad s = []" "distinct (map ce_id es)"
  shows "map_of (fst (foldl (load_dir W s) acc (map (\<lambda>e. (dir_key e, dir_of e)) es))) eid =
    (case find (\<lambda>e. ce_id e = eid) es of Some e \<Rightarrow> Some (reloaded W e) | None \<Rightarrow> map_of (fst acc) eid)"
  using assms(1,3)
proof (induction es arbitrary: acc)
  case (Cons e es)
  have one: "load_dir W s acc (dir_key e, dir_of e) = (dict_put (ce_id e) (reloaded W e) (fst acc), snd acc)"
    using dir_reloaded [of e W] Cons.prems(1) assms(2) by (simp add: load_dir_def dir_key_def)
  have "find (\<lambda>x. ce_id x = eid) es = None" if "ce_id e = eid"
    using image_apart [of "ce_id e" ce_id "set es"] Cons.prems(2) that by (simp add: find_None_iff)
  then show ?case using Cons one by (auto split: option.split)
qed simp

lemma find_perm:
  assumes "distinct (map ce_id es)" "set es = set fs" "distinct (map ce_id fs)"
  shows "find (\<lambda>e. ce_id e = eid) es = find (\<lambda>e. ce_id e = eid) fs"
proof (cases "\<exists>e\<in>set es. ce_id e = eid")
  case True
  then obtain e where e: "e \<in> set es" "ce_id e = eid" by blast
  have u: "find (\<lambda>e. ce_id e = eid) gs = Some e" if d: "distinct (map ce_id gs)" and g: "e \<in> set gs" for gs
    using d g e(2) by (induction gs) (auto simp: rev_image_eqI)
  show ?thesis using u [OF assms(1) e(1)] u [OF assms(3)] e(1) assms(2) by simp
next
  case False
  then have "find (\<lambda>e. ce_id e = eid) es = None" "find (\<lambda>e. ce_id e = eid) fs = None" using assms(2) by (auto simp: find_None_iff)
  then show ?thesis by simp
qed

lemma find_entry:
  assumes "pool_ids p"
  shows "find (\<lambda>e. ce_id e = eid) (filter loadable (map snd (cp_entries p))) =
    (case map_of (cp_entries p) eid of Some e \<Rightarrow> if loadable e then Some e else None | None \<Rightarrow> None)"
proof -
  have "\<forall>k e. (k, e) \<in> set d \<longrightarrow> ce_id e = k \<Longrightarrow> distinct (keys_of d) \<Longrightarrow> find (\<lambda>e. ce_id e = eid) (filter loadable (map snd d)) =
    (case map_of d eid of Some e \<Rightarrow> if loadable e then Some e else None | None \<Rightarrow> None)" for d
  proof (induction d)
    case (Cons ke d)
    obtain k e where ke: "ke = (k, e)" by (cases ke)
    have id: "ce_id e = k" using Cons.prems(1) ke by simp
    have none: "map_of d k = None" using Cons.prems(2) ke by (simp add: map_of_eq_None_iff)
    have ih: "find (\<lambda>e. ce_id e = eid) (filter loadable (map snd d)) =
      (case map_of d eid of Some e \<Rightarrow> if loadable e then Some e else None | None \<Rightarrow> None)"
      using Cons.IH Cons.prems by simp
    show ?case using ih id none by (cases "k = eid"; cases "loadable e") (simp_all add: ke)
  qed simp
  moreover have "\<forall>k e. (k, e) \<in> set (cp_entries p) \<longrightarrow> ce_id e = k" using assms by (auto simp: pool_ids_def)
  ultimately show ?thesis using assms by (simp add: pool_ids_def)
qed

lemma ids_distinct: "pool_ids p \<Longrightarrow> distinct (map ce_id (map snd (cp_entries p)))"
proof -
  assume p: "pool_ids p"
  have "map ce_id (map snd (cp_entries p)) = keys_of (cp_entries p)"
    unfolding map_map by (rule map_cong [OF refl]) (use p in \<open>auto simp: pool_ids_def\<close>)
  then show ?thesis using p unfolding pool_ids_def by (elim conjE) (erule ssubst, assumption)
qed

lemma saved_and_loaded:
  assumes "storable p"
  shows "map_of (cp_entries (fst (load_pool W (save_tree p)))) eid =
    (case map_of (cp_entries p) eid of Some e \<Rightarrow> if loadable e then Some (reloaded W e) else None | None \<Rightarrow> None)"
proof -
  let ?es = "map snd (cp_entries p)"
  have p: "pool_ids p" and st: "\<forall>e\<in>set ?es. storable_entry e" using assms by (simp_all add: storable_def)
  have d: "distinct (map ce_id ?es)" by (rule ids_distinct [OF p])
  have dk: "distinct (map dir_key ?es)"
    using d unfolding distinct_map inj_on_def dir_key_def by auto
  obtain sk where scan: "foldl scan_row \<lparr>sc_dirs = [], sc_bad = [], sc_skipped = []\<rparr> (save_tree p) =
      \<lparr>sc_dirs = map (\<lambda>e. (dir_key e, dir_of e)) (filter loadable ?es), sc_bad = [], sc_skipped = sk\<rparr>"
    using scan_entries [OF st dk, of "\<lparr>sc_dirs = [], sc_bad = [], sc_skipped = []\<rparr>"] by (auto simp: save_tree_def)
  define s where "s = \<lparr>sc_dirs = map (\<lambda>e. (dir_key e, dir_of e)) (filter loadable ?es), sc_bad = [], sc_skipped = sk\<rparr>"
  define fs where "fs = sort_key dir_key (filter loadable ?es)"
  have sorted_dirs: "sort_key fst (sc_dirs s) = map (\<lambda>e. (dir_key e, dir_of e)) fs"
    unfolding fs_def s_def by (simp add: sort_key_of_map)
  have fd: "distinct (map ce_id (filter loadable ?es))" using d by (rule distinct_map_filter)
  then have fs: "distinct (map ce_id fs)" "set fs = set (filter loadable ?es)" "\<forall>e\<in>set fs. storable_entry e"
    using st by (auto simp: fs_def distinct_map)
  have "map_of (cp_entries (fst (load_pool W (save_tree p)))) eid =
      map_of (fst (foldl (load_dir W s) ([], sk) (map (\<lambda>e. (dir_key e, dir_of e)) fs))) eid"
    unfolding load_pool_def Let_def scan [folded s_def] sorted_dirs by (simp add: s_def case_prod_beta)
  also have "\<dots> = (case find (\<lambda>e. ce_id e = eid) fs of Some e \<Rightarrow> Some (reloaded W e) | None \<Rightarrow> None)"
    using load_dirs [OF fs(3) _ fs(1), of s W "([], sk)" eid]
    by (simp add: s_def cong: option.case_cong)
  also have "find (\<lambda>e. ce_id e = eid) fs = find (\<lambda>e. ce_id e = eid) (filter loadable ?es)"
    by (rule find_perm [OF fs(1) fs(2) fd])
  finally show ?thesis unfolding find_entry [OF p] by (simp split: option.split)
qed

text \<open>The entry a pass keeps for an episode the writer never opened is of no kind the pool reads back.\<close>

lemma unread_entry_is_lost:
  assumes "storable p" "map_of (cp_entries p) eid = Some e" "ce_kind e = ''unread''"
  shows "map_of (cp_entries (fst (load_pool W (save_tree p)))) eid = None"
  using saved_and_loaded [OF assms(1), of W eid] assms(2,3) by (simp add: loadable_def POOL_KINDS_def)

text \<open>C22. The pool survives its passes. A pool whose payload paths a tree of files can hold, saved and read back, has the same entries, each with its kind, status,
  evidence and files as they were, its title read anew from its files and without the staging refs, which are of one
  pass: every entry of a known kind with a well-formed id, and no other. (An \<open>unread\<close> entry, the one a pass keeps for
  an episode the writer never opened, is of no known kind.)\<close>

theorem pool_read_back:
  assumes "storable p"
  shows "map_of (cp_entries (fst (load_pool W (save_tree p)))) eid =
    (case map_of (cp_entries p) eid of Some e \<Rightarrow> if loadable e then Some (reloaded W e) else None | None \<Rightarrow> None)"
  by (rule saved_and_loaded [OF assms])

section \<open>The kept index\<close>

definition code_rel :: "string \<Rightarrow> bool" where
  "code_rel rel \<longleftrightarrow> ends_with ''.py'' rel \<or> ends_with ''.diff'' rel"

lemma sorted_by_key_unique:
  assumes "distinct (map fst xs)" "distinct (map fst ys)" "set (map fst xs) = set (map fst ys)"
    and "\<And>k. k \<in> set (map fst xs) \<Longrightarrow> map_of xs k = map_of ys k"
  shows "sort_key fst xs = sort_key fst (ys :: ('a::linorder \<times> 'b) list)"
proof -
  let ?xs = "sort_key fst xs" and ?ys = "sort_key fst ys"
  have d: "distinct (map fst ?xs)" "distinct (map fst ?ys)" using assms(1,2) by (simp_all add: distinct_map)
  have keys: "map fst ?xs = map fst ?ys"
    by (rule sorted_distinct_set_unique) (use d assms(3) in simp_all)
  have m: "map_of ?xs = map_of xs" by (rule map_of_inject_set [THEN iffD2]) (use d(1) assms(1) in simp_all)
  have n: "map_of ?ys = map_of ys" by (rule map_of_inject_set [THEN iffD2]) (use d(2) assms(2) in simp_all)
  have self: "zs = map (\<lambda>k. (k, the (map_of zs k))) (map fst zs)" if "distinct (map fst zs)" for zs :: "('a \<times> 'b) list"
  proof -
    have "map (\<lambda>p. (fst p, the (map_of zs (fst p)))) zs = zs" by (rule map_idI) (use that in \<open>auto simp: map_of_is_SomeI\<close>)
    then show ?thesis by (simp add: comp_def)
  qed
  have "?xs = map (\<lambda>k. (k, the (map_of xs k))) (map fst ?xs)" using self [OF d(1)] m by simp
  also have "\<dots> = map (\<lambda>k. (k, the (map_of ys k))) (map fst ?xs)" by (rule map_cong [OF refl]) (use assms(4) in simp)
  also have "\<dots> = ?ys" using self [OF d(2)] n keys by simp
  finally show ?thesis .
qed

lemma code_not_refreshed: "code_rel rel \<Longrightarrow> rel \<notin> {''record.json'', ''broke.md''}"
  by (auto simp: code_rel_def ends_with_iff) 

lemma units_kept:
  assumes "files_kept (ce_files e) (ce_files e')" "sort (map fst (ce_files e')) = sort (map fst (ce_files e))"
    and "distinct (map fst (ce_files e))" "distinct (map fst (ce_files e'))"
  shows "entry_units W e' = entry_units W e"
proof -
  let ?code = "filter (\<lambda>(rel, t). ends_with ''.py'' rel \<or> ends_with ''.diff'' rel)"
  have names: "set (map fst (ce_files e')) = set (map fst (ce_files e))" using assms(2) by (metis set_sort)
  have in_code: "map_of (?code fs) k = (if code_rel k then map_of fs k else None)" for fs :: "(string \<times> string) list" and k
    by (induction fs) (auto simp: code_rel_def)
  have keys: "set (map fst (?code fs)) = {k \<in> set (map fst fs). code_rel k}" for fs :: "(string \<times> string) list"
    by (force simp: code_rel_def)
  have d: "distinct (map fst (?code fs))" if "distinct (map fst fs)" for fs :: "(string \<times> string) list"
    using that by (rule distinct_map_filter)
  have "sort_key fst (?code (ce_files e')) = sort_key fst (?code (ce_files e))"
  proof (rule sorted_by_key_unique [OF d [OF assms(4)] d [OF assms(3)]])
    show "set (map fst (?code (ce_files e'))) = set (map fst (?code (ce_files e)))" unfolding keys names ..
    fix k assume "k \<in> set (map fst (?code (ce_files e')))"
    then have k: "k \<in> set (map fst (ce_files e))" "code_rel k" unfolding keys using names by auto
    then obtain t where t: "map_of (ce_files e) k = Some t" using in_keys_map_of by metis
    then have "map_of (ce_files e') k = Some t" using assms(1) code_not_refreshed [OF k(2)] unfolding files_kept_def by blast
    then show "map_of (?code (ce_files e')) k = map_of (?code (ce_files e)) k" using t k(2) in_code by simp
  qed
  then show ?thesis by (simp add: entry_units_def filter_sort)
qed

text \<open>What the index says of a closed entry.\<close>

definition indexed :: "pool_world \<Rightarrow> pool_entry \<Rightarrow> string \<times> (string \<times> string list) list \<times> string list" where
  "indexed W e = (ce_id e, entry_units W e, pv_episodes (ce_prov e))"

lemma fresh_index_of: "map (indexed W) closed' = map (indexed W) closed \<Longrightarrow> fresh_index W closed' = fresh_index W closed"
proof -
  have f: "fresh_index W es = (map (\<lambda>(i, us, eps). (i, sorted_set (concat (map snd us)))) (map (indexed W) es),
      foldl (\<lambda>d (i, us, eps). foldl (cite i) d eps) [] (map (indexed W) es))" for es
    by (simp add: fresh_index_def indexed_def foldl_map comp_def)
  show "map (indexed W) closed' = map (indexed W) closed \<Longrightarrow> fresh_index W closed' = fresh_index W closed"
    unfolding f by simp
qed

definition dict_files :: "pool \<Rightarrow> bool" where
  "dict_files p \<longleftrightarrow> (\<forall>eid e. map_of (cp_entries p) eid = Some e \<longrightarrow> distinct (map fst (ce_files e)))"

lemma closed_in: "pool_ids p \<Longrightarrow> e \<in> set (closed_entries p) \<Longrightarrow> map_of (cp_entries p) (ce_id e) = Some e"
proof -
  assume p: "pool_ids p" and "e \<in> set (closed_entries p)"
  then obtain k where "(k, e) \<in> set (cp_entries p)" by (auto simp: closed_entries_def)
  then have "map_of (cp_entries p) k = Some e" using p by (simp add: pool_ids_def)
  then show ?thesis using p by (auto simp: pool_ids_def)
qed

lemma sig_indexed:
  assumes ids: "pool_ids p" "pool_ids p'" and names: "dict_files p" "dict_files p'"
    and later: "all_entries evidence_kept p p'" and sg: "index_sig (closed_entries p') = index_sig (closed_entries p)"
  shows "map (indexed W) (closed_entries p') = map (indexed W) (closed_entries p)"
proof -
  have len: "length (closed_entries p') = length (closed_entries p)" using arg_cong [OF sg, of length] by (simp add: index_sig_def)
  show ?thesis
  proof (rule nth_equalityI)
    fix i assume "i < length (map (indexed W) (closed_entries p'))"
    then have i: "i < length (closed_entries p')" "i < length (closed_entries p)" using len by simp_all
    define e e' where "e = closed_entries p ! i" and "e' = closed_entries p' ! i"
    have s: "ce_id e' = ce_id e" "sort (map fst (ce_files e')) = sort (map fst (ce_files e))" "pv_episodes (ce_prov e') = pv_episodes (ce_prov e)"
      using arg_cong [OF sg, of "\<lambda>l. l ! i"] i by (simp_all add: index_sig_def e_def e'_def)
    have e: "map_of (cp_entries p) (ce_id e) = Some e" using closed_in [OF ids(1)] i by (simp add: e_def)
    have e': "map_of (cp_entries p') (ce_id e) = Some e'" using closed_in [OF ids(2), of e'] i s(1) by (simp add: e'_def)
    have "evidence_kept e e'" using later e e' by (fastforce simp: all_entries_def)
    then have "entry_units W e' = entry_units W e"
      using units_kept [OF _ s(2)] names e e' by (auto simp: evidence_kept_def dict_files_def)
    then show "map (indexed W) (closed_entries p') ! i = map (indexed W) (closed_entries p) ! i"
      using i s by (simp add: indexed_def e_def [symmetric] e'_def [symmetric])
  qed (use len in simp)
qed

text \<open>C23. The kept index is the index now. The units and episodes of the closed entries, kept from an earlier look with
  the signature they were built under, are what building them anew gives, at any later state of the pool: no change
  of the pool that the signature does not show changes the code of a closed entry. (A later state is one that has kept every
  entry's evidence and files, as feeding and the end of a pass do.)\<close>

theorem kept_index_is_fresh:
  assumes "pool_ids p" "pool_ids p'" "dict_files p" "dict_files p'" "all_entries evidence_kept p p'"
  shows "closed_index W (Some (closed_index W None p)) p' = closed_index W None p'"
proof (cases "index_sig (closed_entries p') = index_sig (closed_entries p)")
  case True
  from fresh_index_of [OF sig_indexed [OF assms True]] show ?thesis using True by (simp add: closed_index_def Let_def)
next
  case False
  then show ?thesis unfolding closed_index_def Let_def by auto
qed

end
