(* ===== verification/CandidatePoolSample.thy ===== *)
theory CandidatePoolSample imports CandidatePoolStore
begin

text \<open>
  A concrete candidate pool: an open candidate, a retired lesson and a superseded capture; the pass that merges the
  candidate into an item the gate landed; and the properties of the pool applied there.
\<close>

definition sample_pool_world :: pool_world where
  "sample_pool_world = \<lparr>pw_hash = (\<lambda>s. s), pw_json = (\<lambda>j. []), pw_pretty = (\<lambda>j. []), pw_title = (\<lambda>e. ce_kind e),
     pw_units = (\<lambda>rel t. [t])\<rparr>"

definition one_candidate :: pool_entry where
  "one_candidate = (new_entry ''00000000000000c1'' ''candidate'' ''candidate'')\<lparr>ce_opened := ''p1'', ce_changed := ''p1'',
     ce_prov := \<lparr>pv_episodes = [''e1''], pv_passes = [''p1''], pv_sources = [''reader'']\<rparr>,
     ce_files := [(''candidate.py'', ''def f(): pass'')]\<rparr>"

definition one_lesson :: pool_entry where
  "one_lesson = (new_entry ''00000000000000a2'' ''lesson'' ''lesson'')\<lparr>ce_status := ''retired'',
     ce_detail := [(''reason'', JStr ''known''), (''pass'', JStr ''p1'')], ce_opened := ''p1'', ce_changed := ''p1'',
     ce_files := [(''notes.md'', ''look first'')]\<rparr>"

definition sample_pool :: pool where
  "sample_pool = \<lparr>cp_entries = [(''00000000000000c1'', one_candidate), (''00000000000000a2'', one_lesson)], cp_staged = [], cp_captures = []\<rparr>"

definition sample_manifest :: json where
  "sample_manifest = JObj [(''items'', JArr [JObj [(''item'', JStr ''pkg.mod:f'')]]),
     (''pool'', JObj [(''merged'', JObj [(''00000000000000c1'', JStr ''pkg.mod:f'')])])]"

definition sample_update :: "pool \<times> string list \<times> unapplied list" where
  "sample_update = pool_update sample_pool_world sample_manifest ''p2'' [''pkg.mod:f''] False [] [] [] [''e7''] [] [] sample_pool"

lemma sample_pool_ids: "pool_ids sample_pool"
  by (auto simp: pool_ids_def sample_pool_def one_candidate_def one_lesson_def new_entry_def split: if_splits)

lemma sample_pool_files: "dict_files sample_pool"
  by (auto simp: dict_files_def sample_pool_def one_candidate_def one_lesson_def new_entry_def split: if_splits)


theorem pool_read_back_witness:
  "map_of (cp_entries (fst (load_pool sample_pool_world (save_tree sample_pool)))) ''00000000000000a2'' = Some one_lesson"
proof -
  have s: "storable sample_pool"
  proof -
    have "list_all (\<lambda>e. CHR ''/'' \<notin> set (ce_kind e) \<and> CHR ''/'' \<notin> set (ce_id e) \<and> ce_status e \<in> set POOL_STATUSES \<and>
       distinct (map fst (ce_files e)) \<and>
       list_all (\<lambda>rel. safe_rel rel \<and> rel \<noteq> ''entry.json'' \<and> \<not> starts_with ''entry.json/'' rel \<and>
         list_all (\<lambda>rel2. \<not> starts_with (rel @ ''/'') rel2) (map fst (ce_files e))) (map fst (ce_files e))) [one_candidate, one_lesson]"
      by code_simp
    then show ?thesis using sample_pool_ids by (auto simp: storable_def storable_entry_def sample_pool_def list_all_iff)
  qed
  have l: "loadable one_lesson" unfolding loadable_def by code_simp
  have r: "reloaded sample_pool_world one_lesson = one_lesson"
    by (simp add: reloaded_def titled_def sample_pool_world_def one_lesson_def new_entry_def)
  have m: "map_of (cp_entries sample_pool) ''00000000000000a2'' = Some one_lesson" by (simp add: sample_pool_def)
  show ?thesis using pool_read_back [OF s, of sample_pool_world "''00000000000000a2''"] l r m by simp
qed

theorem kept_index_is_fresh_witness:
  "closed_index sample_pool_world (Some (closed_index sample_pool_world None sample_pool))
     (upsert sample_pool_world one_candidate ''p3'' sample_pool) =
   closed_index sample_pool_world None (upsert sample_pool_world one_candidate ''p3'' sample_pool)"
proof (rule kept_index_is_fresh [OF sample_pool_ids upsert_ids [OF sample_pool_ids] sample_pool_files])
  have "list_all (\<lambda>(k, e). distinct (map fst (ce_files e))) (cp_entries (upsert sample_pool_world one_candidate ''p3'' sample_pool))"
    by code_simp
  then show "dict_files (upsert sample_pool_world one_candidate ''p3'' sample_pool)"
    by (auto simp: dict_files_def list_all_iff dest!: map_of_SomeD)
  show "all_entries evidence_kept sample_pool (upsert sample_pool_world one_candidate ''p3'' sample_pool)"
    using upsert_fed by (fastforce simp: all_entries_def fed_def)
qed

definition sample_metas :: pool_metas where
  "sample_metas = \<lparr>pm_where = [(''00000000000000b1'', ''capture'')],
     pm_docs = [(''00000000000000b1'', [(''id'', JStr ''00000000000000b1''), (''kind'', JStr ''capture''),
       (''status'', JStr ''superseded''), (''status_detail'', JObj [(''by'', JStr ''pkg.mod:f'')]),
       (''data'', JObj [(''capture_id'', JStr ''00000000000000d1'')])])]\<rparr>"

theorem offered_for_a_withdrawn_capture_witness:
  "offered_now sample_metas ''pkg.mod:f'' \<and> ''00000000000000d1'' \<in> set (keys_of (withdrawn_captures sample_metas))"
proof -
  have "map_option wd_by (map_of (withdrawn_captures sample_metas) ''00000000000000d1'') = Some (Some ''pkg.mod:f'')" by code_simp
  then obtain w where w: "map_of (withdrawn_captures sample_metas) ''00000000000000d1'' = Some w" "wd_by w = Some ''pkg.mod:f''" by auto
  then show ?thesis
    using offered_for_a_withdrawn_capture [of "''00000000000000d1''" sample_metas] map_of_Some_in_keys [OF w(1)] by blast
qed

end
